(* ===== verification/Prelude.thy ===== *)
theory Prelude
  imports Main "HOL-Library.Word" "HOL-Library.Signed_Division" "HOL-Library.Multiset"
begin

text \<open>
  Shared vocabulary of the development: the machine types of the Go code, its error values,
  sequencing of fallible calls, readers over a byte stream, decimal numbers as
  \<^verbatim>\<open>fmt\<close> prints and \<^verbatim>\<open>strconv\<close> parses them, big-endian integers, and the sorting loop of
  Go's \<^verbatim>\<open>sort\<close> package. The collection \<open>codec\<close> gathers the round trip rules of the
  serialisers, \<open>res_simps\<close> the rules that evaluate a sequence of fallible calls.
\<close>

unbundle bit_operations_syntax

named_theorems codec "reading back what was written"
named_theorems res_simps "evaluation of sequenced fallible calls"

section \<open>Machine types\<close>

type_synonym u8 = "8 word"
type_synonym u16 = "16 word"
type_synonym u32 = "32 word"
type_synonym u64 = "64 word"
type_synonym bytes = "u8 list"

lemma unat_word_small: "n < 2 ^ 64 \<Longrightarrow> unat (word_of_nat n :: u64) = n"
  by (simp add: unat_of_nat)

section \<open>Errors\<close>

text \<open>
  A Go \<^verbatim>\<open>error\<close> value. \<open>Errorf\<close> carries the constant part of the message, \<open>Wrap\<close> is an
  error that \<^verbatim>\<open>fmt.Errorf("...: %v", err)\<close> built from another one, \<open>MultiErr\<close> the list a
  \<^verbatim>\<open>multierror\<close> collected. \<open>Panic\<close> is a run-time panic: it is not a returned value, so
  nothing wraps it.
\<close>

datatype err =
    FlagBreakCode
  | EOF
  | LibErr string
  | Errorf string
  | Wrap string err
  | MultiErr "err list"
  | Panic string

type_synonym 'a res = "err + 'a"

definition andThen :: "'e + 'a \<Rightarrow> ('a \<Rightarrow> 'e + 'b) \<Rightarrow> 'e + 'b" where
  "andThen m f = (case m of Inl e \<Rightarrow> Inl e | Inr x \<Rightarrow> f x)"

lemma andThen_simps [simp, res_simps]:
  "andThen (Inl e) f = Inl e"
  "andThen (Inr x) f = f x"
  by (simp_all add: andThen_def)

lemma andThen_cong [fundef_cong]:
  "m = m' \<Longrightarrow> (\<And>x. m' = Inr x \<Longrightarrow> f x = g x) \<Longrightarrow> andThen m f = andThen m' g"
  by (simp add: andThen_def split: sum.split)

lemma andThen_eq_Inr:
  "andThen m f = Inr y \<longleftrightarrow> (\<exists>x. m = Inr x \<and> f x = Inr y)"
  by (simp add: andThen_def split: sum.split)

lemma andThen_eq_Inl:
  "andThen m f = Inl e \<longleftrightarrow> m = Inl e \<or> (\<exists>x. m = Inr x \<and> f x = Inl e)"
  by (auto simp: andThen_def split: sum.split)

lemma andThen_assoc:
  "andThen (andThen m f) g = andThen m (\<lambda>x. andThen (f x) g)"
  by (simp add: andThen_def split: sum.split)

fun wrap_err :: "string \<Rightarrow> err \<Rightarrow> err" where
  "wrap_err s (Panic p) = Panic p"
| "wrap_err s e = Wrap s e"

definition wrapping :: "string \<Rightarrow> 'a res \<Rightarrow> 'a res" where
  "wrapping s m = (case m of Inl e \<Rightarrow> Inl (wrap_err s e) | Inr x \<Rightarrow> Inr x)"

lemma wrapping_simps [simp, res_simps]:
  "wrapping s (Inr x) = Inr x"
  "wrapping s (Inl e) = Inl (wrap_err s e)"
  "wrapping s m = Inr x \<longleftrightarrow> m = Inr x"
  by (auto simp: wrapping_def split: sum.splits)

lemma wrap_err_neq [simp]:
  "wrap_err s e \<noteq> FlagBreakCode"
  by (cases e; simp)

lemma wrapping_eq_Inl:
  "wrapping s m = Inl e \<longleftrightarrow> (\<exists>e'. m = Inl e' \<and> e = wrap_err s e')"
  by (auto simp: wrapping_def split: sum.splits)

definition guard :: "bool \<Rightarrow> err \<Rightarrow> unit res" where
  "guard b e = (if b then Inr () else Inl e)"

lemma guard_simps [simp, res_simps]:
  "guard True e = Inr ()" "guard False e = Inl e"
  "guard b e = Inr u \<longleftrightarrow> b"
  "guard b e = Inl e' \<longleftrightarrow> \<not> b \<and> e = e'"
  by (auto simp: guard_def)

fun map_res :: "('a \<Rightarrow> 'b res) \<Rightarrow> 'a list \<Rightarrow> 'b list res" where
  "map_res f [] = Inr []"
| "map_res f (x # xs) =
     andThen (f x) (\<lambda>y. andThen (map_res f xs) (\<lambda>ys. Inr (y # ys)))"

lemma map_res_cong [fundef_cong]:
  "xs = ys \<Longrightarrow> (\<And>x. x \<in> set ys \<Longrightarrow> f x = g x) \<Longrightarrow> map_res f xs = map_res g ys"
proof (induction xs arbitrary: ys)
  case Nil
  then show ?case by simp
next
  case (Cons x xs)
  then show ?case by (cases ys) auto
qed

lemma map_res_Inr_length: "map_res f xs = Inr ys \<Longrightarrow> length ys = length xs"
  by (induction xs arbitrary: ys) (auto simp: andThen_eq_Inr)

lemma map_res_Inr_iff: "map_res f xs = Inr ys \<longleftrightarrow> list_all2 (\<lambda>x y. f x = Inr y) xs ys"
  by (induction xs arbitrary: ys) (auto simp: andThen_eq_Inr list_all2_Cons1)

section \<open>Readers\<close>

text \<open>
  An \<^verbatim>\<open>io.Reader\<close> is the list of bytes still to come; a read returns its value and the rest.
  \<open>consumed i r\<close> is what a reader that stood at \<open>i\<close> and stands at \<open>r\<close> has handed out:
  the content an \<^verbatim>\<open>io.TeeReader\<close> has copied.
\<close>

type_synonym 'a reader = "bytes \<Rightarrow> ('a \<times> bytes) res"

definition consumed :: "bytes \<Rightarrow> bytes \<Rightarrow> bytes" where
  "consumed i r = take (length i - length r) i"

lemma consumed_append [simp]: "consumed (p @ r) r = p"
  by (simp add: consumed_def)

lemma consumed_Cons_append [simp]: "consumed (x # p @ r) r = x # p"
  using consumed_append[of "x # p" r] by simp

definition strict_suffix :: "bytes \<Rightarrow> bytes \<Rightarrow> bool" where
  "strict_suffix r i \<longleftrightarrow> (\<exists>p. p \<noteq> [] \<and> i = p @ r)"

definition weak_suffix :: "bytes \<Rightarrow> bytes \<Rightarrow> bool" where
  "weak_suffix r i \<longleftrightarrow> (\<exists>p. i = p @ r)"

lemma weak_suffix_refl [simp]: "weak_suffix r r"
  by (simp add: weak_suffix_def)

lemma strict_weak: "strict_suffix r i \<Longrightarrow> weak_suffix r i"
  by (auto simp: strict_suffix_def weak_suffix_def)

lemma strict_suffix_append: "strict_suffix (p @ r) i \<Longrightarrow> strict_suffix r i"
  unfolding strict_suffix_def by (metis append.assoc append_is_Nil_conv)

lemma strict_suffix_length: "strict_suffix r i \<Longrightarrow> length r < length i"
  by (auto simp: strict_suffix_def)

lemma weak_suffix_length: "weak_suffix r i \<Longrightarrow> length r \<le> length i"
  by (auto simp: weak_suffix_def)

lemma weak_suffix_trans: "weak_suffix a b \<Longrightarrow> weak_suffix b c \<Longrightarrow> weak_suffix a c"
  unfolding weak_suffix_def by (metis append.assoc)

lemma strict_weak_trans: "strict_suffix a b \<Longrightarrow> weak_suffix b c \<Longrightarrow> strict_suffix a c"
  unfolding strict_suffix_def weak_suffix_def by (metis append.assoc append_is_Nil_conv)

lemma weak_strict_trans: "weak_suffix a b \<Longrightarrow> strict_suffix b c \<Longrightarrow> strict_suffix a c"
  unfolding strict_suffix_def weak_suffix_def by (metis append.assoc append_is_Nil_conv)

lemma strict_suffix_trans: "strict_suffix a b \<Longrightarrow> strict_suffix b c \<Longrightarrow> strict_suffix a c"
  by (blast intro: strict_weak_trans strict_weak)

lemma consumed_of_suffix: "weak_suffix r i \<Longrightarrow> consumed i r @ r = i"
  by (auto simp: weak_suffix_def)

section \<open>Strings and bytes\<close>

text \<open>A Go string is a sequence of bytes, as \<^typ>\<open>string\<close> is.\<close>

definition bytes_of_string :: "string \<Rightarrow> bytes" where
  "bytes_of_string s = map (\<lambda>c. word_of_nat (of_char c)) s"

definition string_of_bytes :: "bytes \<Rightarrow> string" where
  "string_of_bytes b = map (\<lambda>w. char_of (unat w)) b"

lemma unat_byte_of_char: "unat (word_of_nat (of_char c) :: u8) = of_char c"
  by (simp add: unat_of_nat)

lemma string_of_bytes_of_string [simp]: "string_of_bytes (bytes_of_string s) = s"
  by (induction s) (simp_all add: string_of_bytes_def bytes_of_string_def unat_byte_of_char)

lemma length_bytes_of_string [simp]: "length (bytes_of_string s) = length s"
  by (simp add: bytes_of_string_def)

definition has_prefix :: "string \<Rightarrow> string \<Rightarrow> bool" where
  "has_prefix s p \<longleftrightarrow> take (length p) s = p"

lemma has_prefix_append [simp]: "has_prefix (p @ s) p"
  by (simp add: has_prefix_def)

lemma has_prefixD: "has_prefix s p \<Longrightarrow> s = p @ drop (length p) s"
  by (metis append_take_drop_id has_prefix_def)

end
