(* ===== verification/Go_Std.thy ===== *)
theory Go_Std
  imports Prelude
begin

text \<open>
  What the code uses of Go's standard library: decimal printing (\<^verbatim>\<open>%d\<close> of \<^verbatim>\<open>fmt\<close>) and
  \<^verbatim>\<open>strconv.ParseUint(s, 10, 64)\<close>, \<^verbatim>\<open>strings.Split\<close>, \<^verbatim>\<open>binary.BigEndian\<close>, the insertion loop of
  \<^verbatim>\<open>sort.Sort\<close>, truncating integer division and the allocation bound of \<^verbatim>\<open>make\<close>.
\<close>

section \<open>Decimal numbers\<close>

definition digit_char :: "nat \<Rightarrow> char" where
  "digit_char d = char_of (48 + d)"

definition is_digit :: "char \<Rightarrow> bool" where
  "is_digit c \<longleftrightarrow> (let n = of_char c :: nat in 48 \<le> n \<and> n \<le> 57)"

definition digit_value :: "char \<Rightarrow> nat" where
  "digit_value c = of_char c - 48"

fun show_nat :: "nat \<Rightarrow> string" where
  "show_nat n = (if n < 10 then [digit_char n] else show_nat (n div 10) @ [digit_char (n mod 10)])"

declare show_nat.simps [simp del]

definition show_u64 :: "u64 \<Rightarrow> string" where
  "show_u64 w = show_nat (unat w)"

text \<open>The digit loop of \<^verbatim>\<open>ParseUint\<close>: a wrong character and an overflow are separate errors.\<close>

fun parse_uint_loop :: "nat \<Rightarrow> string \<Rightarrow> nat res" where
  "parse_uint_loop acc [] = Inr acc"
| "parse_uint_loop acc (c # cs) =
     (if \<not> is_digit c then Inl (Errorf ''invalid syntax'')
      else let n = 10 * acc + digit_value c
           in if n \<ge> 2 ^ 64 then Inl (Errorf ''value out of range'') else parse_uint_loop n cs)"

definition ParseUint :: "string \<Rightarrow> u64 res" where
  "ParseUint s =
     (if s = [] then Inl (Errorf ''invalid syntax'')
      else andThen (parse_uint_loop 0 s) (\<lambda>n. Inr (word_of_nat n)))"

lemma digit_char_props:
  assumes "d < 10"
  shows "is_digit (digit_char d)" and "digit_value (digit_char d) = d"
  using assms by (simp_all add: is_digit_def digit_value_def digit_char_def)

lemma digit_char_simps [simp]:
  "digit_char 0 = CHR ''0''" "digit_char (Suc 0) = CHR ''1''" "digit_char 2 = CHR ''2''"
  "digit_char 3 = CHR ''3''" "digit_char 4 = CHR ''4''" "digit_char 5 = CHR ''5''"
  "digit_char 6 = CHR ''6''" "digit_char 7 = CHR ''7''" "digit_char 8 = CHR ''8''"
  "digit_char 9 = CHR ''9''"
  by code_simp+

lemma show_nat_digits: "c \<in> set (show_nat n) \<Longrightarrow> is_digit c"
proof (induction n rule: show_nat.induct)
  case (1 n)
  show ?case
  proof (cases "n < 10")
    case True
    with "1.prems" show ?thesis by (simp add: show_nat.simps [of n] digit_char_props)
  next
    case False
    with "1.prems" have "c \<in> set (show_nat (n div 10)) \<or> c = digit_char (n mod 10)"
      by (auto simp: show_nat.simps [of n])
    then show ?thesis
      using "1.IH" False by (auto simp: digit_char_props)
  qed
qed

lemma show_nat_nonempty [simp]: "show_nat n \<noteq> []"
  by (subst show_nat.simps) simp

lemma show_nat_length: "n < 10 ^ k \<Longrightarrow> 0 < k \<Longrightarrow> length (show_nat n) \<le> k"
proof (induction n arbitrary: k rule: show_nat.induct)
  case (1 n)
  show ?case
  proof (cases "n < 10")
    case False
    obtain j where j: "k = Suc j" using "1.prems"(2) by (cases k) auto
    have "0 < j" by (rule ccontr) (use False "1.prems"(1) j in simp)
    with j have k: "k = Suc j" "0 < j" by simp_all
    then have "n div 10 < 10 ^ j" using "1.prems" by (simp add: less_mult_imp_div_less mult.commute)
    with "1.IH"[OF False this k(2)] False k(1) show ?thesis by (simp add: show_nat.simps [of n])
  qed (use "1.prems" in \<open>simp add: show_nat.simps [of n]\<close>)
qed

lemma show_u64_length: "length (show_u64 w) \<le> 20"
  using unsigned_less [of w, where ?'a = nat] by (simp add: show_u64_def show_nat_length)

lemma parse_uint_loop_append:
  "parse_uint_loop acc (xs @ ys) = andThen (parse_uint_loop acc xs) (\<lambda>n. parse_uint_loop n ys)"
  by (induction acc xs rule: parse_uint_loop.induct) (auto simp: Let_def)

lemma parse_uint_loop_show: "n < 2 ^ 64 \<Longrightarrow> parse_uint_loop 0 (show_nat n) = Inr n"
proof (induction n rule: show_nat.induct)
  case (1 n)
  show ?case
  proof (cases "n < 10")
    case True
    then show ?thesis by (simp add: show_nat.simps [of n] digit_char_props)
  next
    case False
    have d: "n mod 10 < 10" by simp
    have "n div 10 < 2 ^ 64" using "1.prems" by (simp add: less_mult_imp_div_less)
    then have "parse_uint_loop 0 (show_nat (n div 10)) = Inr (n div 10)"
      using "1.IH" False by blast
    moreover have "10 * (n div 10) + n mod 10 = n" by simp
    ultimately show ?thesis
      using False "1.prems" digit_char_props [OF d]
      by (simp add: show_nat.simps [of n] parse_uint_loop_append)
  qed
qed

lemma ParseUint_show [simp, codec]: "ParseUint (show_u64 w) = Inr w"
proof -
  have "unat w < 2 ^ 64" using unsigned_less [of w, where ?'a = nat] by simp
  then show ?thesis by (simp add: ParseUint_def show_u64_def parse_uint_loop_show)
qed

lemma show_u64_digits: "c \<in> set (show_u64 w) \<Longrightarrow> is_digit c"
  by (simp add: show_u64_def show_nat_digits)

lemma show_u64_nonempty [simp]: "show_u64 w \<noteq> []"
  by (simp add: show_u64_def)

lemma show_u64_inj [simp]: "show_u64 v = show_u64 w \<longleftrightarrow> v = w"
  by (metis ParseUint_show sum.inject(2))

lemma not_in_show_u64: "\<not> is_digit c \<Longrightarrow> c \<notin> set (show_u64 w)"
  using show_u64_digits by blast

section \<open>strings.Split\<close>

fun split_on :: "char \<Rightarrow> string \<Rightarrow> string list" where
  "split_on d [] = [[]]"
| "split_on d (c # cs) =
     (if c = d then [] # split_on d cs
      else case split_on d cs of p # ps \<Rightarrow> (c # p) # ps | [] \<Rightarrow> [[c]])"

lemma split_on_none: "d \<notin> set s \<Longrightarrow> split_on d s = [s]"
  by (induction s) auto

lemma split_on_append: "d \<notin> set s \<Longrightarrow> split_on d (s @ d # t) = s # split_on d t"
  by (induction s) auto

section \<open>Big-endian integers\<close>

fun be_bytes :: "nat \<Rightarrow> nat \<Rightarrow> bytes" where
  "be_bytes 0 n = []"
| "be_bytes (Suc k) n = be_bytes k (n div 256) @ [word_of_nat (n mod 256)]"

definition be_value :: "bytes \<Rightarrow> nat" where
  "be_value bs = foldl (\<lambda>acc b. 256 * acc + unat b) 0 bs"

lemma length_be_bytes [simp]: "length (be_bytes k n) = k"
  by (induction k arbitrary: n) auto

lemma eight_bytes: "be_bytes 8 1152921504606846976 = [16, 0, 0, 0, 0, 0, 0, 0]"
proof -
  have e: "(8::nat) = Suc (Suc (Suc (Suc (Suc (Suc (Suc (Suc 0)))))))" by simp
  show ?thesis unfolding e be_bytes.simps by simp
qed

lemma be_value_snoc [simp]: "be_value (bs @ [b]) = 256 * be_value bs + unat b"
  by (simp add: be_value_def)

lemma be_value_be_bytes [codec]: "n < 256 ^ k \<Longrightarrow> be_value (be_bytes k n) = n"
proof (induction k arbitrary: n)
  case 0
  then show ?case by (simp add: be_value_def)
next
  case (Suc k)
  then have "n div 256 < 256 ^ k"
    by (metis less_mult_imp_div_less power_Suc2)
  then have "be_value (be_bytes k (n div 256)) = n div 256" by (rule Suc.IH)
  then show ?case by (simp add: unat_of_nat)
qed

definition PutUint16 :: "u16 \<Rightarrow> bytes" where "PutUint16 w = be_bytes 2 (unat w)"
definition PutUint32 :: "u32 \<Rightarrow> bytes" where "PutUint32 w = be_bytes 4 (unat w)"
definition PutUint64 :: "u64 \<Rightarrow> bytes" where "PutUint64 w = be_bytes 8 (unat w)"
definition Uint16 :: "bytes \<Rightarrow> u16" where "Uint16 bs = word_of_nat (be_value bs)"
definition Uint32 :: "bytes \<Rightarrow> u32" where "Uint32 bs = word_of_nat (be_value bs)"
definition Uint64 :: "bytes \<Rightarrow> u64" where "Uint64 bs = word_of_nat (be_value bs)"

lemma Uint_Put [simp, codec]:
  "Uint16 (PutUint16 a) = a" "Uint32 (PutUint32 b) = b" "Uint64 (PutUint64 c) = c"
  using unsigned_less [of a, where ?'a = nat] unsigned_less [of b, where ?'a = nat] unsigned_less [of c, where ?'a = nat]
  by (simp_all add: Uint16_def Uint32_def Uint64_def PutUint16_def PutUint32_def PutUint64_def
      be_value_be_bytes)

lemma length_Put [simp]:
  "length (PutUint16 a) = 2" "length (PutUint32 b) = 4" "length (PutUint64 c) = 8"
  by (simp_all add: PutUint16_def PutUint32_def PutUint64_def)

section \<open>sort.Sort\<close>

text \<open>
  For up to twelve elements \<^verbatim>\<open>sort.Sort\<close> is the insertion sort below, which is stable. For more it
  is a pattern-defeating quicksort: the same list up to the order of elements that
  \<^verbatim>\<open>Less\<close> does not tell apart. \<open>go_sort_eq_sort_key\<close> shows that the loop computes the sorted
  list of any order by a key.
\<close>

fun sift :: "('a \<Rightarrow> 'a \<Rightarrow> bool) \<Rightarrow> 'a \<Rightarrow> 'a list \<Rightarrow> 'a list" where
  "sift lt x [] = [x]"
| "sift lt x (y # ys) = (if lt x y then y # sift lt x ys else x # y # ys)"

definition go_sort :: "('a \<Rightarrow> 'a \<Rightarrow> bool) \<Rightarrow> 'a list \<Rightarrow> 'a list" where
  "go_sort lt xs = rev (foldl (\<lambda>sorted x. sift lt x sorted) [] xs)"

lemma mset_sift [simp]: "mset (sift lt x ys) = add_mset x (mset ys)"
  by (induction ys) auto

lemma mset_foldl_sift: "mset (foldl (\<lambda>s x. sift lt x s) ys xs) = mset ys + mset xs"
  by (induction xs arbitrary: ys) auto

lemma mset_go_sort [simp]: "mset (go_sort lt xs) = mset xs"
  by (simp add: go_sort_def mset_foldl_sift)

lemma set_go_sort [simp]: "set (go_sort lt xs) = set xs"
  by (metis mset_go_sort set_mset_mset)

lemma length_go_sort [simp]: "length (go_sort lt xs) = length xs"
  by (metis mset_go_sort size_mset)

lemma sift_sorted:
  fixes key :: "'a \<Rightarrow> 'k::linorder"
  shows "sorted (map key (rev ys)) \<Longrightarrow>
    sorted (map key (rev (sift (\<lambda>a b. key a < key b) x ys)))"
proof (induction ys)
  case Nil
  then show ?case by simp
next
  case (Cons y ys)
  have set_sift: "set (sift (\<lambda>a b. key a < key b) x ys) = insert x (set ys)"
    by (metis mset_sift set_mset_add_mset_insert set_mset_mset)
  from Cons show ?case by (auto simp: sorted_append set_sift)
qed

lemma sift_filter:
  "filter P (rev (sift (\<lambda>a b. key a < (key b::'k::linorder)) x ys)) =
   filter P (rev ys @ [x])" if "P = (\<lambda>z. k = key z)" "sorted (map key (rev ys))"
  using that(2)
proof (induction ys)
  case Nil
  then show ?case by simp
next
  case (Cons y ys)
  then have "sorted (map key (rev ys))" by (simp add: sorted_append)
  with Cons.IH show ?case by (auto simp: that(1))
qed

lemma foldl_sift_inv:
  fixes key :: "'a \<Rightarrow> 'k::linorder"
  assumes "sorted (map key (rev ys))"
  shows "sorted (map key (rev (foldl (\<lambda>s x. sift (\<lambda>a b. key a < key b) x s) ys xs))) \<and>
    filter (\<lambda>z. k = key z) (rev (foldl (\<lambda>s x. sift (\<lambda>a b. key a < key b) x s) ys xs)) =
    filter (\<lambda>z. k = key z) (rev ys @ xs)"
  using assms
proof (induction xs arbitrary: ys)
  case Nil
  then show ?case by simp
next
  case (Cons x xs)
  from sift_sorted [OF Cons.prems] have s: "sorted (map key (rev (sift (\<lambda>a b. key a < key b) x ys)))" .
  from Cons.IH [OF s] sift_filter [OF refl Cons.prems] show ?case by simp
qed

lemma go_sort_eq_sort_key:
  fixes key :: "'a \<Rightarrow> 'k::linorder"
  shows "go_sort (\<lambda>a b. key a < key b) xs = sort_key key xs"
proof -
  have "sort_key key xs = go_sort (\<lambda>a b. key a < key b) xs"
  proof (rule properties_for_sort_key)
    show "mset (go_sort (\<lambda>a b. key a < key b) xs) = mset xs" by simp
    show "sorted (map key (go_sort (\<lambda>a b. key a < key b) xs))"
      using foldl_sift_inv [where key = key and ys = "[]" and xs = xs] by (simp add: go_sort_def)
    fix z
    show "filter (\<lambda>x. key z = key x) (go_sort (\<lambda>a b. key a < key b) xs) =
      filter (\<lambda>x. key z = key x) xs"
      using foldl_sift_inv [where key = key and ys = "[]" and xs = xs and k = "key z"] by (simp add: go_sort_def)
  qed
  then show ?thesis by simp
qed

section \<open>hash/crc32\<close>

text \<open>
  The reflected CRC that \<^verbatim>\<open>crc32.Checksum\<close> computes byte by byte from a table, here bit by bit:
  start from all ones, shift the polynomial through, complement the result.
\<close>

definition crc_step :: "'a::len word \<Rightarrow> 'a word \<Rightarrow> 'a word" where
  "crc_step poly c = (if bit c 0 then drop_bit 1 c XOR poly else drop_bit 1 c)"

definition crc_byte :: "'a::len word \<Rightarrow> 'a word \<Rightarrow> u8 \<Rightarrow> 'a word" where
  "crc_byte poly c b = (crc_step poly ^^ 8) (c XOR ucast b)"

definition crc_reflected :: "'a::len word \<Rightarrow> bytes \<Rightarrow> 'a word" where
  "crc_reflected poly bs = NOT (foldl (crc_byte poly) (NOT 0) bs)"

definition crc32c :: "bytes \<Rightarrow> u32" where
  "crc32c = crc_reflected 0x82F63B78"

section \<open>Integers\<close>

text \<open>Go's integer division truncates towards zero.\<close>

definition go_div :: "int \<Rightarrow> int \<Rightarrow> int" where
  "go_div a b = a sdiv b"

text \<open>
  \<^verbatim>\<open>make([]T, n)\<close> panics when the length is negative or \<open>n\<close> elements of the type's size exceed
  the address space, 48 bits on 64-bit platforms.
\<close>

definition make_slice_ok :: "nat \<Rightarrow> nat \<Rightarrow> bool" where
  "make_slice_ok elem_size n \<longleftrightarrow> n < 2 ^ 63 \<and> elem_size * n \<le> 2 ^ 48"

section \<open>Maps\<close>

text \<open>
  A Go map whose size or iteration matters is the list of its entries: setting a key replaces its
  value in place or adds an entry, deleting removes it. \<open>mapset k v m\<close> is \<^verbatim>\<open>m[k] = v\<close>,
  \<open>mapdel k m\<close> is \<^verbatim>\<open>delete(m, k)\<close>.
\<close>

definition mapset :: "'k \<Rightarrow> 'v \<Rightarrow> ('k \<times> 'v) list \<Rightarrow> ('k \<times> 'v) list" where
  "mapset k v m =
     (if k \<in> fst ` set m then map (\<lambda>(k', v'). if k' = k then (k', v) else (k', v')) m
      else m @ [(k, v)])"

definition mapdel :: "'k \<Rightarrow> ('k \<times> 'v) list \<Rightarrow> ('k \<times> 'v) list" where
  "mapdel k m = filter (\<lambda>e. fst e \<noteq> k) m"

lemma mapset_new: "k \<notin> set (map fst m) \<Longrightarrow> mapset k v m = m @ [(k, v)]"
  by (simp add: mapset_def)

lemma map_of_mapset: "map_of (mapset k v m) = (map_of m)(k \<mapsto> v)"
proof (cases "k \<in> fst ` set m")
  case True
  have "map_of (map (\<lambda>(k', v'). if k' = k then (k', v) else (k', v')) m) k' =
      (if k' = k then map_option (\<lambda>_. v) (map_of m k) else map_of m k')" for k'
    by (induction m) auto
  moreover have "map_of m k \<noteq> None" using True by (simp add: map_of_eq_None_iff)
  ultimately show ?thesis using True by (auto simp: mapset_def fun_eq_iff)
next
  case False
  then have "map_of m k = None" by (simp add: map_of_eq_None_iff)
  then have "map_of (m @ [(k, v)]) k' = ((map_of m)(k \<mapsto> v)) k'" for k'
    by (cases "k' = k"; cases "map_of m k'") (simp_all add: map_add_def)
  then show ?thesis using False by (simp add: mapset_def fun_eq_iff)
qed

lemma map_of_mapdel: "map_of (mapdel k m) = (map_of m)(k := None)"
  by (rule ext) (induction m; auto simp: mapdel_def)

lemma keys_mapset: "map fst (mapset k v m) = (if k \<in> fst ` set m then map fst m else map fst m @ [k])"
  by (auto simp: mapset_def)

lemma distinct_mapset: "distinct (map fst m) \<Longrightarrow> distinct (map fst (mapset k v m))"
  by (simp add: keys_mapset)

lemma distinct_mapdel: "distinct (map f m) \<Longrightarrow> distinct (map f (mapdel k m))"
  by (simp add: mapdel_def distinct_map_filter)

lemma map_of_filter_key:
  "distinct (map fst m) \<Longrightarrow> map_of (filter (\<lambda>(k, _). P k) m) = map_of m |` {k. P k}"
  by (rule ext) (induction m; auto simp: restrict_map_def map_of_eq_None_iff image_iff split: if_splits)

section \<open>SHA-256\<close>

text \<open>
  \<^verbatim>\<open>crypto/sha256\<close>, which names the store's files, and \<^verbatim>\<open>%x\<close> of \<^verbatim>\<open>fmt\<close>: two
  hexadecimal digits a byte. The constants of the standard are written in decimal.
\<close>

definition sha256_k :: "u32 list" where
  "sha256_k = [
    1116352408, 1899447441, 3049323471, 3921009573, 961987163, 1508970993, 2453635748, 2870763221,
    3624381080, 310598401, 607225278, 1426881987, 1925078388, 2162078206, 2614888103, 3248222580,
    3835390401, 4022224774, 264347078, 604807628, 770255983, 1249150122, 1555081692, 1996064986,
    2554220882, 2821834349, 2952996808, 3210313671, 3336571891, 3584528711, 113926993, 338241895,
    666307205, 773529912, 1294757372, 1396182291, 1695183700, 1986661051, 2177026350, 2456956037,
    2730485921, 2820302411, 3259730800, 3345764771, 3516065817, 3600352804, 4094571909, 275423344,
    430227734, 506948616, 659060556, 883997877, 958139571, 1322822218, 1537002063, 1747873779,
    1955562222, 2024104815, 2227730452, 2361852424, 2428436474, 2756734187, 3204031479, 3329325298]"

definition sha256_init :: "u32 list" where
  "sha256_init = [
    1779033703, 3144134277, 1013904242, 2773480762, 1359893119, 2600822924, 528734635, 1541459225]"

definition sha256_pad :: "bytes \<Rightarrow> bytes" where
  "sha256_pad m =
     m @ [0x80] @ replicate ((119 - length m mod 64) mod 64) 0 @ PutUint64 (word_of_nat (8 * length m))"

definition sha256_sigma :: "nat \<Rightarrow> nat \<Rightarrow> nat \<Rightarrow> u32 \<Rightarrow> u32" where
  "sha256_sigma a b c x = word_rotr a x XOR word_rotr b x XOR drop_bit c x"

definition sha256_Sigma :: "nat \<Rightarrow> nat \<Rightarrow> nat \<Rightarrow> u32 \<Rightarrow> u32" where
  "sha256_Sigma a b c x = word_rotr a x XOR word_rotr b x XOR word_rotr c x"

text \<open>The message schedule, extended word by word to 64 words.\<close>

fun sha256_schedule :: "nat \<Rightarrow> u32 list \<Rightarrow> u32 list" where
  "sha256_schedule 0 w = w"
| "sha256_schedule (Suc n) w =
     (let i = length w
      in sha256_schedule n (w @ [sha256_sigma 17 19 10 (w ! (i - 2)) + w ! (i - 7) +
           sha256_sigma 7 18 3 (w ! (i - 15)) + w ! (i - 16)]))"

definition sha256_round :: "u32 list \<Rightarrow> u32 \<times> u32 \<Rightarrow> u32 list" where
  "sha256_round s kw =
     (case s of
        [a, b, c, d, e, f, g, h] \<Rightarrow>
          let t1 = h + sha256_Sigma 6 11 25 e + ((e AND f) XOR (NOT e AND g)) + fst kw + snd kw;
              t2 = sha256_Sigma 2 13 22 a + ((a AND b) XOR (a AND c) XOR (b AND c))
          in [t1 + t2, a, b, c, d + t1, e, f, g]
      | _ \<Rightarrow> s)"

fun chunks_of :: "nat \<Rightarrow> nat \<Rightarrow> 'a list \<Rightarrow> 'a list list" where
  "chunks_of k 0 xs = []"
| "chunks_of k (Suc n) xs = take k xs # chunks_of k n (drop k xs)"

definition sha256_block :: "u32 list \<Rightarrow> bytes \<Rightarrow> u32 list" where
  "sha256_block s blk =
     map2 (+) s (foldl sha256_round s (zip sha256_k
       (sha256_schedule 48 (map Uint32 (chunks_of 4 16 blk)))))"

definition sha256 :: "bytes \<Rightarrow> bytes" where
  "sha256 m =
     (let p = sha256_pad m
      in concat (map PutUint32 (foldl sha256_block sha256_init (chunks_of 64 (length p div 64) p))))"

definition hex_digit :: "nat \<Rightarrow> char" where
  "hex_digit d = (if d < 10 then char_of (48 + d) else char_of (87 + d))"

definition show_hex :: "bytes \<Rightarrow> string" where
  "show_hex bs = concat (map (\<lambda>b. [hex_digit (unat b div 16), hex_digit (unat b mod 16)]) bs)"

section \<open>Lower case\<close>

text \<open>
  \<^verbatim>\<open>strings.ToLower\<close>, as far as a comparison with an ASCII string can tell: the capital letters, and
  the two other characters whose lower case is an ASCII letter, U+0130 and U+212A in UTF-8.
  All other bytes stay.
\<close>

fun to_lower :: "string \<Rightarrow> string" where
  "to_lower [] = []"
| "to_lower (c # cs) =
     (let n = of_char c :: nat
      in if 65 \<le> n \<and> n \<le> 90 then char_of (n + 32) # to_lower cs
         else if n = 196 \<and> cs \<noteq> [] \<and> of_char (hd cs) = (176 :: nat) then CHR ''i'' # to_lower (tl cs)
         else if n = 226 \<and> length cs \<ge> 2 \<and> of_char (hd cs) = (132 :: nat) \<and>
             of_char (hd (tl cs)) = (170 :: nat) then CHR ''k'' # to_lower (tl (tl cs))
         else c # to_lower cs)"

end
