(* ===== verification/Cbor_Lib.thy ===== *)
theory Cbor_Lib
  imports Go_Std
begin

text \<open>
  The third-party packages the code serialises with, \<^verbatim>\<open>github.com/dtn7/cboring\<close> and
  \<^verbatim>\<open>github.com/howeyc/crc16\<close>, are not part of the repository: they are the parameter
  \<open>L :: lib\<close> of every definition that uses them. The locale \<open>cboring\<close> names what the code
  relies on: a read returns what the matching write wrote and leaves the rest of the stream,
  a successful read takes bytes from the front of the stream only, the break code ends an
  indefinite array. \<open>rfc_lib\<close> is the encoding of RFC 8949 with the X.25 CRC-16, an instance the laws are
  checked on and the witnesses are evaluated with.
\<close>

section \<open>The operations\<close>

record lib =
  IndefiniteArray :: u8
  BreakCode :: u8
  UIntMajor :: u8
  TextStringMajor :: u8
  WriteArrayLength :: "u64 \<Rightarrow> bytes"
  WriteUInt :: "u64 \<Rightarrow> bytes"
  WriteByteStringLen :: "u64 \<Rightarrow> bytes"
  WriteMapPairLength :: "u64 \<Rightarrow> bytes"
  WriteByteString :: "bytes \<Rightarrow> bytes"
  WriteTextString :: "string \<Rightarrow> bytes"
  WriteBoolean :: "bool \<Rightarrow> bytes"
  WriteFloat64 :: "u64 \<Rightarrow> bytes"
  ReadMajors :: "(u8 \<times> u64) reader"
  ReadArrayLength :: "u64 reader"
  ReadUInt :: "u64 reader"
  ReadByteStringLen :: "u64 reader"
  ReadMapPairLength :: "u64 reader"
  ReadByteString :: "bytes reader"
  ReadRawBytes :: "u64 \<Rightarrow> bytes reader"
  ReadBoolean :: "bool reader"
  ReadFloat64 :: "u64 reader"
  ReadExpect :: "u8 \<Rightarrow> unit reader"
  Checksum16 :: "bytes \<Rightarrow> u16"

section \<open>The laws\<close>

definition takes_front :: "'a reader \<Rightarrow> bool" where
  "takes_front rd \<longleftrightarrow> (\<forall>i x r. rd i = Inr (x, r) \<longrightarrow> strict_suffix r i)"

locale cboring =
  fixes L :: lib
  assumes array_rw: "ReadArrayLength L (WriteArrayLength L n @ r) = Inr (n, r)"
    and uint_rw: "ReadUInt L (WriteUInt L n @ r) = Inr (n, r)"
    and byte_len_rw: "ReadByteStringLen L (WriteByteStringLen L n @ r) = Inr (n, r)"
    and map_rw: "ReadMapPairLength L (WriteMapPairLength L n @ r) = Inr (n, r)"
    and bool_rw: "ReadBoolean L (WriteBoolean L b @ r) = Inr (b, r)"
    and float_rw: "ReadFloat64 L (WriteFloat64 L n @ r) = Inr (n, r)"
    and byte_string_rw:
      "length bs < 2 ^ 64 \<Longrightarrow> ReadByteString L (WriteByteString L bs @ r) = Inr (bs, r)"
    and byte_string_parts:
      "WriteByteString L bs = WriteByteStringLen L (word_of_nat (length bs)) @ bs"
    and majors_uint: "ReadMajors L (WriteUInt L n @ r) = Inr ((UIntMajor L, n), r)"
    and majors_text:
      "length s < 2 ^ 64 \<Longrightarrow> ReadMajors L (WriteTextString L s @ r) =
         Inr ((TextStringMajor L, word_of_nat (length s)), bytes_of_string s @ r)"
    and majors_distinct: "UIntMajor L \<noteq> TextStringMajor L"
    and raw_rw: "length bs = unat n \<Longrightarrow> ReadRawBytes L n (bs @ r) = Inr (bs, r)"
    and raw_exact: "ReadRawBytes L n i = Inr (bs, r) \<Longrightarrow> i = bs @ r \<and> length bs = unat n"
    and byte_string_exact: "ReadByteString L i = Inr (bs, r) \<Longrightarrow> length bs + length r < length i"
    and array_break: "ReadArrayLength L (BreakCode L # r) = Inl FlagBreakCode"
    and expect_hit: "ReadExpect L m (m # r) = Inr ((), r)"
    and majors_front: "takes_front (ReadMajors L)"
    and array_front: "takes_front (ReadArrayLength L)"
    and uint_front: "takes_front (ReadUInt L)"
    and byte_len_front: "takes_front (ReadByteStringLen L)"
    and map_front: "takes_front (ReadMapPairLength L)"
    and byte_string_front: "takes_front (ReadByteString L)"
    and bool_front: "takes_front (ReadBoolean L)"
    and float_front: "takes_front (ReadFloat64 L)"
    and expect_front: "takes_front (ReadExpect L m)"
begin

lemmas read_back [codec] =
  array_rw uint_rw byte_len_rw map_rw bool_rw float_rw byte_string_rw majors_uint majors_text
  raw_rw array_break expect_hit

lemmas front_laws =
  majors_front array_front uint_front byte_len_front map_front byte_string_front
  bool_front float_front expect_front

lemma raw_text:
  "length s < 2 ^ 64 \<Longrightarrow>
   ReadRawBytes L (word_of_nat (length s)) (bytes_of_string s @ r) = Inr (bytes_of_string s, r)"
  by (rule raw_rw) (simp add: unat_of_nat)

lemma byte_string_length: "length bs \<le> length (WriteByteString L bs)"
  by (simp add: byte_string_parts)

lemma raw_suffix: "ReadRawBytes L n i = Inr (bs, r) \<Longrightarrow> weak_suffix r i"
  by (drule raw_exact) (auto simp: weak_suffix_def)

end

text \<open>
  A reader of a stream does not look beyond what it takes: a value that it returns is the value that it returns
  when more follows. Only the theorem on broken QUIC streams relies on it.
\<close>

definition reads_on :: "'a reader \<Rightarrow> bool" where
  "reads_on rd \<longleftrightarrow> (\<forall>i x r s. rd i = Inr (x, r) \<longrightarrow> rd (i @ s) = Inr (x, r @ s))"

lemma reads_onD: "reads_on rd \<Longrightarrow> rd i = Inr (x, r) \<Longrightarrow> rd (i @ s) = Inr (x, r @ s)"
  by (simp add: reads_on_def)

lemma reads_on_return: "reads_on (\<lambda>r. Inr (x, r))"
  by (simp add: reads_on_def)

lemma reads_on_fail: "reads_on (\<lambda>r. Inl e)"
  by (simp add: reads_on_def)

lemma reads_on_if: "reads_on f \<Longrightarrow> reads_on g \<Longrightarrow> reads_on (\<lambda>r. if P then f r else g r)"
  by (cases P) simp_all

lemma reads_on_bind:
  assumes "reads_on rd" and "\<And>x. reads_on (f x)"
  shows "reads_on (\<lambda>i. andThen (rd i) (\<lambda>(x, r). f x r))"
  unfolding reads_on_def
proof (intro allI impI)
  fix i y r s assume "andThen (rd i) (\<lambda>(x, r). f x r) = Inr (y, r)"
  then obtain x t where "rd i = Inr (x, t)" "f x t = Inr (y, r)" by (auto simp: andThen_eq_Inr)
  then show "andThen (rd (i @ s)) (\<lambda>(x, r). f x r) = Inr (y, r @ s)"
    using reads_onD [OF assms(1)] reads_onD [OF assms(2)] by simp
qed

lemma reads_on_let: "(\<And>x. reads_on (f x)) \<Longrightarrow> reads_on (\<lambda>r. andThen v (\<lambda>x. f x r))"
  by (cases v) (simp_all add: reads_on_fail)

lemmas reads_on_intros = reads_on_return reads_on_fail reads_on_if reads_on_bind reads_on_let

locale cboring_stream = cboring +
  assumes majors_on: "reads_on (ReadMajors L)"
    and array_on: "reads_on (ReadArrayLength L)"
    and uint_on: "reads_on (ReadUInt L)"
    and byte_len_on: "reads_on (ReadByteStringLen L)"
begin

lemma raw_on: "reads_on (ReadRawBytes L n)"
  using raw_rw raw_exact unfolding reads_on_def by fastforce

end

lemma takes_frontD: "takes_front rd \<Longrightarrow> rd i = Inr (x, r) \<Longrightarrow> strict_suffix r i"
  by (auto simp: takes_front_def)

section \<open>RFC 8949\<close>

text \<open>
  The head of an item: three bits of major type and five bits of additional information, the
  argument following in one, two, four or eight bytes when it does not fit.
\<close>

definition rfc_head :: "nat \<Rightarrow> u64 \<Rightarrow> bytes" where
  "rfc_head j n =
     (let k = unat n
      in if k < 24 then [word_of_nat (32 * j + k)]
         else if k < 256 then word_of_nat (32 * j + 24) # be_bytes 1 k
         else if k < 256 ^ 2 then word_of_nat (32 * j + 25) # be_bytes 2 k
         else if k < 256 ^ 4 then word_of_nat (32 * j + 26) # be_bytes 4 k
         else word_of_nat (32 * j + 27) # be_bytes 8 k)"

definition rfc_majors :: "(u8 \<times> u64) reader" where
  "rfc_majors i =
     (case i of [] \<Rightarrow> Inl EOF
      | b # r \<Rightarrow>
         (let a = unat b mod 32; m = word_of_nat (32 * (unat b div 32))
          in if b = 0xff then Inl FlagBreakCode
             else if a < 24 then Inr ((m, word_of_nat a), r)
             else if a < 28 then
               (let k = 2 ^ (a - 24)
                in if length r < k then Inl EOF
                   else Inr ((m, word_of_nat (be_value (take k r))), drop k r))
             else Inl (LibErr ''additional information'')))"

definition rfc_expect_major :: "nat \<Rightarrow> u64 reader" where
  "rfc_expect_major j i =
     andThen (rfc_majors i) (\<lambda>((m, n), r).
       if m = word_of_nat (32 * j) then Inr (n, r) else Inl (LibErr ''wrong major type''))"

definition rfc_raw :: "u64 \<Rightarrow> bytes reader" where
  "rfc_raw n i = (if length i < unat n then Inl EOF else Inr (take (unat n) i, drop (unat n) i))"

definition rfc_byte_string :: "bytes reader" where
  "rfc_byte_string i = andThen (rfc_expect_major 2 i) (\<lambda>(n, r). rfc_raw n r)"

definition rfc_bool :: "bool reader" where
  "rfc_bool i =
     andThen (rfc_expect_major 7 i) (\<lambda>(n, r).
       if n = 20 then Inr (False, r) else if n = 21 then Inr (True, r)
       else Inl (LibErr ''boolean''))"

definition rfc_float :: "u64 reader" where
  "rfc_float i =
     (case i of [] \<Rightarrow> Inl EOF
      | b # r \<Rightarrow>
         (if b \<noteq> 0xfb then Inl (LibErr ''float64'')
          else if length r < 8 then Inl EOF
          else Inr (word_of_nat (be_value (take 8 r)), drop 8 r)))"

definition rfc_expect :: "u8 \<Rightarrow> unit reader" where
  "rfc_expect m i =
     (case i of [] \<Rightarrow> Inl EOF
      | b # r \<Rightarrow> if b = m then Inr ((), r) else Inl (LibErr ''unexpected byte''))"

definition rfc_lib :: lib where
  "rfc_lib = \<lparr>
     IndefiniteArray = 0x9f, BreakCode = 0xff, UIntMajor = 0x00, TextStringMajor = 0x60,
     WriteArrayLength = rfc_head 4, WriteUInt = rfc_head 0, WriteByteStringLen = rfc_head 2,
     WriteMapPairLength = rfc_head 5,
     WriteByteString = (\<lambda>bs. rfc_head 2 (word_of_nat (length bs)) @ bs),
     WriteTextString = (\<lambda>s. rfc_head 3 (word_of_nat (length s)) @ bytes_of_string s),
     WriteBoolean = (\<lambda>b. rfc_head 7 (if b then 21 else 20)),
     WriteFloat64 = (\<lambda>w. 0xfb # be_bytes 8 (unat w)),
     ReadMajors = rfc_majors, ReadArrayLength = rfc_expect_major 4,
     ReadUInt = rfc_expect_major 0, ReadByteStringLen = rfc_expect_major 2,
     ReadMapPairLength = rfc_expect_major 5, ReadByteString = rfc_byte_string,
     ReadRawBytes = rfc_raw, ReadBoolean = rfc_bool, ReadFloat64 = rfc_float,
     ReadExpect = rfc_expect, Checksum16 = crc_reflected 0x8408\<rparr>"

subsection \<open>The instance satisfies the laws\<close>

lemma rfc_majors_byte:
  assumes "j < 8" "a < 28"
  shows "unat (word_of_nat (32 * j + a) :: u8) mod 32 = a"
    and "unat (word_of_nat (32 * j + a) :: u8) div 32 = j"
    and "(word_of_nat (32 * j + a) :: u8) \<noteq> 0xff"
proof -
  have "32 * j + a < 256" using assms by linarith
  then have u: "unat (word_of_nat (32 * j + a) :: u8) = 32 * j + a"
    by (subst unat_of_nat) simp
  show "unat (word_of_nat (32 * j + a) :: u8) mod 32 = a"
    and "unat (word_of_nat (32 * j + a) :: u8) div 32 = j"
    using assms unfolding u by simp_all
  show "(word_of_nat (32 * j + a) :: u8) \<noteq> 0xff"
  proof
    assume "(word_of_nat (32 * j + a) :: u8) = 0xff"
    then have "32 * j + a = unat (0xff :: u8)" using u by simp
    then have "32 * j + a = 255" by simp
    with assms show False by linarith
  qed
qed

lemma rfc_majors_tail:
  assumes "j < 8" "24 \<le> a" "a < 28" "length p = 2 ^ (a - 24)"
  shows "rfc_majors (word_of_nat (32 * j + a) # p @ r) =
    Inr ((word_of_nat (32 * j), word_of_nat (be_value p)), r)"
  using assms(2,4) rfc_majors_byte [OF assms(1,3)] assms(3)
  by (simp add: rfc_majors_def Let_def)

lemma be_word: "k = unat n \<Longrightarrow> k < 256 ^ m \<Longrightarrow> word_of_nat (be_value (be_bytes m k)) = (n :: u64)"
  by (simp add: be_value_be_bytes)

lemma rfc_majors_head: "j < 8 \<Longrightarrow> rfc_majors (rfc_head j n @ r) = Inr ((word_of_nat (32 * j), n), r)"
proof -
  assume j: "j < 8"
  have lt: "unat n < 256 ^ 8" using unsigned_less [of n, where ?'a = nat] by simp
  note tail = rfc_majors_tail [OF j, of _ "be_bytes _ (unat n)"]
  consider (tiny) "unat n < 24" | (one) "24 \<le> unat n" "unat n < 256"
    | (two) "256 \<le> unat n" "unat n < 256 ^ 2" | (four) "256 ^ 2 \<le> unat n" "unat n < 256 ^ 4"
    | (eight) "256 ^ 4 \<le> unat n" by linarith
  then show ?thesis
  proof cases
    case tiny
    then show ?thesis
      using rfc_majors_byte [OF j, of "unat n"] by (simp add: rfc_head_def rfc_majors_def Let_def)
  next
    case one
    then show ?thesis
      using tail [of 24 1 r] be_word [OF refl, of n 1] by (simp add: rfc_head_def)
  next
    case two
    then show ?thesis
      using tail [of 25 2 r] be_word [OF refl, of n 2] by (simp add: rfc_head_def)
  next
    case four
    then show ?thesis
      using tail [of 26 4 r] be_word [OF refl, of n 4] by (simp add: rfc_head_def)
  next
    case eight
    then show ?thesis
      using tail [of 27 8 r] be_word [OF refl lt] by (simp add: rfc_head_def)
  qed
qed

lemma rfc_expect_head: "j < 8 \<Longrightarrow> rfc_expect_major j (rfc_head j n @ r) = Inr (n, r)"
  by (simp add: rfc_expect_major_def rfc_majors_head)

lemma rfc_raw_append: "length bs = unat n \<Longrightarrow> rfc_raw n (bs @ r) = Inr (bs, r)"
  by (simp add: rfc_raw_def)

lemma rfc_majors_front: "takes_front rfc_majors"
  unfolding takes_front_def
proof (intro allI impI)
  fix i x r assume h: "rfc_majors i = Inr (x, r)"
  then obtain b t where i: "i = b # t" by (cases i) (auto simp: rfc_majors_def)
  from h i have "\<exists>k. r = drop k t"
    by (auto simp: rfc_majors_def Let_def split: if_splits intro: exI [of _ 0])
  then obtain k where "r = drop k t" ..
  then have "i = (b # take k t) @ r" using i by simp
  then show "strict_suffix r i" unfolding strict_suffix_def by blast
qed

lemma rfc_expect_front: "takes_front (rfc_expect_major j)"
  using takes_frontD [OF rfc_majors_front]
  by (auto simp: takes_front_def rfc_expect_major_def andThen_eq_Inr split: if_splits)

lemma rfc_raw_exact: "rfc_raw n i = Inr (bs, r) \<Longrightarrow> i = bs @ r \<and> length bs = unat n"
  by (auto simp: rfc_raw_def split: if_splits)

lemma rfc_byte_string_front: "takes_front rfc_byte_string"
  unfolding takes_front_def rfc_byte_string_def
  by (auto simp: andThen_eq_Inr dest!: rfc_raw_exact takes_frontD [OF rfc_expect_front]
      intro: strict_suffix_append)

lemma rfc_byte_string_exact: "rfc_byte_string i = Inr (bs, r) \<Longrightarrow> length bs + length r < length i"
  by (auto simp: rfc_byte_string_def andThen_eq_Inr dest!: rfc_raw_exact takes_frontD [OF rfc_expect_front]
      strict_suffix_length)

lemma rfc_byte_string_append:
  "length bs < 2 ^ 64 \<Longrightarrow>
   rfc_byte_string (rfc_head 2 (word_of_nat (length bs)) @ bs @ r) = Inr (bs, r)"
  by (simp add: rfc_byte_string_def rfc_expect_head rfc_raw_append unat_of_nat)

lemma rfc_bool_front: "takes_front rfc_bool"
  using takes_frontD [OF rfc_expect_front]
  by (auto simp: takes_front_def rfc_bool_def andThen_eq_Inr split: if_splits)

lemma rfc_float_front: "takes_front rfc_float"
  unfolding takes_front_def
proof (intro allI impI)
  fix i x r assume h: "rfc_float i = Inr (x, r)"
  then obtain b t where i: "i = b # t" by (cases i) (auto simp: rfc_float_def)
  from h i have "r = drop 8 t" by (auto simp: rfc_float_def split: if_splits)
  then have "i = (b # take 8 t) @ r" using i by simp
  then show "strict_suffix r i" unfolding strict_suffix_def by blast
qed

lemma rfc_expect_byte_front: "takes_front (rfc_expect m)"
  unfolding takes_front_def
proof (intro allI impI)
  fix i and x :: unit and r assume "rfc_expect m i = Inr (x, r)"
  then have "i = [m] @ r" by (auto simp: rfc_expect_def split: list.splits if_splits)
  then show "strict_suffix r i" unfolding strict_suffix_def by blast
qed

lemma rfc_break: "rfc_expect_major j (0xff # r) = Inl FlagBreakCode"
  by (simp add: rfc_expect_major_def rfc_majors_def)

lemma rfc_bool_head: "rfc_bool (rfc_head 7 (if b then 21 else 20) @ r) = Inr (b, r)"
  by (simp add: rfc_bool_def rfc_expect_head)

interpretation rfc: cboring rfc_lib
proof unfold_locales
  fix bs r :: bytes
  assume "length bs < 2 ^ 64"
  then show "ReadByteString rfc_lib (WriteByteString rfc_lib bs @ r) = Inr (bs, r)"
    by (simp add: rfc_lib_def rfc_byte_string_append)
next
  fix n r
  show "ReadFloat64 rfc_lib (WriteFloat64 rfc_lib n @ r) = Inr (n, r)"
    using be_word [OF refl, of n 8] unsigned_less [of n, where ?'a = nat]
    by (simp add: rfc_lib_def rfc_float_def)
next
  fix bs r n i
  assume "ReadRawBytes rfc_lib n i = Inr (bs, r)"
  then show "i = bs @ r \<and> length bs = unat n"
    by (intro rfc_raw_exact) (simp add: rfc_lib_def)
next
  fix bs r i
  assume "ReadByteString rfc_lib i = Inr (bs, r)"
  then show "length bs + length r < length i"
    by (intro rfc_byte_string_exact) (simp add: rfc_lib_def)
qed (simp_all add: rfc_lib_def rfc_expect_head rfc_majors_head rfc_raw_append rfc_expect_front
    rfc_majors_front rfc_byte_string_front rfc_bool_front rfc_float_front
    rfc_expect_byte_front rfc_bool_head rfc_break rfc_expect_def)

lemma cboring_rfc: "cboring rfc_lib"
  by (rule rfc.cboring_axioms)

lemma rfc_majors_on: "reads_on rfc_majors"
  unfolding reads_on_def
proof (intro allI impI)
  fix i x r s assume h: "rfc_majors i = Inr (x, r)"
  then obtain b t where "i = b # t" by (cases i) (auto simp: rfc_majors_def)
  then show "rfc_majors (i @ s) = Inr (x, r @ s)" using h by (auto simp: rfc_majors_def Let_def split: if_splits)
qed

lemma rfc_expect_on: "reads_on (rfc_expect_major j)"
  using reads_onD [OF rfc_majors_on]
  by (auto simp: reads_on_def rfc_expect_major_def andThen_eq_Inr split: if_splits)

interpretation rfc_stream: cboring_stream rfc_lib
  by unfold_locales (simp_all add: rfc_lib_def rfc_majors_on rfc_expect_on)

lemma cboring_stream_rfc: "cboring_stream rfc_lib"
  by (rule rfc_stream.cboring_stream_axioms)

lemma rfc_simps:
  "WriteArrayLength rfc_lib = rfc_head 4" "WriteUInt rfc_lib = rfc_head 0"
  "WriteByteString rfc_lib bs = rfc_head 2 (word_of_nat (length bs)) @ bs"
  "WriteTextString rfc_lib s = rfc_head 3 (word_of_nat (length s)) @ bytes_of_string s"
  "IndefiniteArray rfc_lib = 0x9f" "BreakCode rfc_lib = 0xff"
  "WriteByteStringLen rfc_lib = rfc_head 2"
  by (simp_all add: rfc_lib_def)

end
