(* ===== verification/Endpoint.thy ===== *)
theory Endpoint
  imports Cbor_Lib
begin

text \<open>
  \<^verbatim>\<open>pkg/bpv7/endpoint.go\<close>, \<^verbatim>\<open>endpoint_dtn.go\<close> and \<^verbatim>\<open>endpoint_ipn.go\<close>: endpoint identifiers of the
  \<^verbatim>\<open>dtn\<close> and \<^verbatim>\<open>ipn\<close> schemes, their parsing from URIs (the regular expressions spelled out
  as functions on strings), their printing, checks and CBOR serialisation. An \<^verbatim>\<open>EndpointID\<close> holds an
  interface value, which may be nil: \<open>endpoint_type option\<close>. Calling a method of a nil
  interface is a panic.
\<close>

record dtn_endpoint =
  NodeName :: string
  Demux :: string
  IsDtnNone :: bool

datatype endpoint_type = DtnEndpoint dtn_endpoint | IpnEndpoint (ipn_Node: u64) (ipn_Service: u64)

type_synonym endpoint_id = "endpoint_type option"

definition DtnEndpointSchemeNo :: u64 where [simp]: "DtnEndpointSchemeNo = 1"
definition ipnEndpointSchemeNo :: u64 where [simp]: "ipnEndpointSchemeNo = 2"

definition DtnNone :: endpoint_id where
  "DtnNone = Some (DtnEndpoint \<lparr>NodeName = '''', Demux = '''', IsDtnNone = True\<rparr>)"

section \<open>Regular expressions\<close>

text \<open>The character class of a node name, \<^verbatim>\<open>[\w-._~!$&'()*+,;=]\<close>.\<close>

definition is_alnum :: "char \<Rightarrow> bool" where
  "is_alnum c \<longleftrightarrow>
     (let n = of_char c :: nat
      in 48 \<le> n \<and> n \<le> 57 \<or> 65 \<le> n \<and> n \<le> 90 \<or> 97 \<le> n \<and> n \<le> 122)"

definition node_char :: "char \<Rightarrow> bool" where
  "node_char c \<longleftrightarrow> is_alnum c \<or> c \<in> set ''_-.~!$&'' \<or> c = CHR 0x27 \<or> c \<in> set ''()*+,;=''"

definition newline :: char where "newline = CHR 0x0A"

text \<open>
  \<^verbatim>\<open>//((^$)|([\w-._~!$&'()*+,;=]+))/\<close> at the front of a string: the alternative \<^verbatim>\<open>^$\<close> never
  matches behind the two slashes, and no node character is a slash, so the name is the longest
  run of node characters. The result is what the \<^verbatim>\<open>(.*)\<close> of the expression starts at.
\<close>

definition match_ssp :: "string \<Rightarrow> (string \<times> string) option" where
  "match_ssp s =
     (if has_prefix s ''//'' then
        let name = takeWhile node_char (drop 2 s); rest = dropWhile node_char (drop 2 s)
        in if name \<noteq> [] \<and> has_prefix rest ''/'' then Some (name, drop 1 rest) else None
      else None)"

text \<open>Anchored by \<^verbatim>\<open>^\<close> and \<^verbatim>\<open>$\<close>: the dot of \<^verbatim>\<open>(.*)$\<close> does not match a line feed.\<close>

definition regexp_ssp_full :: "string \<Rightarrow> bool" where
  "regexp_ssp_full s \<longleftrightarrow>
     (case match_ssp s of None \<Rightarrow> False | Some (_, demux) \<Rightarrow> newline \<notin> set demux)"

text \<open>Not anchored, as \<^verbatim>\<open>CheckValid\<close> uses it: a match anywhere in the string.\<close>

fun regexp_ssp_anywhere :: "string \<Rightarrow> bool" where
  "regexp_ssp_anywhere [] \<longleftrightarrow> False"
| "regexp_ssp_anywhere (c # cs) \<longleftrightarrow> match_ssp (c # cs) \<noteq> None \<or> regexp_ssp_anywhere cs"

section \<open>dtn endpoints\<close>

definition parseDtnSsp :: "string \<Rightarrow> (string \<times> string \<times> bool) res" where
  "parseDtnSsp ssp =
     (if ssp = ''none'' then Inr ('''', '''', True)
      else if \<not> regexp_ssp_full ssp then Inl (Errorf ''ssp does not match a dtn endpoint'')
      else let ssp = drop 2 ssp;
               nodeName = takeWhile (\<lambda>c. c \<noteq> CHR ''/'') ssp;
               demux = drop 1 (dropWhile (\<lambda>c. c \<noteq> CHR ''/'') ssp)
           in Inr (nodeName, demux, False))"

definition dtn_ssp :: "dtn_endpoint \<Rightarrow> string" where
  "dtn_ssp e = ''//'' @ NodeName e @ ''/'' @ Demux e"

definition dtn_CheckValid :: "dtn_endpoint \<Rightarrow> err list" where
  "dtn_CheckValid e =
     (if IsDtnNone e then []
      else if \<not> regexp_ssp_anywhere (dtn_ssp e) then [Errorf ''malformed ssp''] else [])"

definition NewDtnEndpoint :: "string \<Rightarrow> endpoint_type res" where
  "NewDtnEndpoint uri =
     (if \<not> has_prefix uri ''dtn:'' then Inl (Errorf ''URI does not start with the dtn URI prefix'')
      else andThen (parseDtnSsp (drop 4 uri)) (\<lambda>(nodeName, demux, isDtnNone).
        let e = (if isDtnNone then \<lparr>NodeName = '''', Demux = '''', IsDtnNone = True\<rparr>
                 else \<lparr>NodeName = nodeName, Demux = demux, IsDtnNone = False\<rparr>)
        in case dtn_CheckValid e of [] \<Rightarrow> Inr (DtnEndpoint e) | err # _ \<Rightarrow> Inl err))"

definition dtn_Authority :: "dtn_endpoint \<Rightarrow> string" where
  "dtn_Authority e = (if IsDtnNone e then ''none'' else NodeName e)"

definition dtn_Path :: "dtn_endpoint \<Rightarrow> string" where
  "dtn_Path e = (if IsDtnNone e then ''/'' else ''/'' @ Demux e)"

definition dtn_IsSingleton :: "dtn_endpoint \<Rightarrow> bool" where
  "dtn_IsSingleton e \<longleftrightarrow> \<not> has_prefix (Demux e) ''~'' \<and> \<not> IsDtnNone e"

definition dtn_String :: "dtn_endpoint \<Rightarrow> string" where
  "dtn_String e =
     (if IsDtnNone e then ''dtn:none'' else ''dtn'' @ ''://'' @ NodeName e @ ''/'' @ Demux e)"

definition dtn_MarshalCbor :: "lib \<Rightarrow> dtn_endpoint \<Rightarrow> bytes" where
  "dtn_MarshalCbor L e =
     (if IsDtnNone e then WriteUInt L 0 else WriteTextString L (dtn_ssp e))"

definition dtn_UnmarshalCbor :: "lib \<Rightarrow> endpoint_type reader" where
  "dtn_UnmarshalCbor L i =
     andThen (ReadMajors L i) (\<lambda>((m, n), r).
       if m = UIntMajor L then
         Inr (DtnEndpoint \<lparr>NodeName = '''', Demux = '''', IsDtnNone = True\<rparr>, r)
       else if m = TextStringMajor L then
         andThen (ReadRawBytes L n r) (\<lambda>(ssp, r).
         andThen (parseDtnSsp (string_of_bytes ssp)) (\<lambda>(nodeName, demux, isDtnNone).
           if isDtnNone then Inl (Errorf ''byte based SSP represents dtn:none'')
           else Inr (DtnEndpoint \<lparr>NodeName = nodeName, Demux = demux, IsDtnNone = False\<rparr>, r)))
       else Inl (Errorf ''DtnEndpoint: wrong major type for unmarshalling''))"

section \<open>ipn endpoints\<close>

definition ipn_CheckValid :: "u64 \<Rightarrow> u64 \<Rightarrow> err list" where
  "ipn_CheckValid node service =
     (if node < 1 \<or> service < 1
      then [Errorf ''ipn node and service number must be >= 1''] else [])"

text \<open>The sub-matches of \<^verbatim>\<open>^ipn:(\d+)\.(\d+)$\<close>.\<close>

definition regexp_ipn :: "string \<Rightarrow> (string \<times> string) option" where
  "regexp_ipn uri =
     (if has_prefix uri ''ipn:'' then
        let node = takeWhile is_digit (drop 4 uri); rest = dropWhile is_digit (drop 4 uri)
        in if node \<noteq> [] \<and> has_prefix rest ''.'' \<and> drop 1 rest \<noteq> [] \<and>
              list_all is_digit (drop 1 rest)
           then Some (node, drop 1 rest) else None
      else None)"

definition NewIpnEndpoint :: "string \<Rightarrow> endpoint_type res" where
  "NewIpnEndpoint uri =
     (case regexp_ipn uri of
        None \<Rightarrow> Inl (Errorf ''uri does not match an ipn endpoint'')
      | Some (m1, m2) \<Rightarrow>
          andThen (ParseUint m1) (\<lambda>node.
          andThen (ParseUint m2) (\<lambda>service.
            case ipn_CheckValid node service of
              [] \<Rightarrow> Inr (IpnEndpoint node service) | err # _ \<Rightarrow> Inl err)))"

definition ipn_String :: "u64 \<Rightarrow> u64 \<Rightarrow> string" where
  "ipn_String node service = ''ipn'' @ '':'' @ show_u64 node @ ''.'' @ show_u64 service"

definition ipn_MarshalCbor :: "lib \<Rightarrow> u64 \<Rightarrow> u64 \<Rightarrow> bytes" where
  "ipn_MarshalCbor L node service =
     WriteArrayLength L 2 @ concat (map (WriteUInt L) [node, service])"

definition ipn_UnmarshalCbor :: "lib \<Rightarrow> endpoint_type reader" where
  "ipn_UnmarshalCbor L i =
     andThen (ReadArrayLength L i) (\<lambda>(n, r).
       if n \<noteq> 2 then Inl (Errorf ''ipn uri expected array of 2 elements'')
       else andThen (ReadUInt L r) (\<lambda>(node, r).
            andThen (ReadUInt L r) (\<lambda>(service, r). Inr (IpnEndpoint node service, r))))"

section \<open>Endpoint identifiers\<close>

definition SchemeName :: "endpoint_type \<Rightarrow> string" where
  "SchemeName e = (case e of DtnEndpoint _ \<Rightarrow> ''dtn'' | IpnEndpoint _ _ \<Rightarrow> ''ipn'')"

definition SchemeNo :: "endpoint_type \<Rightarrow> u64" where
  "SchemeNo e =
     (case e of DtnEndpoint _ \<Rightarrow> DtnEndpointSchemeNo | IpnEndpoint _ _ \<Rightarrow> ipnEndpointSchemeNo)"

definition et_Authority :: "endpoint_type \<Rightarrow> string" where
  "et_Authority e = (case e of DtnEndpoint d \<Rightarrow> dtn_Authority d | IpnEndpoint n _ \<Rightarrow> show_u64 n)"

definition et_Path :: "endpoint_type \<Rightarrow> string" where
  "et_Path e = (case e of DtnEndpoint d \<Rightarrow> dtn_Path d | IpnEndpoint _ s \<Rightarrow> show_u64 s)"

definition et_IsSingleton :: "endpoint_type \<Rightarrow> bool" where
  "et_IsSingleton e = (case e of DtnEndpoint d \<Rightarrow> dtn_IsSingleton d | IpnEndpoint _ _ \<Rightarrow> True)"

definition et_CheckValid :: "endpoint_type \<Rightarrow> err list" where
  "et_CheckValid e =
     (case e of DtnEndpoint d \<Rightarrow> dtn_CheckValid d | IpnEndpoint n s \<Rightarrow> ipn_CheckValid n s)"

definition et_IsNone :: "endpoint_type \<Rightarrow> bool" where
  "et_IsNone e = (case e of DtnEndpoint d \<Rightarrow> IsDtnNone d | IpnEndpoint _ _ \<Rightarrow> False)"

definition et_String :: "endpoint_type \<Rightarrow> string" where
  "et_String e = (case e of DtnEndpoint d \<Rightarrow> dtn_String d | IpnEndpoint n s \<Rightarrow> ipn_String n s)"

definition et_MarshalCbor :: "lib \<Rightarrow> endpoint_type \<Rightarrow> bytes" where
  "et_MarshalCbor L e =
     (case e of DtnEndpoint d \<Rightarrow> dtn_MarshalCbor L d | IpnEndpoint n s \<Rightarrow> ipn_MarshalCbor L n s)"

text \<open>The endpoint manager: the constructors by scheme name and the readers by scheme number.\<close>

definition newMap :: "string \<Rightarrow> (string \<Rightarrow> endpoint_type res) option" where
  "newMap scheme =
     (if scheme = ''dtn'' then Some NewDtnEndpoint
      else if scheme = ''ipn'' then Some NewIpnEndpoint else None)"

definition typeMap :: "lib \<Rightarrow> u64 \<Rightarrow> endpoint_type reader option" where
  "typeMap L n =
     (if n = DtnEndpointSchemeNo then Some (dtn_UnmarshalCbor L)
      else if n = ipnEndpointSchemeNo then Some (ipn_UnmarshalCbor L) else None)"

text \<open>The scheme that \<^verbatim>\<open>^([[:alnum:]]+):.+$\<close> captures.\<close>

definition regexp_uri :: "string \<Rightarrow> string option" where
  "regexp_uri uri =
     (let scheme = takeWhile is_alnum uri; rest = dropWhile is_alnum uri
      in if scheme \<noteq> [] \<and> has_prefix rest '':'' \<and> drop 1 rest \<noteq> [] \<and> newline \<notin> set (drop 1 rest)
         then Some scheme else None)"

definition NewEndpointID :: "string \<Rightarrow> endpoint_id res" where
  "NewEndpointID uri =
     (case regexp_uri uri of
        None \<Rightarrow> Inl (Errorf ''given URI does not match URI regexp'')
      | Some scheme \<Rightarrow>
          (case newMap scheme of
             None \<Rightarrow> Inl (Errorf ''no handler registered for URI scheme'')
           | Some f \<Rightarrow> andThen (f uri) (\<lambda>et. Inr (Some et))))"

definition MustNewEndpointID :: "string \<Rightarrow> endpoint_id res" where
  "MustNewEndpointID uri =
     (case NewEndpointID uri of Inl _ \<Rightarrow> Inl (Panic ''MustNewEndpointID'') | Inr ep \<Rightarrow> Inr ep)"

definition eid_CheckValid :: "endpoint_id \<Rightarrow> err list" where
  "eid_CheckValid eid =
     (case eid of None \<Rightarrow> [Errorf ''internal EndpointType is nil''] | Some et \<Rightarrow> et_CheckValid et)"

definition eid_String :: "endpoint_id \<Rightarrow> string" where
  "eid_String eid = (case eid of None \<Rightarrow> ''dtn:none'' | Some et \<Rightarrow> et_String et)"

definition nil_deref :: "'a res" where
  "nil_deref = Inl (Panic ''invalid memory address or nil pointer dereference'')"

definition eid_Authority :: "endpoint_id \<Rightarrow> string res" where
  "eid_Authority eid = (case eid of None \<Rightarrow> nil_deref | Some et \<Rightarrow> Inr (et_Authority et))"

definition eid_Path :: "endpoint_id \<Rightarrow> string res" where
  "eid_Path eid = (case eid of None \<Rightarrow> nil_deref | Some et \<Rightarrow> Inr (et_Path et))"

definition eid_IsSingleton :: "endpoint_id \<Rightarrow> bool res" where
  "eid_IsSingleton eid = (case eid of None \<Rightarrow> nil_deref | Some et \<Rightarrow> Inr (et_IsSingleton et))"

definition SameNode :: "endpoint_id \<Rightarrow> endpoint_id \<Rightarrow> bool" where
  "SameNode eid other =
     (if eid = None \<and> other = None \<or> eid = None \<and> other = DtnNone \<or> eid = DtnNone \<and> other = None
      then True
      else case (eid, other) of
        (Some et1, Some et2) \<Rightarrow> SchemeName et1 = SchemeName et2 \<and> et_Authority et1 = et_Authority et2
      | _ \<Rightarrow> False)"

definition eid_MarshalCbor :: "lib \<Rightarrow> endpoint_id \<Rightarrow> bytes res" where
  "eid_MarshalCbor L eid =
     (case eid_CheckValid eid of
        err # _ \<Rightarrow> Inl err
      | [] \<Rightarrow>
          (case eid of None \<Rightarrow> nil_deref
           | Some et \<Rightarrow>
               Inr (WriteArrayLength L 2 @ WriteUInt L (SchemeNo et) @ et_MarshalCbor L et)))"

definition eid_UnmarshalCbor :: "lib \<Rightarrow> endpoint_id reader" where
  "eid_UnmarshalCbor L i =
     andThen (ReadArrayLength L i) (\<lambda>(l, r).
       if l \<noteq> 2 then Inl (Errorf ''EndpointID expects array of 2 elements'')
       else andThen (ReadUInt L r) (\<lambda>(scheme, r).
         case typeMap L scheme of
           None \<Rightarrow> Inl (Errorf ''no URI scheme registered for scheme number'')
         | Some unmarshal \<Rightarrow> andThen (unmarshal r) (\<lambda>(et, r). Inr (Some et, r))))"

section \<open>Well-formed endpoints\<close>

text \<open>
  The endpoints that RFC 9171 and RFC 6260 describe and that have a serialisation: what
  \<^verbatim>\<open>NewEndpointID\<close> returns, and what survives printing and parsing.
\<close>

definition wf_dtn :: "dtn_endpoint \<Rightarrow> bool" where
  "wf_dtn e \<longleftrightarrow>
     (if IsDtnNone e then NodeName e = '''' \<and> Demux e = ''''
      else NodeName e \<noteq> '''' \<and> list_all node_char (NodeName e) \<and> newline \<notin> set (Demux e))"

definition wf_endpoint :: "endpoint_type \<Rightarrow> bool" where
  "wf_endpoint et =
     (case et of DtnEndpoint e \<Rightarrow> wf_dtn e | IpnEndpoint n s \<Rightarrow> n \<noteq> 0 \<and> s \<noteq> 0)"

definition wf_eid :: "endpoint_id \<Rightarrow> bool" where
  "wf_eid eid =
     (case eid of None \<Rightarrow> False
      | Some et \<Rightarrow> wf_endpoint et \<and> length (et_String et) < 2 ^ 64)"

lemma node_char_not_slash: "\<not> node_char CHR ''/''"
  by code_simp

lemma node_char_not_newline: "\<not> node_char newline"
  by code_simp

lemma takeWhile_run:
  "list_all P xs \<Longrightarrow> \<not> P y \<Longrightarrow> takeWhile P (xs @ y # ys) = xs"
  "list_all P xs \<Longrightarrow> \<not> P y \<Longrightarrow> dropWhile P (xs @ y # ys) = y # ys"
  by (induction xs) auto

lemma match_ssp_build:
  assumes "name \<noteq> []" "list_all node_char name"
  shows "match_ssp (''//'' @ name @ ''/'' @ demux) = Some (name, demux)"
  using assms takeWhile_run [OF assms(2) node_char_not_slash, of demux]
  by (simp add: match_ssp_def has_prefix_def)

lemma match_ssp_SomeD:
  assumes "match_ssp s = Some (name, demux)"
  shows "s = ''//'' @ name @ ''/'' @ demux" "name \<noteq> []" "list_all node_char name"
proof -
  let ?t = "drop 2 s"
  from assms have p: "has_prefix s ''//''" "has_prefix (dropWhile node_char ?t) ''/''"
    and n: "name = takeWhile node_char ?t" "demux = drop 1 (dropWhile node_char ?t)" "name \<noteq> []"
    by (auto simp: match_ssp_def Let_def split: if_splits)
  have "s = ''//'' @ ?t" using has_prefixD [OF p(1)] by (simp add: numeral_2_eq_2)
  moreover have "?t = name @ dropWhile node_char ?t" using n by simp
  moreover have "dropWhile node_char ?t = ''/'' @ demux"
    using has_prefixD [OF p(2)] n(2) by simp
  ultimately show "s = ''//'' @ name @ ''/'' @ demux" by simp
  show "name \<noteq> []" "list_all node_char name"
    using n by (auto simp: list_all_iff dest: set_takeWhileD)
qed

lemma no_slash: "list_all node_char name \<Longrightarrow> list_all (\<lambda>c. c \<noteq> CHR ''/'') name"
  using node_char_not_slash by (auto simp: list_all_iff)

lemma parseDtnSsp_build:
  assumes "name \<noteq> []" "list_all node_char name" "newline \<notin> set demux"
  shows "parseDtnSsp (''//'' @ name @ ''/'' @ demux) = Inr (name, demux, False)"
  using match_ssp_build [OF assms(1,2), of demux] takeWhile_run [OF no_slash [OF assms(2)], of "CHR ''/''" demux]
    assms(3)
  by (simp add: parseDtnSsp_def regexp_ssp_full_def Let_def)

lemma parseDtnSsp_InrD:
  assumes "parseDtnSsp ssp = Inr (name, demux, b)"
  shows "if b then ssp = ''none'' \<and> name = '''' \<and> demux = ''''
    else ssp = ''//'' @ name @ ''/'' @ demux \<and> name \<noteq> [] \<and> list_all node_char name \<and>
      newline \<notin> set demux"
proof (cases "ssp = ''none''")
  case True
  with assms show ?thesis by (auto simp: parseDtnSsp_def)
next
  case False
  with assms have "regexp_ssp_full ssp" by (auto simp: parseDtnSsp_def split: if_splits)
  then obtain n d where m: "match_ssp ssp = Some (n, d)" and d: "newline \<notin> set d"
    by (auto simp: regexp_ssp_full_def split: option.splits)
  note s = match_ssp_SomeD [OF m]
  have "parseDtnSsp ssp = Inr (n, d, False)"
    unfolding s(1) by (rule parseDtnSsp_build [OF s(2,3) d])
  with assms s d show ?thesis by simp
qed

lemma dtn_CheckValid_wf: "wf_dtn e \<Longrightarrow> dtn_CheckValid e = []"
  using match_ssp_build [of "NodeName e" "Demux e"]
  by (auto simp: wf_dtn_def dtn_CheckValid_def dtn_ssp_def split: if_splits)

lemma et_CheckValid_wf: "wf_endpoint et \<Longrightarrow> et_CheckValid et = []"
  by (auto simp: wf_endpoint_def et_CheckValid_def ipn_CheckValid_def dtn_CheckValid_wf
      unsigned_eq_0_iff word_less_1 split: endpoint_type.splits)

lemma wf_eidD: "wf_eid eid \<Longrightarrow> eid_CheckValid eid = []"
  by (auto simp: wf_eid_def eid_CheckValid_def et_CheckValid_wf split: option.splits)

lemma eid_String_nonempty: "et_String et \<noteq> []"
  by (auto simp: et_String_def dtn_String_def ipn_String_def split: endpoint_type.splits)

section \<open>URIs\<close>

lemma NewDtnEndpoint_String:
  assumes "wf_dtn e"
  shows "NewDtnEndpoint (dtn_String e) = Inr (DtnEndpoint e)"
proof (cases "IsDtnNone e")
  case True
  with assms show ?thesis
    by (cases e) (simp add: NewDtnEndpoint_def dtn_String_def wf_dtn_def parseDtnSsp_def
        has_prefix_def dtn_CheckValid_def)
next
  case False
  with assms have "parseDtnSsp (dtn_ssp e) = Inr (NodeName e, Demux e, False)"
    by (simp add: wf_dtn_def dtn_ssp_def parseDtnSsp_build [simplified])
  moreover have "dtn_String e = ''dtn:'' @ dtn_ssp e" using False by (simp add: dtn_String_def dtn_ssp_def)
  moreover have "e = \<lparr>NodeName = NodeName e, Demux = Demux e, IsDtnNone = False\<rparr>"
    using False by (cases e) simp
  ultimately show ?thesis
    using dtn_CheckValid_wf [OF assms] by (simp add: NewDtnEndpoint_def has_prefix_def)
qed

lemma NewDtnEndpoint_InrD:
  assumes "NewDtnEndpoint uri = Inr et"
  shows "wf_endpoint et \<and> et_String et = uri"
proof -
  from assms obtain n d b where p: "has_prefix uri ''dtn:''"
    "parseDtnSsp (drop 4 uri) = Inr (n, d, b)"
    and e: "et = DtnEndpoint (if b then \<lparr>NodeName = '''', Demux = '''', IsDtnNone = True\<rparr>
                 else \<lparr>NodeName = n, Demux = d, IsDtnNone = False\<rparr>)"
    by (auto simp: NewDtnEndpoint_def andThen_eq_Inr Let_def split: if_splits list.splits)
  have "uri = ''dtn:'' @ drop 4 uri" using has_prefixD [OF p(1)] by (simp add: eval_nat_numeral)
  with parseDtnSsp_InrD [OF p(2)] e show ?thesis
    by (auto simp: wf_endpoint_def wf_dtn_def et_String_def dtn_String_def split: if_splits)
qed

lemma digits_split:
  "takeWhile is_digit (show_u64 n @ CHR ''.'' # s) = show_u64 n"
  "dropWhile is_digit (show_u64 n @ CHR ''.'' # s) = CHR ''.'' # s"
proof -
  have "list_all is_digit (show_u64 n)" by (simp add: list_all_iff show_u64_digits)
  moreover have "\<not> is_digit CHR ''.''" by code_simp
  ultimately show "takeWhile is_digit (show_u64 n @ CHR ''.'' # s) = show_u64 n"
    "dropWhile is_digit (show_u64 n @ CHR ''.'' # s) = CHR ''.'' # s"
    by (simp_all add: takeWhile_run)
qed

lemma NewIpnEndpoint_String:
  assumes "n \<noteq> 0" "s \<noteq> 0"
  shows "NewIpnEndpoint (ipn_String n s) = Inr (IpnEndpoint n s)"
proof -
  have "list_all is_digit (show_u64 s)" by (simp add: list_all_iff show_u64_digits)
  then have "regexp_ipn (ipn_String n s) = Some (show_u64 n, show_u64 s)"
    by (simp add: regexp_ipn_def ipn_String_def has_prefix_def digits_split)
  with assms show ?thesis
    by (simp add: NewIpnEndpoint_def ipn_CheckValid_def word_less_1)
qed

lemma NewIpnEndpoint_InrD:
  "NewIpnEndpoint uri = Inr et \<Longrightarrow> wf_endpoint et \<and> (\<exists>n s. et = IpnEndpoint n s)"
  by (auto simp: NewIpnEndpoint_def andThen_eq_Inr ipn_CheckValid_def wf_endpoint_def word_less_1
      split: option.splits list.splits if_splits)

lemma not_alnum_colon: "\<not> is_alnum CHR '':''"
  by code_simp

lemma regexp_uri_build:
  assumes "list_all is_alnum scheme" "scheme \<noteq> []" "rest \<noteq> []" "newline \<notin> set rest"
  shows "regexp_uri (scheme @ '':'' @ rest) = Some scheme"
  using takeWhile_run [OF assms(1) not_alnum_colon, of rest] assms
  by (simp add: regexp_uri_def has_prefix_def)

lemma schemes_alnum: "list_all is_alnum ''dtn''" "list_all is_alnum ''ipn''"
  by code_simp+

lemma not_newline_node: "list_all node_char name \<Longrightarrow> newline \<notin> set name"
  using node_char_not_newline by (auto simp: list_all_iff)

lemma newline_not_digit: "newline \<notin> set (show_u64 n)"
  by (rule not_in_show_u64) code_simp

lemma newline_neq: "newline \<noteq> CHR ''/''" "newline \<noteq> CHR ''n''" "newline \<noteq> CHR ''o''"
    "newline \<noteq> CHR ''e''" "newline \<noteq> CHR ''.''"
  by (simp_all add: newline_def)

lemma regexp_uri_String:
  "wf_endpoint et \<Longrightarrow> regexp_uri (et_String et) = Some (SchemeName et)"
proof (cases et)
  case (DtnEndpoint e)
  assume wf: "wf_endpoint et"
  let ?rest = "if IsDtnNone e then ''none'' else dtn_ssp e"
  have "et_String et = ''dtn'' @ '':'' @ ?rest"
    by (simp add: DtnEndpoint et_String_def dtn_String_def dtn_ssp_def)
  moreover have "?rest \<noteq> []" by (simp add: dtn_ssp_def)
  moreover have "newline \<notin> set ?rest"
    using wf not_newline_node [of "NodeName e"]
    by (auto simp: DtnEndpoint wf_endpoint_def wf_dtn_def dtn_ssp_def newline_neq)
  ultimately show ?thesis
    using regexp_uri_build [OF schemes_alnum(1)] by (simp add: DtnEndpoint SchemeName_def)
next
  case (IpnEndpoint n s)
  have "regexp_uri (''ipn'' @ '':'' @ show_u64 n @ ''.'' @ show_u64 s) = Some ''ipn''"
    by (rule regexp_uri_build [OF schemes_alnum(2)])
      (auto simp: newline_not_digit newline_neq)
  then show ?thesis by (simp add: IpnEndpoint et_String_def ipn_String_def SchemeName_def)
qed

lemma endpoint_uri_rw: "wf_endpoint et \<Longrightarrow> NewEndpointID (et_String et) = Inr (Some et)"
  by (simp add: NewEndpointID_def regexp_uri_String newMap_def)
    (cases et; auto simp: SchemeName_def et_String_def wf_endpoint_def NewDtnEndpoint_String
      NewIpnEndpoint_String)

lemma NewEndpointID_InrD:
  assumes "NewEndpointID uri = Inr eid"
  obtains et where "eid = Some et" "wf_endpoint et"
    "case et of DtnEndpoint _ \<Rightarrow> et_String et = uri | IpnEndpoint _ _ \<Rightarrow> True"
proof -
  from assms obtain scheme f et where "newMap scheme = Some f" "f uri = Inr et" "eid = Some et"
    by (auto simp: NewEndpointID_def andThen_eq_Inr split: option.splits)
  then show thesis
    using that NewDtnEndpoint_InrD [of uri et] NewIpnEndpoint_InrD [of uri et]
    by (auto simp: newMap_def split: if_splits endpoint_type.splits)
qed

section \<open>Serialisation\<close>

context cboring
begin

lemma dtn_rw:
  assumes "wf_dtn e" "length (dtn_String e) < 2 ^ 64"
  shows "dtn_UnmarshalCbor L (dtn_MarshalCbor L e @ r) = Inr (DtnEndpoint e, r)"
proof (cases "IsDtnNone e")
  case True
  with assms show ?thesis
    by (cases e) (simp add: dtn_UnmarshalCbor_def dtn_MarshalCbor_def read_back wf_dtn_def)
next
  case False
  then have s: "dtn_String e = ''dtn:'' @ dtn_ssp e" by (simp add: dtn_String_def dtn_ssp_def)
  then have "length (dtn_ssp e) < 2 ^ 64" using assms(2) by simp
  moreover have "parseDtnSsp (dtn_ssp e) = Inr (NodeName e, Demux e, False)"
    using assms(1) False by (simp add: wf_dtn_def dtn_ssp_def parseDtnSsp_build [simplified])
  moreover have "e = \<lparr>NodeName = NodeName e, Demux = Demux e, IsDtnNone = False\<rparr>"
    using False by (cases e) simp
  ultimately show ?thesis
    using majors_distinct False
    by (simp add: dtn_UnmarshalCbor_def dtn_MarshalCbor_def majors_text raw_text)
qed

lemma ipn_rw: "ipn_UnmarshalCbor L (ipn_MarshalCbor L n s @ r) = Inr (IpnEndpoint n s, r)"
  by (simp add: ipn_UnmarshalCbor_def ipn_MarshalCbor_def read_back)

lemma eid_rw [codec]:
  assumes "wf_eid eid" "eid_MarshalCbor L eid = Inr bs"
  shows "eid_UnmarshalCbor L (bs @ r) = Inr (eid, r)"
proof -
  from assms(1) obtain et where e: "eid = Some et" "wf_endpoint et" "length (et_String et) < 2 ^ 64"
    by (auto simp: wf_eid_def split: option.splits)
  have "bs = WriteArrayLength L 2 @ WriteUInt L (SchemeNo et) @ et_MarshalCbor L et"
    using assms wf_eidD [OF assms(1)] by (simp add: eid_MarshalCbor_def e(1))
  with e show ?thesis
    by (cases et)
      (auto simp: eid_UnmarshalCbor_def read_back typeMap_def SchemeNo_def et_MarshalCbor_def
        wf_endpoint_def et_String_def dtn_rw ipn_rw)
qed

lemma eid_marshals: "wf_eid eid \<Longrightarrow> \<exists>bs. eid_MarshalCbor L eid = Inr bs"
  using wf_eidD by (auto simp: eid_MarshalCbor_def wf_eid_def split: option.splits)

lemma dtn_front: "takes_front (dtn_UnmarshalCbor L)"
  unfolding takes_front_def dtn_UnmarshalCbor_def
  by (auto simp: andThen_eq_Inr split: if_splits
      dest!: takes_frontD [OF majors_front] raw_suffix intro: weak_strict_trans)

lemma ipn_front: "takes_front (ipn_UnmarshalCbor L)"
  unfolding takes_front_def ipn_UnmarshalCbor_def
  by (auto simp: andThen_eq_Inr split: if_splits
      dest!: takes_frontD [OF array_front] takes_frontD [OF uint_front]
      intro: strict_weak_trans strict_weak)

lemma eid_front: "takes_front (eid_UnmarshalCbor L)"
  unfolding takes_front_def eid_UnmarshalCbor_def typeMap_def
  by (auto simp: andThen_eq_Inr split: if_splits option.splits
      dest!: takes_frontD [OF array_front] takes_frontD [OF uint_front]
        takes_frontD [OF dtn_front] takes_frontD [OF ipn_front]
      intro: strict_weak_trans strict_weak)

end

context cboring_stream
begin

lemma dtn_on: "reads_on (dtn_UnmarshalCbor L)"
  unfolding dtn_UnmarshalCbor_def
  by (intro reads_on_bind majors_on; clarsimp; intro reads_on_intros raw_on; clarsimp;
      intro reads_on_intros; clarsimp; intro reads_on_intros)

lemma ipn_on: "reads_on (ipn_UnmarshalCbor L)"
  unfolding ipn_UnmarshalCbor_def
  by (intro reads_on_intros array_on uint_on)

lemma eid_on: "reads_on (eid_UnmarshalCbor L)"
proof -
  have scheme: "reads_on (\<lambda>r. case typeMap L n of None \<Rightarrow> Inl e
      | Some unmarshal \<Rightarrow> andThen (unmarshal r) (\<lambda>(et, r). Inr (Some et, r)))" for n e
    by (auto simp: typeMap_def intro!: reads_on_intros dtn_on ipn_on)
  show ?thesis unfolding eid_UnmarshalCbor_def by (intro reads_on_intros array_on uint_on scheme)
qed

end

text \<open>A concrete endpoint, to evaluate the definitions on.\<close>

definition sample_eid :: endpoint_id where
  "sample_eid = Some (DtnEndpoint \<lparr>NodeName = ''a'', Demux = [], IsDtnNone = False\<rparr>)"

lemma sample_eid_wf: "wf_eid sample_eid"
  by (simp add: sample_eid_def wf_eid_def wf_endpoint_def wf_dtn_def node_char_def is_alnum_def
      newline_def et_String_def dtn_String_def)

lemma sample_eid_bytes:
  "eid_MarshalCbor rfc_lib sample_eid = Inr [130, 1, 100, 47, 47, 97, 47]"
proof -
  have "eid_CheckValid sample_eid = []" by (rule wf_eidD [OF sample_eid_wf])
  then show ?thesis
    by (simp add: eid_MarshalCbor_def)
      (simp add: sample_eid_def dtn_ssp_def rfc_simps rfc_head_def et_MarshalCbor_def
        dtn_MarshalCbor_def SchemeNo_def bytes_of_string_def)
qed

section \<open>Properties\<close>

text \<open>
  Also shown: \<^verbatim>\<open>NewEndpointID\<close> reads the printed form of a well-formed endpoint back as this
  endpoint, of the dtn and of the ipn scheme.
\<close>

theorem endpoint_uri_roundtrip:
  assumes "wf_endpoint et"
  shows "NewEndpointID (et_String et) = Inr (Some et)"
  by (rule endpoint_uri_rw [OF assms])

theorem endpoint_uri_roundtrip_witness:
  "NewEndpointID ''ipn:23.42'' = Inr (Some (IpnEndpoint 23 42))"
proof -
  have "wf_endpoint (IpnEndpoint 23 42)" by (simp add: wf_endpoint_def)
  moreover have "et_String (IpnEndpoint 23 42) = ''ipn:23.42''"
    by (simp add: et_String_def ipn_String_def show_u64_def show_nat.simps)
  ultimately show ?thesis using endpoint_uri_roundtrip by metis
qed

text \<open>
  Also shown: whatever \<^verbatim>\<open>NewEndpointID\<close> accepts is a well-formed endpoint that passes its check,
  and a dtn endpoint prints as the URI it was read from.
\<close>

theorem endpoint_parse_sound:
  assumes "NewEndpointID uri = Inr eid"
  shows "\<exists>et. eid = Some et \<and> wf_endpoint et \<and> eid_CheckValid eid = [] \<and>
    (case et of DtnEndpoint _ \<Rightarrow> eid_String eid = uri | IpnEndpoint n s \<Rightarrow> n \<noteq> 0 \<and> s \<noteq> 0)"
proof -
  from assms obtain et where e: "eid = Some et" "wf_endpoint et"
    "case et of DtnEndpoint _ \<Rightarrow> et_String et = uri | IpnEndpoint _ _ \<Rightarrow> True"
    by (rule NewEndpointID_InrD)
  then show ?thesis
    using et_CheckValid_wf
    by (auto simp: eid_CheckValid_def eid_String_def wf_endpoint_def split: endpoint_type.splits)
qed

theorem endpoint_parse_sound_witness:
  "eid_String (Some (DtnEndpoint \<lparr>NodeName = ''a'', Demux = ''b'', IsDtnNone = False\<rparr>)) = ''dtn://a/b''"
proof -
  let ?e = "DtnEndpoint \<lparr>NodeName = ''a'', Demux = ''b'', IsDtnNone = False\<rparr>"
  have "wf_endpoint ?e"
    by (simp add: wf_endpoint_def wf_dtn_def node_char_def is_alnum_def newline_def)
  moreover have "et_String ?e = ''dtn://a/b''" by (simp add: et_String_def dtn_String_def)
  ultimately have "NewEndpointID ''dtn://a/b'' = Inr (Some ?e)" by (metis endpoint_uri_rw)
  from endpoint_parse_sound [OF this] show ?thesis by simp
qed

lemma regexp_ssp_anywhere_append: "match_ssp t \<noteq> None \<Longrightarrow> regexp_ssp_anywhere (s @ t)"
proof (induction s)
  case Nil
  then show ?case by (cases t) (auto simp: match_ssp_def has_prefix_def)
qed simp

text \<open>
  Also shown: \<^verbatim>\<open>CheckValid\<close> of a dtn endpoint matches its regular expression anywhere in the
  scheme specific part: it accepts every node name that ends in two slashes and a name, whatever
  stands before, and parsing the printed form does not give such an endpoint back.
\<close>

theorem check_accepts_malformed:
  "eid_CheckValid (Some (DtnEndpoint \<lparr>NodeName = n @ ''//a'', Demux = d, IsDtnNone = False\<rparr>)) = [] \<and>
   NewEndpointID (dtn_String \<lparr>NodeName = n @ ''//a'', Demux = d, IsDtnNone = False\<rparr>) \<noteq>
     Inr (Some (DtnEndpoint \<lparr>NodeName = n @ ''//a'', Demux = d, IsDtnNone = False\<rparr>))"
proof
  let ?e = "\<lparr>NodeName = n @ ''//a'', Demux = d, IsDtnNone = False\<rparr>"
  have "match_ssp (''//'' @ ''a'' @ ''/'' @ d) = Some (''a'', d)"
    by (rule match_ssp_build) (simp_all add: node_char_def is_alnum_def)
  then have "regexp_ssp_anywhere ((''//'' @ n) @ (''//'' @ ''a'' @ ''/'' @ d))"
    by (intro regexp_ssp_anywhere_append) simp
  then show "eid_CheckValid (Some (DtnEndpoint ?e)) = []"
    by (simp add: eid_CheckValid_def et_CheckValid_def dtn_CheckValid_def dtn_ssp_def)
  have "\<not> wf_endpoint (DtnEndpoint ?e)"
    using node_char_not_slash by (simp add: wf_endpoint_def wf_dtn_def)
  then show "NewEndpointID (dtn_String ?e) \<noteq> Inr (Some (DtnEndpoint ?e))"
    by (metis NewEndpointID_InrD option.inject)
qed

end
