(* ===== verification/Dtn_Time.thy ===== *)
theory Dtn_Time
  imports Cbor_Lib
begin

text \<open>
  \<^verbatim>\<open>pkg/bpv7/time.go\<close>: DTN time (milliseconds since 2000), its conversion to and from Go's
  \<^verbatim>\<open>time.Time\<close>, and the creation timestamp with its serialisation. A \<^verbatim>\<open>time.Time\<close> is the integer
  number of nanoseconds since the Unix epoch; an \<^verbatim>\<open>int64\<close> is a 64-bit word read with \<open>sint\<close>, so
  that the conversions and the product of a \<^verbatim>\<open>time.Duration\<close> wrap as they do in Go.
\<close>

type_synonym dtn_time = u64
type_synonym time = int
type_synonym creation_timestamp = "u64 \<times> u64"

definition milliseconds1970To2k :: int where "milliseconds1970To2k = 946684800000"
definition milliToSec :: int where "milliToSec = 1000"
definition nanoToMilli :: int where "nanoToMilli = 1000000"
definition DtnTimeEpoch :: dtn_time where [simp]: "DtnTimeEpoch = 0"

definition int64 :: "int \<Rightarrow> int" where
  "int64 n = sint (word_of_int n :: u64)"

definition unixMilliseconds :: "dtn_time \<Rightarrow> int" where
  "unixMilliseconds t = int64 (sint t + milliseconds1970To2k)"

definition Time :: "dtn_time \<Rightarrow> time" where
  "Time t =
     (let unixSec = go_div (unixMilliseconds t) milliToSec;
          unixNano = int64 ((unixMilliseconds t - int64 (unixSec * milliToSec)) * nanoToMilli)
      in unixSec * 1000000000 + unixNano)"

definition UnixNano :: "time \<Rightarrow> int" where
  "UnixNano t = int64 t"

definition DtnTimeFromTime :: "time \<Rightarrow> dtn_time" where
  "DtnTimeFromTime t = word_of_int (go_div (UnixNano t) nanoToMilli - milliseconds1970To2k)"

definition DtnTimeNow :: "time \<Rightarrow> dtn_time" where
  "DtnTimeNow now = DtnTimeFromTime now"

text \<open>\<^verbatim>\<open>time.Duration(ms) * time.Millisecond\<close> for a \<^verbatim>\<open>uint64\<close> number of milliseconds.\<close>

definition duration_of_ms :: "u64 \<Rightarrow> int" where
  "duration_of_ms ms = sint (ms * 1000000)"

definition NewCreationTimestamp :: "dtn_time \<Rightarrow> u64 \<Rightarrow> creation_timestamp" where
  "NewCreationTimestamp t sequence = (t, sequence)"

definition ct_DtnTime :: "creation_timestamp \<Rightarrow> dtn_time" where "ct_DtnTime ct = fst ct"
definition IsZeroTime :: "creation_timestamp \<Rightarrow> bool" where
  "IsZeroTime ct \<longleftrightarrow> ct_DtnTime ct = DtnTimeEpoch"
definition SequenceNumber :: "creation_timestamp \<Rightarrow> u64" where "SequenceNumber ct = snd ct"

definition ct_MarshalCbor :: "lib \<Rightarrow> creation_timestamp \<Rightarrow> bytes" where
  "ct_MarshalCbor L ct =
     WriteArrayLength L 2 @ concat (map (WriteUInt L) [fst ct, snd ct])"

definition ct_UnmarshalCbor :: "lib \<Rightarrow> creation_timestamp reader" where
  "ct_UnmarshalCbor L i =
     andThen (ReadArrayLength L i) (\<lambda>(l, r).
       if l \<noteq> 2 then Inl (Errorf ''expected array with length 2'')
       else andThen (ReadUInt L r) (\<lambda>(t, r).
            andThen (ReadUInt L r) (\<lambda>(s, r). Inr ((t, s), r))))"

context cboring
begin

lemma ct_rw [codec]: "ct_UnmarshalCbor L (ct_MarshalCbor L ct @ r) = Inr (ct, r)"
  by (simp add: ct_UnmarshalCbor_def ct_MarshalCbor_def read_back)

lemma ct_front: "takes_front (ct_UnmarshalCbor L)"
  unfolding takes_front_def ct_UnmarshalCbor_def
  by (auto simp: andThen_eq_Inr split: if_splits
      dest!: takes_frontD [OF array_front] takes_frontD [OF uint_front]
      intro: strict_weak_trans strict_weak)

end

section \<open>Conversions\<close>

lemma int64_small: "- (2 ^ 63) \<le> n \<Longrightarrow> n < 2 ^ 63 \<Longrightarrow> int64 n = n"
  by (simp add: int64_def sint_sbintrunc' signed_take_bit_int_eq_self)

lemma uint_of_unat: "unat (t :: u64) < n \<Longrightarrow> uint t < int n"
  by (metis of_nat_less_iff uint_nat)

lemma int64_nonneg: "0 \<le> n \<Longrightarrow> n < 2 ^ 63 \<Longrightarrow> int64 n = n"
  by (rule int64_small) simp_all

lemma sint_small: "unat (t :: u64) < 2 ^ 63 \<Longrightarrow> sint t = int (unat t)"
proof -
  assume h: "unat t < 2 ^ 63"
  then have "int64 (int (unat t)) = int (unat t)"
    using uint_of_unat [OF h] by (intro int64_nonneg) auto
  then show ?thesis by (simp add: int64_def)
qed

lemma go_div_nonneg: "0 \<le> a \<Longrightarrow> 0 < b \<Longrightarrow> go_div a b = a div b"
  by (simp add: go_div_def signed_divide_int_def sgn_if)

text \<open>Every DTN time up to 2262 is the number of milliseconds after the start of 2000.\<close>

lemma Time_small:
  assumes "unat t \<le> 8276687236853"
  shows "Time t = (int (unat t) + milliseconds1970To2k) * 1000000"
proof -
  let ?m = "uint t + 946684800000"
  have lt: "uint t < 8276687236854" using uint_of_unat [of t 8276687236854] assms by simp
  have "sint t = uint t" using assms by (simp add: sint_small)
  moreover have "int64 ?m = ?m" using lt by (intro int64_small) auto
  ultimately have u: "unixMilliseconds t = ?m"
    by (simp add: unixMilliseconds_def milliseconds1970To2k_def)
  have d: "go_div ?m 1000 = ?m div 1000" by (simp add: go_div_nonneg)
  have "int64 (?m div 1000 * 1000) = ?m div 1000 * 1000"
    using lt by (intro int64_nonneg) (auto simp: pos_imp_zdiv_nonneg_iff)
  moreover have "int64 ((?m - ?m div 1000 * 1000) * 1000000) = (?m - ?m div 1000 * 1000) * 1000000"
    by (intro int64_small) (auto simp: minus_div_mult_eq_mod pos_mod_bound
        intro: order.strict_trans1 [of _ "999 * 1000000"])
  ultimately show ?thesis
    by (simp add: Time_def Let_def u d milliToSec_def nanoToMilli_def milliseconds1970To2k_def
        algebra_simps)
qed

lemma DtnTimeFromTime_small:
  assumes "unat t \<le> 8276687236853" "0 \<le> ns" "ns < 1000000"
  shows "DtnTimeFromTime ((int (unat t) + milliseconds1970To2k) * 1000000 + ns) = t"
proof -
  let ?m = "int (unat t) + 946684800000"
  have lt: "uint t < 8276687236854" using uint_of_unat [of t 8276687236854] assms by simp
  have "int64 (?m * 1000000 + ns) = ?m * 1000000 + ns"
    using assms lt by (intro int64_small) auto
  moreover have "(?m * 1000000 + ns) div 1000000 = ?m"
    using assms by simp
  ultimately have "DtnTimeFromTime (?m * 1000000 + ns) = word_of_int (int (unat t))"
    using assms
    by (simp add: DtnTimeFromTime_def UnixNano_def nanoToMilli_def milliseconds1970To2k_def
        go_div_nonneg)
  then show ?thesis by (simp add: milliseconds1970To2k_def)
qed

lemma duration_small: "unat ms \<le> 9223372036854 \<Longrightarrow> duration_of_ms ms = int (unat ms) * 1000000"
proof -
  assume h: "unat ms \<le> 9223372036854"
  have "unat (ms * 1000000) = unat ms * 1000000"
    using h by (simp add: unat_word_ariths)
  then show ?thesis using h by (simp add: duration_of_ms_def sint_small)
qed

section \<open>Properties\<close>

text \<open>
  Also shown: a DTN time up to the year 2262 survives the conversion to a \<^verbatim>\<open>time.Time\<close> and back,
  also when the clock has advanced within the millisecond.
\<close>

theorem dtn_time_roundtrip:
  assumes "unat t \<le> 8276687236853" and "0 \<le> ns" and "ns < 1000000"
  shows "DtnTimeFromTime (Time t + ns) = t"
  using DtnTimeFromTime_small [OF assms] Time_small [OF assms(1)] by simp

theorem dtn_time_roundtrip_witness: "DtnTimeFromTime (Time 800000000000 + 999999) = 800000000000"
  by (rule dtn_time_roundtrip) simp_all

end
