(* ===== verification/Flags.thy ===== *)
theory Flags
  imports Go_Std
begin

text \<open>
  \<^verbatim>\<open>pkg/bpv7/bundle_control_flags.go\<close> and \<^verbatim>\<open>block_control_flags.go\<close>: the processing control
  flags of a bundle and of a block as 64-bit masks, the check of a bundle's flags, and the names
  of the flags that are set. A \<^verbatim>\<open>CheckValid\<close> returns the list of errors it collects.
\<close>

type_synonym bundle_control_flags = u64
type_synonym block_control_flags = u64

definition IsFragment :: bundle_control_flags where "IsFragment = 0x000001"
definition AdministrativeRecordPayload :: bundle_control_flags where
  "AdministrativeRecordPayload = 0x000002"
definition MustNotFragmented :: bundle_control_flags where "MustNotFragmented = 0x000004"
definition RequestUserApplicationAck :: bundle_control_flags where
  "RequestUserApplicationAck = 0x000020"
definition RequestStatusTime :: bundle_control_flags where "RequestStatusTime = 0x000040"
definition StatusRequestReception :: bundle_control_flags where
  "StatusRequestReception = 0x004000"
definition StatusRequestForward :: bundle_control_flags where "StatusRequestForward = 0x010000"
definition StatusRequestDelivery :: bundle_control_flags where
  "StatusRequestDelivery = 0x020000"
definition StatusRequestDeletion :: bundle_control_flags where
  "StatusRequestDeletion = 0x040000"

lemmas bundle_flag_defs =
  IsFragment_def AdministrativeRecordPayload_def MustNotFragmented_def
  RequestUserApplicationAck_def RequestStatusTime_def StatusRequestReception_def
  StatusRequestForward_def StatusRequestDelivery_def StatusRequestDeletion_def

definition Has :: "u64 \<Rightarrow> u64 \<Rightarrow> bool" where
  "Has bcf flag \<longleftrightarrow> bcf AND flag \<noteq> 0"

definition bcf_CheckValid :: "bundle_control_flags \<Rightarrow> err list" where
  "bcf_CheckValid bcf =
     (if Has bcf IsFragment \<and> Has bcf MustNotFragmented
      then [Errorf ''both fragment and must not be fragmented flags are set''] else []) @
     (let adminRecCheck = (\<not> Has bcf AdministrativeRecordPayload \<or>
            (\<not> Has bcf StatusRequestReception \<and> \<not> Has bcf StatusRequestForward \<and>
             \<not> Has bcf StatusRequestDelivery \<and> \<not> Has bcf StatusRequestDeletion))
      in if \<not> adminRecCheck
         then [Errorf ''administrative record => no status report request flags failed''] else [])"

definition bcf_Strings :: "bundle_control_flags \<Rightarrow> string list" where
  "bcf_Strings bcf =
     map snd (filter (\<lambda>(field, _). Has bcf field)
       [(StatusRequestDeletion, ''REQUESTED_DELETION_STATUS_REPORT''),
        (StatusRequestDelivery, ''REQUESTED_DELIVERY_STATUS_REPORT''),
        (StatusRequestForward, ''REQUESTED_FORWARD_STATUS_REPORT''),
        (StatusRequestReception, ''REQUESTED_RECEPTION_STATUS_REPORT''),
        (RequestStatusTime, ''REQUESTED_TIME_IN_STATUS_REPORT''),
        (RequestUserApplicationAck, ''REQUESTED_APPLICATION_ACK''),
        (MustNotFragmented, ''MUST_NOT_BE_FRAGMENTED''),
        (AdministrativeRecordPayload, ''ADMINISTRATIVE_PAYLOAD''),
        (IsFragment, ''IS_FRAGMENT'')])"

definition ReplicateBlock :: block_control_flags where "ReplicateBlock = 0x01"
definition StatusReportBlock :: block_control_flags where "StatusReportBlock = 0x02"
definition DeleteBundle :: block_control_flags where "DeleteBundle = 0x04"
definition RemoveBlock :: block_control_flags where "RemoveBlock = 0x10"

definition blockcf_CheckValid :: "block_control_flags \<Rightarrow> err list" where
  "blockcf_CheckValid bcf = []"

definition blockcf_Strings :: "block_control_flags \<Rightarrow> string list" where
  "blockcf_Strings bcf =
     map snd (filter (\<lambda>(field, _). Has bcf field)
       [(DeleteBundle, ''DELETE_BUNDLE''), (StatusReportBlock, ''REQUEST_STATUS_REPORT''),
        (RemoveBlock, ''REMOVE_BLOCK''), (ReplicateBlock, ''REPLICATE_BLOCK'')])"

section \<open>Single bits\<close>

text \<open>Every flag is a single bit, so setting one leaves the others as they are.\<close>

lemma Has_bit: "n < 64 \<Longrightarrow> Has w (2 ^ n) \<longleftrightarrow> bit w n"
  by (simp add: Has_def and_exp_eq_0_iff_not_bit)

lemma flag_bits:
  "IsFragment = 2 ^ 0" "AdministrativeRecordPayload = 2 ^ 1" "MustNotFragmented = 2 ^ 2"
  "StatusRequestReception = 2 ^ 14" "StatusRequestForward = 2 ^ 16"
  "StatusRequestDelivery = 2 ^ 17" "StatusRequestDeletion = 2 ^ 18"
  "RequestStatusTime = 2 ^ 6" "RequestUserApplicationAck = 2 ^ 5"
  by (simp_all add: bundle_flag_defs)

lemma Has_or: "Has (w OR v) f \<longleftrightarrow> Has w f \<or> Has v f"
  by (simp add: Has_def bit.conj_disj_distrib2 or_eq_0_iff)

lemma Has_set [simp]: "Has (w OR IsFragment) IsFragment"
  by (simp add: Has_or) (simp add: Has_def IsFragment_def)

lemma Has_setting_fragment:
  "Has (w OR IsFragment) MustNotFragmented \<longleftrightarrow> Has w MustNotFragmented"
  "Has (w OR IsFragment) AdministrativeRecordPayload \<longleftrightarrow> Has w AdministrativeRecordPayload"
  "Has (w OR IsFragment) StatusRequestReception \<longleftrightarrow> Has w StatusRequestReception"
  "Has (w OR IsFragment) StatusRequestForward \<longleftrightarrow> Has w StatusRequestForward"
  "Has (w OR IsFragment) StatusRequestDelivery \<longleftrightarrow> Has w StatusRequestDelivery"
  "Has (w OR IsFragment) StatusRequestDeletion \<longleftrightarrow> Has w StatusRequestDeletion"
  by (simp_all add: Has_or) (simp_all add: Has_def bundle_flag_defs)

lemma bcf_CheckValid_ok:
  "bcf_CheckValid w = [] \<longleftrightarrow>
     \<not> (Has w IsFragment \<and> Has w MustNotFragmented) \<and>
     (Has w AdministrativeRecordPayload \<longrightarrow>
       \<not> Has w StatusRequestReception \<and> \<not> Has w StatusRequestForward \<and>
       \<not> Has w StatusRequestDelivery \<and> \<not> Has w StatusRequestDeletion)"
  by (auto simp: bcf_CheckValid_def Let_def)

lemma Has_andnot: "Has (w AND NOT IsFragment) IsFragment \<longleftrightarrow> False"
  by (simp add: Has_def and.assoc)

end
