(* ===== verification/Crc.thy ===== *)
theory Crc
  imports Cbor_Lib
begin

text \<open>
  \<^verbatim>\<open>pkg/bpv7/crc.go\<close>: the CRC types of a block and the CRC of a block's bytes. The value is
  computed over the block with a zeroed CRC field appended. CRC-32C is the standard library's
  (\<open>crc32c\<close>), CRC-16 the third-party package's (\<open>Checksum16 L\<close>).
\<close>

type_synonym crc_type = u64

definition CRCNo :: crc_type where [simp]: "CRCNo = 0"
definition CRC16 :: crc_type where [simp]: "CRC16 = 1"
definition CRC32 :: crc_type where [simp]: "CRC32 = 2"

definition CRCType_String :: "crc_type \<Rightarrow> string" where
  "CRCType_String c =
     (if c = CRCNo then ''no'' else if c = CRC16 then ''16'' else if c = CRC32 then ''32''
      else ''unknown'')"

definition emptyCRC :: "crc_type \<Rightarrow> bytes res" where
  "emptyCRC crcType =
     (if crcType = CRCNo then Inr []
      else if crcType = CRC16 then Inr (replicate 2 0)
      else if crcType = CRC32 then Inr (replicate 4 0)
      else Inl (Errorf ''unknown CRCType''))"

definition calculateCRCBuff :: "lib \<Rightarrow> bytes \<Rightarrow> crc_type \<Rightarrow> bytes res" where
  "calculateCRCBuff L buff crcType =
     andThen (emptyCRC crcType) (\<lambda>data.
       let buff' = buff @ WriteByteString L data
       in if crcType = CRCNo then Inr data
          else if crcType = CRC16 then Inr (PutUint16 (Checksum16 L buff'))
          else if crcType = CRC32 then Inr (PutUint32 (crc32c buff'))
          else Inl (Errorf ''unknown CRCType''))"

definition known_crc :: "crc_type \<Rightarrow> bool" where
  "known_crc t \<longleftrightarrow> t = CRCNo \<or> t = CRC16 \<or> t = CRC32"

text \<open>The number of bytes of a CRC value, by type.\<close>

definition crc_size :: "crc_type \<Rightarrow> nat" where
  "crc_size t = (if t = CRC16 then 2 else if t = CRC32 then 4 else 0)"

lemma calculateCRCBuff_length:
  "calculateCRCBuff L buff t = Inr v \<Longrightarrow> length v = crc_size t"
  by (auto simp: calculateCRCBuff_def emptyCRC_def crc_size_def Let_def andThen_eq_Inr
      split: if_splits)

lemma calculateCRCBuff_ok_iff: "(\<exists>v. calculateCRCBuff L buff t = Inr v) \<longleftrightarrow> known_crc t"
  by (auto simp: calculateCRCBuff_def emptyCRC_def known_crc_def Let_def)

lemma calculateCRCBuff_short: "calculateCRCBuff L buff t = Inr v \<Longrightarrow> length v < 2 ^ 64"
  by (drule calculateCRCBuff_length) (simp add: crc_size_def)

end
