(* ===== verification/Primary.thy ===== *)
theory Primary
  imports Endpoint Dtn_Time Flags Crc
begin

text \<open>
  \<^verbatim>\<open>pkg/bpv7/primary_block.go\<close>: the primary block, its CRC, serialisation and checks.
  \<^verbatim>\<open>MarshalCbor\<close> stores the CRC it computes in the block, so it returns the bytes and the block. The
  CRC of a block that is read covers everything consumed since the block's first byte.
\<close>

definition dtnVersion :: u64 where "dtnVersion = 7"

record primary_block =
  Version :: u64
  BundleControlFlags :: bundle_control_flags
  pb_CRCType :: crc_type
  Destination :: endpoint_id
  SourceNode :: endpoint_id
  ReportTo :: endpoint_id
  CreationTimestamp :: creation_timestamp
  Lifetime :: u64
  FragmentOffset :: u64
  TotalDataLength :: u64
  pb_CRC :: bytes

definition HasFragmentation :: "primary_block \<Rightarrow> bool" where
  "HasFragmentation pb \<longleftrightarrow> Has (BundleControlFlags pb) IsFragment"

definition pb_HasCRC :: "primary_block \<Rightarrow> bool" where
  "pb_HasCRC pb \<longleftrightarrow> pb_CRCType pb \<noteq> CRCNo"

text \<open>The fields in front of the CRC.\<close>

definition pb_body :: "lib \<Rightarrow> primary_block \<Rightarrow> bytes res" where
  "pb_body L pb =
     (let blockLen =
        (case (HasFragmentation pb, pb_HasCRC pb) of
           (False, False) \<Rightarrow> 8 | (False, True) \<Rightarrow> 9 | (True, False) \<Rightarrow> 10 | (True, True) \<Rightarrow> 11)
      in andThen (wrapping ''EndpointID failed'' (eid_MarshalCbor L (Destination pb))) (\<lambda>dst.
         andThen (wrapping ''EndpointID failed'' (eid_MarshalCbor L (SourceNode pb))) (\<lambda>src.
         andThen (wrapping ''EndpointID failed'' (eid_MarshalCbor L (ReportTo pb))) (\<lambda>rpt.
           Inr (WriteArrayLength L blockLen @
             concat (map (WriteUInt L) [dtnVersion, BundleControlFlags pb, pb_CRCType pb]) @
             dst @ src @ rpt @ ct_MarshalCbor L (CreationTimestamp pb) @ WriteUInt L (Lifetime pb) @
             (if HasFragmentation pb
              then concat (map (WriteUInt L) [FragmentOffset pb, TotalDataLength pb]) else []))))))"

definition pb_MarshalCbor :: "lib \<Rightarrow> primary_block \<Rightarrow> (bytes \<times> primary_block) res" where
  "pb_MarshalCbor L pb =
     andThen (pb_body L pb) (\<lambda>buff.
       if pb_HasCRC pb
       then andThen (calculateCRCBuff L buff (pb_CRCType pb)) (\<lambda>crcVal.
              Inr (buff @ WriteByteString L crcVal, pb\<lparr>pb_CRC := crcVal\<rparr>))
       else Inr (buff, pb))"

definition pb_calculateCRC :: "lib \<Rightarrow> primary_block \<Rightarrow> primary_block" where
  "pb_calculateCRC L pb =
     (case pb_MarshalCbor L (pb\<lparr>pb_CRC := []\<rparr>) of Inl _ \<Rightarrow> pb\<lparr>pb_CRC := []\<rparr> | Inr (_, pb') \<Rightarrow> pb')"

definition NewPrimaryBlock ::
  "lib \<Rightarrow> bundle_control_flags \<Rightarrow> endpoint_id \<Rightarrow> endpoint_id \<Rightarrow> creation_timestamp \<Rightarrow> u64 \<Rightarrow>
   primary_block" where
  "NewPrimaryBlock L bcf destination sourceNode creationTimestamp lifetime =
     pb_calculateCRC L
       \<lparr>Version = dtnVersion, BundleControlFlags = bcf, pb_CRCType = CRC32,
        Destination = destination, SourceNode = sourceNode, ReportTo = sourceNode,
        CreationTimestamp = creationTimestamp, Lifetime = lifetime, FragmentOffset = 0,
        TotalDataLength = 0, pb_CRC = []\<rparr>"

definition pb_SetCRCType :: "lib \<Rightarrow> crc_type \<Rightarrow> primary_block \<Rightarrow> primary_block" where
  "pb_SetCRCType L crcType pb =
     pb_calculateCRC L (pb\<lparr>pb_CRCType := (if crcType = CRCNo then CRC32 else crcType)\<rparr>)"

text \<open>The fields in front of the CRC, and the array length that says whether there is one.\<close>

definition pb_fields :: "lib \<Rightarrow> (u64 \<times> primary_block) reader" where
  "pb_fields L i =
     andThen (ReadArrayLength L i) (\<lambda>(blockLen, r).
     if \<not> (8 \<le> blockLen \<and> blockLen \<le> 11)
     then Inl (Errorf ''expected array with 8 to 11 elements'')
     else andThen (ReadUInt L r) (\<lambda>(version, r).
     if version \<noteq> dtnVersion then Inl (Errorf ''expected version 7'')
     else andThen (ReadUInt L r) (\<lambda>(bcf, r).
     andThen (ReadUInt L r) (\<lambda>(crcT, r).
     andThen (wrapping ''EndpointID failed'' (eid_UnmarshalCbor L r)) (\<lambda>(dst, r).
     andThen (wrapping ''EndpointID failed'' (eid_UnmarshalCbor L r)) (\<lambda>(src, r).
     andThen (wrapping ''EndpointID failed'' (eid_UnmarshalCbor L r)) (\<lambda>(rpt, r).
     andThen (wrapping ''CreationTimestamp failed'' (ct_UnmarshalCbor L r)) (\<lambda>(ct, r).
     andThen (ReadUInt L r) (\<lambda>(lt, r).
     andThen (if blockLen = 10 \<or> blockLen = 11
              then andThen (ReadUInt L r) (\<lambda>(off, r).
                   andThen (ReadUInt L r) (\<lambda>(total, r). Inr ((off, total), r)))
              else Inr ((0, 0), r)) (\<lambda>((off, total), r).
     Inr ((blockLen, \<lparr>Version = dtnVersion, BundleControlFlags = bcf, pb_CRCType = crcT,
           Destination = dst, SourceNode = src, ReportTo = rpt, CreationTimestamp = ct,
           Lifetime = lt, FragmentOffset = off, TotalDataLength = total, pb_CRC = []\<rparr>), r)))))))))))"

definition pb_UnmarshalCbor :: "lib \<Rightarrow> primary_block reader" where
  "pb_UnmarshalCbor L i =
     andThen (pb_fields L i) (\<lambda>((blockLen, pb), r).
       if blockLen = 9 \<or> blockLen = 11
       then andThen (calculateCRCBuff L (consumed i r) (pb_CRCType pb)) (\<lambda>crcCalc.
            andThen (ReadByteString L r) (\<lambda>(crcVal, r).
              if crcCalc \<noteq> crcVal then Inl (Errorf ''invalid CRC value'')
              else Inr (pb\<lparr>pb_CRC := crcVal\<rparr>, r)))
       else Inr (pb, r))"

definition pb_CheckValid :: "primary_block \<Rightarrow> err list" where
  "pb_CheckValid pb =
     (if Version pb \<noteq> dtnVersion then [Errorf ''PrimaryBlock: Wrong Version''] else []) @
     bcf_CheckValid (BundleControlFlags pb) @
     eid_CheckValid (Destination pb) @
     eid_CheckValid (SourceNode pb) @
     eid_CheckValid (ReportTo pb) @
     (let bpcfImpl = (\<not> (SourceNode pb = DtnNone) \<or>
            (Has (BundleControlFlags pb) MustNotFragmented \<and>
             \<not> Has (BundleControlFlags pb) StatusRequestReception \<and>
             \<not> Has (BundleControlFlags pb) StatusRequestForward \<and>
             \<not> Has (BundleControlFlags pb) StatusRequestDelivery \<and>
             \<not> Has (BundleControlFlags pb) StatusRequestDeletion))
      in if \<not> bpcfImpl
         then [Errorf ''Source Node is dtn:none, but Bundle could be fragmented or status report flags are not zero'']
         else [])"

section \<open>Reading back what was written\<close>

definition wf_pb :: "primary_block \<Rightarrow> bool" where
  "wf_pb pb \<longleftrightarrow> Version pb = dtnVersion \<and>
     wf_eid (Destination pb) \<and> wf_eid (SourceNode pb) \<and> wf_eid (ReportTo pb) \<and>
     (\<not> HasFragmentation pb \<longrightarrow> FragmentOffset pb = 0 \<and> TotalDataLength pb = 0) \<and>
     (\<not> pb_HasCRC pb \<longrightarrow> pb_CRC pb = [])"

lemma pb_body_CRC [simp]: "pb_body L (pb\<lparr>pb_CRC := c\<rparr>) = pb_body L pb"
  by (simp add: pb_body_def HasFragmentation_def pb_HasCRC_def)

lemma pb_CheckValid_CRC [simp]: "pb_CheckValid (pb\<lparr>pb_CRC := c\<rparr>) = pb_CheckValid pb"
  by (simp add: pb_CheckValid_def)

lemma pb_MarshalCbor_CRC: "pb_MarshalCbor L pb = Inr (bs, pb') \<Longrightarrow> \<exists>c. pb' = pb\<lparr>pb_CRC := c\<rparr>"
  by (auto simp: pb_MarshalCbor_def andThen_eq_Inr split: if_splits intro: exI [of _ "pb_CRC pb"])

context cboring
begin

lemma pb_fields_rw:
  assumes wf: "wf_pb pb" and body: "pb_body L pb = Inr buff"
  shows "pb_fields L (buff @ r) =
    Inr ((if HasFragmentation pb then if pb_HasCRC pb then 11 else 10
          else if pb_HasCRC pb then 9 else 8, pb\<lparr>pb_CRC := []\<rparr>), r)"
proof -
  obtain dst src rpt where
    eids: "eid_MarshalCbor L (Destination pb) = Inr dst" "eid_MarshalCbor L (SourceNode pb) = Inr src"
      "eid_MarshalCbor L (ReportTo pb) = Inr rpt"
    using body by (auto simp: pb_body_def Let_def andThen_eq_Inr)
  note rd = eid_rw [OF _ eids(1)] eid_rw [OF _ eids(2)] eid_rw [OF _ eids(3)]
  have eta: "\<lparr>Version = Version pb, BundleControlFlags = BundleControlFlags pb,
      pb_CRCType = pb_CRCType pb, Destination = Destination pb, SourceNode = SourceNode pb,
      ReportTo = ReportTo pb, CreationTimestamp = CreationTimestamp pb, Lifetime = Lifetime pb,
      FragmentOffset = FragmentOffset pb, TotalDataLength = TotalDataLength pb,
      pb_CRC = []\<rparr> = pb\<lparr>pb_CRC := []\<rparr>"
    by (cases pb) simp
  show ?thesis
    using wf body rd eta
    by (cases "HasFragmentation pb"; cases "pb_HasCRC pb")
      (auto simp: wf_pb_def pb_body_def Let_def eids pb_fields_def read_back ct_rw)
qed

lemma pb_rw [codec]:
  assumes wf: "wf_pb pb" and m: "pb_MarshalCbor L pb = Inr (bs, pb')"
  shows "pb_UnmarshalCbor L (bs @ r) = Inr (pb', r)"
proof -
  from m obtain buff where body: "pb_body L pb = Inr buff"
    by (auto simp: pb_MarshalCbor_def andThen_eq_Inr)
  note f = pb_fields_rw [OF wf body]
  show ?thesis
  proof (cases "pb_HasCRC pb")
    case False
    then have "bs = buff" "pb' = pb" "pb\<lparr>pb_CRC := []\<rparr> = pb"
      using m wf by (simp_all add: pb_MarshalCbor_def body wf_pb_def)
    with False show ?thesis by (simp add: pb_UnmarshalCbor_def f)
  next
    case True
    then obtain crc where crc: "calculateCRCBuff L buff (pb_CRCType pb) = Inr crc"
      and m': "bs = buff @ WriteByteString L crc" "pb' = pb\<lparr>pb_CRC := crc\<rparr>"
      using m by (auto simp: pb_MarshalCbor_def body andThen_eq_Inr)
    with True show ?thesis
      by (simp add: pb_UnmarshalCbor_def f byte_string_rw [OF calculateCRCBuff_short [OF crc]])
  qed
qed

text \<open>A block that was read with a CRC field carries the CRC of its own bytes.\<close>

lemma pb_fields_front: "takes_front (pb_fields L)"
  unfolding takes_front_def pb_fields_def
  by (auto simp: andThen_eq_Inr split: if_splits
      dest!: takes_frontD [OF array_front] takes_frontD [OF uint_front]
        takes_frontD [OF eid_front] takes_frontD [OF ct_front])
    (metis strict_suffix_trans)+

lemma pb_front: "takes_front (pb_UnmarshalCbor L)"
  unfolding takes_front_def pb_UnmarshalCbor_def
  by (auto simp: andThen_eq_Inr split: if_splits dest!: takes_frontD [OF pb_fields_front]
      takes_frontD [OF byte_string_front] intro: strict_suffix_trans)

lemma pb_read_CRC:
  assumes "pb_UnmarshalCbor L i = Inr (pb, r)" "pb_CRC pb \<noteq> []"
  shows "\<exists>body rest. i = body @ rest \<and> calculateCRCBuff L body (pb_CRCType pb) = Inr (pb_CRC pb) \<and>
    ReadByteString L rest = Inr (pb_CRC pb, r)"
proof -
  from assms(1) obtain n pb0 r0 where f: "pb_fields L i = Inr ((n, pb0), r0)"
    and u: "(if n = 9 \<or> n = 11
       then andThen (calculateCRCBuff L (consumed i r0) (pb_CRCType pb0)) (\<lambda>crcCalc.
            andThen (ReadByteString L r0) (\<lambda>(crcVal, r).
              if crcCalc \<noteq> crcVal then Inl (Errorf ''invalid CRC value'')
              else Inr (pb0\<lparr>pb_CRC := crcVal\<rparr>, r)))
       else Inr (pb0, r0)) = Inr (pb, r)"
    unfolding pb_UnmarshalCbor_def by (auto simp: andThen_eq_Inr)
  have "pb_CRC pb0 = []" using f by (auto simp: pb_fields_def andThen_eq_Inr split: if_splits)
  with u assms(2) have "calculateCRCBuff L (consumed i r0) (pb_CRCType pb) = Inr (pb_CRC pb)"
    "ReadByteString L r0 = Inr (pb_CRC pb, r)"
    by (auto simp: andThen_eq_Inr split: if_splits)
  moreover have "weak_suffix r0 i" using pb_fields_front f by (auto dest: takes_frontD strict_weak)
  then have "i = consumed i r0 @ r0" by (simp add: consumed_of_suffix)
  ultimately show ?thesis by blast
qed

end

text \<open>A concrete block, to evaluate the definitions on.\<close>

definition sample_primary :: primary_block where
  "sample_primary =
     \<lparr>Version = 7, BundleControlFlags = 0, pb_CRCType = CRCNo, Destination = sample_eid,
      SourceNode = sample_eid, ReportTo = sample_eid, CreationTimestamp = (1, 0), Lifetime = 9,
      FragmentOffset = 0, TotalDataLength = 0, pb_CRC = []\<rparr>"

lemma sample_primary_bytes:
  "pb_MarshalCbor rfc_lib sample_primary =
   Inr ([136, 7, 0, 0, 130, 1, 100, 47, 47, 97, 47, 130, 1, 100, 47, 47, 97, 47, 130, 1, 100, 47,
     47, 97, 47, 130, 1, 0, 9], sample_primary)"
  by (simp add: sample_primary_def pb_MarshalCbor_def pb_body_def sample_eid_bytes
      HasFragmentation_def pb_HasCRC_def Has_def rfc_simps rfc_head_def dtnVersion_def
      ct_MarshalCbor_def)

lemma sample_primary_wf: "wf_pb sample_primary"
  by (simp add: sample_primary_def wf_pb_def dtnVersion_def sample_eid_wf pb_HasCRC_def)

section \<open>Properties\<close>

text \<open>
  Also shown: a primary block that was read with a CRC value carries the CRC of exactly the bytes in
  front of the CRC field: a block whose bytes do not match its CRC is never accepted.
\<close>

theorem primary_crc_verified:
  assumes "cboring L" and "pb_UnmarshalCbor L i = Inr (pb, r)" and "pb_CRC pb \<noteq> []"
  shows "\<exists>body rest. i = body @ rest \<and>
    calculateCRCBuff L body (pb_CRCType pb) = Inr (pb_CRC pb) \<and>
    ReadByteString L rest = Inr (pb_CRC pb, r)"
  by (rule cboring.pb_read_CRC [OF assms])

lemma pb_marshals:
  assumes "wf_pb pb" "known_crc (pb_CRCType pb)" "cboring L"
  obtains bs pb' where "pb_MarshalCbor L pb = Inr (bs, pb')"
proof -
  obtain d s r where "eid_MarshalCbor L (Destination pb) = Inr d"
    "eid_MarshalCbor L (SourceNode pb) = Inr s" "eid_MarshalCbor L (ReportTo pb) = Inr r"
    using assms cboring.eid_marshals by (metis wf_pb_def)
  then obtain body where "pb_body L pb = Inr body" by (simp add: pb_body_def Let_def)
  moreover obtain v where "calculateCRCBuff L body (pb_CRCType pb) = Inr v"
    using assms(2) calculateCRCBuff_ok_iff by blast
  ultimately show thesis
    using that by (cases "pb_HasCRC pb") (simp_all add: pb_MarshalCbor_def)
qed

theorem primary_crc_verified_witness:
  "\<exists>i pb body rest. pb_UnmarshalCbor rfc_lib i = Inr (pb, []) \<and> i = body @ rest \<and>
    pb_CRCType pb = CRC32 \<and> calculateCRCBuff rfc_lib body CRC32 = Inr (pb_CRC pb)"
proof -
  let ?pb = "sample_primary\<lparr>pb_CRCType := CRC32\<rparr>"
  have wf: "wf_pb ?pb"
    using sample_primary_wf by (simp add: wf_pb_def pb_HasCRC_def HasFragmentation_def sample_primary_def)
  obtain bs pb' where m: "pb_MarshalCbor rfc_lib ?pb = Inr (bs, pb')"
    using pb_marshals [OF wf _ cboring_rfc] by (auto simp: known_crc_def)
  have t: "pb_CRCType pb' = CRC32" using pb_MarshalCbor_CRC [OF m] by auto
  have "length (pb_CRC pb') = 4"
    using m calculateCRCBuff_length
    by (fastforce simp: pb_MarshalCbor_def andThen_eq_Inr pb_HasCRC_def crc_size_def)
  then have "pb_CRC pb' \<noteq> []" by auto
  moreover have "pb_UnmarshalCbor rfc_lib (bs @ []) = Inr (pb', [])"
    by (rule cboring.pb_rw [OF cboring_rfc wf m])
  ultimately show ?thesis
    using primary_crc_verified [OF cboring_rfc] t by (metis append_Nil2)
qed

text \<open>
  Also shown: the array length alone decides whether a CRC is read. A block that announces a CRC-32
  in an array without a CRC field is accepted, unchecked, and passes the block's own checks.
\<close>

theorem primary_crc_not_enforced:
  assumes "cboring L" and "wf_pb pb" and "pb_CRCType pb = CRCNo" and "pb_CheckValid pb = []"
  shows "\<exists>i pb'. pb_UnmarshalCbor L i = Inr (pb', []) \<and> pb_CheckValid pb' = [] \<and>
    pb_HasCRC pb' \<and> pb_CRC pb' = [] \<and> pb_CRCType pb' = CRC32"
proof -
  obtain dst src rpt where
    eids: "eid_MarshalCbor L (Destination pb) = Inr dst" "eid_MarshalCbor L (SourceNode pb) = Inr src"
      "eid_MarshalCbor L (ReportTo pb) = Inr rpt"
    using assms cboring.eid_marshals by (metis wf_pb_def)
  note rd = cboring.eid_rw [OF assms(1) _ eids(1)] cboring.eid_rw [OF assms(1) _ eids(2)]
    cboring.eid_rw [OF assms(1) _ eids(3)]
  define pb' where "pb' = pb\<lparr>pb_CRCType := CRC32, FragmentOffset := 0, TotalDataLength := 0\<rparr>"
  let ?i = "WriteArrayLength L 8 @ WriteUInt L dtnVersion @ WriteUInt L (BundleControlFlags pb) @
    WriteUInt L CRC32 @ dst @ src @ rpt @ ct_MarshalCbor L (CreationTimestamp pb) @
    WriteUInt L (Lifetime pb)"
  have "pb_CRC pb = []" using assms(2,3) by (simp add: wf_pb_def pb_HasCRC_def)
  then have eta: "\<lparr>Version = dtnVersion, BundleControlFlags = BundleControlFlags pb,
      pb_CRCType = 2, Destination = Destination pb, SourceNode = SourceNode pb,
      ReportTo = ReportTo pb, CreationTimestamp = CreationTimestamp pb, Lifetime = Lifetime pb,
      FragmentOffset = 0, TotalDataLength = 0, pb_CRC = []\<rparr> = pb'"
    using assms(2) by (cases pb) (simp add: pb'_def wf_pb_def)
  have "pb_UnmarshalCbor L (?i @ []) = Inr (pb', [])"
    using assms(2) rd eta
    by (simp add: pb_UnmarshalCbor_def pb_fields_def wf_pb_def cboring.array_rw [OF assms(1)]
        cboring.uint_rw [OF assms(1)] cboring.uint_rw [OF assms(1), where r = "[]", simplified]
        cboring.ct_rw [OF assms(1)])
  moreover have "pb_CheckValid pb' = []" using assms(4) by (simp add: pb'_def pb_CheckValid_def)
  moreover have "pb_HasCRC pb'" "pb_CRC pb' = []" "pb_CRCType pb' = CRC32"
    using \<open>pb_CRC pb = []\<close> by (simp_all add: pb'_def pb_HasCRC_def)
  ultimately show ?thesis by blast
qed

theorem primary_crc_not_enforced_witness:
  "\<exists>i pb'. pb_UnmarshalCbor rfc_lib i = Inr (pb', []) \<and> pb_CheckValid pb' = [] \<and> pb_HasCRC pb' \<and>
    pb_CRC pb' = [] \<and> pb_CRCType pb' = CRC32"
proof (rule primary_crc_not_enforced [OF cboring_rfc sample_primary_wf])
  show "pb_CRCType sample_primary = CRCNo" by (simp add: sample_primary_def)
  show "pb_CheckValid sample_primary = []"
    by (simp add: pb_CheckValid_def sample_primary_def dtnVersion_def bcf_CheckValid_def Has_def
        wf_eidD [OF sample_eid_wf]) (simp add: sample_eid_def DtnNone_def)
qed

end
