(* ===== verification/Extension.thy ===== *)
theory Extension
  imports Endpoint Dtn_Time
begin

text \<open>
  The extension blocks of \<^verbatim>\<open>pkg/bpv7/payload_block.go\<close> and \<^verbatim>\<open>extension_block_*.go\<close>, and the
  \<^verbatim>\<open>ExtensionBlockManager\<close> of \<^verbatim>\<open>extension_block.go\<close> that creates a block from its type
  code. A Go map that a block carries is the list of its entries in the order an iteration
  visits them. The checks that look at the surrounding bundle are in the theory of bundles.
\<close>

definition BlockTypePayloadBlock :: u64 where "BlockTypePayloadBlock = 1"
definition BlockTypePreviousNodeBlock :: u64 where "BlockTypePreviousNodeBlock = 6"
definition BlockTypeBundleAgeBlock :: u64 where "BlockTypeBundleAgeBlock = 7"
definition BlockTypeHopCountBlock :: u64 where "BlockTypeHopCountBlock = 10"
definition BlockTypeBinarySprayBlock :: u64 where "BlockTypeBinarySprayBlock = 192"
definition BlockTypeDTLSRBlock :: u64 where "BlockTypeDTLSRBlock = 193"
definition BlockTypeProphetBlock :: u64 where "BlockTypeProphetBlock = 194"

lemmas block_type_defs =
  BlockTypePayloadBlock_def BlockTypePreviousNodeBlock_def BlockTypeBundleAgeBlock_def
  BlockTypeHopCountBlock_def BlockTypeBinarySprayBlock_def BlockTypeDTLSRBlock_def
  BlockTypeProphetBlock_def

record peer_data =
  pd_ID :: endpoint_id
  pd_Timestamp :: dtn_time
  pd_Peers :: "(endpoint_id \<times> dtn_time) list"

datatype ext_block =
    PayloadBlock bytes
  | PreviousNodeBlock endpoint_id
  | BundleAgeBlock u64
  | HopCountBlock (Limit: u8) (Count: u8)
  | GenericExtensionBlock (geb_data: bytes) (geb_typeCode: u64)
  | BinarySprayBlock u64
  | DTLSRBlock peer_data
  | ProphetBlock "(endpoint_id \<times> u64) list"

fun BlockTypeCode :: "ext_block \<Rightarrow> u64" where
  "BlockTypeCode (PayloadBlock _) = BlockTypePayloadBlock"
| "BlockTypeCode (PreviousNodeBlock _) = BlockTypePreviousNodeBlock"
| "BlockTypeCode (BundleAgeBlock _) = BlockTypeBundleAgeBlock"
| "BlockTypeCode (HopCountBlock _ _) = BlockTypeHopCountBlock"
| "BlockTypeCode (GenericExtensionBlock _ typeCode) = typeCode"
| "BlockTypeCode (BinarySprayBlock _) = BlockTypeBinarySprayBlock"
| "BlockTypeCode (DTLSRBlock _) = BlockTypeDTLSRBlock"
| "BlockTypeCode (ProphetBlock _) = BlockTypeProphetBlock"

section \<open>Operations on single blocks\<close>

definition BundleAge_Increment :: "u64 \<Rightarrow> u64 \<Rightarrow> u64" where
  "BundleAge_Increment bab offset = bab + offset"

definition HopCount_IsExceeded :: "u8 \<Rightarrow> u8 \<Rightarrow> bool" where
  "HopCount_IsExceeded limit cnt \<longleftrightarrow> cnt > limit"

text \<open>\<^verbatim>\<open>Increment\<close> returns the new counter and whether the limit is exceeded.\<close>

definition HopCount_Increment :: "u8 \<Rightarrow> u8 \<Rightarrow> u8 \<times> bool" where
  "HopCount_Increment limit cnt = (cnt + 1, HopCount_IsExceeded limit (cnt + 1))"

definition HopCount_Decrement :: "u8 \<Rightarrow> u8" where
  "HopCount_Decrement cnt = cnt - 1"

definition ShouldReplace :: "peer_data \<Rightarrow> peer_data \<Rightarrow> bool" where
  "ShouldReplace pd other \<longleftrightarrow> pd_Timestamp pd > pd_Timestamp other"

fun ext_CheckValid :: "ext_block \<Rightarrow> err list" where
  "ext_CheckValid (PreviousNodeBlock eid) = eid_CheckValid eid"
| "ext_CheckValid (HopCountBlock limit cnt) =
     (if HopCount_IsExceeded limit cnt then [Errorf ''HopCountBlock is exceeded''] else [])"
| "ext_CheckValid (PayloadBlock _) = []"
| "ext_CheckValid (BundleAgeBlock _) = []"
| "ext_CheckValid (GenericExtensionBlock _ _) = []"
| "ext_CheckValid (BinarySprayBlock _) = []"
| "ext_CheckValid (DTLSRBlock _) = []"
| "ext_CheckValid (ProphetBlock _) = []"

section \<open>Serialisation of the block-type specific data\<close>

definition HopCount_MarshalCbor :: "lib \<Rightarrow> u8 \<Rightarrow> u8 \<Rightarrow> bytes" where
  "HopCount_MarshalCbor L limit cnt =
     WriteArrayLength L 2 @ concat (map (\<lambda>f. WriteUInt L (ucast f)) [limit, cnt])"

definition HopCount_field :: "lib \<Rightarrow> u8 reader" where
  "HopCount_field L i =
     andThen (ReadUInt L i) (\<lambda>(x, r).
       if x > 255 then Inl (Errorf ''Hop Count fields must be within a range to 255'')
       else Inr (ucast x, r))"

definition HopCount_UnmarshalCbor :: "lib \<Rightarrow> ext_block reader" where
  "HopCount_UnmarshalCbor L i =
     andThen (ReadArrayLength L i) (\<lambda>(l, r).
       if l \<noteq> 2 then Inl (Errorf ''expected array with length 2'')
       else andThen (HopCount_field L r) (\<lambda>(limit, r).
            andThen (HopCount_field L r) (\<lambda>(cnt, r). Inr (HopCountBlock limit cnt, r))))"

text \<open>The entries of a map, one after another: the key, then the value.\<close>

fun write_entries :: "lib \<Rightarrow> (u64 \<Rightarrow> bytes) \<Rightarrow> (endpoint_id \<times> u64) list \<Rightarrow> bytes res" where
  "write_entries L w [] = Inr []"
| "write_entries L w ((peerID, v) # es) =
     andThen (eid_MarshalCbor L peerID) (\<lambda>k.
     andThen (write_entries L w es) (\<lambda>rest. Inr (k @ w v @ rest)))"

fun read_entries ::
  "lib \<Rightarrow> u64 reader \<Rightarrow> nat \<Rightarrow> (endpoint_id \<times> u64) list \<Rightarrow> (endpoint_id \<times> u64) list reader" where
  "read_entries L rd 0 m i = Inr (m, i)"
| "read_entries L rd (Suc n) m i =
     andThen (eid_UnmarshalCbor L i) (\<lambda>(peerID, r).
     andThen (rd r) (\<lambda>(v, r). read_entries L rd n (mapset peerID v m) r))"

definition DTLSR_MarshalCbor :: "lib \<Rightarrow> peer_data \<Rightarrow> bytes res" where
  "DTLSR_MarshalCbor L d =
     andThen (eid_MarshalCbor L (pd_ID d)) (\<lambda>ident.
     andThen (write_entries L (WriteUInt L) (pd_Peers d)) (\<lambda>es.
       Inr (WriteArrayLength L 3 @ ident @ WriteUInt L (pd_Timestamp d) @
         WriteMapPairLength L (word_of_nat (length (pd_Peers d))) @ es)))"

definition DTLSR_UnmarshalCbor :: "lib \<Rightarrow> ext_block reader" where
  "DTLSR_UnmarshalCbor L i =
     andThen (ReadArrayLength L i) (\<lambda>(l, r).
       if l \<noteq> 3 then Inl (Errorf ''expected 3 fields'')
       else andThen (eid_UnmarshalCbor L r) (\<lambda>(ident, r).
            andThen (ReadUInt L r) (\<lambda>(timestamp, r).
            andThen (ReadMapPairLength L r) (\<lambda>(lenData, r).
            andThen (read_entries L (ReadUInt L) (unat lenData) [] r) (\<lambda>(peers, r).
              Inr (DTLSRBlock \<lparr>pd_ID = ident, pd_Timestamp = timestamp, pd_Peers = peers\<rparr>, r))))))"

definition Prophet_MarshalCbor :: "lib \<Rightarrow> (endpoint_id \<times> u64) list \<Rightarrow> bytes res" where
  "Prophet_MarshalCbor L preds =
     andThen (write_entries L (WriteFloat64 L) preds) (\<lambda>es.
       Inr (WriteMapPairLength L (word_of_nat (length preds)) @ es))"

definition Prophet_UnmarshalCbor :: "lib \<Rightarrow> ext_block reader" where
  "Prophet_UnmarshalCbor L i =
     andThen (ReadMapPairLength L i) (\<lambda>(lenData, r).
     andThen (read_entries L (ReadFloat64 L) (unat lenData) [] r) (\<lambda>(preds, r).
       Inr (ProphetBlock preds, r)))"

text \<open>The methods of the blocks that hold a single value.\<close>

definition Payload_MarshalBinary :: "bytes \<Rightarrow> bytes res" where
  [simp]: "Payload_MarshalBinary data = Inr data"

definition Payload_UnmarshalBinary :: "bytes \<Rightarrow> ext_block res" where
  [simp]: "Payload_UnmarshalBinary data = Inr (PayloadBlock data)"

definition Generic_MarshalBinary :: "bytes \<Rightarrow> u64 \<Rightarrow> bytes res" where
  [simp]: "Generic_MarshalBinary data typeCode = Inr data"

definition Generic_UnmarshalBinary :: "u64 \<Rightarrow> bytes \<Rightarrow> ext_block res" where
  [simp]: "Generic_UnmarshalBinary typeCode data = Inr (GenericExtensionBlock data typeCode)"

definition PreviousNode_MarshalCbor :: "lib \<Rightarrow> endpoint_id \<Rightarrow> bytes res" where
  [simp]: "PreviousNode_MarshalCbor L endpoint = eid_MarshalCbor L endpoint"

definition PreviousNode_UnmarshalCbor :: "lib \<Rightarrow> ext_block reader" where
  [simp]: "PreviousNode_UnmarshalCbor L i = andThen (eid_UnmarshalCbor L i) (\<lambda>(e, r). Inr (PreviousNodeBlock e, r))"

definition BundleAge_MarshalCbor :: "lib \<Rightarrow> u64 \<Rightarrow> bytes res" where
  [simp]: "BundleAge_MarshalCbor L bab = Inr (WriteUInt L bab)"

definition BundleAge_UnmarshalCbor :: "lib \<Rightarrow> ext_block reader" where
  [simp]: "BundleAge_UnmarshalCbor L i = andThen (ReadUInt L i) (\<lambda>(us, r). Inr (BundleAgeBlock us, r))"

definition BinarySpray_MarshalCbor :: "lib \<Rightarrow> u64 \<Rightarrow> bytes res" where
  [simp]: "BinarySpray_MarshalCbor L bsb = Inr (WriteUInt L bsb)"

definition BinarySpray_UnmarshalCbor :: "lib \<Rightarrow> ext_block reader" where
  [simp]: "BinarySpray_UnmarshalCbor L i = andThen (ReadUInt L i) (\<lambda>(us, r). Inr (BinarySprayBlock us, r))"

text \<open>
  The data of a block: \<^verbatim>\<open>MarshalBinary\<close> of a payload and a generic block, \<^verbatim>\<open>MarshalCbor\<close> of
  the others.
\<close>

fun ext_Marshal :: "lib \<Rightarrow> ext_block \<Rightarrow> bytes res" where
  "ext_Marshal L (PayloadBlock data) = Payload_MarshalBinary data"
| "ext_Marshal L (GenericExtensionBlock data typeCode) = Generic_MarshalBinary data typeCode"
| "ext_Marshal L (PreviousNodeBlock eid) = PreviousNode_MarshalCbor L eid"
| "ext_Marshal L (BundleAgeBlock ms) = BundleAge_MarshalCbor L ms"
| "ext_Marshal L (HopCountBlock limit cnt) = Inr (HopCount_MarshalCbor L limit cnt)"
| "ext_Marshal L (BinarySprayBlock n) = BinarySpray_MarshalCbor L n"
| "ext_Marshal L (DTLSRBlock d) = DTLSR_MarshalCbor L d"
| "ext_Marshal L (ProphetBlock preds) = Prophet_MarshalCbor L preds"

section \<open>The extension block manager\<close>

text \<open>The Go types that can be registered, and the one that cannot.\<close>

datatype ext_type =
    TPayload | TPreviousNode | TBundleAge | THopCount | TBinarySpray | TDTLSR | TProphet | TGeneric

fun type_of :: "ext_block \<Rightarrow> ext_type" where
  "type_of (PayloadBlock _) = TPayload"
| "type_of (PreviousNodeBlock _) = TPreviousNode"
| "type_of (BundleAgeBlock _) = TBundleAge"
| "type_of (HopCountBlock _ _) = THopCount"
| "type_of (GenericExtensionBlock _ _) = TGeneric"
| "type_of (BinarySprayBlock _) = TBinarySpray"
| "type_of (DTLSRBlock _) = TDTLSR"
| "type_of (ProphetBlock _) = TProphet"

type_synonym ebm = "u64 \<Rightarrow> ext_type option"

definition NewExtensionBlockManager :: ebm where
  "NewExtensionBlockManager = Map.empty"

definition ebm_Register :: "ebm \<Rightarrow> ext_block \<Rightarrow> ebm res" where
  "ebm_Register M eb =
     (let extCode = BlockTypeCode eb; extType = type_of eb
      in if extType = TGeneric
         then Inl (Errorf ''not allowed to register a GenericExtensionBlock'')
         else if M extCode \<noteq> None then Inl (Errorf ''block type code is already registered'')
         else Inr (M(extCode \<mapsto> extType)))"

definition ebm_Unregister :: "ebm \<Rightarrow> ext_block \<Rightarrow> ebm" where
  "ebm_Unregister M eb = M(BlockTypeCode eb := None)"

definition IsKnown :: "ebm \<Rightarrow> u64 \<Rightarrow> bool" where
  "IsKnown M typeCode \<longleftrightarrow> M typeCode \<noteq> None"

definition createBlock :: "ebm \<Rightarrow> u64 \<Rightarrow> ext_type" where
  "createBlock M typeCode = (case M typeCode of Some t \<Rightarrow> t | None \<Rightarrow> TGeneric)"

definition WriteBlock :: "lib \<Rightarrow> ext_block \<Rightarrow> bytes res" where
  "WriteBlock L b =
     (case b of
        PayloadBlock _ \<Rightarrow>
          andThen (wrapping ''marshalling binary for Block erred'' (ext_Marshal L b))
            (\<lambda>data. Inr (WriteByteString L data))
      | GenericExtensionBlock _ _ \<Rightarrow>
          andThen (wrapping ''marshalling binary for Block erred'' (ext_Marshal L b))
            (\<lambda>data. Inr (WriteByteString L data))
      | _ \<Rightarrow>
          andThen (wrapping ''marshalling CBOR for Block erred'' (ext_Marshal L b))
            (\<lambda>data. Inr (WriteByteString L data)))"

text \<open>
  Reading the data into a fresh block of the type: what follows the item inside the byte
  string is ignored.
\<close>

definition ext_Unmarshal :: "lib \<Rightarrow> ext_type \<Rightarrow> u64 \<Rightarrow> bytes \<Rightarrow> ext_block res" where
  "ext_Unmarshal L t typeCode data =
     (case t of
        TPayload \<Rightarrow> Payload_UnmarshalBinary data
      | TGeneric \<Rightarrow> Generic_UnmarshalBinary typeCode data
      | TPreviousNode \<Rightarrow>
          andThen (PreviousNode_UnmarshalCbor L data) (\<lambda>(b, _). Inr b)
      | TBundleAge \<Rightarrow> andThen (BundleAge_UnmarshalCbor L data) (\<lambda>(b, _). Inr b)
      | THopCount \<Rightarrow> andThen (HopCount_UnmarshalCbor L data) (\<lambda>(b, _). Inr b)
      | TBinarySpray \<Rightarrow> andThen (BinarySpray_UnmarshalCbor L data) (\<lambda>(b, _). Inr b)
      | TDTLSR \<Rightarrow> andThen (DTLSR_UnmarshalCbor L data) (\<lambda>(b, _). Inr b)
      | TProphet \<Rightarrow> andThen (Prophet_UnmarshalCbor L data) (\<lambda>(b, _). Inr b))"

definition ReadBlock :: "lib \<Rightarrow> ebm \<Rightarrow> u64 \<Rightarrow> ext_block reader" where
  "ReadBlock L M typeCode i =
     andThen (ReadByteString L i) (\<lambda>(data, r).
     andThen (ext_Unmarshal L (createBlock M typeCode) typeCode data) (\<lambda>b. Inr (b, r)))"

text \<open>The singleton manager, with the four types \<^verbatim>\<open>GetExtensionBlockManager\<close> registers.\<close>

definition register_all :: "ext_block list \<Rightarrow> ebm \<Rightarrow> ebm" where
  "register_all ebs M =
     foldl (\<lambda>M eb. case ebm_Register M eb of Inl _ \<Rightarrow> M | Inr M' \<Rightarrow> M') M ebs"

definition GetExtensionBlockManager :: ebm where
  "GetExtensionBlockManager =
     register_all
       [PayloadBlock [], PreviousNodeBlock DtnNone, BundleAgeBlock 0, HopCountBlock 0 0]
       NewExtensionBlockManager"

lemma GetExtensionBlockManager_eq:
  "GetExtensionBlockManager =
     [1 \<mapsto> TPayload, 6 \<mapsto> TPreviousNode, 7 \<mapsto> TBundleAge, 10 \<mapsto> THopCount]"
  by (simp add: GetExtensionBlockManager_def register_all_def ebm_Register_def Let_def
      NewExtensionBlockManager_def block_type_defs)

text \<open>
  The managers that registering and unregistering can produce hand out a type only for its own
  code.
\<close>

definition ebm_ok :: "ebm \<Rightarrow> bool" where
  "ebm_ok M \<longleftrightarrow> (\<forall>c t. M c = Some t \<longrightarrow> t \<noteq> TGeneric \<and> (\<forall>b. type_of b = t \<longrightarrow> BlockTypeCode b = c))"

lemma type_of_code:
  "type_of b = type_of b' \<Longrightarrow> type_of b \<noteq> TGeneric \<Longrightarrow> BlockTypeCode b = BlockTypeCode b'"
  by (cases b; cases b') auto

lemma ebm_ok_empty: "ebm_ok NewExtensionBlockManager"
  by (simp add: ebm_ok_def NewExtensionBlockManager_def)

lemma ebm_ok_Register:
  assumes "ebm_ok M" "ebm_Register M eb = Inr M'"
  shows "ebm_ok M'"
proof -
  have M': "M' = M(BlockTypeCode eb \<mapsto> type_of eb)" and t: "type_of eb \<noteq> TGeneric"
    using assms(2) by (auto simp: ebm_Register_def Let_def split: if_splits)
  show ?thesis
    unfolding ebm_ok_def M'
  proof (intro allI impI)
    fix c u assume "(M(BlockTypeCode eb \<mapsto> type_of eb)) c = Some u"
    then consider "c = BlockTypeCode eb" "u = type_of eb" | "M c = Some u"
      by (cases "c = BlockTypeCode eb") simp_all
    then show "u \<noteq> TGeneric \<and> (\<forall>b. type_of b = u \<longrightarrow> BlockTypeCode b = c)"
    proof cases
      case 1
      with t show ?thesis by (metis type_of_code)
    next
      case 2
      then show ?thesis using assms(1) by (simp add: ebm_ok_def)
    qed
  qed
qed

lemma ebm_ok_Unregister: "ebm_ok M \<Longrightarrow> ebm_ok (ebm_Unregister M eb)"
  by (auto simp: ebm_ok_def ebm_Unregister_def)

lemma ebm_ok_register_all: "ebm_ok M \<Longrightarrow> ebm_ok (register_all ebs M)"
  unfolding register_all_def
  by (induction ebs arbitrary: M) (auto split: sum.splits intro: ebm_ok_Register)

lemma ebm_ok_default: "ebm_ok GetExtensionBlockManager"
  unfolding GetExtensionBlockManager_def by (intro ebm_ok_register_all ebm_ok_empty)

section \<open>Reading back what was written\<close>

text \<open>A block the manager reads back as the same type.\<close>

definition registered :: "ebm \<Rightarrow> ext_block \<Rightarrow> bool" where
  "registered M b \<longleftrightarrow> createBlock M (BlockTypeCode b) = type_of b"

fun wf_ext :: "ext_block \<Rightarrow> bool" where
  "wf_ext (PreviousNodeBlock eid) = wf_eid eid"
| "wf_ext (DTLSRBlock d) \<longleftrightarrow> wf_eid (pd_ID d) \<and> (\<forall>(k, v) \<in> set (pd_Peers d). wf_eid k) \<and>
     distinct (map fst (pd_Peers d)) \<and> length (pd_Peers d) < 2 ^ 63"
| "wf_ext (ProphetBlock ps) \<longleftrightarrow> (\<forall>(k, v) \<in> set ps. wf_eid k) \<and>
     distinct (map fst ps) \<and> length ps < 2 ^ 63"
| "wf_ext _ = True"

context cboring
begin

lemma HopCount_field_rw: "HopCount_field L (WriteUInt L (ucast (w :: u8)) @ r) = Inr (w, r)"
proof -
  have "unat (ucast w :: u64) \<le> 255" using unsigned_less [of w, where ?'a = nat]
    by (simp add: unsigned_ucast_eq take_bit_nat_eq_self)
  then have "\<not> (ucast w :: u64) > 255" by (simp add: word_less_nat_alt)
  moreover have "ucast (ucast w :: u64) = w" by (rule bit_word_eqI) (simp add: bit_simps)
  ultimately show ?thesis by (simp add: HopCount_field_def read_back)
qed

lemma HopCount_rw:
  "HopCount_UnmarshalCbor L (HopCount_MarshalCbor L l c @ r) = Inr (HopCountBlock l c, r)"
  by (simp add: HopCount_UnmarshalCbor_def HopCount_MarshalCbor_def array_rw HopCount_field_rw)

lemma entries_rw:
  assumes "\<And>v r. rd (w v @ r) = Inr (v, r)"
    and "write_entries L w es = Inr bs" "\<forall>(k, v) \<in> set es. wf_eid k"
    and "distinct (map fst (m @ es))"
  shows "read_entries L rd (length es) m (bs @ r) = Inr (m @ es, r)"
  using assms(2-)
proof (induction es arbitrary: m bs)
  case Nil
  then show ?case by simp
next
  case (Cons e es)
  obtain k v where e: "e = (k, v)" by (cases e)
  from Cons.prems obtain kb rest where
    b: "eid_MarshalCbor L k = Inr kb" "write_entries L w es = Inr rest" "bs = kb @ w v @ rest"
    by (auto simp: e andThen_eq_Inr)
  have "eid_UnmarshalCbor L (kb @ w v @ rest @ r) = Inr (k, w v @ rest @ r)"
    using Cons.prems by (intro eid_rw [OF _ b(1)]) (auto simp: e)
  moreover have "mapset k v m = m @ [(k, v)]"
    using Cons.prems by (intro mapset_new) (auto simp: e)
  ultimately show ?case
    using Cons.IH [OF b(2), of "m @ [(k, v)]"] Cons.prems by (simp add: e b(3) assms(1))
qed

lemma DTLSR_rw:
  assumes "wf_ext (DTLSRBlock d)" "DTLSR_MarshalCbor L d = Inr bs"
  shows "DTLSR_UnmarshalCbor L (bs @ r) = Inr (DTLSRBlock d, r)"
  using assms entries_rw [of "ReadUInt L" "WriteUInt L" "pd_Peers d" _ "[]"]
  by (auto simp: DTLSR_MarshalCbor_def DTLSR_UnmarshalCbor_def andThen_eq_Inr read_back eid_rw
      unat_of_nat)

lemma Prophet_rw:
  assumes "wf_ext (ProphetBlock ps)" "Prophet_MarshalCbor L ps = Inr bs"
  shows "Prophet_UnmarshalCbor L (bs @ r) = Inr (ProphetBlock ps, r)"
  using assms entries_rw [of "ReadFloat64 L" "WriteFloat64 L" ps _ "[]"]
  by (auto simp: Prophet_MarshalCbor_def Prophet_UnmarshalCbor_def andThen_eq_Inr read_back
      unat_of_nat)

lemma ext_rw:
  assumes "wf_ext b" "ext_Marshal L b = Inr data"
  shows "ext_Unmarshal L (type_of b) (BlockTypeCode b) data = Inr b"
  using assms eid_rw [of _ data "[]"] HopCount_rw [of _ _ "[]"] DTLSR_rw [of _ data "[]"]
    Prophet_rw [of _ data "[]"] uint_rw [of _ "[]"]
  by (cases b) (auto simp: ext_Unmarshal_def simp del: wf_ext.simps(2,3))

lemma WriteBlock_InrD:
  "WriteBlock L b = Inr bs \<Longrightarrow> \<exists>data. ext_Marshal L b = Inr data \<and> bs = WriteByteString L data"
  by (auto simp: WriteBlock_def andThen_eq_Inr split: ext_block.splits)

lemma block_rw:
  assumes "wf_ext b" "registered M b" "WriteBlock L b = Inr bs" "length bs < 2 ^ 64"
  shows "ReadBlock L M (BlockTypeCode b) (bs @ r) = Inr (b, r)"
proof -
  obtain data where d: "ext_Marshal L b = Inr data" "bs = WriteByteString L data"
    using WriteBlock_InrD [OF assms(3)] by blast
  have "length data < 2 ^ 64" using assms(4) byte_string_length [of data] d(2) by simp
  then have "ReadByteString L (bs @ r) = Inr (data, r)" by (simp add: d(2) byte_string_rw)
  moreover have "ext_Unmarshal L (createBlock M (BlockTypeCode b)) (BlockTypeCode b) data = Inr b"
    using assms(2) ext_rw [OF assms(1) d(1)] by (simp add: registered_def)
  ultimately show ?thesis by (simp add: ReadBlock_def)
qed

lemma block_front: "takes_front (ReadBlock L M typeCode)"
  unfolding takes_front_def ReadBlock_def
  by (auto simp: andThen_eq_Inr dest!: takes_frontD [OF byte_string_front])

end

lemma ReadBlock_code:
  assumes "ebm_ok M" "ReadBlock L M typeCode i = Inr (b, r)"
  shows "BlockTypeCode b = typeCode"
proof -
  obtain data where "ext_Unmarshal L (createBlock M typeCode) typeCode data = Inr b"
    using assms(2) by (auto simp: ReadBlock_def andThen_eq_Inr)
  then have "type_of b = createBlock M typeCode \<and>
      (createBlock M typeCode = TGeneric \<longrightarrow> BlockTypeCode b = typeCode)"
    by (auto simp: ext_Unmarshal_def andThen_eq_Inr HopCount_UnmarshalCbor_def
        DTLSR_UnmarshalCbor_def Prophet_UnmarshalCbor_def split: ext_type.splits if_splits)
  then show ?thesis
    using assms(1) by (auto simp: createBlock_def ebm_ok_def split: option.splits)
qed

section \<open>Properties\<close>

text \<open>
  Also shown: incrementing the hop counter reports an exceeded limit exactly when the counter had
  reached the limit, except at 255, where the 8-bit counter wraps to 0 and nothing is reported: a
  hop limit of 255 is never exceeded.
\<close>

theorem hop_count_increment:
  "snd (HopCount_Increment limit cnt) \<longleftrightarrow> unat limit \<le> unat cnt \<and> cnt \<noteq> 255"
proof (cases "cnt = 255")
  case True
  then have "cnt + 1 = 0" by simp
  then have "snd (HopCount_Increment limit cnt) \<longleftrightarrow> limit < 0"
    by (simp only: HopCount_Increment_def HopCount_IsExceeded_def snd_conv)
  with True show ?thesis by simp
next
  case False
  have "unat cnt < 256" using unsigned_less [of cnt, where ?'a = nat] by simp
  moreover have "unat cnt \<noteq> 255" using False by (simp add: word_unat_eq_iff)
  ultimately have "unat cnt < 255" by linarith
  then have "unat (cnt + 1) = unat cnt + 1" by (simp add: unat_word_ariths)
  with False show ?thesis
    by (auto simp: HopCount_Increment_def HopCount_IsExceeded_def word_less_nat_alt)
qed

text \<open>
  Also shown: the manager reads the bytes it wrote for a block of a type it knows back as this
  block and leaves the rest of the stream, for all block types.
\<close>

theorem extension_block_roundtrip:
  assumes "cboring L" and "wf_ext b" and "registered M b" and "WriteBlock L b = Inr bs"
    and "length bs < 2 ^ 64"
  shows "ReadBlock L M (BlockTypeCode b) (bs @ r) = Inr (b, r)"
  by (rule cboring.block_rw [OF assms])

theorem extension_block_roundtrip_witness:
  "ReadBlock rfc_lib GetExtensionBlockManager 10 [67, 130, 5, 1, 7] = Inr (HopCountBlock 5 1, [7])"
proof -
  have w: "WriteBlock rfc_lib (HopCountBlock 5 1) = Inr [67, 130, 5, 1]"
    by (simp add: WriteBlock_def HopCount_MarshalCbor_def rfc_simps rfc_head_def)
  have "registered GetExtensionBlockManager (HopCountBlock 5 1)"
    by (simp add: registered_def createBlock_def GetExtensionBlockManager_eq block_type_defs)
  from extension_block_roundtrip [OF cboring_rfc _ this w, of "[7]"] show ?thesis
    by (simp add: block_type_defs)
qed

end
