(* ===== verification/Canonical.thy ===== *)
theory Canonical
  imports Extension Crc Flags
begin

text \<open>
  \<^verbatim>\<open>pkg/bpv7/canonical_block.go\<close> and \<^verbatim>\<open>canonical_block_sort.go\<close>: canonical blocks, their order,
  and their serialisation with the CRC over the block. The \<^verbatim>\<open>Value\<close> of a block is an interface:
  \<open>None\<close> is nil, and calling it is a panic. \<^verbatim>\<open>MarshalCbor\<close> stores the CRC it computes in the
  block, so it returns the bytes and the block. An \<^verbatim>\<open>io.TeeReader\<close>'s copy is what was consumed
  since the array head.
\<close>

record canonical_block =
  BlockNumber :: u64
  BlockControlFlags :: block_control_flags
  cb_CRCType :: crc_type
  cb_CRC :: bytes
  Value :: "ext_block option"

definition NewCanonicalBlock :: "u64 \<Rightarrow> block_control_flags \<Rightarrow> ext_block \<Rightarrow> canonical_block" where
  "NewCanonicalBlock no bcf v =
     \<lparr>BlockNumber = no, BlockControlFlags = bcf, cb_CRCType = CRCNo, cb_CRC = [], Value = Some v\<rparr>"

text \<open>\<^verbatim>\<open>CanonicalBlock{}\<close>\<close>

definition empty_canonical :: canonical_block where
  "empty_canonical =
     \<lparr>BlockNumber = 0, BlockControlFlags = 0, cb_CRCType = CRCNo, cb_CRC = [], Value = None\<rparr>"

definition TypeCode :: "canonical_block \<Rightarrow> u64 res" where
  "TypeCode cb = (case Value cb of None \<Rightarrow> nil_deref | Some v \<Rightarrow> Inr (BlockTypeCode v))"

definition cb_HasCRC :: "canonical_block \<Rightarrow> bool" where
  "cb_HasCRC cb \<longleftrightarrow> cb_CRCType cb \<noteq> CRCNo"

definition cb_SetCRCType :: "crc_type \<Rightarrow> canonical_block \<Rightarrow> canonical_block" where
  "cb_SetCRCType crcType cb = cb\<lparr>cb_CRCType := crcType\<rparr>"

definition cb_MarshalCbor :: "lib \<Rightarrow> canonical_block \<Rightarrow> (bytes \<times> canonical_block) res" where
  "cb_MarshalCbor L cb =
     (let blockLen = (if cb_HasCRC cb then 6 else 5)
      in andThen (TypeCode cb) (\<lambda>typeCode.
         andThen (case Value cb of None \<Rightarrow> nil_deref
                  | Some v \<Rightarrow> wrapping ''marshalling value failed'' (WriteBlock L v)) (\<lambda>val.
           let buff = WriteArrayLength L blockLen @
                 concat (map (WriteUInt L)
                   [typeCode, BlockNumber cb, BlockControlFlags cb, cb_CRCType cb]) @ val
           in if cb_HasCRC cb
              then andThen (calculateCRCBuff L buff (cb_CRCType cb)) (\<lambda>crcVal.
                     Inr (buff @ WriteByteString L crcVal, cb\<lparr>cb_CRC := crcVal\<rparr>))
              else Inr (buff, cb))))"

text \<open>
  The fields before the value, which \<^verbatim>\<open>UnmarshalCbor\<close> and \<^verbatim>\<open>UnmarshalWantedBlock\<close> read alike:
  the array length and the rest behind it, the block type and the block with these fields set.
\<close>

definition cb_fields :: "lib \<Rightarrow> (u64 \<times> bytes \<times> u64 \<times> canonical_block) reader" where
  "cb_fields L i =
     andThen (ReadArrayLength L i) (\<lambda>(blockLen, r0).
       if blockLen \<noteq> 5 \<and> blockLen \<noteq> 6 then Inl (Errorf ''expected array with length 5 or 6'')
       else andThen (ReadUInt L r0) (\<lambda>(blockType, r).
            andThen (ReadUInt L r) (\<lambda>(bn, r).
            andThen (ReadUInt L r) (\<lambda>(bcf, r).
            andThen (ReadUInt L r) (\<lambda>(crcT, r).
              Inr ((blockLen, r0, blockType,
                \<lparr>BlockNumber = bn, BlockControlFlags = bcf, cb_CRCType = crcT, cb_CRC = [],
                 Value = None\<rparr>), r))))))"

text \<open>The CRC field and its comparison with the CRC of what was read since the array head.\<close>

definition cb_checkCRC :: "lib \<Rightarrow> u64 \<Rightarrow> bytes \<Rightarrow> canonical_block \<Rightarrow> canonical_block reader" where
  "cb_checkCRC L blockLen r0 cb r =
     (if blockLen = 6 then
        let crcBuff = WriteArrayLength L blockLen @ consumed r0 r
        in andThen (calculateCRCBuff L crcBuff (cb_CRCType cb)) (\<lambda>crcCalc.
           andThen (ReadByteString L r) (\<lambda>(crcVal, r).
             if crcCalc \<noteq> crcVal then Inl (Errorf ''invalid CRC value'')
             else Inr (cb\<lparr>cb_CRC := crcVal\<rparr>, r)))
      else Inr (cb, r))"

definition cb_UnmarshalCbor :: "lib \<Rightarrow> ebm \<Rightarrow> canonical_block reader" where
  "cb_UnmarshalCbor L M i =
     andThen (cb_fields L i) (\<lambda>((blockLen, r0, blockType, cb), r).
     andThen (wrapping ''unmarshalling block type failed'' (ReadBlock L M blockType r)) (\<lambda>(b, r).
       cb_checkCRC L blockLen r0 (cb\<lparr>Value := Some b\<rparr>) r))"

text \<open>
  \<^verbatim>\<open>s.Seek(int64(length), io.SeekCurrent)\<close> on a file with the contents \<open>file\<close> of which \<open>r\<close> is
  still to come. A negative offset moves back, one past the end leaves nothing to read.
\<close>

definition seek_current :: "bytes \<Rightarrow> u64 \<Rightarrow> bytes \<Rightarrow> bytes res" where
  "seek_current file len r =
     (let pos = int (length file - length r) + sint len
      in if pos < 0 then Inl (LibErr ''seek: invalid argument'') else Inr (drop (nat pos) file))"

text \<open>
  \<^verbatim>\<open>UnmarshalWantedBlock\<close> of a file: the block as far as it is filled, and the result, whether the
  block is a wanted one.
\<close>

definition cb_UnmarshalWantedBlock ::
  "lib \<Rightarrow> ebm \<Rightarrow> bytes \<Rightarrow> u64 list \<Rightarrow> bytes \<Rightarrow> canonical_block \<times> (bool \<times> bytes) res" where
  "cb_UnmarshalWantedBlock L M file wantedBlocks i =
     (case cb_fields L i of
        Inl e \<Rightarrow> (empty_canonical, Inl e)
      | Inr ((blockLen, r0, blockType, cb), r) \<Rightarrow>
          if blockType \<notin> set wantedBlocks then
            (case andThen (ReadByteStringLen L r) (\<lambda>(len, r). seek_current file len r) of
               Inl e \<Rightarrow> (cb, Inl e)
             | Inr r \<Rightarrow>
                 (cb\<lparr>Value := Some (GenericExtensionBlock [] blockType)\<rparr>,
                  if blockLen = 6 then andThen (ReadByteString L r) (\<lambda>(_, r). Inr (False, r))
                  else Inr (False, r)))
          else
            (case ReadBlock L M blockType r of
               Inl e \<Rightarrow> (cb, Inl (wrap_err ''unmarshalling block type failed'' e))
             | Inr (b, r) \<Rightarrow>
                 (let cb = cb\<lparr>Value := Some b\<rparr>
                  in case cb_checkCRC L blockLen r0 cb r of
                       Inl e \<Rightarrow> (cb, Inl e) | Inr (cb, r) \<Rightarrow> (cb, Inr (True, r)))))"

definition cb_CheckValid :: "canonical_block \<Rightarrow> err list res" where
  "cb_CheckValid cb =
     (case Value cb of
        None \<Rightarrow> nil_deref
      | Some v \<Rightarrow>
          Inr (blockcf_CheckValid (BlockControlFlags cb) @ ext_CheckValid v @
            (if BlockTypeCode v = BlockTypePayloadBlock \<and> BlockNumber cb \<noteq> 1
             then [Errorf ''CanonicalBlock is a PayloadBlock with a block number != 1''] else [])))"

section \<open>The order of blocks\<close>

definition canonicalBlockNumberSort_Less :: "canonical_block \<Rightarrow> canonical_block \<Rightarrow> bool" where
  "canonicalBlockNumberSort_Less a b =
     (if BlockNumber a = BlockTypePayloadBlock then False
      else if BlockNumber b = BlockTypePayloadBlock then True
      else BlockNumber a < BlockNumber b)"

text \<open>The key of the order: the block number, the payload's number 1 after all others.\<close>

definition block_rank :: "canonical_block \<Rightarrow> nat" where
  "block_rank cb = (if BlockNumber cb = 1 then 2 ^ 64 else unat (BlockNumber cb))"

lemma Less_block_rank: "canonicalBlockNumberSort_Less = (\<lambda>a b. block_rank a < block_rank b)"
proof (intro ext)
  fix a b :: canonical_block
  have "unat (BlockNumber a) < 2 ^ 64" "unat (BlockNumber b) < 2 ^ 64"
    using unsigned_less [of "BlockNumber a", where ?'a = nat]
      unsigned_less [of "BlockNumber b", where ?'a = nat] by simp_all
  then show "canonicalBlockNumberSort_Less a b = (block_rank a < block_rank b)"
    by (auto simp: canonicalBlockNumberSort_Less_def block_rank_def BlockTypePayloadBlock_def
        word_less_nat_alt)
qed

lemma block_rank_inj: "block_rank a = block_rank b \<longleftrightarrow> BlockNumber a = BlockNumber b"
proof -
  have "unat (BlockNumber a) \<noteq> 2 ^ 64" "unat (BlockNumber b) \<noteq> 2 ^ 64"
    using unsigned_less [of "BlockNumber a", where ?'a = nat]
      unsigned_less [of "BlockNumber b", where ?'a = nat] by simp_all
  then show ?thesis by (auto simp: block_rank_def word_unat_eq_iff)
qed

section \<open>Reading back what was written\<close>

text \<open>
  A block that has been marshalled: its value is well-formed and of a type the manager knows,
  and without a CRC type it carries no CRC.
\<close>

definition wf_cb :: "ebm \<Rightarrow> canonical_block \<Rightarrow> bool" where
  "wf_cb M cb \<longleftrightarrow>
     (case Value cb of None \<Rightarrow> False | Some v \<Rightarrow> wf_ext v \<and> registered M v) \<and>
     (\<not> cb_HasCRC cb \<longrightarrow> cb_CRC cb = [])"

lemma cb_MarshalCbor_InrD:
  assumes "cb_MarshalCbor L cb = Inr (bs, cb')"
  obtains v val where
    "Value cb = Some v" "WriteBlock L v = Inr val"
    "\<not> cb_HasCRC cb \<longrightarrow> cb' = cb \<and> bs = WriteArrayLength L 5 @ WriteUInt L (BlockTypeCode v) @
       WriteUInt L (BlockNumber cb) @ WriteUInt L (BlockControlFlags cb) @
       WriteUInt L (cb_CRCType cb) @ val"
    "cb_HasCRC cb \<longrightarrow> (\<exists>crc. let buff = WriteArrayLength L 6 @ WriteUInt L (BlockTypeCode v) @
       WriteUInt L (BlockNumber cb) @ WriteUInt L (BlockControlFlags cb) @
       WriteUInt L (cb_CRCType cb) @ val in
       calculateCRCBuff L buff (cb_CRCType cb) = Inr crc \<and> cb' = cb\<lparr>cb_CRC := crc\<rparr> \<and>
       bs = buff @ WriteByteString L crc)"
  using assms
  by (cases "Value cb"; cases "cb_HasCRC cb")
    (auto simp: cb_MarshalCbor_def TypeCode_def Let_def andThen_eq_Inr nil_deref_def)

context cboring
begin

lemma cb_fields_rw:
  assumes "n = 5 \<or> n = 6"
  shows "cb_fields L (WriteArrayLength L n @ WriteUInt L t @ WriteUInt L bn @ WriteUInt L f @
      WriteUInt L c @ r) =
    Inr ((n, WriteUInt L t @ WriteUInt L bn @ WriteUInt L f @ WriteUInt L c @ r, t,
      \<lparr>BlockNumber = bn, BlockControlFlags = f, cb_CRCType = c, cb_CRC = [], Value = None\<rparr>), r)"
  using assms by (auto simp: cb_fields_def read_back)

lemma cb_rw [codec]:
  assumes wf: "wf_cb M cb" and m: "cb_MarshalCbor L cb = Inr (bs, cb')" and len: "length bs < 2 ^ 64"
  shows "cb_UnmarshalCbor L M (bs @ r) = Inr (cb', r)"
proof -
  from m obtain v val where v: "Value cb = Some v" "WriteBlock L v = Inr val"
    and no: "\<not> cb_HasCRC cb \<longrightarrow> cb' = cb \<and> bs = WriteArrayLength L 5 @
       WriteUInt L (BlockTypeCode v) @ WriteUInt L (BlockNumber cb) @
       WriteUInt L (BlockControlFlags cb) @ WriteUInt L (cb_CRCType cb) @ val"
    and yes: "cb_HasCRC cb \<longrightarrow> (\<exists>crc. let buff = WriteArrayLength L 6 @
       WriteUInt L (BlockTypeCode v) @ WriteUInt L (BlockNumber cb) @
       WriteUInt L (BlockControlFlags cb) @ WriteUInt L (cb_CRCType cb) @ val in
       calculateCRCBuff L buff (cb_CRCType cb) = Inr crc \<and> cb' = cb\<lparr>cb_CRC := crc\<rparr> \<and>
       bs = buff @ WriteByteString L crc)"
    by (rule cb_MarshalCbor_InrD)
  have rb: "ReadBlock L M (BlockTypeCode v) (val @ r') = Inr (v, r')" for r'
  proof (rule block_rw)
    show "wf_ext v" "registered M v" using wf v(1) by (simp_all add: wf_cb_def)
    show "length val < 2 ^ 64" using len yes no by (cases "cb_HasCRC cb") (auto simp: Let_def)
  qed (rule v(2))
  show ?thesis
  proof (cases "cb_HasCRC cb")
    case False
    then have "cb_CRC cb = []" using wf by (simp add: wf_cb_def)
    then have "\<lparr>BlockNumber = BlockNumber cb, BlockControlFlags = BlockControlFlags cb,
        cb_CRCType = cb_CRCType cb, cb_CRC = [], Value = Some v\<rparr> = cb"
      using v(1) by (cases cb) simp
    with False no show ?thesis
      by (simp add: cb_UnmarshalCbor_def cb_fields_rw rb cb_checkCRC_def)
  next
    case True
    define fields where "fields = WriteUInt L (BlockTypeCode v) @ WriteUInt L (BlockNumber cb) @
       WriteUInt L (BlockControlFlags cb) @ WriteUInt L (cb_CRCType cb) @ val"
    from True yes obtain crc where
      crc: "calculateCRCBuff L (WriteArrayLength L 6 @ fields) (cb_CRCType cb) = Inr crc"
      and cb': "cb' = cb\<lparr>cb_CRC := crc\<rparr>"
      and bs: "bs = WriteArrayLength L 6 @ fields @ WriteByteString L crc"
      by (auto simp: Let_def fields_def)
    have f: "cb_fields L (bs @ r) =
      Inr ((6, fields @ WriteByteString L crc @ r, BlockTypeCode v,
        \<lparr>BlockNumber = BlockNumber cb, BlockControlFlags = BlockControlFlags cb,
         cb_CRCType = cb_CRCType cb, cb_CRC = [], Value = None\<rparr>), val @ WriteByteString L crc @ r)"
      by (simp add: bs fields_def cb_fields_rw)
    have c: "consumed (fields @ WriteByteString L crc @ r) (WriteByteString L crc @ r) = fields"
      by simp
    have "ReadByteString L (WriteByteString L crc @ r) = Inr (crc, r)"
      by (rule byte_string_rw [OF calculateCRCBuff_short [OF crc]])
    moreover have "cb' = \<lparr>BlockNumber = BlockNumber cb, BlockControlFlags = BlockControlFlags cb,
         cb_CRCType = cb_CRCType cb, cb_CRC = crc, Value = Some v\<rparr>"
      using v(1) by (cases cb) (simp add: cb')
    ultimately show ?thesis
      by (simp add: cb_UnmarshalCbor_def f rb cb_checkCRC_def c crc)
  qed
qed

lemma cb_fields_front: "takes_front (cb_fields L)"
  unfolding takes_front_def cb_fields_def
  by (auto simp: andThen_eq_Inr split: if_splits
      dest!: takes_frontD [OF array_front] takes_frontD [OF uint_front])
    (metis strict_suffix_trans)+

lemma cb_checkCRC_front: "cb_checkCRC L n r0 cb i = Inr (x, r) \<Longrightarrow> weak_suffix r i"
  by (auto simp: cb_checkCRC_def Let_def andThen_eq_Inr split: if_splits
      dest!: takes_frontD [OF byte_string_front] intro: strict_weak)

lemma cb_front: "takes_front (cb_UnmarshalCbor L M)"
  unfolding takes_front_def cb_UnmarshalCbor_def
  by (auto simp: andThen_eq_Inr dest!: takes_frontD [OF cb_fields_front]
      takes_frontD [OF block_front] cb_checkCRC_front)
    (blast intro: weak_strict_trans strict_weak)

end

lemma cb_fields_Value:
  "cb_fields L i = Inr ((n, r0, t, cb), r) \<Longrightarrow> Value cb = None \<and> cb_CRC cb = []"
  by (auto simp: cb_fields_def andThen_eq_Inr split: if_splits)

lemma cb_UnmarshalCbor_Value:
  "cb_UnmarshalCbor L M i = Inr (cb, r) \<Longrightarrow> \<exists>v. Value cb = Some v"
  by (auto simp: cb_UnmarshalCbor_def cb_checkCRC_def Let_def andThen_eq_Inr split: if_splits)

end
