(* ===== verification/Bundle_Id.thy ===== *)
theory Bundle_Id
  imports Endpoint Dtn_Time
begin

text \<open>
  \<^verbatim>\<open>pkg/bpv7/bundle_id.go\<close>: the identifier of a bundle, its textual form (the key of the store
  and the name of the bundle's file), the parser of that form and the CBOR serialisation
  that status reports use. \<^verbatim>\<open>UnmarshalCbor\<close> is told beforehand whether it reads a fragment.
\<close>

record bundle_id =
  bid_SourceNode :: endpoint_id
  bid_Timestamp :: creation_timestamp
  bid_IsFragment :: bool
  bid_FragmentOffset :: u64
  bid_TotalDataLength :: u64

definition bid_String :: "bundle_id \<Rightarrow> string" where
  "bid_String bid =
     eid_String (bid_SourceNode bid) @ ''-'' @ show_u64 (fst (bid_Timestamp bid)) @ ''-'' @
     show_u64 (snd (bid_Timestamp bid)) @
     (if bid_IsFragment bid
      then ''-'' @ show_u64 (bid_FragmentOffset bid) @ ''-'' @ show_u64 (bid_TotalDataLength bid)
      else [])"

definition NewBundleID :: "string \<Rightarrow> bundle_id res" where
  "NewBundleID uri =
     (let parts = split_on CHR ''-'' uri
      in if length parts \<noteq> 3 \<and> length parts \<noteq> 5
         then Inl (Errorf ''not a valid BundleID'')
         else andThen (NewEndpointID (parts ! 0)) (\<lambda>eid.
              andThen (ParseUint (parts ! 1)) (\<lambda>t.
              andThen (ParseUint (parts ! 2)) (\<lambda>s.
                if length parts = 5
                then andThen (ParseUint (parts ! 3)) (\<lambda>offset.
                     andThen (ParseUint (parts ! 4)) (\<lambda>len.
                       Inr \<lparr>bid_SourceNode = eid, bid_Timestamp = (t, s), bid_IsFragment = True,
                            bid_FragmentOffset = offset, bid_TotalDataLength = len\<rparr>))
                else Inr \<lparr>bid_SourceNode = eid, bid_Timestamp = (t, s), bid_IsFragment = False,
                          bid_FragmentOffset = 0, bid_TotalDataLength = 0\<rparr>))))"

definition bid_Len :: "bundle_id \<Rightarrow> u64" where
  "bid_Len bid = (if bid_IsFragment bid then 4 else 2)"

definition Scrub :: "bundle_id \<Rightarrow> bundle_id" where
  "Scrub bid =
     \<lparr>bid_SourceNode = bid_SourceNode bid, bid_Timestamp = bid_Timestamp bid,
      bid_IsFragment = False, bid_FragmentOffset = 0, bid_TotalDataLength = 0\<rparr>"

definition bid_MarshalCbor :: "lib \<Rightarrow> bundle_id \<Rightarrow> bytes res" where
  "bid_MarshalCbor L bid =
     andThen (wrapping ''marshalling source node failed'' (eid_MarshalCbor L (bid_SourceNode bid)))
       (\<lambda>src. Inr (src @ ct_MarshalCbor L (bid_Timestamp bid) @
          (if bid_IsFragment bid
           then concat (map (WriteUInt L) [bid_FragmentOffset bid, bid_TotalDataLength bid])
           else [])))"

definition bid_UnmarshalCbor :: "lib \<Rightarrow> bool \<Rightarrow> bundle_id reader" where
  "bid_UnmarshalCbor L isFragment i =
     andThen (wrapping ''unmarshalling source node failed'' (eid_UnmarshalCbor L i)) (\<lambda>(src, r).
     andThen (wrapping ''unmarshalling timestamp failed'' (ct_UnmarshalCbor L r)) (\<lambda>(ts, r).
       if isFragment
       then andThen (ReadUInt L r) (\<lambda>(off, r).
            andThen (ReadUInt L r) (\<lambda>(len, r).
              Inr (\<lparr>bid_SourceNode = src, bid_Timestamp = ts, bid_IsFragment = True,
                    bid_FragmentOffset = off, bid_TotalDataLength = len\<rparr>, r)))
       else Inr (\<lparr>bid_SourceNode = src, bid_Timestamp = ts, bid_IsFragment = False,
                  bid_FragmentOffset = 0, bid_TotalDataLength = 0\<rparr>, r)))"

section \<open>Lemmas\<close>

definition wf_bid :: "bundle_id \<Rightarrow> bool" where
  "wf_bid bid \<longleftrightarrow> wf_eid (bid_SourceNode bid) \<and>
     (\<not> bid_IsFragment bid \<longrightarrow> bid_FragmentOffset bid = 0 \<and> bid_TotalDataLength bid = 0)"

text \<open>The separator of the textual form is a legal character of a node name and of a demux.\<close>

definition hyphen_free :: "endpoint_id \<Rightarrow> bool" where
  "hyphen_free eid \<longleftrightarrow> CHR ''-'' \<notin> set (eid_String eid)"

lemma hyphen_not_digit: "CHR ''-'' \<notin> set (show_u64 w)"
  by (rule not_in_show_u64) code_simp

lemma split_bid_String:
  assumes "hyphen_free (bid_SourceNode bid)"
  shows "split_on CHR ''-'' (bid_String bid) =
    [eid_String (bid_SourceNode bid), show_u64 (fst (bid_Timestamp bid)),
     show_u64 (snd (bid_Timestamp bid))] @
    (if bid_IsFragment bid
     then [show_u64 (bid_FragmentOffset bid), show_u64 (bid_TotalDataLength bid)] else [])"
  using assms
  by (simp add: bid_String_def hyphen_free_def split_on_append split_on_none hyphen_not_digit)

lemma bid_uri_rw:
  assumes "wf_bid bid" "hyphen_free (bid_SourceNode bid)"
  shows "NewBundleID (bid_String bid) = Inr bid"
proof -
  obtain et where et: "bid_SourceNode bid = Some et" "wf_endpoint et"
    using assms(1) by (auto simp: wf_bid_def wf_eid_def split: option.splits)
  have "NewEndpointID (eid_String (bid_SourceNode bid)) = Inr (bid_SourceNode bid)"
    by (simp add: et eid_String_def endpoint_uri_rw)
  with assms show ?thesis
    by (cases bid) (auto simp: NewBundleID_def split_bid_String wf_bid_def)
qed

lemma split_on_hd: "CHR ''-'' \<notin> set (hd (split_on CHR ''-'' s)) \<and> split_on CHR ''-'' s \<noteq> []"
  by (induction s) (auto split: list.splits)

lemma ipn_hyphen_free: "CHR ''-'' \<notin> set (ipn_String n s)"
  using hyphen_not_digit by (simp add: ipn_String_def)

lemma NewBundleID_source:
  assumes "NewBundleID uri = Inr bid"
  shows "hyphen_free (bid_SourceNode bid)"
proof -
  let ?p = "split_on CHR ''-'' uri ! 0"
  from assms obtain eid where e: "NewEndpointID ?p = Inr eid" "bid_SourceNode bid = eid"
    by (auto simp: NewBundleID_def Let_def andThen_eq_Inr split: if_splits)
  from e(1) obtain et where et: "eid = Some et"
    "case et of DtnEndpoint _ \<Rightarrow> et_String et = ?p | IpnEndpoint _ _ \<Rightarrow> True"
    by (rule NewEndpointID_InrD) blast
  have "CHR ''-'' \<notin> set ?p" using split_on_hd [of uri] by (metis hd_conv_nth)
  with et show ?thesis
    by (cases et) (auto simp: e(2) hyphen_free_def eid_String_def et_String_def ipn_hyphen_free)
qed

context cboring
begin

lemma bid_rw [codec]:
  assumes "wf_bid bid" "bid_MarshalCbor L bid = Inr bs"
  shows "bid_UnmarshalCbor L (bid_IsFragment bid) (bs @ r) = Inr (bid, r)"
proof -
  obtain src where src: "eid_MarshalCbor L (bid_SourceNode bid) = Inr src"
    using assms(2) by (auto simp: bid_MarshalCbor_def andThen_eq_Inr)
  then have bs: "bs = src @ ct_MarshalCbor L (bid_Timestamp bid) @
      (if bid_IsFragment bid
       then WriteUInt L (bid_FragmentOffset bid) @ WriteUInt L (bid_TotalDataLength bid) else [])"
    using assms(2) by (simp add: bid_MarshalCbor_def split: if_splits)
  have rd: "eid_UnmarshalCbor L (src @ r) = Inr (bid_SourceNode bid, r)" for r
    using assms(1) by (intro eid_rw [OF _ src]) (simp add: wf_bid_def)
  show ?thesis
    using assms(1)
    by (cases bid) (simp add: bs bid_UnmarshalCbor_def rd [simplified] wf_bid_def ct_rw read_back)
qed

end

section \<open>Properties\<close>

text \<open>
  Also shown: \<^verbatim>\<open>NewBundleID\<close> reads the textual form of a bundle ID back exactly when the source's
  URI has no hyphen, which is also the separator of the form. Node names may contain hyphens, and
  the IDs of their bundles do not survive the round trip.
\<close>

theorem bundle_id_string_roundtrip:
  assumes "wf_bid bid"
  shows "NewBundleID (bid_String bid) = Inr bid \<longleftrightarrow> hyphen_free (bid_SourceNode bid)"
  using bid_uri_rw [OF assms] NewBundleID_source by blast

theorem bundle_id_string_roundtrip_witness:
  "NewBundleID (bid_String \<lparr>bid_SourceNode = Some (IpnEndpoint 1 2), bid_Timestamp = (3, 4),
     bid_IsFragment = True, bid_FragmentOffset = 5, bid_TotalDataLength = 6\<rparr>) =
   Inr \<lparr>bid_SourceNode = Some (IpnEndpoint 1 2), bid_Timestamp = (3, 4),
     bid_IsFragment = True, bid_FragmentOffset = 5, bid_TotalDataLength = 6\<rparr>"
proof -
  let ?b = "\<lparr>bid_SourceNode = Some (IpnEndpoint 1 2), bid_Timestamp = (3, 4),
     bid_IsFragment = True, bid_FragmentOffset = 5, bid_TotalDataLength = 6\<rparr>"
  have "wf_bid ?b"
    by (simp add: wf_bid_def wf_eid_def wf_endpoint_def et_String_def ipn_String_def show_u64_def
        show_nat.simps)
  moreover have "hyphen_free (Some (IpnEndpoint 1 2))"
    by (simp add: hyphen_free_def eid_String_def et_String_def ipn_hyphen_free)
  ultimately show ?thesis using bundle_id_string_roundtrip by auto
qed

text \<open>
  Also shown: the textual form, which keys the store and names the bundle files, is not unique. A
  fragment and a whole bundle of different, well-formed sources have the same one.
\<close>

theorem bundle_id_string_collision:
  "\<exists>bid bid'. wf_bid bid \<and> wf_bid bid' \<and> bid_SourceNode bid \<noteq> bid_SourceNode bid' \<and>
    Scrub bid \<noteq> Scrub bid' \<and> bid_String bid = bid_String bid'"
proof -
  let ?e = "\<lambda>d. DtnEndpoint \<lparr>NodeName = ''a'', Demux = d, IsDtnNone = False\<rparr>"
  let ?b = "\<lparr>bid_SourceNode = Some (?e []), bid_Timestamp = (1, 2), bid_IsFragment = True,
    bid_FragmentOffset = 3, bid_TotalDataLength = 4\<rparr>"
  let ?b' = "\<lparr>bid_SourceNode = Some (?e ''-1-2''), bid_Timestamp = (3, 4), bid_IsFragment = False,
    bid_FragmentOffset = 0, bid_TotalDataLength = 0\<rparr>"
  have "wf_bid ?b" "wf_bid ?b'"
    by (simp_all add: wf_bid_def wf_eid_def wf_endpoint_def wf_dtn_def node_char_def is_alnum_def
        newline_def et_String_def dtn_String_def)
  moreover have "bid_String ?b = bid_String ?b'"
    by (simp add: bid_String_def eid_String_def et_String_def dtn_String_def show_u64_def
        show_nat.simps)
  moreover have "Scrub ?b \<noteq> Scrub ?b'" "bid_SourceNode ?b \<noteq> bid_SourceNode ?b'"
    by (simp_all add: Scrub_def)
  ultimately show ?thesis by blast
qed

end
