(* ===== verification/Bundle.thy ===== *)
theory Bundle
  imports Primary Canonical Bundle_Id
begin

text \<open>
  \<^verbatim>\<open>pkg/bpv7/bundle.go\<close>: bundles, their block list and its invariant, the checks of a whole
  bundle, serialisation and parsing, and partially loaded bundles. A pointer to an extension
  block is its position in the bundle's list. What reads the clock takes the current time
  \<open>now\<close>. The loop that reads blocks ends at a break code only: it is a partial function, whose
  value \<open>None\<close> would be a loop that never ends.
\<close>

record dtn_bundle =
  PrimaryBlock :: primary_block
  ExtensionBlocks :: "canonical_block list"
  b_PayloadBlock :: canonical_block

section \<open>Finding blocks\<close>

definition ExtensionBlocksByType :: "dtn_bundle \<Rightarrow> u64 \<Rightarrow> nat list res" where
  "ExtensionBlocksByType b blockType =
     andThen (map_res TypeCode (ExtensionBlocks b)) (\<lambda>codes.
       let cbs = filter (\<lambda>i. codes ! i = blockType) [0..<length codes]
       in if cbs = [] then Inl (Errorf ''no CanonicalBlock with block type was found in Bundle'')
          else Inr cbs)"

definition ExtensionBlockByType :: "dtn_bundle \<Rightarrow> u64 \<Rightarrow> nat res" where
  "ExtensionBlockByType b blockType =
     andThen (ExtensionBlocksByType b blockType) (\<lambda>cbs.
       if length cbs \<noteq> 1 then Inl (Errorf ''there are several Extension Blocks for type code'')
       else Inr (cbs ! 0))"

definition HasExtensionBlock :: "dtn_bundle \<Rightarrow> u64 \<Rightarrow> bool res" where
  "HasExtensionBlock b blockType =
     (case ExtensionBlocksByType b blockType of
        Inl (Panic p) \<Rightarrow> Inl (Panic p) | Inl _ \<Rightarrow> Inr False | Inr _ \<Rightarrow> Inr True)"

definition GetExtensionBlockByBlockNumber :: "dtn_bundle \<Rightarrow> u64 \<Rightarrow> canonical_block res" where
  "GetExtensionBlockByBlockNumber b blockNumber =
     (case find (\<lambda>cb. BlockNumber cb = blockNumber) (ExtensionBlocks b) of
        None \<Rightarrow> Inl (Errorf ''block with number not found'') | Some cb \<Rightarrow> Inr cb)"

fun remove_first :: "('a \<Rightarrow> bool) \<Rightarrow> 'a list \<Rightarrow> 'a list" where
  "remove_first P [] = []"
| "remove_first P (x # xs) = (if P x then xs else x # remove_first P xs)"

definition RemoveExtensionBlockByBlockNumber :: "u64 \<Rightarrow> dtn_bundle \<Rightarrow> dtn_bundle" where
  "RemoveExtensionBlockByBlockNumber blockNumber b =
     b\<lparr>ExtensionBlocks := remove_first (\<lambda>cb. BlockNumber cb = blockNumber) (ExtensionBlocks b)\<rparr>"

section \<open>Building and changing bundles\<close>

definition sortExtensionBlocks :: "dtn_bundle \<Rightarrow> dtn_bundle" where
  "sortExtensionBlocks b =
     b\<lparr>ExtensionBlocks := go_sort canonicalBlockNumberSort_Less (ExtensionBlocks b)\<rparr>"

definition MustNewBundle ::
  "primary_block \<Rightarrow> canonical_block list \<Rightarrow> canonical_block \<Rightarrow> dtn_bundle" where
  "MustNewBundle primary extensions payload =
     sortExtensionBlocks
       \<lparr>PrimaryBlock = primary, ExtensionBlocks = extensions, b_PayloadBlock = payload\<rparr>"

text \<open>
  The smallest block number from \<open>n\<close> on that is not taken. The counter is a natural number: a
  slice has fewer than \<open>2 ^ 63\<close> blocks, so that the 64-bit counter of the code does not wrap
  (\<open>first_free_bound\<close>).
\<close>

function first_free :: "nat list \<Rightarrow> nat \<Rightarrow> nat" where
  "first_free ns n = (if n \<in> set ns then first_free ns (n + 1) else n)"
  by auto
termination
proof (relation "measure (\<lambda>(ns, n). card {x \<in> set ns. n \<le> x})")
  fix ns :: "nat list" and n :: nat
  assume "n \<in> set ns"
  then have "n \<in> {x \<in> set ns. n \<le> x}" "n \<notin> {x \<in> set ns. n + 1 \<le> x}" by simp_all
  moreover have "{x \<in> set ns. n + 1 \<le> x} \<subseteq> {x \<in> set ns. n \<le> x}" by (simp add: subset_iff)
  ultimately have "{x \<in> set ns. n + 1 \<le> x} \<subset> {x \<in> set ns. n \<le> x}" by blast
  then have "card {x \<in> set ns. n + 1 \<le> x} < card {x \<in> set ns. n \<le> x}"
    by (intro psubset_card_mono) simp_all
  then show "((ns, n + 1), ns, n) \<in> measure (\<lambda>(ns, n). card {x \<in> set ns. n \<le> x})" by simp
qed simp

declare first_free.simps [simp del]

definition AddExtensionBlock :: "canonical_block \<Rightarrow> dtn_bundle \<Rightarrow> dtn_bundle res" where
  "AddExtensionBlock block b =
     andThen (TypeCode block) (\<lambda>typeCode.
       let blockNumbers = map (\<lambda>cb. unat (BlockNumber cb)) (ExtensionBlocks b);
           start = (if typeCode \<noteq> BlockTypePayloadBlock then 2 else 1);
           block = block\<lparr>BlockNumber := word_of_nat (first_free blockNumbers start)\<rparr>
       in Inr (sortExtensionBlocks (b\<lparr>ExtensionBlocks := ExtensionBlocks b @ [block]\<rparr>)))"

definition b_SetCRCType :: "lib \<Rightarrow> crc_type \<Rightarrow> dtn_bundle \<Rightarrow> dtn_bundle" where
  "b_SetCRCType L crcType b =
     \<lparr>PrimaryBlock = pb_SetCRCType L crcType (PrimaryBlock b),
      ExtensionBlocks = map (cb_SetCRCType crcType) (ExtensionBlocks b),
      b_PayloadBlock = cb_SetCRCType crcType (b_PayloadBlock b)\<rparr>"

definition b_ID :: "dtn_bundle \<Rightarrow> bundle_id" where
  "b_ID b =
     \<lparr>bid_SourceNode = SourceNode (PrimaryBlock b),
      bid_Timestamp = CreationTimestamp (PrimaryBlock b),
      bid_IsFragment = Has (BundleControlFlags (PrimaryBlock b)) IsFragment,
      bid_FragmentOffset = FragmentOffset (PrimaryBlock b),
      bid_TotalDataLength = TotalDataLength (PrimaryBlock b)\<rparr>"

definition IsAdministrativeRecord :: "dtn_bundle \<Rightarrow> bool" where
  "IsAdministrativeRecord b \<longleftrightarrow>
     Has (BundleControlFlags (PrimaryBlock b)) AdministrativeRecordPayload"

text \<open>\<^verbatim>\<open>b.PayloadBlock.Value.(*PayloadBlock).Data()\<close>\<close>

definition payload_data :: "canonical_block \<Rightarrow> bytes res" where
  "payload_data cb =
     (case Value cb of
        Some (PayloadBlock data) \<Rightarrow> Inr data
      | _ \<Rightarrow> Inl (Panic ''interface conversion: ExtensionBlock is not *PayloadBlock''))"

section \<open>Checks\<close>

definition IsLifetimeExceeded :: "time \<Rightarrow> dtn_bundle \<Rightarrow> bool res" where
  "IsLifetimeExceeded now b =
     (let pb = PrimaryBlock b
      in if IsZeroTime (CreationTimestamp pb) then
           (case ExtensionBlockByType b BlockTypeBundleAgeBlock of
              Inl (Panic p) \<Rightarrow> Inl (Panic p)
            | Inl _ \<Rightarrow> Inr True
            | Inr i \<Rightarrow>
                (case Value (ExtensionBlocks b ! i) of
                   Some (BundleAgeBlock age) \<Rightarrow> Inr (age > Lifetime pb)
                 | _ \<Rightarrow> Inl (Panic ''interface conversion: ExtensionBlock is not *BundleAgeBlock'')))
         else
           let maxTimestamp = Time (ct_DtnTime (CreationTimestamp pb)) + duration_of_ms (Lifetime pb)
           in Inr (now > maxTimestamp))"

text \<open>
  The checks of a block against its bundle: a previous node, bundle age or hop count block is
  the only one of its type. \<open>i\<close> is the position of the block that checks itself.
\<close>

definition unique_of_type :: "dtn_bundle \<Rightarrow> nat \<Rightarrow> u64 \<Rightarrow> err list res" where
  "unique_of_type b i blockType =
     (case ExtensionBlockByType b blockType of
        Inl (Panic p) \<Rightarrow> Inl (Panic p)
      | Inl e \<Rightarrow> Inr [e]
      | Inr j \<Rightarrow> Inr (if j \<noteq> i then [Errorf ''the pointer of the block differs''] else []))"

definition CheckContextValid :: "dtn_bundle \<Rightarrow> nat \<Rightarrow> ext_block \<Rightarrow> err list res" where
  "CheckContextValid b i v =
     (case v of
        PreviousNodeBlock _ \<Rightarrow> unique_of_type b i BlockTypePreviousNodeBlock
      | BundleAgeBlock _ \<Rightarrow> unique_of_type b i BlockTypeBundleAgeBlock
      | HopCountBlock _ _ \<Rightarrow> unique_of_type b i BlockTypeHopCountBlock
      | _ \<Rightarrow> Inr [])"

text \<open>The loop over the extension blocks from position \<open>i\<close>, with the numbers seen before.\<close>

fun check_blocks :: "dtn_bundle \<Rightarrow> u64 list \<Rightarrow> nat \<Rightarrow> canonical_block list \<Rightarrow> err list res" where
  "check_blocks b seen i [] = Inr []"
| "check_blocks b seen i (cb # cbs) =
     (case Value cb of
        None \<Rightarrow> nil_deref
      | Some v \<Rightarrow>
          andThen (CheckContextValid b i v) (\<lambda>ctx.
          andThen (check_blocks b (BlockNumber cb # seen) (i + 1) cbs) (\<lambda>rest.
            Inr ((if BlockNumber cb \<in> set seen
                  then [Errorf ''bundle: block number occurred multiple times''] else []) @
              ctx @ rest))))"

definition b_CheckValid :: "time \<Rightarrow> dtn_bundle \<Rightarrow> err list res" where
  "b_CheckValid now b =
     andThen (map_res cb_CheckValid (ExtensionBlocks b)) (\<lambda>exts.
     andThen (cb_CheckValid (b_PayloadBlock b)) (\<lambda>pl.
     andThen (check_blocks b [] 0 (ExtensionBlocks b)) (\<lambda>ctx.
     andThen (if IsZeroTime (CreationTimestamp (PrimaryBlock b))
              then HasExtensionBlock b BlockTypeBundleAgeBlock else Inr True) (\<lambda>aged.
     andThen (IsLifetimeExceeded now b) (\<lambda>exceeded.
       Inr (pb_CheckValid (PrimaryBlock b) @ concat exts @ pl @
         (if Has (BlockControlFlags (b_PayloadBlock b)) StatusReportBlock
          then [Errorf ''bundle: status report block control flag was set in a canonical block'']
          else []) @
         ctx @
         (if \<not> aged
          then [Errorf ''Bundle: Creation Timestamp is zero, but no Bundle Age block exists'']
          else []) @
         (if exceeded then [Errorf ''Bundle: Lifetime is exceeded''] else [])))))))"

text \<open>\<^verbatim>\<open>NewBundle\<close> returns the bundle and the errors of its checks.\<close>

definition NewBundle ::
  "time \<Rightarrow> primary_block \<Rightarrow> canonical_block list \<Rightarrow> canonical_block \<Rightarrow> (dtn_bundle \<times> err list) res" where
  "NewBundle now primary extensions payload =
     (let b = MustNewBundle primary extensions payload
      in andThen (b_CheckValid now b) (\<lambda>errs. Inr (b, errs)))"

section \<open>Serialisation\<close>

text \<open>Marshalling the blocks one after another; each keeps the CRC computed for it.\<close>

fun marshal_blocks :: "lib \<Rightarrow> canonical_block list \<Rightarrow> (bytes \<times> canonical_block list) res" where
  "marshal_blocks L [] = Inr ([], [])"
| "marshal_blocks L (cb # cbs) =
     andThen (wrapping ''ExtensionBlock failed'' (cb_MarshalCbor L cb)) (\<lambda>(bs, cb').
     andThen (marshal_blocks L cbs) (\<lambda>(rest, cbs'). Inr (bs @ rest, cb' # cbs')))"

definition b_MarshalCbor :: "lib \<Rightarrow> dtn_bundle \<Rightarrow> (bytes \<times> dtn_bundle) res" where
  "b_MarshalCbor L b =
     andThen (wrapping ''PrimaryBlock failed'' (pb_MarshalCbor L (PrimaryBlock b))) (\<lambda>(p, pb').
     andThen (marshal_blocks L (ExtensionBlocks b)) (\<lambda>(es, ebs').
     andThen (wrapping ''PayloadBlock failed'' (cb_MarshalCbor L (b_PayloadBlock b))) (\<lambda>(pl, cb').
       Inr ([IndefiniteArray L] @ p @ es @ pl @ [BreakCode L],
         \<lparr>PrimaryBlock = pb', ExtensionBlocks = ebs', b_PayloadBlock = cb'\<rparr>))))"

text \<open>
  The loop of \<^verbatim>\<open>UnmarshalCbor\<close>. Any break code that a read of a block reports, also one in the
  middle of the block's fields, ends the loop. The result names the stream from which that last
  block was tried.
\<close>

partial_function (option) read_blocks ::
  "lib \<Rightarrow> ebm \<Rightarrow> canonical_block list \<Rightarrow> canonical_block \<Rightarrow> bytes \<Rightarrow>
   (canonical_block list \<times> canonical_block \<times> bytes) res option" where
  "read_blocks L M exts payload i =
     (case cb_UnmarshalCbor L M i of
        Inl e \<Rightarrow>
          if e = FlagBreakCode then Some (Inr (exts, payload, i))
          else Some (Inl (wrap_err ''CanonicalBlock failed'' e))
      | Inr (cb, r) \<Rightarrow>
          (case TypeCode cb of
             Inl e \<Rightarrow> Some (Inl e)
           | Inr code \<Rightarrow>
               if code = BlockTypePayloadBlock then read_blocks L M exts cb r
               else read_blocks L M (exts @ [cb]) payload r))"

declare read_blocks.simps [code]

text \<open>
  \<^verbatim>\<open>UnmarshalCbor\<close> into a fresh bundle. When the blocks were read, the bundle is there together
  with the errors of its checks, which the code returns as one error.
\<close>

definition b_UnmarshalCbor ::
  "lib \<Rightarrow> ebm \<Rightarrow> time \<Rightarrow> bytes \<Rightarrow> (dtn_bundle \<times> err list \<times> bytes) res option" where
  "b_UnmarshalCbor L M now i =
     (case andThen (ReadExpect L (IndefiniteArray L) i) (\<lambda>(_, r).
           wrapping ''PrimaryBlock failed'' (pb_UnmarshalCbor L r)) of
        Inl e \<Rightarrow> Some (Inl e)
      | Inr (pb, r) \<Rightarrow>
          (case read_blocks L M [] empty_canonical r of
             None \<Rightarrow> None
           | Some res \<Rightarrow>
               Some (andThen res (\<lambda>(exts, payload, r).
                 let b = \<lparr>PrimaryBlock = pb, ExtensionBlocks = exts, b_PayloadBlock = payload\<rparr>
                 in andThen (b_CheckValid now b) (\<lambda>errs. Inr (b, errs, r))))))"

definition ParseBundle ::
  "lib \<Rightarrow> ebm \<Rightarrow> time \<Rightarrow> bytes \<Rightarrow> (dtn_bundle \<times> err list) res option" where
  "ParseBundle L M now i =
     map_option (\<lambda>res. andThen res (\<lambda>(b, errs, _). Inr (b, errs))) (b_UnmarshalCbor L M now i)"

section \<open>Partial bundles\<close>

record partial_bundle =
  part_PrimaryBlock :: primary_block
  part_ExtensionBlocks :: "canonical_block list"

text \<open>
  The loop of \<^verbatim>\<open>ParsePartialBundle\<close> over a file. A block that is not filled has no value, and the
  loop asks for its type code before it looks at an error other than the break code.
\<close>

partial_function (option) read_wanted ::
  "lib \<Rightarrow> ebm \<Rightarrow> bytes \<Rightarrow> u64 list \<Rightarrow> canonical_block list \<Rightarrow> bytes \<Rightarrow>
   canonical_block list res option" where
  "read_wanted L M file wantedBlocks exts i =
     (case cb_UnmarshalWantedBlock L M file wantedBlocks i of (cb, result) \<Rightarrow>
        if result = Inl FlagBreakCode then Some (Inr exts)
        else case TypeCode cb of
          Inl e \<Rightarrow> Some (Inl e)
        | Inr code \<Rightarrow>
            if code = BlockTypePayloadBlock then Some (Inr exts)
            else case result of
              Inl e \<Rightarrow> Some (Inl (wrap_err ''CanonicalBlock failed'' e))
            | Inr (wanted, r) \<Rightarrow>
                if wanted \<and> code \<in> set wantedBlocks
                then if remove1 code wantedBlocks = [] then Some (Inr (exts @ [cb]))
                     else read_wanted L M file (remove1 code wantedBlocks) (exts @ [cb]) r
                else read_wanted L M file wantedBlocks exts r)"

declare read_wanted.simps [code]

definition first_errs :: "err list \<Rightarrow> unit res" where
  "first_errs errs = (if errs = [] then Inr () else Inl (MultiErr errs))"

definition ParsePartialBundle ::
  "lib \<Rightarrow> ebm \<Rightarrow> u64 list \<Rightarrow> bytes \<Rightarrow> partial_bundle res option" where
  "ParsePartialBundle L M wantedBlocks file =
     (case andThen (ReadExpect L (IndefiniteArray L) file) (\<lambda>(_, r).
           wrapping ''PrimaryBlock failed'' (pb_UnmarshalCbor L r)) of
        Inl e \<Rightarrow> Some (Inl e)
      | Inr (pb, r) \<Rightarrow>
          (case read_wanted L M file wantedBlocks [] r of
             None \<Rightarrow> None
           | Some res \<Rightarrow>
               Some (andThen res (\<lambda>exts.
                 andThen (first_errs (pb_CheckValid pb)) (\<lambda>_.
                 andThen (map_res (\<lambda>cb. andThen (cb_CheckValid cb) first_errs) exts) (\<lambda>_.
                   Inr \<lparr>part_PrimaryBlock = pb, part_ExtensionBlocks = exts\<rparr>))))))"

definition part_ExtensionBlockByType :: "partial_bundle \<Rightarrow> u64 \<Rightarrow> canonical_block res" where
  "part_ExtensionBlockByType pb blockType =
     andThen (map_res TypeCode (part_ExtensionBlocks pb)) (\<lambda>codes.
       case find (\<lambda>i. codes ! i = blockType) [0..<length codes] of
         None \<Rightarrow> Inl (Errorf ''no CanonicalBlock with block type was found in PartialBundle'')
       | Some i \<Rightarrow> Inr (part_ExtensionBlocks pb ! i))"

text \<open>\<^verbatim>\<open>FindExtensionBlock\<close> for the type of the sample block: the first block of this code and type.\<close>

fun find_ext :: "ext_block \<Rightarrow> canonical_block list \<Rightarrow> ext_block res" where
  "find_ext eb [] = Inl (Errorf ''could not find block'')"
| "find_ext eb (cb # cbs) =
     (case Value cb of
        None \<Rightarrow> nil_deref
      | Some v \<Rightarrow>
          if BlockTypeCode v = BlockTypeCode eb \<and> type_of v = type_of eb then Inr v
          else find_ext eb cbs)"

definition FindExtensionBlock :: "partial_bundle \<Rightarrow> ext_block \<Rightarrow> ext_block res" where
  "FindExtensionBlock pb eb = find_ext eb (part_ExtensionBlocks pb)"

section \<open>Checks do not look at the CRC\<close>

definition erase_cb :: "canonical_block \<Rightarrow> canonical_block" where
  "erase_cb cb = cb\<lparr>cb_CRC := []\<rparr>"

definition erase :: "dtn_bundle \<Rightarrow> dtn_bundle" where
  "erase b =
     \<lparr>PrimaryBlock = (PrimaryBlock b)\<lparr>pb_CRC := []\<rparr>,
      ExtensionBlocks = map erase_cb (ExtensionBlocks b),
      b_PayloadBlock = erase_cb (b_PayloadBlock b)\<rparr>"

lemma erase_cb_simps [simp]:
  "TypeCode (erase_cb cb) = TypeCode cb" "Value (erase_cb cb) = Value cb"
  "BlockNumber (erase_cb cb) = BlockNumber cb" "cb_CheckValid (erase_cb cb) = cb_CheckValid cb"
  "BlockControlFlags (erase_cb cb) = BlockControlFlags cb"
  by (simp_all add: erase_cb_def TypeCode_def cb_CheckValid_def cong: option.case_cong)

lemma map_res_map: "map_res f (map g xs) = map_res (\<lambda>x. f (g x)) xs"
  by (induction xs) auto

lemma erase_by_type [simp]:
  "ExtensionBlocksByType (erase b) t = ExtensionBlocksByType b t"
  "ExtensionBlockByType (erase b) t = ExtensionBlockByType b t"
  "HasExtensionBlock (erase b) t = HasExtensionBlock b t"
proof -
  show *: "ExtensionBlocksByType (erase b) t = ExtensionBlocksByType b t"
    by (simp add: ExtensionBlocksByType_def erase_def map_res_map)
  show "ExtensionBlockByType (erase b) t = ExtensionBlockByType b t"
    "HasExtensionBlock (erase b) t = HasExtensionBlock b t"
    by (simp_all add: ExtensionBlockByType_def HasExtensionBlock_def *)
qed

lemma erase_context [simp]: "CheckContextValid (erase b) i v = CheckContextValid b i v"
  by (cases v) (simp_all add: CheckContextValid_def unique_of_type_def)

lemma erase_check_blocks [simp]:
  "check_blocks (erase b) seen i (map erase_cb cbs) = check_blocks b seen i cbs"
  by (induction cbs arbitrary: seen i) (auto cong: option.case_cong)

lemma ExtensionBlockByType_bound:
  assumes "ExtensionBlockByType b t = Inr i"
  shows "i < length (ExtensionBlocks b)"
proof -
  from assms obtain codes where c: "map_res TypeCode (ExtensionBlocks b) = Inr codes"
    and i: "filter (\<lambda>i. codes ! i = t) [0..<length codes] ! 0 = i"
      "length (filter (\<lambda>i. codes ! i = t) [0..<length codes]) = 1"
    by (auto simp: ExtensionBlockByType_def ExtensionBlocksByType_def andThen_eq_Inr Let_def
        split: if_splits)
  have "i \<in> set (filter (\<lambda>i. codes ! i = t) [0..<length codes])"
    using i nth_mem [of 0 "filter (\<lambda>i. codes ! i = t) [0..<length codes]"] by simp
  then show ?thesis using map_res_Inr_length [OF c] by simp
qed

lemma erase_lifetime [simp]: "IsLifetimeExceeded now (erase b) = IsLifetimeExceeded now b"
proof (cases "ExtensionBlockByType b BlockTypeBundleAgeBlock")
  case (Inl e)
  then show ?thesis
    by (simp add: IsLifetimeExceeded_def Let_def) (simp add: erase_def)
next
  case (Inr i)
  then have "i < length (ExtensionBlocks b)" by (rule ExtensionBlockByType_bound)
  with Inr show ?thesis
    by (simp add: IsLifetimeExceeded_def Let_def split: option.split ext_block.split)
      (simp add: erase_def)
qed

lemma erase_CheckValid [simp]: "b_CheckValid now (erase b) = b_CheckValid now b"
proof -
  have "map_res cb_CheckValid (ExtensionBlocks (erase b)) = map_res cb_CheckValid (ExtensionBlocks b)"
    by (simp add: erase_def map_res_map)
  moreover have "check_blocks (erase b) [] 0 (ExtensionBlocks (erase b)) =
      check_blocks b [] 0 (ExtensionBlocks b)"
    using erase_check_blocks [of b "[]" 0 "ExtensionBlocks b"]
    by (simp add: erase_def [of b] del: erase_check_blocks)
  ultimately show ?thesis
    by (simp add: b_CheckValid_def) (simp add: erase_def)
qed

lemma erase_eq_CheckValid: "erase b = erase b' \<Longrightarrow> b_CheckValid now b = b_CheckValid now b'"
  by (metis erase_CheckValid)

lemma cb_MarshalCbor_erase: "cb_MarshalCbor L cb = Inr (bs, cb') \<Longrightarrow> erase_cb cb' = erase_cb cb"
  by (auto simp: cb_MarshalCbor_def erase_cb_def Let_def andThen_eq_Inr split: if_splits)

lemma marshal_blocks_erase:
  "marshal_blocks L cbs = Inr (bs, cbs') \<Longrightarrow> map erase_cb cbs' = map erase_cb cbs"
  by (induction cbs arbitrary: bs cbs') (auto simp: andThen_eq_Inr dest: cb_MarshalCbor_erase)

lemma b_MarshalCbor_erase: "b_MarshalCbor L b = Inr (bs, b') \<Longrightarrow> erase b' = erase b"
  by (auto simp: b_MarshalCbor_def erase_def andThen_eq_Inr
      dest!: pb_MarshalCbor_CRC marshal_blocks_erase cb_MarshalCbor_erase)

section \<open>Reading back what was written\<close>

definition wf_bundle :: "ebm \<Rightarrow> dtn_bundle \<Rightarrow> bool" where
  "wf_bundle M b \<longleftrightarrow> wf_pb (PrimaryBlock b) \<and>
     (\<forall>cb \<in> set (ExtensionBlocks b). wf_cb M cb \<and> TypeCode cb \<noteq> Inr BlockTypePayloadBlock) \<and>
     wf_cb M (b_PayloadBlock b) \<and> TypeCode (b_PayloadBlock b) = Inr BlockTypePayloadBlock"

lemma wf_cb_TypeCode: "wf_cb M cb \<Longrightarrow> \<exists>c. TypeCode cb = Inr c"
  by (auto simp: wf_cb_def TypeCode_def split: option.splits)

context cboring
begin

lemma read_blocks_break: 
  "read_blocks L M exts payload (BreakCode L # r) = Some (Inr (exts, payload, BreakCode L # r))"
  by (subst read_blocks.simps) (simp add: cb_UnmarshalCbor_def cb_fields_def array_break)

lemma read_blocks_rw:
  assumes "marshal_blocks L cbs = Inr (bs, cbs')" "length bs < 2 ^ 64"
    and "\<forall>cb \<in> set cbs. wf_cb M cb \<and> TypeCode cb \<noteq> Inr BlockTypePayloadBlock"
  shows "read_blocks L M exts payload (bs @ r) = read_blocks L M (exts @ cbs') payload r"
  using assms
proof (induction cbs arbitrary: bs cbs' exts)
  case Nil
  then show ?case by simp
next
  case (Cons cb cbs)
  from Cons.prems obtain b1 cb' rest cbs'' where
    m: "cb_MarshalCbor L cb = Inr (b1, cb')" "marshal_blocks L cbs = Inr (rest, cbs'')"
    and eq: "bs = b1 @ rest" "cbs' = cb' # cbs''"
    by (auto simp: andThen_eq_Inr)
  have wf: "wf_cb M cb" and nt: "TypeCode cb \<noteq> Inr BlockTypePayloadBlock"
    using Cons.prems by auto
  have u: "cb_UnmarshalCbor L M (b1 @ rest @ r) = Inr (cb', rest @ r)"
    using Cons.prems(2) by (intro cb_rw [OF wf m(1)]) (simp add: eq)
  have "TypeCode cb' = TypeCode cb"
    using cb_MarshalCbor_erase [OF m(1)] erase_cb_simps(1) [of cb] erase_cb_simps(1) [of cb']
    by simp
  moreover obtain c where "TypeCode cb = Inr c" using wf_cb_TypeCode [OF wf] by blast
  ultimately have "read_blocks L M exts payload (bs @ r) =
      read_blocks L M (exts @ [cb']) payload (rest @ r)"
    using nt by (subst read_blocks.simps) (simp add: eq u)
  also have "\<dots> = read_blocks L M ((exts @ [cb']) @ cbs'') payload r"
    using Cons.prems by (intro Cons.IH [OF m(2)]) (auto simp: eq)
  finally show ?case by (simp add: eq)
qed

lemma b_Unmarshal_rw:
  assumes wf: "wf_bundle M b" and m: "b_MarshalCbor L b = Inr (bs, b')" and len: "length bs < 2 ^ 64"
  shows "b_UnmarshalCbor L M now (bs @ r) =
    Some (andThen (b_CheckValid now b) (\<lambda>errs. Inr (b', errs, BreakCode L # r)))"
proof -
  from m obtain p pb' es ebs' pl cb' where
    parts: "pb_MarshalCbor L (PrimaryBlock b) = Inr (p, pb')"
      "marshal_blocks L (ExtensionBlocks b) = Inr (es, ebs')"
      "cb_MarshalCbor L (b_PayloadBlock b) = Inr (pl, cb')"
    and eq: "bs = [IndefiniteArray L] @ p @ es @ pl @ [BreakCode L]"
      "b' = \<lparr>PrimaryBlock = pb', ExtensionBlocks = ebs', b_PayloadBlock = cb'\<rparr>"
    by (auto simp: b_MarshalCbor_def andThen_eq_Inr)
  have pb: "pb_UnmarshalCbor L (p @ es @ pl @ BreakCode L # r) = Inr (pb', es @ pl @ BreakCode L # r)"
    using wf by (intro pb_rw [OF _ parts(1)]) (simp add: wf_bundle_def)
  have "cb_UnmarshalCbor L M (pl @ BreakCode L # r) = Inr (cb', BreakCode L # r)"
    using wf len by (intro cb_rw [OF _ parts(3)]) (simp_all add: wf_bundle_def eq)
  moreover have "TypeCode cb' = Inr BlockTypePayloadBlock"
    using wf cb_MarshalCbor_erase [OF parts(3)] erase_cb_simps(1) [of cb'] 
      erase_cb_simps(1) [of "b_PayloadBlock b"] by (simp add: wf_bundle_def)
  ultimately have last: "read_blocks L M ebs' empty_canonical (pl @ BreakCode L # r) =
      Some (Inr (ebs', cb', BreakCode L # r))"
    by (subst read_blocks.simps) (simp add: read_blocks_break)
  have "read_blocks L M [] empty_canonical (es @ pl @ BreakCode L # r) = Some (Inr (ebs', cb', BreakCode L # r))"
    using read_blocks_rw [OF parts(2), of M "[]"] wf len last by (simp add: wf_bundle_def eq)
  then show ?thesis
    using erase_eq_CheckValid [OF b_MarshalCbor_erase [OF m], of now]
    by (simp add: b_UnmarshalCbor_def eq expect_hit pb)
qed

lemma bundle_rw:
  assumes "wf_bundle M b" and "b_MarshalCbor L b = Inr (bs, b')" and "length bs < 2 ^ 64"
  shows "ParseBundle L M now bs = Some (andThen (b_CheckValid now b) (\<lambda>errs. Inr (b', errs)))"
  using b_Unmarshal_rw [OF assms, of now "[]"] by (simp add: ParseBundle_def andThen_assoc)

lemma read_blocks_suffix:
  assumes "read_blocks L M exts payload i = Some (Inr (exts', payload', r))"
  shows "length r \<le> length i"
  using assms
proof (induction "length i" arbitrary: i exts payload rule: less_induct)
  case less
  show ?case
  proof (cases "cb_UnmarshalCbor L M i")
    case (Inl e)
    then show ?thesis using less.prems by (subst (asm) read_blocks.simps) (auto split: if_splits)
  next
    case (Inr x)
    obtain cb r1 where x: "x = (cb, r1)" by (cases x)
    have shorter: "length r1 < length i"
      using Inr x takes_frontD [OF cb_front] strict_suffix_length by blast
    have "(case TypeCode cb of Inl e \<Rightarrow> Some (Inl e)
        | Inr code \<Rightarrow> if code = BlockTypePayloadBlock then read_blocks L M exts cb r1
                      else read_blocks L M (exts @ [cb]) payload r1) = Some (Inr (exts', payload', r))"
      using less.prems by (subst (asm) read_blocks.simps) (simp add: Inr x)
    then show ?thesis
      using less.hyps [OF shorter, of exts cb] less.hyps [OF shorter, of "exts @ [cb]" payload] shorter
      by (auto split: sum.splits if_splits)
  qed
qed

lemma b_Unmarshal_suffix:
  assumes "b_UnmarshalCbor L M now i = Some (Inr (b, errs, r))"
  shows "length r \<le> length i"
proof -
  obtain r1 pb r2 exts payload where
    "ReadExpect L (IndefiniteArray L) i = Inr ((), r1)" "pb_UnmarshalCbor L r1 = Inr (pb, r2)"
    "read_blocks L M [] empty_canonical r2 = Some (Inr (exts, payload, r))"
    using assms
    by (auto simp: b_UnmarshalCbor_def andThen_eq_Inr Let_def split: sum.splits option.splits)
  then have "length r1 \<le> length i" "length r2 \<le> length r1" "length r \<le> length r2"
    using takes_frontD [OF expect_front]
      takes_frontD [OF pb_front] strict_suffix_length
      read_blocks_suffix less_imp_le by blast+
  then show ?thesis by simp
qed

lemma read_blocks_returns: "\<exists>res. read_blocks L M exts payload i = Some res"
proof (induction "length i" arbitrary: i exts payload rule: less_induct)
  case less
  show ?case
  proof (cases "cb_UnmarshalCbor L M i")
    case (Inl e)
    then show ?thesis by (subst read_blocks.simps) simp
  next
    case (Inr x)
    obtain cb r where x: "x = (cb, r)" by (cases x)
    have "length r < length i"
      using Inr x takes_frontD [OF cb_front] strict_suffix_length by blast
    then show ?thesis
      using less [of r] Inr x by (subst read_blocks.simps) (auto split: sum.split)
  qed
qed

lemma b_Unmarshal_returns: "\<exists>res. b_UnmarshalCbor L M now i = Some res"
proof (cases "andThen (ReadExpect L (IndefiniteArray L) i) (\<lambda>(_, r).
           wrapping ''PrimaryBlock failed'' (pb_UnmarshalCbor L r))")
  case (Inl e)
  then show ?thesis by (simp add: b_UnmarshalCbor_def)
next
  case (Inr x)
  obtain pb r where "x = (pb, r)" by (cases x)
  moreover obtain res where "read_blocks L M [] empty_canonical r = Some res"
    using read_blocks_returns by blast
  ultimately show ?thesis using Inr by (simp add: b_UnmarshalCbor_def)
qed

lemma ParseBundle_returns: "\<exists>res. ParseBundle L M now i = Some res"
  using b_Unmarshal_returns [of M now i] by (auto simp: ParseBundle_def)

end

section \<open>The list of extension blocks\<close>

text \<open>
  What every operation on a bundle's extension blocks keeps: they are sorted by block number,
  number 1 last, and no number occurs twice.
\<close>

definition block_numbers :: "dtn_bundle \<Rightarrow> u64 list" where
  "block_numbers b = map BlockNumber (ExtensionBlocks b)"

definition blocks_ok :: "dtn_bundle \<Rightarrow> bool" where
  "blocks_ok b \<longleftrightarrow> sorted (map block_rank (ExtensionBlocks b)) \<and> distinct (block_numbers b)"

lemma first_free_spec:
  "n \<le> first_free ns n \<and> first_free ns n \<notin> set ns \<and> (\<forall>m. n \<le> m \<and> m < first_free ns n \<longrightarrow> m \<in> set ns)"
proof (induction ns n rule: first_free.induct)
  case (1 ns n)
  show ?case
  proof (cases "n \<in> set ns")
    case True
    then have "first_free ns n = first_free ns (n + 1)" by (simp add: first_free.simps [of ns n])
    with 1 [OF True] True show ?thesis
      by (metis Suc_eq_plus1 Suc_leD not_less_eq_eq le_antisym)
  next
    case False
    then show ?thesis by (auto simp: first_free.simps [of ns n])
  qed
qed

lemma first_free_bound: "first_free ns n \<le> n + length ns"
proof -
  have "{n..<first_free ns n} \<subseteq> set ns" using first_free_spec [of n ns] by auto
  then have "card {n..<first_free ns n} \<le> card (set ns)" by (intro card_mono) auto
  also have "\<dots> \<le> length ns" by (rule card_length)
  finally show ?thesis using first_free_spec [of n ns] by simp
qed

lemma ExtensionBlocks_sort [simp]:
  "ExtensionBlocks (sortExtensionBlocks b) = sort_key block_rank (ExtensionBlocks b)"
  by (simp add: sortExtensionBlocks_def Less_block_rank go_sort_eq_sort_key)

lemma sort_other_fields [simp]:
  "PrimaryBlock (sortExtensionBlocks b) = PrimaryBlock b"
  "b_PayloadBlock (sortExtensionBlocks b) = b_PayloadBlock b"
  by (simp_all add: sortExtensionBlocks_def)

lemma blocks_ok_sort: "distinct (block_numbers b) \<Longrightarrow> blocks_ok (sortExtensionBlocks b)"
proof -
  assume "distinct (block_numbers b)"
  moreover have "mset (block_numbers (sortExtensionBlocks b)) = mset (block_numbers b)"
    by (simp add: block_numbers_def)
  ultimately have "distinct (block_numbers (sortExtensionBlocks b))"
    by (metis mset_eq_imp_distinct_iff)
  then show ?thesis by (simp add: blocks_ok_def)
qed

text \<open>The number an added block gets.\<close>

definition fresh_number :: "dtn_bundle \<Rightarrow> u64 \<Rightarrow> nat" where
  "fresh_number b code =
     first_free (map unat (block_numbers b)) (if code \<noteq> BlockTypePayloadBlock then 2 else 1)"

lemma AddExtensionBlock_Inr:
  assumes "AddExtensionBlock cb b = Inr b'"
  obtains code where "TypeCode cb = Inr code"
    "b' = sortExtensionBlocks (b\<lparr>ExtensionBlocks := ExtensionBlocks b @
      [cb\<lparr>BlockNumber := word_of_nat (fresh_number b code)\<rparr>]\<rparr>)"
  using assms
  by (auto simp: AddExtensionBlock_def andThen_eq_Inr Let_def fresh_number_def block_numbers_def
      comp_def)

lemma fresh_number_word:
  assumes "length (ExtensionBlocks b) < 2 ^ 63"
  shows "unat (word_of_nat (fresh_number b code) :: u64) = fresh_number b code"
proof -
  have "fresh_number b code \<le> 2 + length (ExtensionBlocks b)"
    using first_free_bound [of "map unat (block_numbers b)" "if code \<noteq> BlockTypePayloadBlock then 2 else 1"]
    by (auto simp: fresh_number_def block_numbers_def split: if_splits)
  then show ?thesis using assms by (simp add: unat_of_nat)
qed

lemma fresh_number_new:
  assumes "length (ExtensionBlocks b) < 2 ^ 63"
  shows "word_of_nat (fresh_number b code) \<notin> set (block_numbers b)"
proof
  assume "word_of_nat (fresh_number b code) \<in> set (block_numbers b)"
  then have "fresh_number b code \<in> set (map unat (block_numbers b))"
    using fresh_number_word [OF assms, of code] by (metis image_eqI list.set_map)
  then show False
    using first_free_spec [of _ "map unat (block_numbers b)"] unfolding fresh_number_def by blast
qed

lemma AddExtensionBlock_ok:
  assumes "distinct (block_numbers b)" "length (ExtensionBlocks b) < 2 ^ 63" "AddExtensionBlock cb b = Inr b'"
  shows "blocks_ok b'"
proof -
  from assms(3) obtain code where b': "b' = sortExtensionBlocks (b\<lparr>ExtensionBlocks :=
      ExtensionBlocks b @ [cb\<lparr>BlockNumber := word_of_nat (fresh_number b code)\<rparr>]\<rparr>)"
    by (rule AddExtensionBlock_Inr)
  have "word_of_nat (fresh_number b code) \<notin> set (block_numbers b)"
    by (rule fresh_number_new [OF assms(2)])
  with assms(1) show ?thesis
    unfolding b' by (intro blocks_ok_sort) (auto simp: blocks_ok_def block_numbers_def)
qed

lemma AddExtensionBlock_other [simp]:
  assumes "AddExtensionBlock cb b = Inr b'"
  shows "PrimaryBlock b' = PrimaryBlock b" "b_PayloadBlock b' = b_PayloadBlock b"
    "length (ExtensionBlocks b') = length (ExtensionBlocks b) + 1"
  using assms by (auto elim!: AddExtensionBlock_Inr)

lemma AddExtensionBlock_values:
  assumes "AddExtensionBlock cb b = Inr b'"
  shows "image_mset Value (mset (ExtensionBlocks b')) =
    add_mset (Value cb) (image_mset Value (mset (ExtensionBlocks b)))"
  using assms by (auto elim!: AddExtensionBlock_Inr)

lemma remove_first_sorted: "sorted (map f xs) \<Longrightarrow> sorted (map f (remove_first P xs))"
proof (induction xs)
  case (Cons x xs)
  have "set (remove_first P xs) \<subseteq> set xs" by (induction xs) auto
  with Cons show ?case by auto
qed simp

lemma remove_first_distinct: "distinct (map f xs) \<Longrightarrow> distinct (map f (remove_first P xs))"
proof (induction xs)
  case (Cons x xs)
  have "set (remove_first P xs) \<subseteq> set xs" by (induction xs) auto
  with Cons show ?case by auto
qed simp

lemma RemoveExtensionBlock_distinct:
  "distinct (block_numbers b) \<Longrightarrow> distinct (block_numbers (RemoveExtensionBlockByBlockNumber n b))"
  by (simp add: block_numbers_def RemoveExtensionBlockByBlockNumber_def remove_first_distinct)

lemma RemoveExtensionBlock_ok:
  "blocks_ok b \<Longrightarrow> blocks_ok (RemoveExtensionBlockByBlockNumber n b)"
  by (simp add: blocks_ok_def block_numbers_def RemoveExtensionBlockByBlockNumber_def
      remove_first_sorted remove_first_distinct)

lemma RemoveExtensionBlock_gone:
  assumes "distinct (block_numbers b)"
  shows "set (block_numbers (RemoveExtensionBlockByBlockNumber n b)) = set (block_numbers b) - {n}"
proof -
  have "distinct (map BlockNumber xs) \<Longrightarrow>
    BlockNumber ` set (remove_first (\<lambda>cb. BlockNumber cb = n) xs) = BlockNumber ` set xs - {n}" for xs
    by (induction xs) (auto, metis imageI)
  with assms show ?thesis by (simp add: block_numbers_def RemoveExtensionBlockByBlockNumber_def)
qed

lemma MustNewBundle_ok:
  "distinct (map BlockNumber exts) \<Longrightarrow> blocks_ok (MustNewBundle pb exts payload)"
  by (simp add: MustNewBundle_def blocks_ok_sort block_numbers_def)

lemma SetCRCType_key:
  "block_rank (cb_SetCRCType t cb) = block_rank cb" "BlockNumber (cb_SetCRCType t cb) = BlockNumber cb"
  by (simp_all add: cb_SetCRCType_def block_rank_def)

lemma SetCRCType_ok: "blocks_ok b \<Longrightarrow> blocks_ok (b_SetCRCType L t b)"
  by (simp add: blocks_ok_def block_numbers_def b_SetCRCType_def comp_def SetCRCType_key)

lemma wf_blocks_checked:
  "\<forall>cb \<in> set cbs. wf_cb M cb \<and> P cb \<Longrightarrow> \<exists>valid. map_res cb_CheckValid cbs = Inr valid"
proof (induction cbs)
  case (Cons cb cbs)
  then obtain v where "Value cb = Some v" by (auto simp: wf_cb_def split: option.splits)
  with Cons show ?case by (auto simp: cb_CheckValid_def)
qed simp

lemma wf_types:
  "\<forall>cb \<in> set cbs. wf_cb M cb \<and> P cb \<Longrightarrow> \<exists>codes. map_res TypeCode cbs = Inr codes"
  by (induction cbs) (auto dest: wf_cb_TypeCode)

lemma byType_cases:
  assumes "map_res TypeCode (ExtensionBlocks b) = Inr codes"
  obtains (no) m where "ExtensionBlockByType b t = Inl (Errorf m)"
  | (one) i where "ExtensionBlockByType b t = Inr i" "i < length codes" "codes ! i = t"
proof -
  let ?f = "filter (\<lambda>i. codes ! i = t) [0..<length codes]"
  consider "?f = []" | "?f \<noteq> []" "length ?f \<noteq> 1" | "length ?f = 1" by fastforce
  then show ?thesis
  proof cases
    case 3
    then have "?f ! 0 \<in> set ?f" by (intro nth_mem) simp
    then show ?thesis
      using 3 assms by (intro one[of "?f ! 0"]) (auto simp: ExtensionBlockByType_def ExtensionBlocksByType_def Let_def split: if_splits)
  qed (use assms in \<open>auto intro!: no simp: ExtensionBlockByType_def ExtensionBlocksByType_def\<close>)
qed

lemma map_res_nth: "map_res f xs = Inr ys \<Longrightarrow> i < length xs \<Longrightarrow> f (xs ! i) = Inr (ys ! i)"
  by (induction xs arbitrary: ys i) (auto simp: andThen_eq_Inr nth_Cons split: nat.split)

lemma check_blocks_returns:
  assumes "map_res TypeCode (ExtensionBlocks b) = Inr codes"
    and "\<forall>cb \<in> set cbs. Value cb \<noteq> None"
  shows "\<exists>ctx. check_blocks b seen i cbs = Inr ctx"
  using assms(2)
proof (induction cbs arbitrary: seen i)
  case (Cons cb cbs)
  then obtain v where v: "Value cb = Some v" by auto
  have "\<exists>errs. unique_of_type b i t = Inr errs" for t
    by (rule byType_cases[OF assms(1), of t]) (auto simp: unique_of_type_def)
  then have "\<exists>errs. CheckContextValid b i v = Inr errs"
    by (cases v) (auto simp: CheckContextValid_def)
  then show ?case using Cons v by (auto simp: andThen_def split: sum.splits) (metis sum.simps(4))+
qed simp

text \<open>
  The checks of a well-formed bundle return. The block manager must know the bundle age block,
  otherwise the check of the lifetime panics on it.
\<close>

lemma wf_CheckValid_returns:
  assumes wf: "wf_bundle M b" and M: "M BlockTypeBundleAgeBlock = Some TBundleAge"
  shows "\<exists>errs. b_CheckValid now b = Inr errs"
proof -
  have blocks: "\<forall>cb \<in> set (ExtensionBlocks b). wf_cb M cb \<and> True" using wf by (simp add: wf_bundle_def)
  obtain exts where exts: "map_res cb_CheckValid (ExtensionBlocks b) = Inr exts"
    using wf_blocks_checked[OF blocks] by blast
  obtain codes where codes: "map_res TypeCode (ExtensionBlocks b) = Inr codes"
    using wf_types[OF blocks] by blast
  obtain pl where pl: "cb_CheckValid (b_PayloadBlock b) = Inr pl"
    using wf by (auto simp: wf_bundle_def wf_cb_def cb_CheckValid_def split: option.splits)
  have "\<forall>cb \<in> set (ExtensionBlocks b). Value cb \<noteq> None"
    using blocks by (auto simp: wf_cb_def split: option.splits)
  then obtain ctx where ctx: "check_blocks b [] 0 (ExtensionBlocks b) = Inr ctx"
    using check_blocks_returns[OF codes] by blast
  have has: "\<exists>h. HasExtensionBlock b t = Inr h" for t
    using codes by (auto simp: HasExtensionBlock_def ExtensionBlocksByType_def Let_def)
  have life: "\<exists>x. IsLifetimeExceeded now b = Inr x"
  proof (rule byType_cases[OF codes, of BlockTypeBundleAgeBlock])
    fix i
    assume i: "ExtensionBlockByType b BlockTypeBundleAgeBlock = Inr i" "i < length codes"
      "codes ! i = BlockTypeBundleAgeBlock"
    have len: "i < length (ExtensionBlocks b)" using i(2) map_res_Inr_length[OF codes] by simp
    then have "TypeCode (ExtensionBlocks b ! i) = Inr BlockTypeBundleAgeBlock"
      using map_res_nth[OF codes len] i(3) by simp
    then obtain v where v: "Value (ExtensionBlocks b ! i) = Some v" "BlockTypeCode v = BlockTypeBundleAgeBlock"
      by (auto simp: TypeCode_def nil_deref_def split: option.splits)
    have "registered M v" using blocks len v(1) by (fastforce simp: wf_cb_def dest: nth_mem)
    then have "type_of v = TBundleAge" using v(2) M by (simp add: registered_def createBlock_def)
    then obtain age where "v = BundleAgeBlock age" by (cases v) simp_all
    then show ?thesis using i(1) v(1) by (simp add: IsLifetimeExceeded_def Let_def)
  qed (auto simp: IsLifetimeExceeded_def Let_def)
  obtain h x where "HasExtensionBlock b BlockTypeBundleAgeBlock = Inr h" "IsLifetimeExceeded now b = Inr x"
    using has life by blast
  then show ?thesis using exts pl ctx by (simp add: b_CheckValid_def)
qed

section \<open>A concrete bundle\<close>

text \<open>A small bundle with a hop count block, to evaluate the definitions on.\<close>

definition sample_bundle :: dtn_bundle where
  "sample_bundle =
     \<lparr>PrimaryBlock = sample_primary,
      ExtensionBlocks = [NewCanonicalBlock 2 0 (HopCountBlock 5 1)],
      b_PayloadBlock = NewCanonicalBlock 1 0 (PayloadBlock [1, 2, 3])\<rparr>"

lemma sample_bundle_bytes:
  "b_MarshalCbor rfc_lib sample_bundle =
   Inr ([159, 136, 7, 0, 0, 130, 1, 100, 47, 47, 97, 47, 130, 1, 100, 47, 47, 97, 47, 130, 1, 100,
     47, 47, 97, 47, 130, 1, 0, 9, 133, 10, 2, 0, 0, 67, 130, 5, 1, 133, 1, 1, 0, 0, 67, 1, 2, 3,
     255], sample_bundle)"
  by (simp add: b_MarshalCbor_def sample_bundle_def sample_primary_bytes rfc_simps rfc_head_def
      cb_MarshalCbor_def NewCanonicalBlock_def cb_HasCRC_def TypeCode_def block_type_defs
      WriteBlock_def HopCount_MarshalCbor_def)

lemma sample_bundle_wf: "wf_bundle GetExtensionBlockManager sample_bundle"
  by (simp add: wf_bundle_def sample_bundle_def sample_primary_wf wf_cb_def NewCanonicalBlock_def
      registered_def createBlock_def GetExtensionBlockManager_eq block_type_defs cb_HasCRC_def
      TypeCode_def)

lemma sample_bundle_valid: "b_CheckValid 0 sample_bundle = Inr []"
  by (simp add: b_CheckValid_def sample_bundle_def sample_primary_def NewCanonicalBlock_def
      cb_CheckValid_def blockcf_CheckValid_def HopCount_IsExceeded_def block_type_defs
      CheckContextValid_def unique_of_type_def ExtensionBlockByType_def ExtensionBlocksByType_def
      TypeCode_def pb_CheckValid_def bcf_CheckValid_def Has_def dtnVersion_def
      wf_eidD [OF sample_eid_wf] IsZeroTime_def ct_DtnTime_def IsLifetimeExceeded_def Time_small
      milliseconds1970To2k_def duration_small)
    (simp add: sample_eid_def DtnNone_def)

lemma sample_bundle_blocks: "blocks_ok sample_bundle"
  by (simp add: blocks_ok_def block_numbers_def sample_bundle_def)

section \<open>Properties\<close>

text \<open>
  Claim C1: what \<^verbatim>\<open>MarshalCbor\<close> writes for a well-formed bundle, \<^verbatim>\<open>ParseBundle\<close> reads back as
  the bundle with the CRC values that were written, and reports exactly the errors that the checks
  of the original bundle report. The well-formed bundles are those whose blocks the extension
  block manager knows; a slice has fewer than \<open>2 ^ 64\<close> bytes.
\<close>

theorem bundle_roundtrip:
  assumes "cboring L" and "wf_bundle M b" and "b_MarshalCbor L b = Inr (bs, b')"
    and "length bs < 2 ^ 64"
  shows "ParseBundle L M now bs = Some (andThen (b_CheckValid now b) (\<lambda>errs. Inr (b', errs))) \<and>
    erase b' = erase b"
  using cboring.bundle_rw [OF assms] b_MarshalCbor_erase [OF assms(3)] by blast

theorem bundle_roundtrip_witness:
  "ParseBundle rfc_lib GetExtensionBlockManager 0
     [159, 136, 7, 0, 0, 130, 1, 100, 47, 47, 97, 47, 130, 1, 100, 47, 47, 97, 47, 130, 1, 100,
      47, 47, 97, 47, 130, 1, 0, 9, 133, 10, 2, 0, 0, 67, 130, 5, 1, 133, 1, 1, 0, 0, 67, 1, 2, 3,
      255] = Some (Inr (sample_bundle, []))"
  using bundle_roundtrip [OF cboring_rfc sample_bundle_wf sample_bundle_bytes, of 0]
  by (simp add: sample_bundle_valid)

text \<open>
  Claim C38: parsing returns on every input, be it a bundle or not: each block that is read takes at
  least one byte, so the loop that waits for a break code ends.
\<close>

theorem parse_returns:
  assumes "cboring L"
  shows "\<exists>res. ParseBundle L M now i = Some res"
  by (rule cboring.ParseBundle_returns [OF assms])

theorem parse_returns_witness: "\<exists>res. ParseBundle rfc_lib GetExtensionBlockManager 0 [0x9f, 0x85] = Some res"
  by (rule parse_returns [OF cboring_rfc])

text \<open>
  Claim C30: an added extension block gets the smallest number, from 2 on (from 1 on for a payload
  block), that no block of the bundle has; the blocks are sorted by number then, without repetition,
  the other blocks and the rest of the bundle stay as they were.
\<close>

theorem add_block_fresh:
  assumes "distinct (block_numbers b)" and "length (ExtensionBlocks b) < 2 ^ 63" and "TypeCode cb = Inr code"
    and "AddExtensionBlock cb b = Inr b'"
  shows "blocks_ok b' \<and>
    (\<exists>n :: u64. n \<notin> set (block_numbers b) \<and>
      unat n \<ge> (if code \<noteq> BlockTypePayloadBlock then 2 else 1) \<and>
      (\<forall>m. (if code \<noteq> BlockTypePayloadBlock then 2 else 1) \<le> unat m \<and> m < n \<longrightarrow>
         m \<in> set (block_numbers b)) \<and>
      mset (ExtensionBlocks b') = add_mset (cb\<lparr>BlockNumber := n\<rparr>) (mset (ExtensionBlocks b))) \<and>
    PrimaryBlock b' = PrimaryBlock b \<and> b_PayloadBlock b' = b_PayloadBlock b"
proof -
  from assms(4) obtain code' where c: "TypeCode cb = Inr code'"
    and b': "b' = sortExtensionBlocks (b\<lparr>ExtensionBlocks :=
      ExtensionBlocks b @ [cb\<lparr>BlockNumber := word_of_nat (fresh_number b code')\<rparr>]\<rparr>)"
    by (rule AddExtensionBlock_Inr)
  define n :: u64 where "n = word_of_nat (fresh_number b code)"
  define start :: nat where "start = (if code \<noteq> BlockTypePayloadBlock then 2 else 1)"
  have u: "unat n = fresh_number b code" using fresh_number_word [OF assms(2)] by (simp add: n_def)
  have spec: "start \<le> unat n" "\<forall>m. start \<le> m \<and> m < unat n \<longrightarrow> m \<in> set (map unat (block_numbers b))"
    unfolding u fresh_number_def start_def using first_free_spec by blast+
  have "m \<in> set (block_numbers b)" if "start \<le> unat m" "m < n" for m
    using spec(2) that by (auto simp: word_less_nat_alt dest!: unsigned_word_eqI)
  moreover have "n \<notin> set (block_numbers b)"
    unfolding n_def by (rule fresh_number_new [OF assms(2)])
  moreover have "mset (ExtensionBlocks b') = add_mset (cb\<lparr>BlockNumber := n\<rparr>) (mset (ExtensionBlocks b))"
    using c assms(3) by (simp add: b' n_def)
  ultimately show ?thesis
    using AddExtensionBlock_ok [OF assms(1,2,4)] AddExtensionBlock_other [OF assms(4)] spec(1)
    unfolding start_def by blast
qed

theorem add_block_fresh_witness:
  "\<exists>b'. AddExtensionBlock (NewCanonicalBlock 0 0 (BundleAgeBlock 4)) sample_bundle = Inr b' \<and>
     blocks_ok b'"
proof -
  let ?cb = "NewCanonicalBlock 0 0 (BundleAgeBlock 4)"
  have code: "TypeCode ?cb = Inr 7" by (simp add: TypeCode_def NewCanonicalBlock_def block_type_defs)
  then obtain b' where b': "AddExtensionBlock ?cb sample_bundle = Inr b'"
    by (simp add: AddExtensionBlock_def Let_def)
  have "length (ExtensionBlocks sample_bundle) < 2 ^ 63" by (simp add: sample_bundle_def)
  from add_block_fresh [OF _ this code b'] sample_bundle_blocks b' show ?thesis by (auto simp: blocks_ok_def)
qed

text \<open>
  Also shown: a stream with a primary block and extension blocks but no payload block is not
  rejected with an error: the checks dereference the payload block's nil value and the parser panics.
\<close>

theorem parse_without_payload_panics:
  assumes "cboring L" and "wf_pb pb" and "pb_MarshalCbor L pb = Inr (p, pb')"
    and "\<forall>cb \<in> set cbs. wf_cb M cb \<and> TypeCode cb \<noteq> Inr BlockTypePayloadBlock"
    and "marshal_blocks L cbs = Inr (es, cbs')" and "length es < 2 ^ 64"
  shows "\<exists>msg. ParseBundle L M now ([IndefiniteArray L] @ p @ es @ [BreakCode L]) = Some (Inl (Panic msg))"
proof -
  have pb: "pb_UnmarshalCbor L (p @ es @ [BreakCode L]) = Inr (pb', es @ [BreakCode L])"
    by (rule cboring.pb_rw [OF assms(1-3)])
  have r: "read_blocks L M [] empty_canonical (es @ [BreakCode L]) =
      Some (Inr (cbs', empty_canonical, [BreakCode L]))"
    using cboring.read_blocks_rw [OF assms(1,5,6,4)] cboring.read_blocks_break [OF assms(1)] by simp
  have "map_res cb_CheckValid cbs' = map_res cb_CheckValid (map erase_cb cbs')"
    by (simp add: map_res_map)
  also have "\<dots> = map_res cb_CheckValid cbs"
    unfolding marshal_blocks_erase [OF assms(5)] by (simp add: map_res_map)
  finally obtain valid where "map_res cb_CheckValid cbs' = Inr valid"
    using wf_blocks_checked assms(4) by metis
  then show ?thesis
    by (simp add: ParseBundle_def b_UnmarshalCbor_def cboring.expect_hit [OF assms(1)] pb r b_CheckValid_def)
      (simp add: cb_CheckValid_def empty_canonical_def nil_deref_def)
qed

theorem parse_without_payload_panics_witness:
  "\<exists>msg. ParseBundle rfc_lib GetExtensionBlockManager 0
     [159, 136, 7, 0, 0, 130, 1, 100, 47, 47, 97, 47, 130, 1, 100, 47, 47, 97, 47, 130, 1, 100,
      47, 47, 97, 47, 130, 1, 0, 9, 255] = Some (Inl (Panic msg))"
  using parse_without_payload_panics [OF cboring_rfc sample_primary_wf sample_primary_bytes,
      of "[]" GetExtensionBlockManager "[]" "[]" 0]
  by (simp add: rfc_simps)

lemma duration_wraps:
  assumes "9223372036855 \<le> unat ms" "unat ms \<le> 18446744073709"
  shows "duration_of_ms ms < 0"
proof (rule ccontr)
  let ?w = "ms * 1000000"
  assume "\<not> duration_of_ms ms < 0"
  then obtain k where k: "sint ?w = int k" by (metis duration_of_ms_def nonneg_int_cases not_less)
  have "k < 2 ^ 63" using sint_less [of ?w] k by simp
  have "?w = word_of_int (sint ?w)" by simp
  also have "\<dots> = word_of_nat k" unfolding k by simp
  finally have "unat ?w = k" using \<open>k < 2 ^ 63\<close> by (simp add: unat_of_nat)
  moreover have "unat ?w = unat ms * 1000000" using assms by (simp add: unat_word_ariths)
  ultimately show False using assms \<open>k < 2 ^ 63\<close> by simp
qed

text \<open>
  Also shown: with a clock and a lifetime of less than 292 years, a bundle is expired exactly when
  the current time is past its creation time plus its lifetime.
\<close>

theorem lifetime_check_exact:
  assumes "CreationTimestamp (PrimaryBlock b) = (t, s)" and "t \<noteq> 0"
    and "unat t \<le> 8276687236853" and "unat (Lifetime (PrimaryBlock b)) \<le> 9223372036854"
  shows "IsLifetimeExceeded now b = Inr (now >
    (int (unat t) + milliseconds1970To2k + int (unat (Lifetime (PrimaryBlock b)))) * 1000000)"
  using assms
  by (simp add: IsLifetimeExceeded_def IsZeroTime_def ct_DtnTime_def Let_def Time_small duration_small
      algebra_simps)

theorem lifetime_check_exact_witness:
  "IsLifetimeExceeded 946684800010000000 sample_bundle = Inr False \<and>
   IsLifetimeExceeded 946684800010000001 sample_bundle = Inr True"
proof -
  have c: "CreationTimestamp (PrimaryBlock sample_bundle) = (1, 0)"
    by (simp add: sample_bundle_def sample_primary_def)
  have l: "Lifetime (PrimaryBlock sample_bundle) = 9" by (simp add: sample_bundle_def sample_primary_def)
  show ?thesis using lifetime_check_exact [OF c] by (simp add: l milliseconds1970To2k_def)
qed

text \<open>
  Also shown: for longer lifetimes, up to 584 years, the product of the lifetime and a millisecond
  overflows the 64-bit duration to a negative value: the bundle counts as expired at the very
  moment of its creation.
\<close>

theorem lifetime_overflow_expires:
  assumes "CreationTimestamp (PrimaryBlock b) = (t, s)" and "t \<noteq> 0"
    and "9223372036855 \<le> unat (Lifetime (PrimaryBlock b))"
    and "unat (Lifetime (PrimaryBlock b)) \<le> 18446744073709"
  shows "IsLifetimeExceeded (Time t) b = Inr True"
  using assms duration_wraps [OF assms(3,4)]
  by (simp add: IsLifetimeExceeded_def IsZeroTime_def ct_DtnTime_def Let_def)

theorem lifetime_overflow_expires_witness:
  "IsLifetimeExceeded (Time 1)
     (sample_bundle\<lparr>PrimaryBlock := sample_primary\<lparr>Lifetime := 9223372036855\<rparr>\<rparr>) = Inr True"
  by (rule lifetime_overflow_expires [of _ 1 0]) (simp_all add: sample_primary_def)

end
