(* ===== verification/Fragmentation.thy ===== *)
theory Fragmentation
  imports Bundle
begin

text \<open>
  \<^verbatim>\<open>pkg/bpv7/fragmentation.go\<close>: splitting a bundle into fragments that fit into \<open>mtu\<close> bytes, and
  putting fragments together again. Lengths are integers; a payload that is in memory is shorter
  than \<open>2 ^ 48\<close> bytes, so that the code's comparison of two of them as \<^verbatim>\<open>float64\<close> is exact. One
  value of the clock stands for all validity checks of a call.
\<close>

section \<open>Fragmenting\<close>

definition fragmentPrimaryBlock ::
  "lib \<Rightarrow> primary_block \<Rightarrow> nat \<Rightarrow> nat \<Rightarrow> (primary_block \<times> int) res" where
  "fragmentPrimaryBlock L pb fragmentOffset totalDataLength =
     (let fragPb = \<lparr>Version = Version pb, BundleControlFlags = BundleControlFlags pb OR IsFragment,
            pb_CRCType = pb_CRCType pb, Destination = Destination pb, SourceNode = SourceNode pb,
            ReportTo = ReportTo pb, CreationTimestamp = CreationTimestamp pb,
            Lifetime = Lifetime pb, FragmentOffset = word_of_nat fragmentOffset,
            TotalDataLength = word_of_nat totalDataLength, pb_CRC = []\<rparr>
      in andThen (pb_MarshalCbor L fragPb) (\<lambda>(buff, fragPb). Inr (fragPb, int (length buff))))"

text \<open>
  The share of one extension block in the overhead of the first and of the other fragments: the
  block is measured with a CRC-32, a payload block without its payload.
\<close>

definition fragmentExtensionBlockLen ::
  "lib \<Rightarrow> int \<Rightarrow> canonical_block \<Rightarrow> (int \<times> int) res" where
  "fragmentExtensionBlockLen L mtu eb =
     andThen (TypeCode eb) (\<lambda>code.
       let eb = (if code = BlockTypePayloadBlock
                 then NewCanonicalBlock (BlockNumber eb) (BlockControlFlags eb) (PayloadBlock [])
                 else eb)
       in andThen (cb_MarshalCbor L (eb\<lparr>cb_CRCType := CRC32\<rparr>)) (\<lambda>(buff, _).
          let cbLen = int (length buff);
              others = (if Has (BlockControlFlags eb) ReplicateBlock then cbLen else 0);
              lenField = int (length (WriteByteStringLen L (word_of_int mtu)))
          in Inr (if code = BlockTypePayloadBlock
                  then (cbLen + lenField - 1, others + cbLen + lenField - 1)
                  else (cbLen, others))))"

fun sum_lens :: "lib \<Rightarrow> int \<Rightarrow> canonical_block list \<Rightarrow> (int \<times> int) res" where
  "sum_lens L mtu [] = Inr (0, 0)"
| "sum_lens L mtu (eb # ebs) =
     andThen (fragmentExtensionBlockLen L mtu eb) (\<lambda>(f, o').
     andThen (sum_lens L mtu ebs) (\<lambda>(first, others). Inr (f + first, o' + others)))"

definition fragmentExtensionBlocksLen :: "lib \<Rightarrow> dtn_bundle \<Rightarrow> int \<Rightarrow> (int \<times> int) res" where
  "fragmentExtensionBlocksLen L b mtu =
     andThen (sum_lens L mtu (ExtensionBlocks b)) (\<lambda>(first, others).
       let eb = (NewCanonicalBlock 1 (BlockControlFlags (b_PayloadBlock b)) (PayloadBlock []))
                  \<lparr>cb_CRCType := CRC32\<rparr>
       in andThen (cb_MarshalCbor L eb) (\<lambda>(buff, _).
          let cbLen = int (length buff);
              lenField = int (length (WriteByteStringLen L (word_of_int mtu)))
          in Inr (first + cbLen + lenField - 1, others + cbLen + lenField - 1)))"

fun add_blocks :: "canonical_block list \<Rightarrow> dtn_bundle \<Rightarrow> dtn_bundle res" where
  "add_blocks [] b = Inr b"
| "add_blocks (cb # cbs) b = andThen (AddExtensionBlock cb b) (\<lambda>b. add_blocks cbs b)"

text \<open>The fragment at offset \<open>i\<close>: its bundle and the number of payload bytes it has room for.\<close>

definition make_fragment ::
  "lib \<Rightarrow> time \<Rightarrow> dtn_bundle \<Rightarrow> int \<Rightarrow> bytes \<Rightarrow> int \<Rightarrow> int \<Rightarrow> nat \<Rightarrow> (dtn_bundle \<times> nat) res" where
  "make_fragment L now b mtu data extFirstOverhead extOtherOverhead i =
     andThen (fragmentPrimaryBlock L (PrimaryBlock b) i (length data))
       (\<lambda>(fragPrimaryBlock, primaryOverhead).
       let overhead = 2 + primaryOverhead + (if i = 0 then extFirstOverhead else extOtherOverhead)
       in if overhead \<ge> mtu then Inl (Errorf ''bundle overhead of fragment exceeds MTU'')
          else andThen
            (add_blocks
              (filter (\<lambda>cb. \<not> (i > 0 \<and> \<not> Has (BlockControlFlags cb) ReplicateBlock))
                (ExtensionBlocks b))
              (MustNewBundle fragPrimaryBlock [] empty_canonical))
            (\<lambda>fragBundle.
              let fragPayloadBlockLen = nat (mtu - overhead);
                  offset = min (i + fragPayloadBlockLen) (length data);
                  fragBundle = fragBundle\<lparr>b_PayloadBlock :=
                    \<lparr>BlockNumber = 1, BlockControlFlags = BlockControlFlags (b_PayloadBlock b),
                     cb_CRCType = cb_CRCType (b_PayloadBlock b), cb_CRC = [],
                     Value = Some (PayloadBlock (take (offset - i) (drop i data)))\<rparr>\<rparr>
              in andThen (b_CheckValid now fragBundle) (\<lambda>errs.
                 if errs \<noteq> [] then Inl (MultiErr errs)
                 else Inr (fragBundle, fragPayloadBlockLen))))"

lemma make_fragment_room:
  "make_fragment L now b mtu data ef eo i = Inr (f, n) \<Longrightarrow> 0 < n"
  by (auto simp: make_fragment_def andThen_eq_Inr Let_def split: if_splits)

function frag_loop ::
  "lib \<Rightarrow> time \<Rightarrow> dtn_bundle \<Rightarrow> int \<Rightarrow> bytes \<Rightarrow> int \<Rightarrow> int \<Rightarrow> nat \<Rightarrow> dtn_bundle list res" where
  "frag_loop L now b mtu data ef eo i =
     (if i < length data then
        (case make_fragment L now b mtu data ef eo i of
           Inl e \<Rightarrow> Inl e
         | Inr (f, n) \<Rightarrow>
             andThen (frag_loop L now b mtu data ef eo (i + n)) (\<lambda>bs. Inr (f # bs)))
      else Inr [])"
  by pat_completeness auto
termination
  by (relation "measure (\<lambda>(L, now, b, mtu, data, ef, eo, i). length data - i)")
    (auto dest!: make_fragment_room)

declare frag_loop.simps [simp del]

definition Fragment :: "lib \<Rightarrow> time \<Rightarrow> dtn_bundle \<Rightarrow> int \<Rightarrow> dtn_bundle list res" where
  "Fragment L now b mtu =
     (if Has (BundleControlFlags (PrimaryBlock b)) MustNotFragmented
      then Inl (Errorf ''bundle control flags forbids bundle fragmentation'')
      else andThen (payload_data (b_PayloadBlock b)) (\<lambda>data.
           andThen (fragmentExtensionBlocksLen L b mtu) (\<lambda>(ef, eo).
           andThen (frag_loop L now b mtu data ef eo 0) (\<lambda>bs.
             Inr (if length bs = 1 then [b] else bs)))))"

section \<open>Reassembling\<close>

fun prepare_loop :: "u64 \<Rightarrow> dtn_bundle list \<Rightarrow> u64 res" where
  "prepare_loop lastIndex [] = Inr lastIndex"
| "prepare_loop lastIndex (b # bs) =
     (if \<not> Has (BundleControlFlags (PrimaryBlock b)) IsFragment
      then Inl (Errorf ''bundle is not a fragment'')
      else let fragOff = FragmentOffset (PrimaryBlock b)
           in if fragOff > lastIndex then Inl (Errorf ''next fragment starts behind a gap'')
              else andThen (payload_data (b_PayloadBlock b)) (\<lambda>data.
                   prepare_loop (fragOff + word_of_nat (length data)) bs))"

text \<open>\<^verbatim>\<open>prepareReassembly\<close> sorts the caller's slice: the result is the sorted slice.\<close>

definition prepareReassembly :: "dtn_bundle list \<Rightarrow> dtn_bundle list res" where
  "prepareReassembly bs =
     (if bs = [] then Inl (Errorf ''slice of fragments is empty'')
      else let bs = go_sort (\<lambda>x y. FragmentOffset (PrimaryBlock x) < FragmentOffset (PrimaryBlock y)) bs
           in andThen (prepare_loop 0 bs) (\<lambda>lastIndex.
              if TotalDataLength (PrimaryBlock (hd bs)) \<noteq> lastIndex
              then Inl (Errorf ''last index does not match total length'') else Inr bs))"

definition IsBundleReassemblable :: "dtn_bundle list \<Rightarrow> bool res" where
  "IsBundleReassemblable bs =
     (case prepareReassembly bs of
        Inl (Panic p) \<Rightarrow> Inl (Panic p) | Inl _ \<Rightarrow> Inr False | Inr _ \<Rightarrow> Inr True)"

text \<open>A slice expression with a start outside of the slice panics.\<close>

fun merge_loop :: "int \<Rightarrow> dtn_bundle list \<Rightarrow> bytes res" where
  "merge_loop lastIndex [] = Inr []"
| "merge_loop lastIndex (b # bs) =
     (let fragStartIndex = sint (FragmentOffset (PrimaryBlock b))
      in andThen (payload_data (b_PayloadBlock b)) (\<lambda>fragPayloadData.
         let start = lastIndex - fragStartIndex
         in if start < 0 \<or> int (length fragPayloadData) < start
            then Inl (Panic ''slice bounds out of range'')
            else andThen (merge_loop (fragStartIndex + int (length fragPayloadData)) bs)
                   (\<lambda>rest. Inr (drop (nat start) fragPayloadData @ rest))))"

definition mergeFragmentPayload :: "dtn_bundle list \<Rightarrow> bytes res" where
  "mergeFragmentPayload bs = merge_loop 0 bs"

text \<open>The reassembled bundle, and the errors of its checks.\<close>

definition ReassembleFragments :: "time \<Rightarrow> dtn_bundle list \<Rightarrow> (dtn_bundle \<times> err list) res" where
  "ReassembleFragments now bs =
     andThen (prepareReassembly bs) (\<lambda>bs.
       let pb = PrimaryBlock (hd bs);
           pb = pb\<lparr>BundleControlFlags := BundleControlFlags pb AND NOT IsFragment,
                   FragmentOffset := 0, TotalDataLength := 0, pb_CRC := []\<rparr>
       in andThen (add_blocks (ExtensionBlocks (hd bs))
              \<lparr>PrimaryBlock = pb, ExtensionBlocks = [], b_PayloadBlock = empty_canonical\<rparr>) (\<lambda>b.
          andThen (mergeFragmentPayload bs) (\<lambda>payload.
            let pb0 = b_PayloadBlock (hd bs);
                cb = cb_SetCRCType (cb_CRCType pb0)
                  (NewCanonicalBlock 1 (BlockControlFlags pb0) (PayloadBlock payload));
                b = b\<lparr>b_PayloadBlock := cb\<rparr>
            in andThen (b_CheckValid now b) (\<lambda>errs. Inr (b, errs)))))"

section \<open>What fragmenting produces\<close>

text \<open>
  The fragments from payload offset \<open>i\<close> on: each is marked as a fragment, starts where the one
  before it ends, names the total length and carries at least one byte.
\<close>

fun chain :: "nat \<Rightarrow> nat \<Rightarrow> dtn_bundle list \<Rightarrow> bool" where
  "chain tot i [] \<longleftrightarrow> i = tot"
| "chain tot i (f # fs) \<longleftrightarrow>
     FragmentOffset (PrimaryBlock f) = word_of_nat i \<and>
     TotalDataLength (PrimaryBlock f) = word_of_nat tot \<and>
     Has (BundleControlFlags (PrimaryBlock f)) IsFragment \<and>
     (\<exists>d. payload_data (b_PayloadBlock f) = Inr d \<and> d \<noteq> [] \<and> chain tot (i + length d) fs)"

definition fragment_payload :: "dtn_bundle \<Rightarrow> bytes" where
  "fragment_payload f = (case payload_data (b_PayloadBlock f) of Inr d \<Rightarrow> d | Inl _ \<Rightarrow> [])"

lemma add_blocks_other:
  "add_blocks cbs b = Inr b' \<Longrightarrow> PrimaryBlock b' = PrimaryBlock b \<and> b_PayloadBlock b' = b_PayloadBlock b"
  by (induction cbs arbitrary: b) (auto simp: andThen_eq_Inr)

lemma MustNewBundle_simps [simp]:
  "PrimaryBlock (MustNewBundle pb exts pl) = pb" "b_PayloadBlock (MustNewBundle pb exts pl) = pl"
  "ExtensionBlocks (MustNewBundle pb exts pl) = sort_key block_rank exts"
  by (simp_all add: MustNewBundle_def)

text \<open>The parts of a fragment.\<close>

lemma make_fragment_Inr:
  assumes "make_fragment L now b mtu data ef eo i = Inr (f, n)"
  obtains crc fb where
    "PrimaryBlock f = (PrimaryBlock b)\<lparr>BundleControlFlags := BundleControlFlags (PrimaryBlock b) OR IsFragment,
       FragmentOffset := word_of_nat i, TotalDataLength := word_of_nat (length data), pb_CRC := crc\<rparr>"
    "b_PayloadBlock f = \<lparr>BlockNumber = 1, BlockControlFlags = BlockControlFlags (b_PayloadBlock b),
       cb_CRCType = cb_CRCType (b_PayloadBlock b), cb_CRC = [],
       Value = Some (PayloadBlock (take (min (i + n) (length data) - i) (drop i data)))\<rparr>"
    "add_blocks (filter (\<lambda>cb. \<not> (i > 0 \<and> \<not> Has (BlockControlFlags cb) ReplicateBlock))
       (ExtensionBlocks b)) (MustNewBundle (PrimaryBlock f) [] empty_canonical) = Inr fb"
    "ExtensionBlocks f = ExtensionBlocks fb" "b_CheckValid now f = Inr []"
proof -
  from assms obtain pb p fb where
    p: "fragmentPrimaryBlock L (PrimaryBlock b) i (length data) = Inr (pb, p)"
    and fb: "add_blocks (filter (\<lambda>cb. \<not> (i > 0 \<and> \<not> Has (BlockControlFlags cb) ReplicateBlock))
       (ExtensionBlocks b)) (MustNewBundle pb [] empty_canonical) = Inr fb"
    and f: "f = fb\<lparr>b_PayloadBlock := \<lparr>BlockNumber = 1,
       BlockControlFlags = BlockControlFlags (b_PayloadBlock b),
       cb_CRCType = cb_CRCType (b_PayloadBlock b), cb_CRC = [],
       Value = Some (PayloadBlock (take (min (i + n) (length data) - i) (drop i data)))\<rparr>\<rparr>"
    and v: "b_CheckValid now f = Inr []"
    unfolding make_fragment_def by (auto simp: andThen_eq_Inr Let_def split: if_splits)
  obtain crc where pb: "pb = (PrimaryBlock b)\<lparr>
       BundleControlFlags := BundleControlFlags (PrimaryBlock b) OR IsFragment,
       FragmentOffset := word_of_nat i, TotalDataLength := word_of_nat (length data), pb_CRC := crc\<rparr>"
    using p by (cases "PrimaryBlock b")
      (auto simp: fragmentPrimaryBlock_def andThen_eq_Inr dest!: pb_MarshalCbor_CRC)
  have "PrimaryBlock f = pb" using add_blocks_other [OF fb] by (simp add: f)
  with pb f fb v show thesis by (intro that) simp_all
qed

lemma frag_loop_end: "length data \<le> i \<Longrightarrow> frag_loop L now b mtu data ef eo i = Inr []"
  by (simp add: frag_loop.simps)

lemma frag_loop_chain:
  assumes "frag_loop L now b mtu data ef eo i = Inr bs" "i \<le> length data"
  shows "chain (length data) i bs \<and> concat (map fragment_payload bs) = drop i data"
  using assms
proof (induction L now b mtu data ef eo i arbitrary: bs rule: frag_loop.induct)
  case (1 L now b mtu data ef eo i)
  show ?case
  proof (cases "i < length data")
    case False
    with "1.prems" show ?thesis by (simp add: frag_loop.simps)
  next
    case True
    with "1.prems" obtain f n fs where
      m: "make_fragment L now b mtu data ef eo i = Inr (f, n)"
      and fs: "frag_loop L now b mtu data ef eo (i + n) = Inr fs" and bs: "bs = f # fs"
      by (auto simp: frag_loop.simps [of L now b mtu data ef eo i] andThen_eq_Inr
          split: sum.splits prod.splits)
    define d where "d = take (min (i + n) (length data) - i) (drop i data)"
    have n: "0 < n" by (rule make_fragment_room [OF m])
    from m have pl: "payload_data (b_PayloadBlock f) = Inr d"
      and pb: "FragmentOffset (PrimaryBlock f) = word_of_nat i"
        "TotalDataLength (PrimaryBlock f) = word_of_nat (length data)"
        "Has (BundleControlFlags (PrimaryBlock f)) IsFragment"
      by (auto elim!: make_fragment_Inr simp: payload_data_def d_def)
    have "d \<noteq> []" using n True by (auto simp: d_def)
    show ?thesis
    proof (cases "i + n \<le> length data")
      case in_range: True
      then have "length d = n" by (simp add: d_def)
      moreover have "d @ drop (i + n) data = drop i data"
        using in_range by (simp add: d_def add.commute [of i] flip: drop_drop)
      ultimately show ?thesis
        using "1.IH" [OF True m refl fs in_range] \<open>d \<noteq> []\<close> pb pl
        by (simp add: bs fragment_payload_def)
    next
      case beyond: False
      then have "d = drop i data" by (simp add: d_def)
      moreover have "fs = []" using fs beyond by (simp add: frag_loop_end)
      ultimately show ?thesis
        using \<open>d \<noteq> []\<close> pb pl True by (simp add: bs fragment_payload_def)
    qed
  qed
qed

lemma frag_loop_valid:
  "frag_loop L now b mtu data ef eo i = Inr bs \<Longrightarrow> \<forall>f \<in> set bs. b_CheckValid now f = Inr []"
proof (induction L now b mtu data ef eo i arbitrary: bs rule: frag_loop.induct)
  case (1 L now b mtu data ef eo i)
  then show ?case
    by (auto simp: frag_loop.simps [of L now b mtu data ef eo i] andThen_eq_Inr
        split: if_splits sum.splits prod.splits elim: make_fragment_Inr)
qed

section \<open>Reassembling fragments in any order\<close>

lemma chain_offsets:
  "chain tot i bs \<Longrightarrow> tot < 2 ^ 63 \<Longrightarrow>
   sorted (map (\<lambda>f. FragmentOffset (PrimaryBlock f)) bs) \<and>
   distinct (map (\<lambda>f. FragmentOffset (PrimaryBlock f)) bs) \<and>
   (\<forall>f \<in> set bs. i \<le> unat (FragmentOffset (PrimaryBlock f))) \<and> i \<le> tot"
proof (induction bs arbitrary: i)
  case (Cons f fs)
  from Cons.prems(1) have off: "FragmentOffset (PrimaryBlock f) = word_of_nat i" by simp
  from Cons.prems(1) have "\<exists>d. d \<noteq> [] \<and> chain tot (i + length d) fs" by auto
  then obtain d where d: "d \<noteq> []" "chain tot (i + length d) fs" by blast
  note IH = Cons.IH [OF d(2) Cons.prems(2)]
  have "0 < length d" using d(1) by simp
  have i: "unat (word_of_nat i :: u64) = i" using IH Cons.prems(2) by (simp add: unat_of_nat)
  have lt: "\<forall>g \<in> set fs. i < unat (FragmentOffset (PrimaryBlock g))"
  proof
    fix g assume "g \<in> set fs"
    then have "i + length d \<le> unat (FragmentOffset (PrimaryBlock g))" using IH by blast
    then show "i < unat (FragmentOffset (PrimaryBlock g))" using \<open>0 < length d\<close> by linarith
  qed
  then have "\<forall>g \<in> set fs. (word_of_nat i :: u64) < FragmentOffset (PrimaryBlock g)"
    by (simp add: word_less_nat_alt i)
  then have lt': "\<And>g. g \<in> set fs \<Longrightarrow> (word_of_nat i :: u64) < FragmentOffset (PrimaryBlock g)"
    by blast
  have "sorted (map (\<lambda>f. FragmentOffset (PrimaryBlock f)) (f # fs))"
    using IH lt' by (simp add: off less_imp_le)
  moreover have "(word_of_nat i :: u64) \<notin> (\<lambda>f. FragmentOffset (PrimaryBlock f)) ` set fs"
  proof
    assume "(word_of_nat i :: u64) \<in> (\<lambda>f. FragmentOffset (PrimaryBlock f)) ` set fs"
    then obtain g where "(word_of_nat i :: u64) = FragmentOffset (PrimaryBlock g)" "g \<in> set fs"
      by (rule imageE)
    with lt' [of g] show False by simp
  qed
  then have "distinct (map (\<lambda>f. FragmentOffset (PrimaryBlock f)) (f # fs))"
    using IH by (simp add: off)
  moreover have "\<forall>g \<in> set fs. i \<le> unat (FragmentOffset (PrimaryBlock g))"
    using lt less_imp_le by blast
  then have "\<forall>g \<in> set (f # fs). i \<le> unat (FragmentOffset (PrimaryBlock g))"
    by (simp only: off i set_simps ball_simps order.refl insert_iff simp_thms)
  ultimately show ?case using IH by simp
qed simp

lemma sort_chain:
  assumes "chain tot i bs" "tot < 2 ^ 63" "mset bs' = mset bs"
  shows "go_sort (\<lambda>x y. FragmentOffset (PrimaryBlock x) < FragmentOffset (PrimaryBlock y)) bs' = bs"
proof -
  note c = chain_offsets [OF assms(1,2)]
  have "inj_on (\<lambda>f. FragmentOffset (PrimaryBlock f)) (set bs')"
    using c assms(3) by (metis distinct_map mset_eq_setD)
  then have "sort_key (\<lambda>f. FragmentOffset (PrimaryBlock f)) bs' = bs"
    using c by (intro sort_key_inj_key_eq [OF assms(3)]) simp_all
  then show ?thesis by (simp add: go_sort_eq_sort_key)
qed

lemma prepare_chain:
  "chain tot i bs \<Longrightarrow> prepare_loop (word_of_nat i) bs = Inr (word_of_nat tot)"
proof (induction bs arbitrary: i)
  case (Cons f fs)
  then obtain d where "FragmentOffset (PrimaryBlock f) = word_of_nat i"
    "Has (BundleControlFlags (PrimaryBlock f)) IsFragment"
    "payload_data (b_PayloadBlock f) = Inr d" "chain tot (i + length d) fs" by auto
  then show ?case using Cons.IH [of "i + length d"] by simp
qed simp

lemma merge_chain:
  "chain tot i bs \<Longrightarrow> tot < 2 ^ 63 \<Longrightarrow>
   merge_loop (int i) bs = Inr (concat (map fragment_payload bs))"
proof (induction bs arbitrary: i)
  case (Cons f fs)
  then obtain d where d: "FragmentOffset (PrimaryBlock f) = word_of_nat i"
    "payload_data (b_PayloadBlock f) = Inr d" "chain tot (i + length d) fs" by auto
  have "i < 2 ^ 63" using chain_offsets [OF Cons.prems] Cons.prems(2) by simp
  then have "unat (word_of_nat i :: u64) = i" by (simp add: unat_of_nat)
  then have "sint (word_of_nat i :: u64) = int i"
    using sint_small [of "word_of_nat i"] \<open>i < 2 ^ 63\<close> by (simp del: of_nat_unat)
  moreover have "merge_loop (int (i + length d)) fs = Inr (concat (map fragment_payload fs))"
    by (rule Cons.IH [OF d(3) Cons.prems(2)])
  moreover have "fragment_payload f = d" by (simp add: fragment_payload_def d(2))
  ultimately show ?case by (simp add: d(1,2) Let_def)
qed simp

section \<open>The extension blocks of a fragment\<close>

text \<open>
  Adding blocks that are not payload blocks to a bundle without blocks numbers them from 2 on.
\<close>

fun number_from :: "nat \<Rightarrow> canonical_block list \<Rightarrow> canonical_block list" where
  "number_from n [] = []"
| "number_from n (cb # cbs) = cb\<lparr>BlockNumber := word_of_nat n\<rparr> # number_from (n + 1) cbs"

definition plain_blocks :: "canonical_block list \<Rightarrow> bool" where
  "plain_blocks cbs \<longleftrightarrow>
     (\<forall>cb \<in> set cbs. \<exists>v. Value cb = Some v \<and> BlockTypeCode v \<noteq> BlockTypePayloadBlock) \<and>
     length cbs < 2 ^ 32"

lemma number_from_append:
  "number_from n (xs @ ys) = number_from n xs @ number_from (n + length xs) ys"
  by (induction xs arbitrary: n) auto

lemma number_from_number_from [simp]: "number_from n (number_from m cbs) = number_from n cbs"
  by (induction cbs arbitrary: n m) auto

lemma length_number_from [simp]: "length (number_from n cbs) = length cbs"
  by (induction cbs arbitrary: n) auto

lemma plain_number_from [simp]: "plain_blocks (number_from n cbs) = plain_blocks cbs"
proof -
  have "(\<forall>cb \<in> set (number_from n cbs). P (Value cb)) = (\<forall>cb \<in> set cbs. P (Value cb))" for P
    by (induction cbs arbitrary: n) auto
  from this [of "\<lambda>v. \<exists>x. v = Some x \<and> BlockTypeCode x \<noteq> BlockTypePayloadBlock"] show ?thesis
    by (simp add: plain_blocks_def)
qed

lemma map_Value_number_from [simp]: "map Value (number_from n cbs) = map Value cbs"
  by (induction cbs arbitrary: n) auto

lemma number_from_numbers:
  "map BlockNumber (number_from n cbs) = map word_of_nat [n..<n + length cbs]"
  by (induction cbs arbitrary: n) (simp_all add: upt_conv_Cons del: upt_Suc)

lemma first_free_upt: "first_free [2..<2 + k] 2 = 2 + k"
proof -
  note s = first_free_spec [of 2 "[2..<2 + k]"]
  have "first_free [2..<2 + k] 2 \<ge> 2 + k" using s by (auto simp: not_less)
  moreover have "first_free [2..<2 + k] 2 \<le> 2 + k" using s by (metis atLeastLessThan_iff le_add1 not_le order.refl set_upt less_irrefl)
  ultimately show ?thesis by simp
qed

lemma map_unat_upt:
  "n < 2 ^ 33 \<Longrightarrow> map (\<lambda>x. unat (word_of_nat x :: u64)) [2..<n] = [2..<n]"
  by (rule map_idI) (simp add: unat_of_nat)

lemma rank_upt: "n < 2 ^ 33 \<Longrightarrow> sorted (map block_rank (number_from 2 cbs))" if "length cbs + 2 = n"
proof -
  assume "n < 2 ^ 33"
  have "map block_rank (number_from 2 cbs) = [2..<n]"
  proof (rule nth_equalityI)
    show "length (map block_rank (number_from 2 cbs)) = length [2..<n]" using that by simp
    fix k assume "k < length (map block_rank (number_from 2 cbs))"
    then have k: "k < length cbs" by simp
    have "BlockNumber (number_from 2 cbs ! k) = map BlockNumber (number_from 2 cbs) ! k"
      using k by simp
    also have "\<dots> = word_of_nat (2 + k)" using k by (simp add: number_from_numbers del: upt_Suc)
    finally have b: "BlockNumber (number_from 2 cbs ! k) = word_of_nat (2 + k)" .
    have "unat (word_of_nat (2 + k) :: u64) = 2 + k"
      using k that \<open>n < 2 ^ 33\<close> by (intro unat_word_small) simp
    moreover from this have "(word_of_nat (2 + k) :: u64) \<noteq> 1" by (metis add_2_eq_Suc nat.inject unat_1 One_nat_def Zero_not_Suc)
    ultimately have "block_rank (number_from 2 cbs ! k) = 2 + k"
      using b by (simp add: block_rank_def)
    then show "map block_rank (number_from 2 cbs) ! k = [2..<n] ! k" using k that by simp
  qed
  then show ?thesis by simp
qed

lemma AddExtensionBlock_numbered:
  assumes "ExtensionBlocks b = number_from 2 cbs" "Value cb = Some v"
    and "BlockTypeCode v \<noteq> BlockTypePayloadBlock" "length cbs < 2 ^ 32"
  shows "AddExtensionBlock cb b = Inr (b\<lparr>ExtensionBlocks := number_from 2 (cbs @ [cb])\<rparr>)"
proof -
  have "map (\<lambda>cb. unat (BlockNumber cb)) (ExtensionBlocks b) =
      map unat (map BlockNumber (number_from 2 cbs))"
    by (simp add: assms(1) comp_def)
  also have "\<dots> = [2..<2 + length cbs]"
    using assms(4) by (simp add: number_from_numbers comp_def map_unat_upt del: upt_Suc)
  finally have "map (\<lambda>cb. unat (BlockNumber cb)) (ExtensionBlocks b) = [2..<2 + length cbs]" .
  then have n: "first_free (map (\<lambda>cb. unat (BlockNumber cb)) (ExtensionBlocks b)) 2 = 2 + length cbs"
    by (simp only: first_free_upt)
  have s: "sorted (map block_rank (number_from 2 (cbs @ [cb])))"
    by (rule rank_upt [OF refl]) (use assms(4) in simp)
  have "number_from 2 cbs @ [cb\<lparr>BlockNumber := word_of_nat (2 + length cbs)\<rparr>] =
      number_from 2 (cbs @ [cb])"
    by (simp add: number_from_append)
  then show ?thesis
    using assms(2,3) s n
    by (simp add: AddExtensionBlock_def TypeCode_def Let_def sortExtensionBlocks_def
        Less_block_rank go_sort_eq_sort_key sorted_sort_id assms(1) sort_key_id_if_sorted)
qed

lemma add_blocks_numbered:
  assumes "plain_blocks (cbs0 @ cbs)" "ExtensionBlocks b = number_from 2 cbs0"
  shows "add_blocks cbs b = Inr (b\<lparr>ExtensionBlocks := number_from 2 (cbs0 @ cbs)\<rparr>)"
  using assms
proof (induction cbs arbitrary: b cbs0)
  case Nil
  then show ?case by (cases b) simp
next
  case (Cons cb cbs)
  from Cons.prems(1) obtain v where "Value cb = Some v" "BlockTypeCode v \<noteq> BlockTypePayloadBlock"
    "length cbs0 < 2 ^ 32" by (auto simp: plain_blocks_def)
  from AddExtensionBlock_numbered [OF Cons.prems(2) this]
  show ?case using Cons.IH [of "cbs0 @ [cb]"] Cons.prems(1) by simp
qed

section \<open>Validity of the reassembled bundle\<close>

text \<open>The part of a bundle's checks that looks at the extension blocks and the lifetime.\<close>

definition blocks_valid :: "time \<Rightarrow> dtn_bundle \<Rightarrow> bool" where
  "blocks_valid now b \<longleftrightarrow>
     (\<exists>exts. map_res cb_CheckValid (ExtensionBlocks b) = Inr exts \<and> concat exts = []) \<and>
     check_blocks b [] 0 (ExtensionBlocks b) = Inr [] \<and>
     (IsZeroTime (CreationTimestamp (PrimaryBlock b)) \<longrightarrow>
       HasExtensionBlock b BlockTypeBundleAgeBlock = Inr True) \<and>
     IsLifetimeExceeded now b = Inr False"

lemma b_CheckValid_Nil:
  "b_CheckValid now b = Inr [] \<longleftrightarrow>
     pb_CheckValid (PrimaryBlock b) = [] \<and> blocks_valid now b \<and>
     cb_CheckValid (b_PayloadBlock b) = Inr [] \<and>
     \<not> Has (BlockControlFlags (b_PayloadBlock b)) StatusReportBlock"
  by (cases "map_res cb_CheckValid (ExtensionBlocks b)"; cases "cb_CheckValid (b_PayloadBlock b)";
      cases "check_blocks b [] 0 (ExtensionBlocks b)";
      cases "HasExtensionBlock b BlockTypeBundleAgeBlock"; cases "IsLifetimeExceeded now b")
    (auto simp: b_CheckValid_def blocks_valid_def)

lemma same_blocks:
  assumes "ExtensionBlocks b = ExtensionBlocks b'"
  shows "ExtensionBlockByType b t = ExtensionBlockByType b' t"
    "HasExtensionBlock b t = HasExtensionBlock b' t"
    "check_blocks b seen i cbs = check_blocks b' seen i cbs"
proof -
  have t: "ExtensionBlocksByType b t = ExtensionBlocksByType b' t" for t
    using assms by (simp add: ExtensionBlocksByType_def)
  then have e: "ExtensionBlockByType b t = ExtensionBlockByType b' t" for t
    by (simp add: ExtensionBlockByType_def)
  then show "ExtensionBlockByType b t = ExtensionBlockByType b' t" .
  show "HasExtensionBlock b t = HasExtensionBlock b' t" by (simp add: HasExtensionBlock_def t)
  have "CheckContextValid b i v = CheckContextValid b' i v" for i v
    by (cases v) (simp_all add: CheckContextValid_def unique_of_type_def e)
  then show "check_blocks b seen i cbs = check_blocks b' seen i cbs"
    by (induction cbs arbitrary: seen i) (auto split: option.split)
qed

lemma blocks_valid_cong:
  assumes "ExtensionBlocks b = ExtensionBlocks b'"
    and "CreationTimestamp (PrimaryBlock b) = CreationTimestamp (PrimaryBlock b')"
    and "Lifetime (PrimaryBlock b) = Lifetime (PrimaryBlock b')"
  shows "blocks_valid now b = blocks_valid now b'"
proof -
  have "IsLifetimeExceeded now b = IsLifetimeExceeded now b'"
    unfolding IsLifetimeExceeded_def Let_def same_blocks(1) [OF assms(1)] assms ..
  then show ?thesis
    using assms same_blocks [OF assms(1)] by (simp add: blocks_valid_def)
qed

lemma pb_CheckValid_unfragment:
  assumes "pb_CheckValid (pb\<lparr>BundleControlFlags := f OR IsFragment\<rparr>) = []" "\<not> Has f IsFragment"
  shows "pb_CheckValid (pb\<lparr>BundleControlFlags := f\<rparr>) = []"
  using assms
  by (auto simp: pb_CheckValid_def bcf_CheckValid_def Has_setting_fragment Let_def split: if_splits)

lemma unset_fragment:
  assumes "\<not> Has f IsFragment"
  shows "(f OR IsFragment) AND NOT IsFragment = f"
proof (rule bit_word_eqI)
  fix n assume n: "n < LENGTH(64)"
  have "\<not> bit f 0" using assms Has_bit [of 0 f] by (simp add: IsFragment_def)
  then show "bit ((f OR IsFragment) AND NOT IsFragment) n = bit f n"
    by (cases "n = 0") (use n in \<open>auto simp: bit_simps IsFragment_def bit_1_iff\<close>)
qed

lemma pb_CheckValid_offsets:
  "pb_CheckValid (pb\<lparr>FragmentOffset := x, TotalDataLength := y\<rparr>) = pb_CheckValid pb"
  by (simp add: pb_CheckValid_def)

lemma fragment_parts:
  assumes "Fragment L now b mtu = Inr bs" "bs \<noteq> [b]" "payload_data (b_PayloadBlock b) = Inr data"
  shows "chain (length data) 0 bs \<and> concat (map fragment_payload bs) = data \<and>
    (\<forall>f \<in> set bs. b_CheckValid now f = Inr []) \<and>
    (bs \<noteq> [] \<longrightarrow> (\<exists>f fs n ef eo. bs = f # fs \<and> make_fragment L now b mtu data ef eo 0 = Inr (f, n)))"
proof -
  from assms obtain ef eo where l: "frag_loop L now b mtu data ef eo 0 = Inr bs"
    by (auto simp: Fragment_def andThen_eq_Inr split: if_splits)
  then have "bs \<noteq> [] \<longrightarrow> (\<exists>f fs n. bs = f # fs \<and> make_fragment L now b mtu data ef eo 0 = Inr (f, n))"
    by (auto simp: frag_loop.simps [of L now b mtu data ef eo 0] andThen_eq_Inr
        split: if_splits sum.splits prod.splits)
  then show ?thesis using frag_loop_chain [OF l] frag_loop_valid [OF l] by fastforce
qed

lemma first_fragment:
  assumes "make_fragment L now b mtu data ef eo 0 = Inr (f, n)" "plain_blocks (ExtensionBlocks b)"
  obtains crc where "PrimaryBlock f = (PrimaryBlock b)\<lparr>
       BundleControlFlags := BundleControlFlags (PrimaryBlock b) OR IsFragment,
       FragmentOffset := 0, TotalDataLength := word_of_nat (length data), pb_CRC := crc\<rparr>"
    "BlockControlFlags (b_PayloadBlock f) = BlockControlFlags (b_PayloadBlock b)"
    "cb_CRCType (b_PayloadBlock f) = cb_CRCType (b_PayloadBlock b)"
    "ExtensionBlocks f = number_from 2 (ExtensionBlocks b)"
    "b_CheckValid now f = Inr []"
proof -
  from assms(1) obtain crc fb where f: "PrimaryBlock f = (PrimaryBlock b)\<lparr>
       BundleControlFlags := BundleControlFlags (PrimaryBlock b) OR IsFragment,
       FragmentOffset := word_of_nat 0, TotalDataLength := word_of_nat (length data), pb_CRC := crc\<rparr>"
    "b_PayloadBlock f = \<lparr>BlockNumber = 1, BlockControlFlags = BlockControlFlags (b_PayloadBlock b),
       cb_CRCType = cb_CRCType (b_PayloadBlock b), cb_CRC = [],
       Value = Some (PayloadBlock (take (min (0 + n) (length data) - 0) (drop 0 data)))\<rparr>"
    "add_blocks (filter (\<lambda>cb. \<not> (0 < (0::nat) \<and> \<not> Has (BlockControlFlags cb) ReplicateBlock))
       (ExtensionBlocks b)) (MustNewBundle (PrimaryBlock f) [] empty_canonical) = Inr fb"
    "ExtensionBlocks f = ExtensionBlocks fb" "b_CheckValid now f = Inr []"
    by (rule make_fragment_Inr)
  have "add_blocks (ExtensionBlocks b) (MustNewBundle (PrimaryBlock f) [] empty_canonical) =
      Inr ((MustNewBundle (PrimaryBlock f) [] empty_canonical)
        \<lparr>ExtensionBlocks := number_from 2 (ExtensionBlocks b)\<rparr>)"
    using add_blocks_numbered [of "[]" "ExtensionBlocks b"
        "MustNewBundle (PrimaryBlock f) [] empty_canonical"] assms(2) by simp
  moreover have "add_blocks (ExtensionBlocks b) (MustNewBundle (PrimaryBlock f) [] empty_canonical) = Inr fb"
    using f(3) by simp
  ultimately have "ExtensionBlocks fb = number_from 2 (ExtensionBlocks b)" by (metis Inr_inject dtn_bundle.select_convs(2) dtn_bundle.surjective dtn_bundle.update_convs(2))
  then have "ExtensionBlocks f = number_from 2 (ExtensionBlocks b)" using f(4) by simp
  with f(1,2,5) show thesis by (intro that [of crc]) simp_all
qed

lemma reassembled_valid:
  assumes "b_CheckValid now f = Inr []"
    and "PrimaryBlock f = (PrimaryBlock b)\<lparr>
       BundleControlFlags := BundleControlFlags (PrimaryBlock b) OR IsFragment,
       FragmentOffset := 0, TotalDataLength := x, pb_CRC := crc\<rparr>"
    and "BlockControlFlags (b_PayloadBlock f) = BlockControlFlags (b_PayloadBlock b)"
    and "ExtensionBlocks f = number_from 2 (ExtensionBlocks b)"
    and "ExtensionBlocks b' = number_from 2 (ExtensionBlocks b)"
    and "PrimaryBlock b' = (PrimaryBlock b)\<lparr>FragmentOffset := 0, TotalDataLength := 0, pb_CRC := []\<rparr>"
    and "b_PayloadBlock b' = cb_SetCRCType t
      (NewCanonicalBlock 1 (BlockControlFlags (b_PayloadBlock f)) (PayloadBlock data))"
    and "\<not> Has (BundleControlFlags (PrimaryBlock b)) IsFragment"
  shows "b_CheckValid now b' = Inr []"
proof -
  note v = assms(1) [unfolded b_CheckValid_Nil]
  have "blocks_valid now b'"
    using v blocks_valid_cong [of b' f now] by (simp add: assms(2,4,5,6))
  moreover have "pb_CheckValid (PrimaryBlock b') = []"
  proof -
    have "pb_CheckValid ((PrimaryBlock b)\<lparr>BundleControlFlags := BundleControlFlags (PrimaryBlock b) OR IsFragment\<rparr>) = []"
      using v by (simp add: assms(2) pb_CheckValid_def)
    from pb_CheckValid_unfragment [OF this assms(8)] show ?thesis
      by (simp add: assms(6) pb_CheckValid_def)
  qed
  moreover have "cb_CheckValid (b_PayloadBlock b') = Inr []"
    by (simp add: assms(7) cb_CheckValid_def cb_SetCRCType_def NewCanonicalBlock_def blockcf_CheckValid_def)
  moreover have "\<not> Has (BlockControlFlags (b_PayloadBlock b')) StatusReportBlock"
    using v by (simp add: assms(7) cb_SetCRCType_def NewCanonicalBlock_def)
  ultimately show ?thesis by (simp add: b_CheckValid_Nil)
qed

section \<open>Concrete fragments\<close>

text \<open>
  Fragments of the concrete bundle: 61 bytes leave room for two bytes of its payload in the first
  fragment and for the third one in the second.
\<close>

definition sample_fragment :: "nat \<Rightarrow> nat \<Rightarrow> bytes \<Rightarrow> canonical_block list \<Rightarrow> dtn_bundle" where
  "sample_fragment i n d exts =
     \<lparr>PrimaryBlock = sample_primary\<lparr>BundleControlFlags := 1, FragmentOffset := word_of_nat i,
        TotalDataLength := word_of_nat n\<rparr>,
      ExtensionBlocks = exts, b_PayloadBlock = NewCanonicalBlock 1 0 (PayloadBlock d)\<rparr>"

lemma sample_fragment_valid:
  "b_CheckValid 0 (sample_fragment i n d [NewCanonicalBlock 2 0 (HopCountBlock 5 1)]) = Inr []"
  "b_CheckValid 0 (sample_fragment i n d []) = Inr []"
  by (simp add: b_CheckValid_def sample_fragment_def sample_primary_def NewCanonicalBlock_def
      cb_CheckValid_def blockcf_CheckValid_def HopCount_IsExceeded_def block_type_defs
      CheckContextValid_def unique_of_type_def ExtensionBlockByType_def ExtensionBlocksByType_def
      TypeCode_def pb_CheckValid_def bcf_CheckValid_def Has_def dtnVersion_def bundle_flag_defs
      wf_eidD [OF sample_eid_wf] IsZeroTime_def ct_DtnTime_def IsLifetimeExceeded_def Time_small
      milliseconds1970To2k_def duration_small; simp add: sample_eid_def DtnNone_def)+

lemma sample_overhead: "fragmentExtensionBlocksLen rfc_lib sample_bundle 61 = Inr (26, 12)"
  by (simp add: fragmentExtensionBlocksLen_def sample_bundle_def fragmentExtensionBlockLen_def
      NewCanonicalBlock_def TypeCode_def block_type_defs cb_MarshalCbor_def cb_HasCRC_def
      WriteBlock_def HopCount_MarshalCbor_def rfc_simps rfc_head_def calculateCRCBuff_def
      emptyCRC_def Let_def Has_def ReplicateBlock_def)

lemma sample_fragment_primary:
  "i < 24 \<Longrightarrow> fragmentPrimaryBlock rfc_lib sample_primary i (Suc (Suc (Suc 0))) =
   Inr (sample_primary\<lparr>BundleControlFlags := 1, FragmentOffset := word_of_nat i,
     TotalDataLength := 3\<rparr>, 31)"
  "i < 24 \<Longrightarrow> fragmentPrimaryBlock rfc_lib
     (sample_primary\<lparr>BundleControlFlags := 1, FragmentOffset := x, TotalDataLength := y\<rparr>) i
     (Suc (Suc 0)) =
   Inr (sample_primary\<lparr>BundleControlFlags := 1, FragmentOffset := word_of_nat i,
     TotalDataLength := 2\<rparr>, 31)"
  by (simp_all add: fragmentPrimaryBlock_def sample_primary_def pb_MarshalCbor_def pb_body_def
      sample_eid_bytes HasFragmentation_def pb_HasCRC_def Has_def IsFragment_def rfc_simps
      rfc_head_def dtnVersion_def ct_MarshalCbor_def Let_def unat_word_small)

lemma sample_payload: "payload_data (b_PayloadBlock sample_bundle) = Inr [1, 2, 3]"
  by (simp add: payload_data_def sample_bundle_def NewCanonicalBlock_def)

lemma sample_split:
  "Fragment rfc_lib 0 sample_bundle 61 =
   Inr [sample_fragment 0 3 [1, 2] [NewCanonicalBlock 2 0 (HopCountBlock 5 1)], sample_fragment 2 3 [3] []]"
proof -
  have f: "make_fragment rfc_lib 0 sample_bundle 61 [1, 2, 3] 26 12 0 =
    Inr (sample_fragment 0 3 [1, 2] [NewCanonicalBlock 2 0 (HopCountBlock 5 1)], 2)"
    using sample_fragment_valid(1) [of 0 3 "[1, 2]"]
    by (simp add: make_fragment_def sample_bundle_def sample_fragment_primary AddExtensionBlock_def
      TypeCode_def NewCanonicalBlock_def MustNewBundle_def sortExtensionBlocks_def go_sort_def first_free.simps block_type_defs
      sample_fragment_def Let_def)
  have g: "make_fragment rfc_lib 0 sample_bundle 61 [1, 2, 3] 26 12 2 =
    Inr (sample_fragment 2 3 [3] [], 16)"
    using sample_fragment_valid(2) [of 2 3 "[3]"]
    by (simp add: make_fragment_def sample_bundle_def sample_fragment_primary AddExtensionBlock_def
      TypeCode_def NewCanonicalBlock_def MustNewBundle_def sortExtensionBlocks_def go_sort_def first_free.simps block_type_defs
      sample_fragment_def Let_def Has_def ReplicateBlock_def)
  have "frag_loop rfc_lib 0 sample_bundle 61 [1, 2, 3] 26 12 0 =
    Inr [sample_fragment 0 3 [1, 2] [NewCanonicalBlock 2 0 (HopCountBlock 5 1)], sample_fragment 2 3 [3] []]"
    by (simp add: frag_loop.simps [where i = 0] f)
      (simp add: frag_loop.simps [where i = 2] g frag_loop_end)
  moreover have "\<not> Has (BundleControlFlags (PrimaryBlock sample_bundle)) MustNotFragmented"
    by (simp add: sample_bundle_def sample_primary_def Has_def)
  ultimately show ?thesis by (simp add: Fragment_def sample_overhead sample_payload)
qed

lemma sample_split_again: "Fragment rfc_lib 0 (sample_fragment 5 9 [1, 2] []) 46 =
   Inr [sample_fragment 0 2 [1] [], sample_fragment 1 2 [2] []]"
proof -
  have o': "fragmentExtensionBlocksLen rfc_lib (sample_fragment 5 9 [1, 2] []) 46 = Inr (12, 12)"
    by (simp add: fragmentExtensionBlocksLen_def sample_fragment_def NewCanonicalBlock_def TypeCode_def
        block_type_defs cb_MarshalCbor_def cb_HasCRC_def WriteBlock_def rfc_simps rfc_head_def
        calculateCRCBuff_def emptyCRC_def Let_def)
  have f: "make_fragment rfc_lib 0 (sample_fragment 5 9 [1, 2] []) 46 [1, 2] 12 12 0 =
    Inr (sample_fragment 0 2 [1] [], 1)"
    using sample_fragment_valid(2) [of 0 2 "[1]"]
    by (simp add: make_fragment_def sample_fragment_primary sample_fragment_def
        NewCanonicalBlock_def MustNewBundle_def sortExtensionBlocks_def go_sort_def Let_def)
  have g: "make_fragment rfc_lib 0 (sample_fragment 5 9 [1, 2] []) 46 [1, 2] 12 12 1 =
    Inr (sample_fragment 1 2 [2] [], 1)"
    using sample_fragment_valid(2) [of 1 2 "[2]"]
    by (simp add: make_fragment_def sample_fragment_primary sample_fragment_def
        NewCanonicalBlock_def MustNewBundle_def sortExtensionBlocks_def go_sort_def Let_def)
  have "frag_loop rfc_lib 0 (sample_fragment 5 9 [1, 2] []) 46 [1, 2] 12 12 0 =
    Inr [sample_fragment 0 2 [1] [], sample_fragment 1 2 [2] []]"
    by (simp add: frag_loop.simps [where i = 0] f)
      (simp add: frag_loop.simps [where i = "Suc 0"] g [simplified] frag_loop_end)
  moreover have "payload_data (b_PayloadBlock (sample_fragment 5 9 [1, 2] [])) = Inr [1, 2]"
    by (simp add: payload_data_def sample_fragment_def NewCanonicalBlock_def)
  moreover have "\<not> Has (BundleControlFlags (PrimaryBlock (sample_fragment 5 9 [1, 2] []))) MustNotFragmented"
    by (simp add: sample_fragment_def Has_def MustNotFragmented_def)
  ultimately show ?thesis by (simp add: Fragment_def o')
qed

lemma sample_fragment_neq: "sample_fragment i n d exts \<noteq> sample_bundle"
  by (simp add: sample_fragment_def sample_bundle_def sample_primary_def)

section \<open>Properties\<close>

text \<open>
  Claim C5: when fragmenting splits a bundle, the fragments' payloads are the bundle's payload in
  order: the offsets start at 0, each fragment starts where the one before it ends, every one is
  marked as a fragment, names the total length, carries at least a byte and is a valid bundle.
\<close>

theorem fragment_partition:
  assumes "Fragment L now b mtu = Inr bs" and "bs \<noteq> [b]"
    and "payload_data (b_PayloadBlock b) = Inr data"
  shows "chain (length data) 0 bs \<and> concat (map fragment_payload bs) = data \<and>
    (\<forall>f \<in> set bs. b_CheckValid now f = Inr [])"
  using fragment_parts [OF assms] by blast

theorem fragment_partition_witness:
  "concat (map fragment_payload [sample_fragment 0 3 [1, 2] [NewCanonicalBlock 2 0 (HopCountBlock 5 1)],
     sample_fragment 2 3 [3] []]) = [1, 2, 3]"
  using fragment_partition [OF sample_split _ sample_payload] by simp

text \<open>
  Claim C6: the fragments of a bundle that is no fragment itself and whose extension blocks all have a value
  and are no payload blocks (\<open>plain_blocks\<close>), reassembled in whatever order they arrived, give a valid
  bundle without an error. It has the primary block of the original, the payload block of the original with its
  data, flags and CRC type, and the extension blocks of the original, renumbered from 2 on; the CRC values of the
  primary block and the payload block are left to be computed anew.
\<close>

theorem reassemble_any_order:
  assumes "Fragment L now b mtu = Inr bs" and "bs \<noteq> [b]" and "bs \<noteq> []"
    and "payload_data (b_PayloadBlock b) = Inr data" and "length data < 2 ^ 63"
    and "plain_blocks (ExtensionBlocks b)"
    and "\<not> Has (BundleControlFlags (PrimaryBlock b)) IsFragment"
    and "mset bs' = mset bs"
  shows "\<exists>b'. ReassembleFragments now bs' = Inr (b', []) \<and>
    payload_data (b_PayloadBlock b') = Inr data \<and>
    b_PayloadBlock b' = (b_PayloadBlock b)\<lparr>BlockNumber := 1, cb_CRC := []\<rparr> \<and>
    PrimaryBlock b' = (PrimaryBlock b)\<lparr>FragmentOffset := 0, TotalDataLength := 0, pb_CRC := []\<rparr> \<and>
    ExtensionBlocks b' = number_from 2 (ExtensionBlocks b)"
proof -
  from fragment_parts [OF assms(1,2,4)] assms(3) obtain f fs n ef eo where
    bs: "bs = f # fs" and f: "make_fragment L now b mtu data ef eo 0 = Inr (f, n)"
    and chain: "chain (length data) 0 bs" "concat (map fragment_payload bs) = data"
    by blast
  obtain crc where pb: "PrimaryBlock f = (PrimaryBlock b)\<lparr>
       BundleControlFlags := BundleControlFlags (PrimaryBlock b) OR IsFragment,
       FragmentOffset := 0, TotalDataLength := word_of_nat (length data), pb_CRC := crc\<rparr>"
    and pl: "BlockControlFlags (b_PayloadBlock f) = BlockControlFlags (b_PayloadBlock b)"
    and crct: "cb_CRCType (b_PayloadBlock f) = cb_CRCType (b_PayloadBlock b)"
    and ext: "ExtensionBlocks f = number_from 2 (ExtensionBlocks b)"
    and valid: "b_CheckValid now f = Inr []"
    by (rule first_fragment [OF f assms(6)])
  have sorted: "go_sort (\<lambda>x y. FragmentOffset (PrimaryBlock x) < FragmentOffset (PrimaryBlock y)) bs' = bs"
    by (rule sort_chain [OF chain(1) assms(5,8)])
  have "bs' \<noteq> []" using assms(3,8) by auto
  then have prep: "prepareReassembly bs' = Inr bs"
    using prepare_chain [OF chain(1)] sorted chain(1)
    by (simp add: prepareReassembly_def bs)
  define pb' where "pb' = (PrimaryBlock b)\<lparr>FragmentOffset := 0, TotalDataLength := 0, pb_CRC := []\<rparr>"
  have pb'_eq: "(PrimaryBlock f)\<lparr>BundleControlFlags := BundleControlFlags (PrimaryBlock f) AND NOT IsFragment,
      FragmentOffset := 0, TotalDataLength := 0, pb_CRC := []\<rparr> = pb'"
    by (simp add: pb pb'_def unset_fragment [OF assms(7)])
  define b' where "b' = \<lparr>PrimaryBlock = pb', ExtensionBlocks = number_from 2 (ExtensionBlocks b),
    b_PayloadBlock = cb_SetCRCType (cb_CRCType (b_PayloadBlock f))
      (NewCanonicalBlock 1 (BlockControlFlags (b_PayloadBlock f)) (PayloadBlock data))\<rparr>"
  have add: "add_blocks (ExtensionBlocks f) \<lparr>PrimaryBlock = pb', ExtensionBlocks = [], b_PayloadBlock = empty_canonical\<rparr> =
      Inr \<lparr>PrimaryBlock = pb', ExtensionBlocks = number_from 2 (ExtensionBlocks b), b_PayloadBlock = empty_canonical\<rparr>"
    using add_blocks_numbered [of "[]" "ExtensionBlocks f" "\<lparr>PrimaryBlock = pb', ExtensionBlocks = [], b_PayloadBlock = empty_canonical\<rparr>"]
      assms(6) by (simp add: ext)
  have merge: "mergeFragmentPayload bs = Inr data"
    using merge_chain [OF chain(1) assms(5)] chain(2) by (simp add: mergeFragmentPayload_def)
  have "b_CheckValid now b' = Inr []"
    by (rule reassembled_valid [OF valid pb pl ext _ _ _ assms(7)]) (simp_all add: b'_def pb'_def)
  then have "ReassembleFragments now bs' = Inr (b', [])"
    using pb'_eq by (simp add: ReassembleFragments_def prep bs add merge [unfolded bs] b'_def Let_def)
  moreover have "Value (b_PayloadBlock b) = Some (PayloadBlock data)"
    using assms(4) by (auto simp: payload_data_def split: option.splits ext_block.splits)
  ultimately show ?thesis
    by (auto simp: b'_def pb'_def payload_data_def cb_SetCRCType_def NewCanonicalBlock_def pl crct)
qed

theorem reassemble_any_order_witness:
  "\<exists>b'. ReassembleFragments 0 [sample_fragment 2 3 [3] [],
      sample_fragment 0 3 [1, 2] [NewCanonicalBlock 2 0 (HopCountBlock 5 1)]] = Inr (b', []) \<and>
    payload_data (b_PayloadBlock b') = Inr [1, 2, 3]"
proof -
  let ?bs = "[sample_fragment 2 3 [3] [],
      sample_fragment 0 3 [1, 2] [NewCanonicalBlock 2 0 (HopCountBlock 5 1)]]"
  have "plain_blocks (ExtensionBlocks sample_bundle)"
    by (simp add: plain_blocks_def sample_bundle_def NewCanonicalBlock_def block_type_defs)
  moreover have "\<not> Has (BundleControlFlags (PrimaryBlock sample_bundle)) IsFragment"
    by (simp add: sample_bundle_def sample_primary_def Has_def)
  ultimately show ?thesis
    using reassemble_any_order [OF sample_split _ _ sample_payload, of ?bs] by auto
qed

text \<open>
  Also shown: a bundle with an empty payload has no fragments: fragmenting it reports success with an
  empty list, and the bundle is gone.
\<close>

theorem fragment_empty_payload:
  assumes "payload_data (b_PayloadBlock b) = Inr []" and "Fragment L now b mtu = Inr bs"
  shows "bs = []"
  using assms by (auto simp: Fragment_def andThen_eq_Inr frag_loop.simps split: if_splits)

theorem fragment_empty_payload_witness:
  "Fragment rfc_lib 0 (sample_fragment 0 0 [] []) 61 = Inr []"
proof -
  let ?b = "sample_fragment 0 0 [] []"
  have p: "payload_data (b_PayloadBlock ?b) = Inr []"
    by (simp add: payload_data_def sample_fragment_def NewCanonicalBlock_def)
  have "\<exists>l. fragmentExtensionBlocksLen rfc_lib ?b 61 = Inr l"
    by (simp add: fragmentExtensionBlocksLen_def sample_fragment_def NewCanonicalBlock_def TypeCode_def
        block_type_defs cb_MarshalCbor_def cb_HasCRC_def WriteBlock_def rfc_simps rfc_head_def
        calculateCRCBuff_def emptyCRC_def Let_def)
  then obtain ef eo where "fragmentExtensionBlocksLen rfc_lib ?b 61 = Inr (ef, eo)" by auto
  moreover have "\<not> Has (BundleControlFlags (PrimaryBlock ?b)) MustNotFragmented"
    by (simp add: sample_fragment_def Has_def MustNotFragmented_def)
  ultimately obtain bs where "Fragment rfc_lib 0 ?b 61 = Inr bs"
    using p by (simp add: Fragment_def frag_loop_end)
  with fragment_empty_payload [OF p this] show ?thesis by simp
qed

text \<open>
  Also shown: fragmenting a fragment does not keep its place in the original payload: whatever
  offset and total length the fragment has, its own fragments start at offset 0 and name
  the length of the fragment's payload as the total.
\<close>

theorem refragment_forgets_offset:
  assumes "Has (BundleControlFlags (PrimaryBlock b)) IsFragment"
    and "Fragment L now b mtu = Inr (f # fs)" and "f # fs \<noteq> [b]"
    and "payload_data (b_PayloadBlock b) = Inr data"
  shows "FragmentOffset (PrimaryBlock f) = 0 \<and>
    TotalDataLength (PrimaryBlock f) = word_of_nat (length data)"
  using fragment_parts [OF assms(2-4)] by simp

theorem refragment_forgets_offset_witness:
  "FragmentOffset (PrimaryBlock (sample_fragment 5 9 [1, 2] [])) = 5 \<and>
   FragmentOffset (PrimaryBlock (sample_fragment 0 2 [1] [])) = 0"
proof
  show "FragmentOffset (PrimaryBlock (sample_fragment 5 9 [1, 2] [])) = 5"
    by (simp add: sample_fragment_def)
  have "Has (BundleControlFlags (PrimaryBlock (sample_fragment 5 9 [1, 2] []))) IsFragment"
    by (simp add: sample_fragment_def Has_def IsFragment_def)
  moreover have "payload_data (b_PayloadBlock (sample_fragment 5 9 [1, 2] [])) = Inr [1, 2]"
    by (simp add: payload_data_def sample_fragment_def NewCanonicalBlock_def)
  ultimately show "FragmentOffset (PrimaryBlock (sample_fragment 0 2 [1] [])) = 0"
    using refragment_forgets_offset [OF _ sample_split_again] by simp
qed

text \<open>
  Also shown: a fragment that lies inside the one before it is taken for a valid part of a complete
  set, and merging the payloads then slices behind the end of the fragment: reassembly panics.
\<close>

theorem contained_fragment_panics:
  assumes "\<forall>x \<in> {f, g, h}. Has (BundleControlFlags (PrimaryBlock x)) IsFragment"
    and "payload_data (b_PayloadBlock f) = Inr d" and "payload_data (b_PayloadBlock g) = Inr e"
    and "payload_data (b_PayloadBlock h) = Inr c"
    and "FragmentOffset (PrimaryBlock f) = 0" and "FragmentOffset (PrimaryBlock g) = word_of_nat k"
    and "FragmentOffset (PrimaryBlock h) = word_of_nat m"
    and "0 < k" and "k < m" and "m \<le> k + length e" and "k + length e < length d"
    and "length d < 2 ^ 63" and "ExtensionBlocks f = []"
    and "TotalDataLength (PrimaryBlock f) = word_of_nat (m + length c)"
  shows "IsBundleReassemblable [f, g, h] = Inr True \<and>
    (\<exists>msg. ReassembleFragments now [f, g, h] = Inl (Panic msg))"
proof -
  have u: "unat (word_of_nat n :: u64) = n" if "n \<le> length d" for n
    by (rule unat_word_small) (use that assms(12) in simp)
  let ?less = "\<lambda>x y. FragmentOffset (PrimaryBlock x) < FragmentOffset (PrimaryBlock y)"
  have lt: "(0 :: u64) < word_of_nat k" "(word_of_nat k :: u64) < word_of_nat m" "(0 :: u64) < word_of_nat m"
    "\<not> (word_of_nat k :: u64) > word_of_nat (length d)"
    "\<not> (word_of_nat m :: u64) > word_of_nat k + word_of_nat (length e)"
    "\<not> (word_of_nat k :: u64) < 0" "\<not> (word_of_nat m :: u64) < 0"
    "\<not> (word_of_nat m :: u64) < word_of_nat k"
    using assms(8-11) u [of k] u [of m] u [of "length d"] u [of "k + length e"]
    by (simp_all add: word_less_nat_alt flip: of_nat_add)
  have sorted: "go_sort ?less [f, g, h] = [f, g, h]"
    by (simp add: go_sort_def assms(5-7) lt)
  have "prepareReassembly [f, g, h] = Inr [f, g, h]"
    using assms(1) unfolding prepareReassembly_def sorted Let_def
    by (simp add: assms(2-7) lt assms(14) split del: if_split)
  moreover have "sint (word_of_nat k :: u64) = int k"
    using sint_small [of "word_of_nat k"] u [of k] assms(10-12) by (simp del: of_nat_unat)
  then have "\<exists>msg. mergeFragmentPayload [f, g, h] = Inl (Panic msg)"
    using assms(11) by (simp add: mergeFragmentPayload_def assms(2-7) Let_def)
  ultimately show ?thesis
    by (auto simp: IsBundleReassemblable_def ReassembleFragments_def assms(13) Let_def)
qed

theorem contained_fragment_panics_witness:
  "\<exists>msg. ReassembleFragments 0 [sample_fragment 0 6 [1, 2, 3, 4] [], sample_fragment 1 6 [2] [],
     sample_fragment 2 6 [3, 4, 5, 6] []] = Inl (Panic msg)"
proof -
  have "\<forall>x \<in> {sample_fragment 0 6 [1, 2, 3, 4] [], sample_fragment 1 6 [2] [],
      sample_fragment 2 6 [3, 4, 5, 6] []}. Has (BundleControlFlags (PrimaryBlock x)) IsFragment"
    by (simp add: sample_fragment_def Has_def IsFragment_def)
  from contained_fragment_panics [OF this, of "[1, 2, 3, 4]" "[2]" "[3, 4, 5, 6]" 1 2 0] show ?thesis
    by (simp add: payload_data_def sample_fragment_def NewCanonicalBlock_def)
qed

end
