(* ===== verification/Descriptor.thy ===== *)
theory Descriptor
  imports Bundle
begin

text \<open>
  \<^verbatim>\<open>pkg/store/constraints.go\<close>, \<^verbatim>\<open>errors.go\<close> and \<^verbatim>\<open>bundle_descriptor.go\<close>: retention constraints,
  the metadata that is kept of a bundle, and the descriptor with its methods. A method that takes
  the write lock is a function on the descriptor. The goroutines \<^verbatim>\<open>deleteBundle\<close> that it starts are
  returned as the list of their arguments; they run later, as steps of the store. The metadata
  database is the third-party badgerhold: its operations are the record \<open>badgerhold\<close>, its
  documented behaviour the locales \<open>metadata_db\<close> and \<open>reliable_db\<close>, and \<open>map_db\<close> an instance.
  The descriptor's contract is an abstract machine over sets of constraints.
\<close>

section \<open>Constraints\<close>

type_synonym constraint = u8

definition DispatchPending :: constraint where [simp]: "DispatchPending = 0"
definition ForwardPending :: constraint where [simp]: "ForwardPending = 1"
definition ReassemblyPending :: constraint where [simp]: "ReassemblyPending = 2"

definition Constraint_String :: "constraint \<Rightarrow> string" where
  "Constraint_String c =
     (if c = DispatchPending then ''dispatch pending''
      else if c = ForwardPending then ''forwarding pending''
      else if c = ReassemblyPending then ''reassembly pending''
      else ''unknown'')"

definition Constraint_Valid :: "constraint \<Rightarrow> bool" where
  "Constraint_Valid c \<longleftrightarrow> c \<le> ReassemblyPending"

section \<open>Errors\<close>

datatype store_err =
    NoSuchBundleError bundle_id
  | BundleDeletedError bundle_id
  | InvalidConstraint constraint
  | HasConstraintsError "constraint list"
  | LibError err

section \<open>Metadata and the metadata database\<close>

text \<open>What the code puts into a map of \<^verbatim>\<open>interface{}\<close> values.\<close>

datatype go_any = Any_uint64 u64 | Any_string string

record bundle_metadata =
  md_ID :: bundle_id
  md_Source :: endpoint_id
  md_Destination :: endpoint_id
  md_ReportTo :: endpoint_id
  md_IsAdministrativeRecord :: bool
  md_MiscellaneousData :: "string \<rightharpoonup> go_any"
  md_IDString :: string
  md_KnownHolders :: "endpoint_id list"
  md_Expires :: time
  md_SerialisedFileName :: string

record 'kv badgerhold =
  kv_Insert :: "string \<Rightarrow> bundle_metadata \<Rightarrow> 'kv \<Rightarrow> 'kv res"
  kv_Update :: "string \<Rightarrow> bundle_metadata \<Rightarrow> 'kv \<Rightarrow> 'kv res"
  kv_Delete :: "string \<Rightarrow> 'kv \<Rightarrow> 'kv res"
  kv_Find :: "'kv \<Rightarrow> bundle_metadata list res"

locale metadata_db =
  fixes K :: "'kv badgerhold" and look :: "'kv \<Rightarrow> string \<rightharpoonup> bundle_metadata"
  assumes insert_ok: "kv_Insert K k m s = Inr s' \<Longrightarrow> look s k = None \<and> look s' = (look s)(k \<mapsto> m)"
    and update_ok: "kv_Update K k m s = Inr s' \<Longrightarrow> look s k \<noteq> None \<and> look s' = (look s)(k \<mapsto> m)"
    and delete_ok: "kv_Delete K k s = Inr s' \<Longrightarrow> look s k \<noteq> None \<and> look s' = (look s)(k := None)"
    and find_ok: "kv_Find K s = Inr ms \<Longrightarrow>
      \<exists>ks. distinct ks \<and> set ks = dom (look s) \<and> ms = map (\<lambda>k. the (look s k)) ks"

text \<open>A database whose disk does not fail: only a wrong use of the keys is an error.\<close>

locale reliable_db = metadata_db +
  assumes insert_total: "look s k = None \<Longrightarrow> \<exists>s'. kv_Insert K k m s = Inr s'"
    and update_total: "look s k \<noteq> None \<Longrightarrow> \<exists>s'. kv_Update K k m s = Inr s'"
    and delete_total: "look s k \<noteq> None \<Longrightarrow> \<exists>s'. kv_Delete K k s = Inr s'"
    and find_total: "\<exists>ms. kv_Find K s = Inr ms"

text \<open>An instance: an association list with one entry per key.\<close>

type_synonym kv_list = "(string \<times> bundle_metadata) list"

definition map_db :: "kv_list badgerhold" where
  "map_db =
     \<lparr>kv_Insert = (\<lambda>k m s. if map_of s k = None then Inr ((k, m) # s)
        else Inl (LibErr ''This Key already exists in this badgerhold for this type'')),
      kv_Update = (\<lambda>k m s. if map_of s k \<noteq> None then Inr ((k, m) # filter (\<lambda>e. fst e \<noteq> k) s)
        else Inl (LibErr ''No data found for this key'')),
      kv_Delete = (\<lambda>k s. if map_of s k \<noteq> None then Inr (filter (\<lambda>e. fst e \<noteq> k) s)
        else Inl (LibErr ''No data found for this key'')),
      kv_Find = (\<lambda>s. Inr (map (\<lambda>k. the (map_of s k)) (remdups (map fst s))))\<rparr>"

lemma map_of_filter_neq: "map_of (filter (\<lambda>e. fst e \<noteq> k) s) = (map_of s)(k := None)"
  by (rule ext) (induction s; auto)

interpretation map_db: reliable_db map_db map_of
proof unfold_locales
  fix s :: kv_list and ms
  assume "kv_Find map_db s = Inr ms"
  then have "distinct (remdups (map fst s)) \<and> set (remdups (map fst s)) = dom (map_of s) \<and>
      ms = map (\<lambda>k. the (map_of s k)) (remdups (map fst s))"
    by (simp add: map_db_def dom_map_of_conv_image_fst)
  then show "\<exists>ks. distinct ks \<and> set ks = dom (map_of s) \<and> ms = map (\<lambda>k. the (map_of s k)) ks"
    by blast
qed (auto simp: map_db_def map_of_filter_neq split: if_splits)

definition sample_metadata :: bundle_metadata where
  "sample_metadata =
     \<lparr>md_ID = b_ID sample_bundle, md_Source = DtnNone, md_Destination = DtnNone, md_ReportTo = DtnNone,
      md_IsAdministrativeRecord = False, md_MiscellaneousData = Map.empty, md_IDString = ''id'',
      md_KnownHolders = [], md_Expires = 0, md_SerialisedFileName = ''file''\<rparr>"

section \<open>Descriptors\<close>

record descriptor =
  metadata :: bundle_metadata
  retentionConstraints :: "constraint list"
  retain :: bool
  dispatch :: bool
  deleted :: bool
  shouldDelete :: bool

definition NewBundleDescriptor :: "bundle_metadata \<Rightarrow> descriptor" where
  "NewBundleDescriptor md =
     \<lparr>metadata = md, retentionConstraints = [DispatchPending], retain = True, dispatch = True,
      deleted = False, shouldDelete = False\<rparr>"

definition deletedError :: "descriptor \<Rightarrow> store_err" where
  "deletedError bd = BundleDeletedError (md_ID (metadata bd))"

definition Metadata :: "descriptor \<Rightarrow> store_err + bundle_metadata" where
  "Metadata bd = (if deleted bd then Inl (deletedError bd) else Inr (metadata bd))"

definition GetMiscData :: "string \<Rightarrow> descriptor \<Rightarrow> go_any option" where
  "GetMiscData key bd = md_MiscellaneousData (metadata bd) key"

definition GetKnownHolders :: "descriptor \<Rightarrow> store_err + endpoint_id list" where
  "GetKnownHolders bd =
     (if deleted bd then Inl (deletedError bd) else Inr (md_KnownHolders (metadata bd)))"

definition HasConstraint :: "constraint \<Rightarrow> descriptor \<Rightarrow> store_err + bool" where
  "HasConstraint c bd =
     (if deleted bd then Inl (deletedError bd) else Inr (c \<in> set (retentionConstraints bd)))"

definition Dispatch :: "descriptor \<Rightarrow> bool" where
  "Dispatch bd \<longleftrightarrow> dispatch bd \<and> \<not> deleted bd"

definition Retain :: "descriptor \<Rightarrow> bool" where
  "Retain bd \<longleftrightarrow> retain bd \<and> \<not> deleted bd"

definition Deleted :: "descriptor \<Rightarrow> bool" where
  "Deleted bd = deleted bd"

definition Expired :: "time \<Rightarrow> descriptor \<Rightarrow> bool" where
  "Expired now bd \<longleftrightarrow> md_Expires (metadata bd) < now"

definition bd_ID :: "descriptor \<Rightarrow> bundle_id" where "bd_ID bd = md_ID (metadata bd)"
definition bd_String :: "descriptor \<Rightarrow> string" where "bd_String bd = md_IDString (metadata bd)"

text \<open>The results of the methods that may start a deletion: error, descriptor, goroutines.\<close>

type_synonym bd_result = "store_err option \<times> descriptor \<times> bundle_metadata list"

definition unsafeDelete :: "descriptor \<Rightarrow> bd_result" where
  "unsafeDelete bd =
     (if deleted bd then (Some (deletedError bd), bd, [])
      else (None, bd\<lparr>deleted := True\<rparr>, [metadata bd]))"

definition AddConstraint :: "constraint \<Rightarrow> descriptor \<Rightarrow> bd_result" where
  "AddConstraint c bd =
     (if deleted bd then (Some (deletedError bd), bd, [])
      else if \<not> Constraint_Valid c then (Some (InvalidConstraint c), bd, [])
      else (None,
        bd\<lparr>retentionConstraints := retentionConstraints bd @ [c], retain := True,
           dispatch := (if c = ForwardPending then False else dispatch bd)\<rparr>, []))"

definition RemoveConstraint :: "constraint \<Rightarrow> descriptor \<Rightarrow> bd_result" where
  "RemoveConstraint c bd =
     (if deleted bd then (Some (deletedError bd), bd, [])
      else
        let constraints = filter (\<lambda>existing. existing \<noteq> c) (retentionConstraints bd);
            bd = bd\<lparr>dispatch := ForwardPending \<notin> set constraints,
                    retentionConstraints := constraints, retain := constraints \<noteq> []\<rparr>
        in if \<not> retain bd \<and> shouldDelete bd then (None, snd (unsafeDelete bd)) else (None, bd, []))"

definition ResetConstraints :: "descriptor \<Rightarrow> bd_result" where
  "ResetConstraints bd =
     (if deleted bd then (Some (deletedError bd), bd, [])
      else
        let bd = bd\<lparr>retentionConstraints := [], retain := False, dispatch := True\<rparr>
        in if shouldDelete bd then (None, snd (unsafeDelete bd)) else (None, bd, []))"

definition Delete :: "bool \<Rightarrow> descriptor \<Rightarrow> bd_result" where
  "Delete markIfConstraint bd =
     (if retentionConstraints bd \<noteq> []
      then if markIfConstraint then (None, bd\<lparr>shouldDelete := True\<rparr>, [])
           else (Some (HasConstraintsError (retentionConstraints bd)), bd, [])
      else unsafeDelete bd)"

text \<open>
  The methods that write the metadata through to the database. \<^verbatim>\<open>AddKnownHolder\<close> logs a failed
  update and reports success; \<^verbatim>\<open>SetMiscData\<close> does not ask whether the bundle was deleted.
\<close>

definition updateBundleMetadata :: "'kv badgerhold \<Rightarrow> bundle_metadata \<Rightarrow> 'kv \<Rightarrow> 'kv res" where
  "updateBundleMetadata K md s = kv_Update K (md_IDString md) md s"

definition SetMiscData ::
  "'kv badgerhold \<Rightarrow> string \<Rightarrow> go_any \<Rightarrow> descriptor \<Rightarrow> 'kv \<Rightarrow> err option \<times> descriptor \<times> 'kv" where
  "SetMiscData K key v bd s =
     (let md = metadata bd;
          bd = bd\<lparr>metadata := md\<lparr>md_MiscellaneousData := (md_MiscellaneousData md)(key \<mapsto> v)\<rparr>\<rparr>
      in case updateBundleMetadata K (metadata bd) s of
           Inl e \<Rightarrow> (Some e, bd, s) | Inr s' \<Rightarrow> (None, bd, s'))"

definition AddKnownHolder ::
  "'kv badgerhold \<Rightarrow> endpoint_id list \<Rightarrow> descriptor \<Rightarrow> 'kv \<Rightarrow> store_err option \<times> descriptor \<times> 'kv" where
  "AddKnownHolder K peers bd s =
     (if deleted bd then (Some (deletedError bd), bd, s)
      else
        let md = metadata bd;
            bd = bd\<lparr>metadata := md\<lparr>md_KnownHolders := md_KnownHolders md @ peers\<rparr>\<rparr>
        in case updateBundleMetadata K (metadata bd) s of
             Inl e \<Rightarrow> (None, bd, s) | Inr s' \<Rightarrow> (None, bd, s'))"

section \<open>The contract: a machine over sets of constraints\<close>

text \<open>
  A bundle is held for a set of reasons and may be marked for deletion, or it is gone. It goes
  when the last reason of a marked bundle is released, or when a bundle that no reason holds is
  deleted.
\<close>

datatype held = Gone | Held "constraint set" bool

definition release :: "constraint set \<Rightarrow> bool \<Rightarrow> held" where
  "release S m = (if S = {} \<and> m then Gone else Held S m)"

datatype desc_op = OpAdd constraint | OpRemove constraint | OpReset | OpDelete bool

fun spec_op :: "desc_op \<Rightarrow> held \<Rightarrow> held" where
  "spec_op op Gone = Gone"
| "spec_op (OpAdd c) (Held S m) = (if Constraint_Valid c then Held (insert c S) m else Held S m)"
| "spec_op (OpRemove c) (Held S m) = release (S - {c}) m"
| "spec_op OpReset (Held S m) = release {} m"
| "spec_op (OpDelete mark) (Held S m) = (if S = {} then Gone else Held S (m \<or> mark))"

fun spec_accepts :: "desc_op \<Rightarrow> held \<Rightarrow> bool" where
  "spec_accepts op Gone = False"
| "spec_accepts (OpAdd c) (Held S m) = Constraint_Valid c"
| "spec_accepts (OpDelete mark) (Held S m) = (S = {} \<or> mark)"
| "spec_accepts _ (Held S m) = True"

fun run_op :: "desc_op \<Rightarrow> descriptor \<Rightarrow> bd_result" where
  "run_op (OpAdd c) bd = AddConstraint c bd"
| "run_op (OpRemove c) bd = RemoveConstraint c bd"
| "run_op OpReset bd = ResetConstraints bd"
| "run_op (OpDelete mark) bd = Delete mark bd"

fun run_ops :: "desc_op list \<Rightarrow> descriptor \<Rightarrow> descriptor \<times> bundle_metadata list" where
  "run_ops [] bd = (bd, [])"
| "run_ops (op # ops) bd =
     (case run_op op bd of (_, bd', gos) \<Rightarrow>
        (case run_ops ops bd' of (bd'', gos') \<Rightarrow> (bd'', gos @ gos')))"

definition bd_abs :: "descriptor \<Rightarrow> held" where
  "bd_abs bd = (if deleted bd then Gone else Held (set (retentionConstraints bd)) (shouldDelete bd))"

text \<open>The invariant: the two flags are what the constraints say, a marked bundle is held.\<close>

definition desc_ok :: "descriptor \<Rightarrow> bool" where
  "desc_ok bd \<longleftrightarrow>
     (\<forall>c \<in> set (retentionConstraints bd). Constraint_Valid c) \<and>
     (retain bd \<longleftrightarrow> retentionConstraints bd \<noteq> []) \<and>
     (dispatch bd \<longleftrightarrow> ForwardPending \<notin> set (retentionConstraints bd)) \<and>
     (deleted bd \<longrightarrow> retentionConstraints bd = []) \<and>
     (shouldDelete bd \<and> \<not> deleted bd \<longrightarrow> retentionConstraints bd \<noteq> [])"

lemmas desc_op_defs =
  AddConstraint_def RemoveConstraint_def ResetConstraints_def Delete_def unsafeDelete_def Let_def

lemma desc_ok_New [simp]: "desc_ok (NewBundleDescriptor md)"
  by (simp add: desc_ok_def NewBundleDescriptor_def Constraint_Valid_def)

lemma run_op_ok: "desc_ok bd \<Longrightarrow> desc_ok (fst (snd (run_op op bd)))"
  by (cases op) (auto simp: desc_ok_def desc_op_defs)

lemma run_op_metadata [simp]: "metadata (fst (snd (run_op op bd))) = metadata bd"
  by (cases op) (simp_all add: desc_op_defs)

lemma run_op_abs: "desc_ok bd \<Longrightarrow> bd_abs (fst (snd (run_op op bd))) = spec_op op (bd_abs bd)"
  by (cases op) (auto simp: desc_ok_def desc_op_defs bd_abs_def release_def filter_empty_conv)

lemma run_op_accepts: "desc_ok bd \<Longrightarrow> fst (run_op op bd) = None \<longleftrightarrow> spec_accepts op (bd_abs bd)"
  by (cases op) (auto simp: desc_ok_def desc_op_defs bd_abs_def)

lemma run_op_spawns:
  "snd (snd (run_op op bd)) =
     (if \<not> deleted bd \<and> deleted (fst (snd (run_op op bd))) then [metadata bd] else [])"
  by (cases op) (simp_all add: desc_op_defs)

lemma run_op_deleted_mono: "deleted bd \<Longrightarrow> deleted (fst (snd (run_op op bd)))"
  by (cases op) (simp_all add: desc_op_defs)

lemma run_ops_Cons:
  "run_ops (op # ops) bd =
     (fst (run_ops ops (fst (snd (run_op op bd)))),
      snd (snd (run_op op bd)) @ snd (run_ops ops (fst (snd (run_op op bd)))))"
  by (simp add: split_beta)

lemma run_ops_contract:
  assumes "desc_ok bd"
  shows "desc_ok (fst (run_ops ops bd)) \<and> metadata (fst (run_ops ops bd)) = metadata bd \<and>
    bd_abs (fst (run_ops ops bd)) = fold spec_op ops (bd_abs bd) \<and>
    snd (run_ops ops bd) =
      (if \<not> deleted bd \<and> deleted (fst (run_ops ops bd)) then [metadata bd] else []) \<and>
    (deleted bd \<longrightarrow> deleted (fst (run_ops ops bd)))"
  using assms
proof (induction ops arbitrary: bd)
  case (Cons op ops)
  note IH = Cons.IH[OF run_op_ok[OF Cons.prems], of op]
  show ?case
    using IH run_op_spawns[of op bd] run_op_deleted_mono[of bd op] run_op_abs[OF Cons.prems, of op]
    unfolding run_ops_Cons by auto
qed simp

text \<open>
  Claim C10: the descriptor implements its contract. After any sequence of constraint and deletion
  calls its flags agree with its constraints, its state is what the machine over sets of
  constraints says, and the deletion of the bundle was started once if the bundle is gone
  and never otherwise.
\<close>

theorem descriptor_lifecycle:
  "let (bd, gos) = run_ops ops (NewBundleDescriptor md) in
     desc_ok bd \<and> bd_abs bd = fold spec_op ops (Held {DispatchPending} False) \<and>
     gos = (if bd_abs bd = Gone then [md] else [])"
  using run_ops_contract[OF desc_ok_New, of ops md]
  by (auto simp: Let_def split_beta bd_abs_def NewBundleDescriptor_def)

text \<open>
  Also shown: a call on a descriptor is refused exactly when the contract refuses it: every call on
  a bundle that is gone, an unknown constraint, and an unconditional deletion of a bundle that
  is held.
\<close>

theorem descriptor_refusals:
  assumes "desc_ok bd"
  shows "fst (run_op op bd) = None \<longleftrightarrow> spec_accepts op (bd_abs bd)"
  by (rule run_op_accepts[OF assms])

theorem descriptor_refusals_witness:
  "fst (run_op (OpDelete False) (NewBundleDescriptor sample_metadata)) \<noteq> None"
  using descriptor_refusals[OF desc_ok_New, of "OpDelete False" sample_metadata]
  by (simp add: bd_abs_def NewBundleDescriptor_def)

end
