(* ===== verification/Store.thy ===== *)
theory Store
  imports Descriptor
begin

text \<open>
  \<^verbatim>\<open>pkg/store/store.go\<close>: the bundle store. Descriptors live in a heap; the store's map takes a
  bundle ID to the position of its descriptor, so that callers and the store share one. The
  map is the list of its entries in the order in which the next \<^verbatim>\<open>range\<close> loop visits them; what
  is shown of a loop does not depend on the order. Deletions that were started with \<^verbatim>\<open>go\<close> wait in
  \<open>pending\<close> and run one by one, at any later time (\<open>run_pending\<close>). The disk is a map from file
  names to contents. What the operating system may do to the creation and the writing of a file is an
  argument (\<open>disk\<close>).
\<close>

record 'kv bundle_store =
  nodeID :: endpoint_id
  metadataStore :: 'kv
  files :: "string \<rightharpoonup> bytes"
  bundles :: "(bundle_id \<times> nat) list"
  heap :: "descriptor list"
  pending :: "bundle_metadata list"

text \<open>
  The environment of the store: the serialisation library, the known extension blocks, the
  database; and what one file operation meets: the error of \<^verbatim>\<open>os.Create\<close> and of writing, if any,
  and what is left in a file whose writing failed.
\<close>

record 'kv store_env =
  env_cbor :: lib
  env_ebm :: ebm
  env_db :: "'kv badgerhold"

record disk =
  create_err :: "err option"
  write_err :: "err option"
  left_over :: bytes

definition good_disk :: disk where
  "good_disk = \<lparr>create_err = None, write_err = None, left_over = []\<rparr>"

section \<open>The life of the store\<close>

definition loadAll :: "'kv badgerhold \<Rightarrow> 'kv \<Rightarrow> descriptor list res" where
  "loadAll K s = andThen (kv_Find K s) (\<lambda>ms. Inr (map NewBundleDescriptor ms))"

text \<open>
  \<open>opened\<close> is the database that \<^verbatim>\<open>badgerhold.Open\<close> found under the path, \<open>dirs\<close> the outcome of
  creating the directories. The singleton must not exist yet.
\<close>

definition InitialiseStore ::
  "'kv badgerhold \<Rightarrow> endpoint_id \<Rightarrow> unit res \<Rightarrow> 'kv res \<Rightarrow> (string \<rightharpoonup> bytes) \<Rightarrow>
   'kv bundle_store option \<Rightarrow> 'kv bundle_store res" where
  "InitialiseStore K nid dirs opened disk_files singleton =
     (if singleton \<noteq> None
      then Inl (Panic ''Attempting to access an uninitialised store. This must never happen!'')
      else andThen dirs (\<lambda>_. andThen opened (\<lambda>db. andThen (loadAll K db) (\<lambda>allBundles.
        Inr \<lparr>nodeID = nid, metadataStore = db, files = disk_files,
             bundles = fold (\<lambda>i. mapset (bd_ID (allBundles ! i)) i) [0..<length allBundles] [],
             heap = allBundles, pending = []\<rparr>))))"

definition GetStoreSingleton :: "'kv bundle_store option \<Rightarrow> 'kv bundle_store res" where
  "GetStoreSingleton singleton =
     (case singleton of
        None \<Rightarrow> Inl (Panic ''Attempting to access an uninitialised store. This must never happen!'')
      | Some st \<Rightarrow> Inr st)"

text \<open>\<open>closed\<close> is the outcome of closing the database.\<close>

definition ShutdownStore ::
  "err option \<Rightarrow> 'kv bundle_store option \<Rightarrow> err option \<times> 'kv bundle_store option" where
  "ShutdownStore closed singleton =
     (case singleton of None \<Rightarrow> (None, None) | Some st \<Rightarrow> (closed, None))"

section \<open>Lookups\<close>

definition GetBundleDescriptor :: "bundle_id \<Rightarrow> 'kv bundle_store \<Rightarrow> store_err + nat" where
  "GetBundleDescriptor bid st =
     (case map_of (bundles st) bid of
        None \<Rightarrow> Inl (NoSuchBundleError bid)
      | Some a \<Rightarrow> if Deleted (heap st ! a) then Inl (NoSuchBundleError bid) else Inr a)"

definition GetWithConstraint :: "constraint \<Rightarrow> 'kv bundle_store \<Rightarrow> nat list" where
  "GetWithConstraint c st =
     filter (\<lambda>a. HasConstraint c (heap st ! a) = Inr True) (map snd (bundles st))"

definition GetDispatchable :: "'kv bundle_store \<Rightarrow> nat list" where
  "GetDispatchable st = filter (\<lambda>a. Dispatch (heap st ! a)) (map snd (bundles st))"

text \<open>
  Loading a bundle from disk. The error of parsing is dropped: a file that cannot be parsed gives
  the bundle as far as it was read, here \<open>Incomplete\<close>, and no error.
\<close>

datatype loaded = Loaded dtn_bundle | Incomplete err

definition loadEntireBundle ::
  "'kv store_env \<Rightarrow> time \<Rightarrow> string \<Rightarrow> 'kv bundle_store \<Rightarrow> (store_err + loaded) option" where
  "loadEntireBundle E now filename st =
     (case files st filename of
        None \<Rightarrow> Some (Inl (LibError (LibErr ''no such file or directory'')))
      | Some f \<Rightarrow>
          (case ParseBundle (env_cbor E) (env_ebm E) now f of
             None \<Rightarrow> None
           | Some (Inl (Panic p)) \<Rightarrow> Some (Inl (LibError (Panic p)))
           | Some (Inl e) \<Rightarrow> Some (Inr (Incomplete e))
           | Some (Inr (b, errs)) \<Rightarrow> Some (Inr (Loaded b))))"

definition loadPartialBundle ::
  "'kv store_env \<Rightarrow> string \<Rightarrow> u64 list \<Rightarrow> 'kv bundle_store \<Rightarrow> (store_err + partial_bundle) option" where
  "loadPartialBundle E filename wantedBlocks st =
     (case files st filename of
        None \<Rightarrow> Some (Inl (LibError (LibErr ''no such file or directory'')))
      | Some f \<Rightarrow>
          map_option (\<lambda>r. case r of Inl e \<Rightarrow> Inl (LibError e) | Inr pb \<Rightarrow> Inr pb)
            (ParsePartialBundle (env_cbor E) (env_ebm E) wantedBlocks f))"

definition Load :: "'kv store_env \<Rightarrow> time \<Rightarrow> nat \<Rightarrow> 'kv bundle_store \<Rightarrow> (store_err + loaded) option" where
  "Load E now a st =
     (let bd = heap st ! a
      in if deleted bd then Some (Inl (deletedError bd))
         else loadEntireBundle E now (md_SerialisedFileName (metadata bd)) st)"

definition LoadPartialBundle ::
  "'kv store_env \<Rightarrow> u64 list \<Rightarrow> nat \<Rightarrow> 'kv bundle_store \<Rightarrow> (store_err + partial_bundle) option" where
  "LoadPartialBundle E wantedBlocks a st =
     (let bd = heap st ! a
      in if deleted bd then Some (Inl (deletedError bd))
         else loadPartialBundle E (md_SerialisedFileName (metadata bd)) wantedBlocks st)"

section \<open>Descriptor methods on the store\<close>

definition on_descriptor ::
  "(descriptor \<Rightarrow> bd_result) \<Rightarrow> nat \<Rightarrow> 'kv bundle_store \<Rightarrow> store_err option \<times> 'kv bundle_store" where
  "on_descriptor f a st =
     (case f (heap st ! a) of (e, bd, gos) \<Rightarrow>
        (e, st\<lparr>heap := (heap st)[a := bd], pending := pending st @ gos\<rparr>))"

definition store_SetMiscData ::
  "'kv badgerhold \<Rightarrow> string \<Rightarrow> go_any \<Rightarrow> nat \<Rightarrow> 'kv bundle_store \<Rightarrow> err option \<times> 'kv bundle_store" where
  "store_SetMiscData K key v a st =
     (case SetMiscData K key v (heap st ! a) (metadataStore st) of (e, bd, s) \<Rightarrow>
        (e, st\<lparr>heap := (heap st)[a := bd], metadataStore := s\<rparr>))"

definition store_AddKnownHolder ::
  "'kv badgerhold \<Rightarrow> endpoint_id list \<Rightarrow> nat \<Rightarrow> 'kv bundle_store \<Rightarrow> store_err option \<times> 'kv bundle_store" where
  "store_AddKnownHolder K peers a st =
     (case AddKnownHolder K peers (heap st ! a) (metadataStore st) of (e, bd, s) \<Rightarrow>
        (e, st\<lparr>heap := (heap st)[a := bd], metadataStore := s\<rparr>))"

section \<open>Deleting\<close>

text \<open>Both deletions are tried; the errors of both are collected.\<close>

definition deleteFromDiskUnsafe ::
  "'kv badgerhold \<Rightarrow> bundle_metadata \<Rightarrow> 'kv bundle_store \<Rightarrow> err list \<times> 'kv bundle_store" where
  "deleteFromDiskUnsafe K md st =
     (let (e1, db) = (case kv_Delete K (md_IDString md) (metadataStore st) of
                        Inl e \<Rightarrow> ([e], metadataStore st) | Inr db \<Rightarrow> ([], db));
          e2 = (if files st (md_SerialisedFileName md) = None
                then [LibErr ''no such file or directory''] else [])
      in (e1 @ e2, st\<lparr>metadataStore := db, files := (files st)(md_SerialisedFileName md := None)\<rparr>))"

definition deleteBundle :: "'kv badgerhold \<Rightarrow> bundle_metadata \<Rightarrow> 'kv bundle_store \<Rightarrow> 'kv bundle_store" where
  "deleteBundle K md st =
     snd (deleteFromDiskUnsafe K md (st\<lparr>bundles := mapdel (md_ID md) (bundles st)\<rparr>))"

text \<open>The scheduler runs the \<open>i\<close>-th of the goroutines that wait.\<close>

definition run_pending :: "'kv badgerhold \<Rightarrow> nat \<Rightarrow> 'kv bundle_store \<Rightarrow> 'kv bundle_store" where
  "run_pending K i st =
     (if i < length (pending st)
      then deleteBundle K (pending st ! i)
             (st\<lparr>pending := take i (pending st) @ drop (i + 1) (pending st)\<rparr>)
      else st)"

definition GarbageCollect :: "time \<Rightarrow> 'kv bundle_store \<Rightarrow> 'kv bundle_store" where
  "GarbageCollect now st =
     fold (\<lambda>a st. if Expired now (heap st ! a) \<and> \<not> Retain (heap st ! a)
                  then snd (on_descriptor (Delete False) a st) else st)
       (map snd (bundles st)) st"

section \<open>Inserting\<close>

definition file_name :: "bundle_id \<Rightarrow> string" where
  "file_name bid = show_hex (sha256 (bytes_of_string (bid_String bid)))"

text \<open>The endpoint of the bundle's previous node block, when it has exactly one.\<close>

definition previous_node :: "dtn_bundle \<Rightarrow> endpoint_id list res" where
  "previous_node b =
     (case ExtensionBlockByType b BlockTypePreviousNodeBlock of
        Inl (Panic p) \<Rightarrow> Inl (Panic p)
      | Inl _ \<Rightarrow> Inr []
      | Inr i \<Rightarrow>
          (case Value (ExtensionBlocks b ! i) of
             Some (PreviousNodeBlock eid) \<Rightarrow> Inr [eid]
           | _ \<Rightarrow> Inl (Panic ''interface conversion: ExtensionBlock is not *PreviousNodeBlock'')))"

definition new_metadata :: "endpoint_id \<Rightarrow> dtn_bundle \<Rightarrow> endpoint_id list \<Rightarrow> bundle_metadata" where
  "new_metadata nid b prev =
     (let pb = PrimaryBlock b
      in \<lparr>md_ID = b_ID b, md_Source = SourceNode pb, md_Destination = Destination pb,
          md_ReportTo = ReportTo pb, md_IsAdministrativeRecord = IsAdministrativeRecord b,
          md_MiscellaneousData = Map.empty, md_IDString = bid_String (b_ID b),
          md_KnownHolders = nid # prev,
          md_Expires = Time (ct_DtnTime (CreationTimestamp pb)) + duration_of_ms (Lifetime pb),
          md_SerialisedFileName = file_name (b_ID b)\<rparr>)"

definition insertNewBundleUnsafe ::
  "'kv store_env \<Rightarrow> disk \<Rightarrow> dtn_bundle \<Rightarrow> 'kv bundle_store \<Rightarrow> (store_err + nat) \<times> 'kv bundle_store" where
  "insertNewBundleUnsafe E d b st =
     (case previous_node b of
        Inl e \<Rightarrow> (Inl (LibError e), st)
      | Inr prev \<Rightarrow>
          let md = new_metadata (nodeID st) b prev
          in case kv_Insert (env_db E) (md_IDString md) md (metadataStore st) of
               Inl e \<Rightarrow> (Inl (LibError e), st)
             | Inr db \<Rightarrow>
                 let st = st\<lparr>metadataStore := db\<rparr>
                 in case create_err d of
                      Some e \<Rightarrow>
                        (let (errs, st) = deleteFromDiskUnsafe (env_db E) md st
                         in (Inl (LibError (if errs = [] then e else MultiErr (e # errs))), st))
                    | None \<Rightarrow>
                        (case b_MarshalCbor (env_cbor E) b of
                           Inl e \<Rightarrow>
                             (Inl (LibError e),
                              st\<lparr>files := (files st)(md_SerialisedFileName md \<mapsto> left_over d)\<rparr>)
                         | Inr (bs, _) \<Rightarrow>
                             (case write_err d of
                                Some e \<Rightarrow>
                                  (Inl (LibError e),
                                   st\<lparr>files := (files st)(md_SerialisedFileName md \<mapsto> left_over d)\<rparr>)
                              | None \<Rightarrow>
                                  (Inr (length (heap st)),
                                   st\<lparr>files := (files st)(md_SerialisedFileName md \<mapsto> bs),
                                      bundles := mapset (b_ID b) (length (heap st)) (bundles st),
                                      heap := heap st @ [NewBundleDescriptor md]\<rparr>))))"

definition InsertBundle ::
  "'kv store_env \<Rightarrow> disk \<Rightarrow> dtn_bundle \<Rightarrow> 'kv bundle_store \<Rightarrow> (store_err + nat) \<times> 'kv bundle_store" where
  "InsertBundle E d b st =
     (case map_of (bundles st) (b_ID b) of
        None \<Rightarrow> insertNewBundleUnsafe E d b st
      | Some a \<Rightarrow>
          (case previous_node b of
             Inl e \<Rightarrow> (Inl (LibError e), st)
           | Inr [] \<Rightarrow> (Inr a, st)
           | Inr prev \<Rightarrow>
               (case store_AddKnownHolder (env_db E) prev a st of
                  (Some e, st) \<Rightarrow> (Inl e, st) | (None, st) \<Rightarrow> (Inr a, st))))"

section \<open>Runs of the store\<close>

text \<open>
  A run inserts bundles, calls descriptors, collects garbage, lets a waiting deletion run, and
  may stop at any moment and start again from what is on disk. The runs considered here are
  those in which the disk works, no two IDs of stored bundles hash to one file name, and the
  miscellaneous data is set on descriptors that the store still has
  (\<open>stale_descriptor_overwrites\<close> shows what happens otherwise).
\<close>

definition storable :: "'kv store_env \<Rightarrow> dtn_bundle \<Rightarrow> bytes \<Rightarrow> bool" where
  "storable E b bs \<longleftrightarrow> wf_bundle (env_ebm E) b \<and> length bs < 2 ^ 64 \<and>
     (\<exists>b'. b_MarshalCbor (env_cbor E) b = Inr (bs, b'))"

inductive store_step :: "'kv store_env \<Rightarrow> 'kv bundle_store \<Rightarrow> 'kv bundle_store \<Rightarrow> bool" for E where
  insert: "\<lbrakk>InsertBundle E d b st = (r, st'); create_err d = None; write_err d = None;
    storable E b bs;
    \<forall>bid \<in> fst ` set (bundles st). file_name bid = file_name (b_ID b) \<longrightarrow>
      bid_String bid = bid_String (b_ID b)\<rbrakk> \<Longrightarrow> store_step E st st'"
| descriptor: "a < length (heap st) \<Longrightarrow>
    store_step E st (snd (on_descriptor (run_op op) a st))"
| holder: "a < length (heap st) \<Longrightarrow>
    store_step E st (snd (store_AddKnownHolder (env_db E) peers a st))"
| misc: "a \<in> snd ` set (bundles st) \<Longrightarrow>
    store_step E st (snd (store_SetMiscData (env_db E) key v a st))"
| collect: "store_step E st (GarbageCollect now st)"
| run: "store_step E st (run_pending (env_db E) i st)"

inductive store_reach :: "'kv store_env \<Rightarrow> 'kv bundle_store \<Rightarrow> bool" for E where
  init: "\<lbrakk>kv_Find (env_db E) db = Inr [];
    InitialiseStore (env_db E) nid (Inr ()) (Inr db) Map.empty None = Inr st\<rbrakk> \<Longrightarrow> store_reach E st"
| step: "\<lbrakk>store_reach E st; store_step E st st'\<rbrakk> \<Longrightarrow> store_reach E st'"
| restart: "\<lbrakk>store_reach E st;
    InitialiseStore (env_db E) nid (Inr ()) (Inr (metadataStore st)) (files st) None = Inr st'\<rbrakk> \<Longrightarrow>
    store_reach E st'"

section \<open>The invariant\<close>

text \<open>
  The map, the heap, the database and the files describe the same bundles: every entry of the
  map has a descriptor of its ID, a record in the database equal to the descriptor's metadata and a
  file with the serialised bundle; the database has no other records. A descriptor that the
  map does not have is deleted. The deletions that wait are those of the deleted entries.
\<close>

definition entry_ok :: "'kv store_env \<Rightarrow> 'kv bundle_store \<Rightarrow> bundle_id \<Rightarrow> nat \<Rightarrow> bool" where
  "entry_ok E st k a \<longleftrightarrow> a < length (heap st) \<and>
     md_ID (metadata (heap st ! a)) = k \<and> md_IDString (metadata (heap st ! a)) = bid_String k \<and>
     md_SerialisedFileName (metadata (heap st ! a)) = file_name k \<and>
     (\<exists>b bs. storable E b bs \<and> b_ID b = k \<and> files st (file_name k) = Some bs)"

definition map_ok :: "'kv store_env \<Rightarrow> 'kv bundle_store \<Rightarrow> bool" where
  "map_ok E st \<longleftrightarrow> distinct (map fst (bundles st)) \<and> distinct (map snd (bundles st)) \<and>
     inj_on file_name (fst ` set (bundles st)) \<and> (\<forall>(k, a) \<in> set (bundles st). entry_ok E st k a)"

definition heap_ok :: "'kv bundle_store \<Rightarrow> bool" where
  "heap_ok st \<longleftrightarrow> (\<forall>d \<in> set (heap st). desc_ok d) \<and>
     (\<forall>a < length (heap st). a \<notin> snd ` set (bundles st) \<longrightarrow> deleted (heap st ! a))"

definition pending_ok :: "'kv bundle_store \<Rightarrow> bool" where
  "pending_ok st \<longleftrightarrow> distinct (map md_ID (pending st)) \<and>
     (\<forall>k. k \<in> md_ID ` set (pending st) \<longleftrightarrow> (\<exists>a. (k, a) \<in> set (bundles st) \<and> deleted (heap st ! a))) \<and>
     (\<forall>m \<in> set (pending st). md_IDString m = bid_String (md_ID m) \<and>
        md_SerialisedFileName m = file_name (md_ID m))"

definition db_ok :: "('kv \<Rightarrow> string \<rightharpoonup> bundle_metadata) \<Rightarrow> 'kv bundle_store \<Rightarrow> bool" where
  "db_ok look st \<longleftrightarrow> (\<forall>s m. look (metadataStore st) s = Some m \<longleftrightarrow>
     (\<exists>k a. (k, a) \<in> set (bundles st) \<and> metadata (heap st ! a) = m \<and> s = bid_String k))"

definition store_ok ::
  "'kv store_env \<Rightarrow> ('kv \<Rightarrow> string \<rightharpoonup> bundle_metadata) \<Rightarrow> 'kv bundle_store \<Rightarrow> bool" where
  "store_ok E look st \<longleftrightarrow> map_ok E st \<and> heap_ok st \<and> pending_ok st \<and> db_ok look st"

lemmas store_ok_defs = store_ok_def map_ok_def heap_ok_def pending_ok_def db_ok_def

lemma entry_at:
  "store_ok E look st \<Longrightarrow> (k, a) \<in> set (bundles st) \<Longrightarrow> entry_ok E st k a"
  by (auto simp: store_ok_defs)

lemma entry_of_addr:
  "store_ok E look st \<Longrightarrow> (k, a) \<in> set (bundles st) \<Longrightarrow> (k', a) \<in> set (bundles st) \<Longrightarrow> k' = k"
  using entry_at[of E look st] unfolding entry_ok_def by blast

lemma addr_of_entry:
  "store_ok E look st \<Longrightarrow> (k, a) \<in> set (bundles st) \<Longrightarrow> (k, a') \<in> set (bundles st) \<Longrightarrow> a' = a"
  unfolding store_ok_def map_ok_def by (meson eq_key_imp_eq_value)

lemma entry_string_inj:
  assumes "store_ok E look st" "(k, a) \<in> set (bundles st)" "(k', a') \<in> set (bundles st)"
    and "bid_String k' = bid_String k"
  shows "k' = k"
proof -
  have "look (metadataStore st) (bid_String k) = Some (metadata (heap st ! a))"
    "look (metadataStore st) (bid_String k) = Some (metadata (heap st ! a'))"
    using assms unfolding store_ok_def db_ok_def by metis+
  then have "metadata (heap st ! a') = metadata (heap st ! a)" by simp
  then show ?thesis using entry_at[OF assms(1)] assms(2,3) unfolding entry_ok_def by metis
qed

lemma map_of_bundles:
  "store_ok E look st \<Longrightarrow> map_of (bundles st) k = Some a \<longleftrightarrow> (k, a) \<in> set (bundles st)"
  unfolding store_ok_def map_ok_def by (simp add: map_of_eq_Some_iff)

text \<open>
  A step that changes one descriptor, keeps its ID, its names and the map and the files, and
  brings the database and the waiting deletions along, keeps the invariant.
\<close>

lemma store_ok_update:
  assumes ok: "store_ok E look st" and a: "a < length (heap st)"
    and st': "st' = st\<lparr>heap := (heap st)[a := bd], pending := pending st @ gos, metadataStore := db\<rparr>"
    and bd: "desc_ok bd" "md_ID (metadata bd) = md_ID (metadata (heap st ! a))"
      "md_IDString (metadata bd) = md_IDString (metadata (heap st ! a))"
      "md_SerialisedFileName (metadata bd) = md_SerialisedFileName (metadata (heap st ! a))"
    and del: "deleted (heap st ! a) \<Longrightarrow> deleted bd"
      "gos = (if \<not> deleted (heap st ! a) \<and> deleted bd then [metadata (heap st ! a)] else [])"
    and db: "\<And>s. look db s =
      (if \<exists>k. (k, a) \<in> set (bundles st) \<and> s = bid_String k then Some (metadata bd)
       else look (metadataStore st) s)"
  shows "store_ok E look st'"
proof -
  have ent: "\<And>k b. (k, b) \<in> set (bundles st) \<Longrightarrow> entry_ok E st k b" using entry_at[OF ok] .
  have "entry_ok E st' k b" if "(k, b) \<in> set (bundles st)" for k b
    using ent[OF that] a bd unfolding entry_ok_def st' by (auto simp: nth_list_update)
  then have 1: "map_ok E st'" using ok unfolding store_ok_def map_ok_def st' by auto
  have 2: "heap_ok st'"
    using ok a bd(1) del(1) unfolding store_ok_def heap_ok_def st'
    by (auto simp: nth_list_update dest: set_update_subset_insert[THEN subsetD])
  have db': "db_ok look st'"
    unfolding db_ok_def
  proof (intro allI)
    fix s m
    show "look (metadataStore st') s = Some m \<longleftrightarrow>
      (\<exists>k b. (k, b) \<in> set (bundles st') \<and> metadata (heap st' ! b) = m \<and> s = bid_String k)"
    proof (cases "\<exists>k. (k, a) \<in> set (bundles st) \<and> s = bid_String k")
      case True
      then obtain k where k: "(k, a) \<in> set (bundles st)" "s = bid_String k" by blast
      have only: "b = a" if "(k', b) \<in> set (bundles st)" "s = bid_String k'" for k' b
        using entry_string_inj[OF ok k(1) that(1)] addr_of_entry[OF ok k(1)] that k(2) by metis
      have "(\<exists>k b. (k, b) \<in> set (bundles st') \<and> metadata (heap st' ! b) = m \<and> s = bid_String k) \<longleftrightarrow>
          metadata bd = m" (is "?L \<longleftrightarrow> _")
      proof
        assume ?L
        then obtain k' b where kb: "(k', b) \<in> set (bundles st)" "metadata (heap st' ! b) = m"
          "s = bid_String k'" by (auto simp: st')
        then show "metadata bd = m" using only[OF kb(1,3)] a by (simp add: st')
      next
        assume "metadata bd = m"
        then have "(k, a) \<in> set (bundles st') \<and> metadata (heap st' ! a) = m \<and> s = bid_String k"
          using k a by (simp add: st')
        then show ?L by blast
      qed
      moreover have "look (metadataStore st') s = Some (metadata bd)"
        unfolding st' using trans[OF db if_P[OF True]] by simp
      ultimately show ?thesis by simp
    next
      case False
      have same: "heap st' ! b = heap st ! b" if "(k', b) \<in> set (bundles st)" "s = bid_String k'" for k' b
      proof -
        have "b \<noteq> a" using False that by blast
        then show ?thesis by (simp add: st')
      qed
      then have "(\<exists>k b. (k, b) \<in> set (bundles st') \<and> metadata (heap st' ! b) = m \<and> s = bid_String k) \<longleftrightarrow>
          (\<exists>k b. (k, b) \<in> set (bundles st) \<and> metadata (heap st ! b) = m \<and> s = bid_String k)"
        using same unfolding st' by simp metis
      moreover have "look (metadataStore st') s = look (metadataStore st) s"
        unfolding st' using trans[OF db if_not_P[OF False]] by simp
      ultimately show ?thesis using ok unfolding store_ok_def db_ok_def by simp
    qed
  qed
  have pend: "pending_ok st" using ok by (simp add: store_ok_def)
  have 3: "pending_ok st'"
  proof (cases "gos = []")
    case True
    then have "deleted bd = deleted (heap st ! a)" using del by (auto split: if_splits)
    then show ?thesis
      using pend a unfolding pending_ok_def st' by (simp add: True nth_list_update)
  next
    case False
    then have g: "gos = [metadata (heap st ! a)]" "\<not> deleted (heap st ! a)" "deleted bd"
      using del by (auto split: if_splits)
    then have "a \<in> snd ` set (bundles st)"
      using ok a unfolding store_ok_def heap_ok_def by blast
    then obtain k where k: "(k, a) \<in> set (bundles st)" by (auto simp: image_iff)
    note e = ent[OF k, unfolded entry_ok_def]
    have new: "k \<notin> md_ID ` set (pending st)"
      using pend g(2) addr_of_entry[OF ok k] unfolding pending_ok_def by metis
    have "k' \<in> md_ID ` set (pending st') \<longleftrightarrow>
        (\<exists>b. (k', b) \<in> set (bundles st') \<and> deleted (heap st' ! b))" for k'
    proof (cases "k' = k")
      case True
      then show ?thesis using k e g a by (auto simp: st' image_iff)
    next
      case False
      then have "(k', b) \<in> set (bundles st) \<Longrightarrow> b \<noteq> a" for b
        using entry_of_addr[OF ok k] by blast
      then have "(k', b) \<in> set (bundles st) \<Longrightarrow> heap st' ! b = heap st ! b" for b
        unfolding st' by simp (metis nth_list_update_neq)
      then have "(\<exists>b. (k', b) \<in> set (bundles st') \<and> deleted (heap st' ! b)) \<longleftrightarrow>
          (\<exists>b. (k', b) \<in> set (bundles st) \<and> deleted (heap st ! b))"
        unfolding st' by simp metis
      moreover have "k' \<in> md_ID ` set (pending st') \<longleftrightarrow> k' \<in> md_ID ` set (pending st)"
        using False e g(1) by (simp add: st')
      ultimately show ?thesis using pend unfolding pending_ok_def by simp
    qed
    then show ?thesis
      using pend new e g unfolding pending_ok_def by (auto simp: st')
  qed
  show ?thesis using 1 2 3 db' by (simp add: store_ok_def)
qed

lemma on_descriptor_eq:
  "snd (on_descriptor (run_op op) a st) =
     st\<lparr>heap := (heap st)[a := fst (snd (run_op op (heap st ! a)))],
        pending := pending st @ snd (snd (run_op op (heap st ! a)))\<rparr>"
  by (simp add: on_descriptor_def split_beta)

lemma db_same:
  assumes ok: "store_ok E look st" and "m = metadata (heap st ! a)"
  shows "look (metadataStore st) s =
    (if \<exists>k. (k, a) \<in> set (bundles st) \<and> s = bid_String k then Some m
     else look (metadataStore st) s)"
  using assms unfolding store_ok_def db_ok_def by auto

lemma store_ok_descriptor:
  assumes ok: "store_ok E look st" and a: "a < length (heap st)"
  shows "store_ok E look (snd (on_descriptor (run_op op) a st))"
proof (rule store_ok_update[OF ok a])
  show "snd (on_descriptor (run_op op) a st) =
    st\<lparr>heap := (heap st)[a := fst (snd (run_op op (heap st ! a)))],
       pending := pending st @ snd (snd (run_op op (heap st ! a))),
       metadataStore := metadataStore st\<rparr>"
    by (simp add: on_descriptor_eq)
  have "desc_ok (heap st ! a)" using ok a by (simp add: store_ok_defs)
  then show "desc_ok (fst (snd (run_op op (heap st ! a))))" by (rule run_op_ok)
  show "snd (snd (run_op op (heap st ! a))) =
    (if \<not> deleted (heap st ! a) \<and> deleted (fst (snd (run_op op (heap st ! a))))
     then [metadata (heap st ! a)] else [])" by (rule run_op_spawns)
  show "look (metadataStore st) s =
    (if \<exists>k. (k, a) \<in> set (bundles st) \<and> s = bid_String k
     then Some (metadata (fst (snd (run_op op (heap st ! a))))) else look (metadataStore st) s)" for s
    by (rule db_same[OF ok]) simp
qed (simp_all add: run_op_deleted_mono)

lemma run_op_Delete: "run_op (OpDelete mark) = Delete mark"
  by (rule ext) simp

lemma store_ok_collect:
  assumes "store_ok E look st"
  shows "store_ok E look (GarbageCollect now st)"
proof -
  have "store_ok E look (fold (\<lambda>a st. if Expired now (heap st ! a) \<and> \<not> Retain (heap st ! a)
      then snd (on_descriptor (Delete False) a st) else st) as st)"
    if "\<forall>a \<in> set as. a < length (heap st)" "store_ok E look st" for as and st :: "'a bundle_store"
    using that
  proof (induction as arbitrary: st)
    case (Cons a as)
    have "store_ok E look (snd (on_descriptor (Delete False) a st))"
      using store_ok_descriptor[OF Cons.prems(2), of a "OpDelete False"] Cons.prems(1) by (simp add: run_op_Delete)
    moreover have "length (heap (snd (on_descriptor (Delete False) a st))) = length (heap st)"
      using on_descriptor_eq[of "OpDelete False" a st] by (simp add: run_op_Delete)
    ultimately show ?case using Cons by simp
  qed simp
  moreover have "\<forall>a \<in> set (map snd (bundles st)). a < length (heap st)"
    using entry_at[OF assms] unfolding entry_ok_def by force
  ultimately show ?thesis using assms unfolding GarbageCollect_def by blast
qed

text \<open>An ID, its name and its file belong to one entry: what is done to one leaves the others.\<close>

lemma entry_file_inj:
  assumes "store_ok E look st" "(k, a) \<in> set (bundles st)" "(k', a') \<in> set (bundles st)"
    and "file_name k' = file_name k"
  shows "k' = k"
  using assms unfolding store_ok_def map_ok_def inj_on_def by force

locale storage = db: reliable_db "env_db E" look + cbor: cboring "env_cbor E"
  for E :: "'kv store_env" and look
begin

lemma db_update:
  assumes ok: "store_ok E look st" and mem: "(k, a) \<in> set (bundles st)"
    and m: "md_IDString m = md_IDString (metadata (heap st ! a))"
  shows "\<exists>db. updateBundleMetadata (env_db E) m (metadataStore st) = Inr db \<and>
    (\<forall>s. look db s = (if \<exists>k. (k, a) \<in> set (bundles st) \<and> s = bid_String k then Some m
      else look (metadataStore st) s))"
proof -
  have s: "md_IDString m = bid_String k" using entry_at[OF ok mem] m by (simp add: entry_ok_def)
  have "look (metadataStore st) (bid_String k) \<noteq> None"
    using ok mem unfolding store_ok_def db_ok_def by auto
  then obtain db where db: "updateBundleMetadata (env_db E) m (metadataStore st) = Inr db"
    using db.update_total[of "metadataStore st" "bid_String k" m] s by (auto simp: updateBundleMetadata_def)
  then have "look db = (look (metadataStore st))(bid_String k \<mapsto> m)"
    using db.update_ok[of "md_IDString m" m "metadataStore st" db] s by (simp add: updateBundleMetadata_def)
  moreover have "(\<exists>k. (k, a) \<in> set (bundles st) \<and> s = bid_String k) \<longleftrightarrow> s = bid_String k" for s
    using entry_of_addr[OF ok mem] mem by blast
  ultimately show ?thesis using db by auto
qed

lemma store_ok_write:
  assumes ok: "store_ok E look st" and mem: "a \<in> snd ` set (bundles st)"
    and m: "md_ID m = md_ID (metadata (heap st ! a))"
      "md_IDString m = md_IDString (metadata (heap st ! a))"
      "md_SerialisedFileName m = md_SerialisedFileName (metadata (heap st ! a))"
    and db: "updateBundleMetadata (env_db E) m (metadataStore st) = Inr db"
  shows "store_ok E look (st\<lparr>heap := (heap st)[a := (heap st ! a)\<lparr>metadata := m\<rparr>], metadataStore := db\<rparr>)"
proof -
  obtain k where k: "(k, a) \<in> set (bundles st)" using mem by (auto simp: image_iff)
  have a: "a < length (heap st)" using entry_at[OF ok k] by (simp add: entry_ok_def)
  have d: "desc_ok (heap st ! a)" using ok a by (simp add: store_ok_defs)
  obtain db' where u: "updateBundleMetadata (env_db E) m (metadataStore st) = Inr db'"
    and l: "\<forall>s. look db' s = (if \<exists>k. (k, a) \<in> set (bundles st) \<and> s = bid_String k then Some m
      else look (metadataStore st) s)"
    using db_update[OF ok k m(2)] by blast
  have "db' = db" using u db by simp
  with l have l: "\<And>s. look db s = (if \<exists>k. (k, a) \<in> set (bundles st) \<and> s = bid_String k then Some m
      else look (metadataStore st) s)" by simp
  have m': "metadata ((heap st ! a)\<lparr>metadata := m\<rparr>) = m" by simp
  show ?thesis
  proof (rule store_ok_update[OF ok a, where bd = "(heap st ! a)\<lparr>metadata := m\<rparr>" and gos = "[]" and db = db])
    show "look db s = (if \<exists>k. (k, a) \<in> set (bundles st) \<and> s = bid_String k
      then Some (metadata ((heap st ! a)\<lparr>metadata := m\<rparr>)) else look (metadataStore st) s)" for s
      by (simp only: l m')
  qed (use d m in \<open>simp_all add: desc_ok_def\<close>)
qed

lemma store_ok_holder:
  assumes ok: "store_ok E look st" and a: "a < length (heap st)"
  shows "store_ok E look (snd (store_AddKnownHolder (env_db E) peers a st))"
proof (cases "deleted (heap st ! a)")
  case True
  then show ?thesis using ok by (simp add: store_AddKnownHolder_def AddKnownHolder_def)
next
  case False
  then have mem: "a \<in> snd ` set (bundles st)" using ok a unfolding store_ok_def heap_ok_def by blast
  then obtain k where k: "(k, a) \<in> set (bundles st)" by (auto simp: image_iff)
  let ?m = "(metadata (heap st ! a))\<lparr>md_KnownHolders := md_KnownHolders (metadata (heap st ! a)) @ peers\<rparr>"
  obtain db where db: "updateBundleMetadata (env_db E) ?m (metadataStore st) = Inr db"
    using db_update[OF ok k, of ?m] by auto
  then show ?thesis
    using store_ok_write[OF ok mem, of ?m db] False
    by (simp add: store_AddKnownHolder_def AddKnownHolder_def Let_def)
qed

lemma store_ok_misc:
  assumes ok: "store_ok E look st" and mem: "a \<in> snd ` set (bundles st)"
  shows "store_ok E look (snd (store_SetMiscData (env_db E) key v a st))"
proof -
  obtain k where k: "(k, a) \<in> set (bundles st)" using mem by (auto simp: image_iff)
  let ?m = "(metadata (heap st ! a))\<lparr>md_MiscellaneousData :=
    (md_MiscellaneousData (metadata (heap st ! a)))(key \<mapsto> v)\<rparr>"
  obtain db where db: "updateBundleMetadata (env_db E) ?m (metadataStore st) = Inr db"
    using db_update[OF ok k, of ?m] by auto
  then show ?thesis
    using store_ok_write[OF ok mem, of ?m db]
    by (simp add: store_SetMiscData_def SetMiscData_def Let_def)
qed

lemma db_entry:
  "store_ok E look st \<Longrightarrow> (k, a) \<in> set (bundles st) \<Longrightarrow>
    look (metadataStore st) (bid_String k) = Some (metadata (heap st ! a))"
  unfolding store_ok_def db_ok_def by blast

lemma store_ok_run:
  assumes ok: "store_ok E look st"
  shows "store_ok E look (run_pending (env_db E) i st)"
proof (cases "i < length (pending st)")
  case True
  define m k where "m = pending st ! i" and "k = md_ID m"
  have m: "m \<in> set (pending st)" using True by (simp add: m_def)
  have names: "md_IDString m = bid_String k" "md_SerialisedFileName m = file_name k"
    using ok m unfolding store_ok_def pending_ok_def k_def by blast+
  obtain a where a: "(k, a) \<in> set (bundles st)" "deleted (heap st ! a)"
    using ok m unfolding store_ok_def pending_ok_def k_def by blast
  have "look (metadataStore st) (bid_String k) \<noteq> None"
    using ok a(1) unfolding store_ok_def db_ok_def by auto
  then obtain db where db: "kv_Delete (env_db E) (bid_String k) (metadataStore st) = Inr db"
    using db.delete_total by blast
  then have look: "look db = (look (metadataStore st))(bid_String k := None)"
    using db.delete_ok by blast
  define rest where "rest = take i (pending st) @ drop (i + 1) (pending st)"
  have split: "pending st = take i (pending st) @ m # drop (i + 1) (pending st)"
    using True id_take_nth_drop[of i "pending st"] by (simp add: m_def)
  have st': "run_pending (env_db E) i st = st\<lparr>pending := rest, bundles := mapdel k (bundles st),
      metadataStore := db, files := (files st)(file_name k := None)\<rparr>" (is "_ = ?st'")
    using True names db
    by (simp add: run_pending_def deleteBundle_def deleteFromDiskUnsafe_def rest_def m_def[symmetric]
      k_def[symmetric] Let_def)
  have mem: "(k', a') \<in> set (mapdel k (bundles st)) \<longleftrightarrow> (k', a') \<in> set (bundles st) \<and> k' \<noteq> k" for k' a'
    by (auto simp: mapdel_def)
  have "entry_ok E ?st' k' a'" if "(k', a') \<in> set (bundles st)" "k' \<noteq> k" for k' a'
    using entry_at[OF ok that(1)] entry_file_inj[OF ok a(1) that(1)] that(2)
    unfolding entry_ok_def by auto
  then have "\<forall>(k', a') \<in> set (bundles ?st'). entry_ok E ?st' k' a'" using mem by auto
  moreover have "fst ` set (mapdel k (bundles st)) \<subseteq> fst ` set (bundles st)" by (auto simp: mapdel_def)
  then have "inj_on file_name (fst ` set (bundles ?st'))"
    using ok unfolding store_ok_def map_ok_def by (auto intro: inj_on_subset)
  moreover have "distinct (map fst (bundles ?st'))" "distinct (map snd (bundles ?st'))"
    using ok unfolding store_ok_def map_ok_def mapdel_def by (simp_all add: distinct_map_filter)
  ultimately have 1: "map_ok E ?st'" unfolding map_ok_def by blast
  have "deleted (heap st ! a')" if "a' < length (heap st)" "a' \<notin> snd ` set (mapdel k (bundles st))" for a'
  proof (cases "a' \<in> snd ` set (bundles st)")
    case True
    then obtain k' where k': "(k', a') \<in> set (bundles st)" by (auto simp: image_iff)
    then have "(k', a') \<notin> set (mapdel k (bundles st))" using that(2) by force
    then have "k' = k" using k' mem by blast
    then show ?thesis using a(2) addr_of_entry[OF ok a(1)] k' by blast
  next
    case False
    then show ?thesis using ok that(1) unfolding store_ok_def heap_ok_def by blast
  qed
  then have 2: "heap_ok ?st'" using ok unfolding store_ok_def heap_ok_def by simp
  have "distinct (map md_ID (take i (pending st) @ m # drop (i + 1) (pending st)))"
    using ok split unfolding store_ok_def pending_ok_def by metis
  then have d: "distinct (map md_ID rest)" "k \<notin> md_ID ` set rest" by (auto simp: rest_def k_def)
  have "set (pending st) = insert m (set rest)"
    by (subst split) (simp add: rest_def)
  then have sub: "set rest \<subseteq> set (pending st)"
    and img: "md_ID ` set (pending st) = insert k (md_ID ` set rest)" by (auto simp: k_def)
  have ids: "k' \<in> md_ID ` set rest \<longleftrightarrow> k' \<in> md_ID ` set (pending st) \<and> k' \<noteq> k" for k'
    using d(2) unfolding img by blast
  have 3: "pending_ok ?st'"
    using ok d(1) sub unfolding store_ok_def pending_ok_def by (auto simp: ids mem)
  have "look db s = Some m' \<longleftrightarrow>
      (\<exists>k' a'. (k', a') \<in> set (bundles ?st') \<and> metadata (heap ?st' ! a') = m' \<and> s = bid_String k')" for s m'
  proof (cases "s = bid_String k")
    case True
    then show ?thesis using look entry_string_inj[OF ok a(1)] by (auto simp: mem)
  next
    case False
    then have "look db s = look (metadataStore st) s" using look by simp
    moreover have "(\<exists>k' a'. (k', a') \<in> set (bundles ?st') \<and> metadata (heap ?st' ! a') = m' \<and> s = bid_String k') \<longleftrightarrow>
      (\<exists>k' a'. (k', a') \<in> set (bundles st) \<and> metadata (heap st ! a') = m' \<and> s = bid_String k')"
      using False by (auto simp: mem)
    ultimately show ?thesis using ok unfolding store_ok_def db_ok_def by simp
  qed
  then have "db_ok look ?st'" by (simp add: db_ok_def)
  with 1 2 3 show ?thesis unfolding st' store_ok_def by blast
next
  case False
  then show ?thesis using ok by (simp add: run_pending_def)
qed

lemma store_ok_insert_new:
  assumes ok: "store_ok E look st" and new: "b_ID b \<notin> fst ` set (bundles st)"
    and md: "md_ID md = b_ID b" "md_IDString md = bid_String (b_ID b)"
      "md_SerialisedFileName md = file_name (b_ID b)"
    and db: "kv_Insert (env_db E) (md_IDString md) md (metadataStore st) = Inr db"
    and b: "storable E b bs"
    and hash: "\<forall>bid \<in> fst ` set (bundles st). file_name bid = file_name (b_ID b) \<longrightarrow>
      bid_String bid = bid_String (b_ID b)"
  shows "store_ok E look (st\<lparr>metadataStore := db, files := (files st)(file_name (b_ID b) \<mapsto> bs),
    bundles := mapset (b_ID b) (length (heap st)) (bundles st),
    heap := heap st @ [NewBundleDescriptor md]\<rparr>)" (is "store_ok E look ?st'")
proof -
  define k n where "k = b_ID b" and "n = length (heap st)"
  have look: "look (metadataStore st) (bid_String k) = None"
    "look db = (look (metadataStore st))(bid_String k \<mapsto> md)"
    using db.insert_ok[OF db] md by (simp_all add: k_def)
  have str: "bid_String k' \<noteq> bid_String k" if "(k', a') \<in> set (bundles st)" for k' a'
    using db_entry[OF ok that] look(1) by auto
  have fil: "file_name k' \<noteq> file_name k" if "(k', a') \<in> set (bundles st)" for k' a'
    using hash that str[OF that] by (force simp: k_def)
  have bun: "bundles ?st' = bundles st @ [(k, n)]" using new by (simp add: mapset_def k_def n_def)
  have small: "a' < n" if "(k', a') \<in> set (bundles st)" for k' a'
    using entry_at[OF ok that] by (simp add: entry_ok_def n_def)
  have old: "heap ?st' ! a' = heap st ! a'" if "a' < n" for a'
    using that by (simp add: n_def nth_append)
  have newd: "heap ?st' ! n = NewBundleDescriptor md" by (simp add: n_def)
  have "entry_ok E ?st' k' a'" if "(k', a') \<in> set (bundles st)" for k' a'
    using entry_at[OF ok that] fil[OF that] unfolding entry_ok_def k_def
    by (auto simp: nth_append)
  moreover have "entry_ok E ?st' k n"
    using md b unfolding entry_ok_def k_def n_def by (auto simp: NewBundleDescriptor_def)
  moreover have "inj_on file_name (fst ` set (bundles ?st'))"
  proof -
    have "file_name k \<notin> file_name ` (fst ` set (bundles st) - {k})"
    proof
      assume "file_name k \<in> file_name ` (fst ` set (bundles st) - {k})"
      then obtain e where "e \<in> set (bundles st)" "file_name k = file_name (fst e)" by auto
      then show False using fil[of "fst e" "snd e"] by simp
    qed
    then show ?thesis using ok unfolding store_ok_def map_ok_def bun by (simp add: inj_on_insert)
  qed
  moreover have "distinct (map fst (bundles ?st'))" "distinct (map snd (bundles ?st'))"
    using ok new small unfolding store_ok_def map_ok_def bun by (auto simp: k_def image_iff dest: small)
  ultimately have 1: "map_ok E ?st'" unfolding map_ok_def bun by auto
  have "deleted (heap ?st' ! a')"
    if "a' < length (heap ?st')" "a' \<notin> snd ` set (bundles ?st')" for a'
  proof -
    have "a' \<noteq> n" "a' \<notin> snd ` set (bundles st)" using that(2) unfolding bun by auto
    then have "a' < n" using that(1) by (simp add: n_def)
    then show ?thesis
      using old \<open>a' \<notin> snd ` set (bundles st)\<close> ok unfolding store_ok_def heap_ok_def n_def by metis
  qed
  moreover have "\<forall>d \<in> set (heap ?st'). desc_ok d"
    using ok unfolding store_ok_def heap_ok_def by auto
  ultimately have 2: "heap_ok ?st'" unfolding heap_ok_def by blast
  have 3: "pending_ok ?st'"
  proof -
    have "(\<exists>a. (k', a) \<in> set (bundles ?st') \<and> deleted (heap ?st' ! a)) \<longleftrightarrow>
        (\<exists>a. (k', a) \<in> set (bundles st) \<and> deleted (heap st ! a))" for k'
      unfolding bun using old small newd by (auto simp: NewBundleDescriptor_def)
    then show ?thesis using ok unfolding store_ok_def pending_ok_def by simp
  qed
  have "look db s = Some m' \<longleftrightarrow>
      (\<exists>k' a'. (k', a') \<in> set (bundles ?st') \<and> metadata (heap ?st' ! a') = m' \<and> s = bid_String k')" for s m'
  proof (cases "s = bid_String k")
    case True
    have only: "a' = n" if "(k', a') \<in> set (bundles ?st')" "s = bid_String k'" for k' a'
      using that str[of k' a'] True unfolding bun by auto
    have here: "(k, n) \<in> set (bundles ?st')" "metadata (heap ?st' ! n) = md"
      unfolding bun using newd by (simp_all add: NewBundleDescriptor_def)
    have "(\<exists>k' a'. (k', a') \<in> set (bundles ?st') \<and> metadata (heap ?st' ! a') = m' \<and> s = bid_String k') \<longleftrightarrow>
        md = m'"
      using only here True by metis
    then show ?thesis using look(2) True by simp
  next
    case False
    have "(k', a') \<in> set (bundles ?st') \<and> metadata (heap ?st' ! a') = m' \<and> s = bid_String k' \<longleftrightarrow>
        (k', a') \<in> set (bundles st) \<and> metadata (heap st ! a') = m' \<and> s = bid_String k'" for k' a'
    proof (cases "(k', a') \<in> set (bundles st)")
      case True
      then show ?thesis using old[OF small[OF True]] unfolding bun by simp
    next
      case no: False
      then show ?thesis using False unfolding bun by auto
    qed
    then have "(\<exists>k' a'. (k', a') \<in> set (bundles ?st') \<and> metadata (heap ?st' ! a') = m' \<and> s = bid_String k') \<longleftrightarrow>
      (\<exists>k' a'. (k', a') \<in> set (bundles st) \<and> metadata (heap st ! a') = m' \<and> s = bid_String k')"
      by presburger
    then show ?thesis using ok False look(2) unfolding store_ok_def db_ok_def by simp
  qed
  then have "db_ok look ?st'" by (simp add: db_ok_def)
  with 1 2 3 show ?thesis unfolding store_ok_def by blast
qed

lemma db_record:
  "store_ok E look st \<Longrightarrow> look (metadataStore st) s = Some m \<Longrightarrow>
    \<exists>k a. (k, a) \<in> set (bundles st) \<and> metadata (heap st ! a) = m \<and> s = bid_String k"
  by (simp add: store_ok_def db_ok_def)

lemma InsertBundle_cases:
  assumes ok: "store_ok E look st" and ins: "InsertBundle E d b st = (r, st')"
    and good: "create_err d = None" "write_err d = None" and b: "storable E b bs"
  obtains (unchanged) "st' = st" "\<forall>a. r = Inr a \<longrightarrow> (b_ID b, a) \<in> set (bundles st)"
  | (holder) a peers where "a < length (heap st)" "(b_ID b, a) \<in> set (bundles st)"
      "st' = snd (store_AddKnownHolder (env_db E) peers a st)"
  | (new) md db where "b_ID b \<notin> fst ` set (bundles st)"
      "md_ID md = b_ID b" "md_IDString md = bid_String (b_ID b)"
      "md_SerialisedFileName md = file_name (b_ID b)"
      "kv_Insert (env_db E) (md_IDString md) md (metadataStore st) = Inr db"
      "st' = st\<lparr>metadataStore := db, files := (files st)(file_name (b_ID b) \<mapsto> bs),
        bundles := mapset (b_ID b) (length (heap st)) (bundles st),
        heap := heap st @ [NewBundleDescriptor md]\<rparr>" "r = Inr (length (heap st))"
proof (cases "map_of (bundles st) (b_ID b)")
  case None
  then have fresh: "b_ID b \<notin> fst ` set (bundles st)" by (simp add: map_of_eq_None_iff)
  show ?thesis
  proof (cases "previous_node b")
    case (Inl e)
    then show ?thesis
      using None ins by (intro unchanged) (auto simp: InsertBundle_def insertNewBundleUnsafe_def)
  next
    case (Inr prev)
    let ?md = "new_metadata (nodeID st) b prev"
    have md: "md_ID ?md = b_ID b" "md_IDString ?md = bid_String (b_ID b)"
      "md_SerialisedFileName ?md = file_name (b_ID b)" by (simp_all add: new_metadata_def Let_def)
    obtain b' where m: "b_MarshalCbor (env_cbor E) b = Inr (bs, b')" using b by (auto simp: storable_def)
    show ?thesis
    proof (cases "kv_Insert (env_db E) (md_IDString ?md) ?md (metadataStore st)")
      case (Inl e)
      then show ?thesis
        using None Inr ins
        by (intro unchanged) (auto simp: InsertBundle_def insertNewBundleUnsafe_def Let_def)
    next
      case (Inr db)
      then show ?thesis
        using None \<open>previous_node b = Inr prev\<close> ins good m md
        by (intro new[OF fresh md Inr])
          (simp_all add: InsertBundle_def insertNewBundleUnsafe_def Let_def)
    qed
  qed
next
  case (Some a)
  then have a: "(b_ID b, a) \<in> set (bundles st)" using map_of_bundles[OF ok] by blast
  then have "a < length (heap st)" using entry_at[OF ok] by (simp add: entry_ok_def)
  then show ?thesis
    using Some a ins unchanged holder[of a]
    by (auto simp: InsertBundle_def split: sum.splits list.splits prod.splits option.splits)
      (metis snd_conv)+
qed

lemma store_ok_insert:
  assumes "store_ok E look st" "InsertBundle E d b st = (r, st')"
    and "create_err d = None" "write_err d = None" "storable E b bs"
    and "\<forall>bid \<in> fst ` set (bundles st). file_name bid = file_name (b_ID b) \<longrightarrow>
      bid_String bid = bid_String (b_ID b)"
  shows "store_ok E look st'"
  using assms(1-5)
proof (cases rule: InsertBundle_cases)
  case (holder a peers)
  then show ?thesis using store_ok_holder[OF assms(1)] by blast
next
  case (new md db)
  then show ?thesis using store_ok_insert_new[OF assms(1) new(1-5) assms(5,6)] by blast
qed (use assms(1) in simp)

lemma store_ok_step:
  assumes "store_ok E look st" "store_step E st st'"
  shows "store_ok E look st'"
  using assms(2,1)
proof (cases rule: store_step.cases)
  case (insert d b r bs)
  then show ?thesis using store_ok_insert assms(1) by blast
qed (auto intro: store_ok_descriptor store_ok_holder store_ok_misc store_ok_collect store_ok_run assms(1))

end

lemma fold_mapset_distinct:
  assumes "distinct (map f xs)" and "f ` set xs \<inter> fst ` set m = {}"
  shows "fold (\<lambda>i. mapset (f i) i) xs m = m @ map (\<lambda>i. (f i, i)) xs"
  using assms
proof (induction xs arbitrary: m)
  case (Cons x xs)
  then have "mapset (f x) x m = m @ [(f x, x)]" by (simp add: mapset_def)
  moreover have "f ` set xs \<inter> fst ` set (m @ [(f x, x)]) = {}" using Cons.prems by auto
  ultimately show ?case using Cons.IH[of "m @ [(f x, x)]"] Cons.prems by simp
qed simp

lemma InitialiseStore_eq:
  assumes "InitialiseStore K nid (Inr ()) (Inr db) fs None = Inr st" and "kv_Find K db = Inr ms"
    and "distinct (map md_ID ms)"
  shows "st = \<lparr>nodeID = nid, metadataStore = db, files = fs,
    bundles = map (\<lambda>i. (md_ID (ms ! i), i)) [0..<length ms],
    heap = map NewBundleDescriptor ms, pending = []\<rparr>"
proof -
  have "fold (\<lambda>i. mapset (bd_ID (map NewBundleDescriptor ms ! i)) i) [0..<length ms] [] =
      fold (\<lambda>i. mapset (md_ID (ms ! i)) i) [0..<length ms] []"
    by (rule fold_cong) (simp_all add: bd_ID_def NewBundleDescriptor_def)
  also have "\<dots> = map (\<lambda>i. (md_ID (ms ! i), i)) [0..<length ms]"
  proof -
    have "map (\<lambda>i. md_ID (ms ! i)) [0..<length ms] = map md_ID ms"
      by (rule nth_equalityI) simp_all
    then show ?thesis
      using fold_mapset_distinct[of "\<lambda>i. md_ID (ms ! i)" "[0..<length ms]" "[]"] assms(3) by simp
  qed
  finally show ?thesis
    using assms(1,2) by (simp add: InitialiseStore_def loadAll_def)
qed

context storage
begin

lemma store_ok_init:
  assumes "kv_Find (env_db E) db = Inr []"
    and "InitialiseStore (env_db E) nid (Inr ()) (Inr db) Map.empty None = Inr st"
  shows "store_ok E look st"
proof -
  have "dom (look db) = {}" using db.find_ok[OF assms(1)] by auto
  then have "look db = Map.empty" by (simp add: dom_eq_empty_conv)
  moreover note InitialiseStore_eq[OF assms(2,1)]
  ultimately show ?thesis by (simp add: store_ok_defs)
qed

lemma store_ok_restart:
  assumes ok: "store_ok E look st"
    and init: "InitialiseStore (env_db E) nid (Inr ()) (Inr (metadataStore st)) (files st) None = Inr st'"
  shows "store_ok E look st'"
proof -
  obtain ms where ms: "kv_Find (env_db E) (metadataStore st) = Inr ms"
    using db.find_total by blast
  then obtain ks where ks: "distinct ks" "set ks = dom (look (metadataStore st))"
    "ms = map (\<lambda>k. the (look (metadataStore st) k)) ks" using db.find_ok by blast
  define name where "name k = md_ID (the (look (metadataStore st) k))" for k
  have rec: "\<exists>a. (name k, a) \<in> set (bundles st) \<and>
      look (metadataStore st) k = Some (metadata (heap st ! a)) \<and> k = bid_String (name k)"
    if "k \<in> set ks" for k
  proof -
    have "k \<in> dom (look (metadataStore st))" using that ks(2) by simp
    then obtain m where m: "look (metadataStore st) k = Some m" by (rule domD[THEN exE])
    obtain k' a where a: "(k', a) \<in> set (bundles st)" "metadata (heap st ! a) = m" "k = bid_String k'"
      using db_record[OF ok m] by blast
    have "name k = md_ID m" by (simp add: name_def m)
    also have "\<dots> = k'" using entry_at[OF ok a(1)] a(2) unfolding entry_ok_def by blast
    finally have "name k = k'" .
    then show ?thesis using a m by (intro exI[of _ a]) simp
  qed
  have inj: "inj_on name (set ks)" by (rule inj_onI) (metis rec)
  have ids: "map md_ID ms = map name ks" by (simp add: ks(3) name_def)
  then have dist: "distinct (map md_ID ms)" using ks(1) inj by (simp add: distinct_map)
  note st' = InitialiseStore_eq[OF init ms dist]
  have len: "length ms = length ks" by (simp add: ks(3))
  have fst_b: "map fst (bundles st') = map name ks"
    unfolding st' by (rule nth_equalityI) (simp_all add: len ks(3) name_def)
  have snd_b: "map snd (bundles st') = [0..<length ks]" by (simp add: st' len o_def)
  have mem: "(k, a) \<in> set (bundles st') \<longleftrightarrow> a < length ks \<and> k = name (ks ! a)" for k a
    by (auto simp: st' len ks(3) name_def)
  have hd: "heap st' ! a = NewBundleDescriptor (the (look (metadataStore st) (ks ! a)))"
    if "a < length ks" for a using that by (simp add: st' ks(3))
  have ent: "entry_ok E st' (name (ks ! a)) a" if a: "a < length ks" for a
  proof -
    obtain a' where "(name (ks ! a), a') \<in> set (bundles st)"
      "look (metadataStore st) (ks ! a) = Some (metadata (heap st ! a'))"
      using rec[of "ks ! a"] a by auto
    then show ?thesis
      using entry_at[OF ok, of "name (ks ! a)" a'] hd[OF a] a
      unfolding entry_ok_def by (simp add: NewBundleDescriptor_def st' len)
  qed
  have sub: "fst ` set (bundles st') \<subseteq> fst ` set (bundles st)"
  proof
    fix k
    assume "k \<in> fst ` set (bundles st')"
    then obtain a where "a < length ks" "k = name (ks ! a)" using mem by auto
    then show "k \<in> fst ` set (bundles st)" using rec[of "ks ! a"] by force
  qed
  have 1: "map_ok E st'"
    unfolding map_ok_def
  proof (intro conjI)
    show "distinct (map fst (bundles st'))" "distinct (map snd (bundles st'))"
      using dist ids by (simp_all add: fst_b snd_b)
    show "inj_on file_name (fst ` set (bundles st'))"
      using ok sub unfolding store_ok_def map_ok_def by (auto intro: inj_on_subset)
    show "\<forall>(k, a) \<in> set (bundles st'). entry_ok E st' k a" using ent mem by auto
  qed
  have "snd ` set (bundles st') = {0..<length ks}"
    using arg_cong[OF snd_b, of set] by simp
  then have 2: "heap_ok st'" by (simp add: heap_ok_def len) (auto simp: st' len)
  have 3: "pending_ok st'"
    using mem hd by (auto simp: pending_ok_def NewBundleDescriptor_def) (auto simp: st')
  have "look (metadataStore st') s = Some m \<longleftrightarrow>
      (\<exists>k a. (k, a) \<in> set (bundles st') \<and> metadata (heap st' ! a) = m \<and> s = bid_String k)" for s m
  proof
    assume l: "look (metadataStore st') s = Some m"
    then have "s \<in> set ks" using ks(2) by (auto simp: st')
    then obtain a where a: "a < length ks" "s = ks ! a" by (auto simp: in_set_conv_nth)
    then have "s = bid_String (name (ks ! a))" using rec[OF \<open>s \<in> set ks\<close>] by auto
    moreover have "metadata (heap st' ! a) = m"
      using hd[OF a(1)] l a(2) by (simp add: NewBundleDescriptor_def st')
    ultimately show "\<exists>k a. (k, a) \<in> set (bundles st') \<and> metadata (heap st' ! a) = m \<and> s = bid_String k"
      using mem a(1) by blast
  next
    assume "\<exists>k a. (k, a) \<in> set (bundles st') \<and> metadata (heap st' ! a) = m \<and> s = bid_String k"
    then obtain k a where "(k, a) \<in> set (bundles st')" "metadata (heap st' ! a) = m" "s = bid_String k"
      by (elim exE conjE)
    then have a: "a < length ks" "metadata (heap st' ! a) = m" "s = bid_String (name (ks ! a))"
      by (simp_all add: mem)
    obtain a' where a': "look (metadataStore st) (ks ! a) = Some (metadata (heap st ! a'))"
      "ks ! a = bid_String (name (ks ! a))" using rec[OF nth_mem[OF a(1)]] by (elim exE conjE)
    have "s = ks ! a" using a(3) a'(2) by (rule trans[OF _ sym])
    moreover have "m = metadata (heap st ! a')" using a(2) hd[OF a(1)] a'(1) by (simp add: NewBundleDescriptor_def)
    ultimately show "look (metadataStore st') s = Some m" using a'(1) by (simp add: st')
  qed
  then have "db_ok look st'" by (simp add: db_ok_def)
  with 1 2 3 show ?thesis unfolding store_ok_def by blast
qed

lemma store_reach_ok: "store_reach E st \<Longrightarrow> store_ok E look st"
  by (induction rule: store_reach.induct)
    (blast intro: store_ok_init store_ok_step store_ok_restart)+

end

text \<open>
  What a step leaves alone: descriptors keep their addresses, and as long as the one at \<open>a\<close>
  is not deleted, its entry stays in the map and its file keeps its contents.
\<close>

definition keeps :: "nat \<Rightarrow> bundle_id \<Rightarrow> bytes \<Rightarrow> 'a bundle_store \<Rightarrow> bool" where
  "keeps a k bs st \<longleftrightarrow> a < length (heap st) \<and>
     (deleted (heap st ! a) \<or> (k, a) \<in> set (bundles st) \<and> files st (file_name k) = Some bs)"

lemma nth_update_at: "a < length xs \<Longrightarrow> xs[i := x] ! a = (if i = a then x else xs ! a)"
  by (cases "i = a") simp_all

lemma keeps_mono:
  assumes "keeps a k bs st" and "bundles st' = bundles st" "files st' = files st"
    and "length (heap st') = length (heap st)"
    and "a < length (heap st) \<Longrightarrow> deleted (heap st ! a) \<Longrightarrow> deleted (heap st' ! a)"
  shows "keeps a k bs st'"
  using assms by (auto simp: keeps_def)

lemma keeps_descriptor: "keeps a k bs st \<Longrightarrow> keeps a k bs (snd (on_descriptor (run_op op) a' st))"
  by (rule keeps_mono)
    (auto simp: on_descriptor_eq nth_update_at keeps_def run_op_deleted_mono)

lemma keeps_collect: "keeps a k bs st \<Longrightarrow> keeps a k bs (GarbageCollect now st)"
proof -
  have "keeps a k bs (fold (\<lambda>a st. if Expired now (heap st ! a) \<and> \<not> Retain (heap st ! a)
      then snd (on_descriptor (Delete False) a st) else st) as st)"
    if "keeps a k bs st" for as and st :: "'b bundle_store"
    using that
  proof (induction as arbitrary: st)
    case (Cons b as)
    then show ?case using keeps_descriptor[of a k bs st "OpDelete False"] by (simp add: run_op_Delete)
  qed simp
  then show "keeps a k bs st \<Longrightarrow> ?thesis" unfolding GarbageCollect_def by blast
qed

lemma keeps_holder: "keeps a k bs st \<Longrightarrow> keeps a k bs (snd (store_AddKnownHolder K peers a' st))"
  by (rule keeps_mono)
    (auto simp: store_AddKnownHolder_def AddKnownHolder_def Let_def nth_update_at keeps_def
      split: sum.splits)

lemma keeps_misc: "keeps a k bs st \<Longrightarrow> keeps a k bs (snd (store_SetMiscData K key v a' st))"
  by (rule keeps_mono)
    (auto simp: store_SetMiscData_def SetMiscData_def Let_def nth_update_at keeps_def
      split: sum.splits)

lemma keeps_run:
  assumes ok: "store_ok E look st" and keep: "keeps a k bs st"
  shows "keeps a k bs (run_pending K i st)"
proof (cases "i < length (pending st) \<and> \<not> deleted (heap st ! a)")
  case True
  define m where "m = pending st ! i"
  have m: "m \<in> set (pending st)" using True by (simp add: m_def)
  obtain a' where a': "(md_ID m, a') \<in> set (bundles st)" "deleted (heap st ! a')"
    using ok m unfolding store_ok_def pending_ok_def by blast
  have name: "md_SerialisedFileName m = file_name (md_ID m)"
    using ok m unfolding store_ok_def pending_ok_def by blast
  have k: "(k, a) \<in> set (bundles st)" "files st (file_name k) = Some bs"
    using keep True by (auto simp: keeps_def)
  have "md_ID m \<noteq> k" using a' addr_of_entry[OF ok k(1)] True by blast
  moreover have "file_name (md_ID m) \<noteq> file_name k"
    using entry_file_inj[OF ok k(1) a'(1)] calculation by blast
  ultimately show ?thesis
    using keep k name True m_def[symmetric]
    by (simp add: keeps_def run_pending_def deleteBundle_def deleteFromDiskUnsafe_def mapdel_def Let_def
        split: sum.split)
next
  case False
  then show ?thesis
    using keep
    by (auto simp: keeps_def run_pending_def deleteBundle_def deleteFromDiskUnsafe_def Let_def
        split: sum.split)
qed

context storage
begin

lemma keeps_insert:
  assumes ok: "store_ok E look st" and keep: "keeps a k bs st"
    and ins: "InsertBundle E d b st = (r, st')" "create_err d = None" "write_err d = None" "storable E b bs'"
    and hash: "\<forall>bid \<in> fst ` set (bundles st). file_name bid = file_name (b_ID b) \<longrightarrow>
      bid_String bid = bid_String (b_ID b)"
  shows "keeps a k bs st'"
  using ok ins
proof (cases rule: InsertBundle_cases)
  case (holder a' peers)
  then show ?thesis using keeps_holder[OF keep] by blast
next
  case (new md db)
  have free: "look (metadataStore st) (bid_String (b_ID b)) = None"
    using db.insert_ok[OF new(5)] new(3) by simp
  have "file_name (b_ID b) \<noteq> file_name k" if "(k, a) \<in> set (bundles st)"
  proof
    assume "file_name (b_ID b) = file_name k"
    then have "bid_String k = bid_String (b_ID b)" using hash that by force
    then show False using db_entry[OF ok that] free by simp
  qed
  then show ?thesis using keep new(1,6) by (auto simp: keeps_def mapset_def nth_append)
qed (use keep in simp)

lemma inserted_keeps:
  assumes ok: "store_ok E look st" and ins: "InsertBundle E d b st = (Inr a, st')"
    and "create_err d = None" "write_err d = None" "storable E b bs"
    and fresh: "b_ID b \<notin> fst ` set (bundles st)"
  shows "keeps a (b_ID b) bs st'"
  using assms(1-5)
proof (cases rule: InsertBundle_cases)
  case unchanged
  then show ?thesis using fresh by force
next
  case (holder a' peers)
  then show ?thesis using fresh by force
next
  case (new md db)
  then show ?thesis by (auto simp: keeps_def mapset_def)
qed

lemma keeps_step:
  assumes "store_ok E look st" "keeps a k bs st" "store_step E st st'"
  shows "keeps a k bs st'"
  using assms(3)
proof (cases rule: store_step.cases)
  case (insert d b r bs')
  then show ?thesis using keeps_insert[OF assms(1,2)] by blast
qed (use assms in \<open>auto intro: keeps_descriptor keeps_holder keeps_misc keeps_collect keeps_run\<close>)

lemma keeps_steps:
  assumes "(store_step E)\<^sup>*\<^sup>* st st'" "store_ok E look st" "keeps a k bs st"
  shows "store_ok E look st' \<and> keeps a k bs st'"
  using assms
  by (induction rule: rtranclp_induct) (auto intro: store_ok_step keeps_step)

lemma keeps_load_written:
  assumes ok: "store_ok E look st" and keep: "keeps a (b_ID b) bs st" and live: "\<not> deleted (heap st ! a)"
    and b: "wf_bundle (env_ebm E) b" "b_MarshalCbor (env_cbor E) b = Inr (bs, b')" "length bs < 2 ^ 64"
    and checks: "b_CheckValid now b = Inr errs"
  shows "Load E now a st = Some (Inr (Loaded b'))"
proof -
  have k: "(b_ID b, a) \<in> set (bundles st)" "files st (file_name (b_ID b)) = Some bs"
    using keep live by (auto simp: keeps_def)
  have "md_SerialisedFileName (metadata (heap st ! a)) = file_name (b_ID b)"
    using entry_at[OF ok k(1)] by (simp add: entry_ok_def)
  moreover have "ParseBundle (env_cbor E) (env_ebm E) now bs = Some (Inr (b', errs))"
    using cbor.bundle_rw[OF b] checks by simp
  ultimately show ?thesis using k(2) live by (simp add: Load_def loadEntireBundle_def)
qed

lemma keeps_load:
  assumes "store_ok E look st" and "keeps a (b_ID b) bs st" and "\<not> deleted (heap st ! a)"
    and "storable E b bs" and "b_CheckValid now b = Inr errs"
  shows "\<exists>b'. Load E now a st = Some (Inr (Loaded b')) \<and> erase b' = erase b"
  using keeps_load_written[OF assms(1-3) _ _ _ assms(5)] assms(4) b_MarshalCbor_erase
  unfolding storable_def by blast

end

section \<open>A concrete store\<close>

definition sample_env :: "kv_list store_env" where
  "sample_env = \<lparr>env_cbor = rfc_lib, env_ebm = GetExtensionBlockManager, env_db = map_db\<rparr>"

definition empty_store :: "kv_list bundle_store" where
  "empty_store =
     \<lparr>nodeID = DtnNone, metadataStore = [], files = Map.empty, bundles = [], heap = [], pending = []\<rparr>"

definition sample_store :: "kv_list bundle_store" where
  "sample_store = snd (InsertBundle sample_env good_disk sample_bundle empty_store)"

lemma sample_env_simps [simp]:
  "env_cbor sample_env = rfc_lib" "env_ebm sample_env = GetExtensionBlockManager"
  "env_db sample_env = map_db"
  by (simp_all add: sample_env_def)

interpretation sample: storage sample_env map_of
  by (simp add: storage_def cboring_rfc map_db.reliable_db_axioms)

lemma sample_world: "reliable_db (env_db sample_env) map_of" "cboring (env_cbor sample_env)"
  by (simp_all add: cboring_rfc map_db.reliable_db_axioms)

lemma empty_store_init:
  "InitialiseStore map_db DtnNone (Inr ()) (Inr []) Map.empty None = Inr empty_store"
  by (simp add: InitialiseStore_def loadAll_def map_db_def empty_store_def)

lemma empty_store_reach: "store_reach sample_env empty_store"
proof (rule store_reach.init)
  show "kv_Find (env_db sample_env) [] = Inr []" by (simp add: map_db_def)
  show "InitialiseStore (env_db sample_env) DtnNone (Inr ()) (Inr []) Map.empty None = Inr empty_store"
    by (simp add: empty_store_init)
qed

lemma sample_storable: "\<exists>bs. storable sample_env sample_bundle bs"
  using sample_bundle_bytes sample_bundle_wf by (simp add: storable_def del: One_nat_def)

lemma sample_previous: "previous_node sample_bundle = Inr []"
  by (simp add: previous_node_def ExtensionBlockByType_def ExtensionBlocksByType_def sample_bundle_def
      TypeCode_def NewCanonicalBlock_def block_type_defs)

lemma sample_insert:
  "InsertBundle sample_env good_disk sample_bundle empty_store = (Inr 0, sample_store)"
  "bundles sample_store = [(b_ID sample_bundle, 0)]"
  "heap sample_store = [NewBundleDescriptor (new_metadata DtnNone sample_bundle [])]"
  "metadataStore sample_store =
     [(bid_String (b_ID sample_bundle), new_metadata DtnNone sample_bundle [])]"
  by (simp_all add: sample_store_def InsertBundle_def insertNewBundleUnsafe_def empty_store_def
      sample_previous map_db_def sample_bundle_bytes good_disk_def mapset_def Let_def new_metadata_def)

lemma sample_store_reach: "store_reach sample_env sample_store"
proof -
  obtain bs where "storable sample_env sample_bundle bs" using sample_storable by blast
  then have "store_step sample_env empty_store sample_store"
    by (intro store_step.insert[OF sample_insert(1)]) (simp_all add: good_disk_def empty_store_def)
  then show ?thesis by (rule store_reach.step[OF empty_store_reach])
qed

section \<open>Properties\<close>

text \<open>
  Claim C7: in every run over a disk that works, in which every inserted bundle can be serialised, no two IDs
  hash to one file name and miscellaneous data is set on descriptors that the store still has (\<open>store_step\<close>),
  stops and restarts included, the map, the descriptors, the database and the files agree. Each ID of
  the map has one descriptor of its own, a database record equal to the descriptor's metadata and a
  file with a serialised bundle of this ID; the database has no other record; what waits for
  deletion is what is marked deleted; and the flags of all descriptors are coherent. Runs outside of these limits
  can break it: \<open>failed_write_blocks_bundle\<close>, \<open>stale_descriptor_overwrites\<close>.
\<close>

theorem store_invariant:
  assumes "reliable_db (env_db E) look" and "cboring (env_cbor E)" and "store_reach E st"
  shows "store_ok E look st"
  by (rule storage.store_reach_ok) (use assms in \<open>simp_all add: storage_def\<close>)

theorem store_invariant_witness: "store_ok sample_env map_of sample_store"
  by (rule store_invariant[OF sample_world sample_store_reach])

lemma stored_keeps:
  assumes world: "storage E look" and reach: "store_reach E st"
    and ins: "InsertBundle E d b st = (Inr a, st1)" "create_err d = None" "write_err d = None"
    and b: "storable E b bs" "b_ID b \<notin> fst ` set (bundles st)"
    and hash: "\<forall>bid \<in> fst ` set (bundles st). file_name bid = file_name (b_ID b) \<longrightarrow>
      bid_String bid = bid_String (b_ID b)"
    and steps: "(store_step E)\<^sup>*\<^sup>* st1 st2"
  shows "store_ok E look st2 \<and> keeps a (b_ID b) bs st2"
proof -
  have ok: "store_ok E look st" using storage.store_reach_ok[OF world reach] .
  have "store_ok E look st1" using storage.store_ok_insert[OF world ok ins b(1) hash] .
  moreover have "keeps a (b_ID b) bs st1" using storage.inserted_keeps[OF world ok ins b] .
  ultimately show ?thesis using storage.keeps_steps[OF world steps] by blast
qed

text \<open>
  Claim C9: a bundle that was inserted into the store can be loaded as long as its descriptor is
  not deleted, whatever else the store does in the meantime: loading gives the inserted bundle, up to the
  CRC values that were computed for writing it.
\<close>

theorem stored_bundle_loads:
  assumes "reliable_db (env_db E) look" and "cboring (env_cbor E)" and "store_reach E st"
    and "InsertBundle E d b st = (Inr a, st1)" and "create_err d = None" "write_err d = None"
    and "storable E b bs" and "b_ID b \<notin> fst ` set (bundles st)"
    and "\<forall>bid \<in> fst ` set (bundles st). file_name bid = file_name (b_ID b) \<longrightarrow>
      bid_String bid = bid_String (b_ID b)"
    and "(store_step E)\<^sup>*\<^sup>* st1 st2" and "\<not> Deleted (heap st2 ! a)"
    and "b_CheckValid now b = Inr errs"
  shows "\<exists>b'. Load E now a st2 = Some (Inr (Loaded b')) \<and> erase b' = erase b"
proof -
  have world: "storage E look" using assms(1,2) by (simp add: storage_def)
  show ?thesis
    using storage.keeps_load[OF world _ _ _ assms(7,12)] stored_keeps[OF world assms(3-10)] assms(11)
    unfolding Deleted_def by blast
qed

theorem stored_bundle_loads_witness:
  "\<exists>b'. Load sample_env 0 0 sample_store = Some (Inr (Loaded b')) \<and> erase b' = erase sample_bundle"
proof -
  obtain bs where bs: "storable sample_env sample_bundle bs" using sample_storable by blast
  show ?thesis
    by (rule stored_bundle_loads[OF sample_world empty_store_reach sample_insert(1) _ _ bs _ _ rtranclp.rtrancl_refl])
      (simp_all add: good_disk_def empty_store_def sample_insert(3)
        Deleted_def NewBundleDescriptor_def sample_bundle_valid)
qed

lemma deleted_same: "deleted d \<Longrightarrow> d\<lparr>deleted := True\<rparr> = d"
  by (cases d) simp

lemma deleted_same': "\<not> deleted d \<Longrightarrow> d\<lparr>deleted := False\<rparr> = d"
  by (cases d) simp

lemma gc_loop:
  assumes "distinct as" and "\<forall>a \<in> set as. a < length (heap st)" and "\<forall>d \<in> set (heap st). desc_ok d"
  shows "length (heap (fold (\<lambda>a st. if Expired now (heap st ! a) \<and> \<not> Retain (heap st ! a)
      then snd (on_descriptor (Delete False) a st) else st) as st)) = length (heap st) \<and>
    (\<forall>a < length (heap st). heap (fold (\<lambda>a st. if Expired now (heap st ! a) \<and> \<not> Retain (heap st ! a)
      then snd (on_descriptor (Delete False) a st) else st) as st) ! a =
     (heap st ! a)\<lparr>deleted := deleted (heap st ! a) \<or>
       a \<in> set as \<and> Expired now (heap st ! a) \<and> retentionConstraints (heap st ! a) = []\<rparr>)"
  using assms
proof (induction as arbitrary: st)
  case (Cons a as)
  let ?step = "\<lambda>a st. if Expired now (heap st ! a) \<and> \<not> Retain (heap st ! a)
      then snd (on_descriptor (Delete False) a st) else st"
  let ?d = "heap st ! a"
  have ok: "desc_ok ?d" using Cons.prems by simp
  have h: "heap (?step a st) = (heap st)[a := ?d\<lparr>deleted := deleted ?d \<or>
      Expired now ?d \<and> retentionConstraints ?d = []\<rparr>]"
    using ok
    by (auto simp: on_descriptor_def Delete_def unsafeDelete_def Retain_def desc_ok_def split_beta
        deleted_same deleted_same')
  have "\<forall>d \<in> set (heap (?step a st)). desc_ok d"
    using Cons.prems ok unfolding h
    by (auto simp: desc_ok_def dest!: set_update_subset_insert[THEN subsetD])
  moreover have len: "length (heap (?step a st)) = length (heap st)" unfolding h by simp
  ultimately have IH: "length (heap (fold ?step as (?step a st))) = length (heap st) \<and>
    (\<forall>a' < length (heap st). heap (fold ?step as (?step a st)) ! a' =
     (heap (?step a st) ! a')\<lparr>deleted := deleted (heap (?step a st) ! a') \<or>
       a' \<in> set as \<and> Expired now (heap (?step a st) ! a') \<and> retentionConstraints (heap (?step a st) ! a') = []\<rparr>)"
    using Cons.IH[of "?step a st"] Cons.prems by simp
  have "(heap (?step a st) ! a')\<lparr>deleted := deleted (heap (?step a st) ! a') \<or>
       a' \<in> set as \<and> Expired now (heap (?step a st) ! a') \<and> retentionConstraints (heap (?step a st) ! a') = []\<rparr> =
     (heap st ! a')\<lparr>deleted := deleted (heap st ! a') \<or>
       a' \<in> set (a # as) \<and> Expired now (heap st ! a') \<and> retentionConstraints (heap st ! a') = []\<rparr>"
    if "a' < length (heap st)" for a'
    using that Cons.prems(1) unfolding h by (cases "a = a'") (auto simp: nth_update_at Expired_def)
  then show ?case using IH by (simp del: if_split)
qed simp

text \<open>
  Claim C36: garbage collection deletes the expired bundles that nothing retains and no others. It
  changes nothing else in the descriptors.
\<close>

theorem garbage_collected:
  assumes "store_ok E look st" and "(k, a) \<in> set (bundles st)"
  shows "heap (GarbageCollect now st) ! a = (heap st ! a)\<lparr>deleted := deleted (heap st ! a) \<or>
    Expired now (heap st ! a) \<and> retentionConstraints (heap st ! a) = []\<rparr>"
proof -
  have "\<forall>a \<in> set (map snd (bundles st)). a < length (heap st)"
    using entry_at[OF assms(1)] unfolding entry_ok_def by force
  moreover from assms(2) have a: "a \<in> set (map snd (bundles st))" by force
  moreover have "distinct (map snd (bundles st))" "\<forall>d \<in> set (heap st). desc_ok d"
    using assms(1) by (simp_all add: store_ok_def map_ok_def heap_ok_def)
  ultimately show ?thesis
    using conjunct2[OF gc_loop[of "map snd (bundles st)" st now], rule_format, of a]
    unfolding GarbageCollect_def by (simp del: set_map)
qed

theorem garbage_collected_witness:
  "\<not> deleted (heap (GarbageCollect (10 ^ 30) sample_store) ! 0)"
proof -
  have "store_ok sample_env map_of sample_store"
    by (rule storage.store_reach_ok[OF sample.storage_axioms sample_store_reach])
  from garbage_collected[OF this, of "b_ID sample_bundle" 0]
  show ?thesis by (simp add: sample_insert NewBundleDescriptor_def)
qed



text \<open>
  Also shown: a second copy of a stored bundle makes no new descriptor. The caller gets the
  descriptor that is there, with the node the copy came from added to the known holders, in memory and
  in the database; the file is left as it was.
\<close>

theorem duplicate_insert_shares:
  assumes "reliable_db (env_db E) look" and "cboring (env_cbor E)" and "store_reach E st"
    and "GetBundleDescriptor (b_ID b) st = Inr a" and "previous_node b = Inr [prev]"
  shows "let (r, st') = InsertBundle E d b st in
    r = Inr a \<and> bundles st' = bundles st \<and> files st' = files st \<and>
    md_KnownHolders (metadata (heap st' ! a)) = md_KnownHolders (metadata (heap st ! a)) @ [prev] \<and>
    look (metadataStore st') (bid_String (b_ID b)) = Some (metadata (heap st' ! a))"
proof -
  have world: "storage E look" using assms(1,2) by (simp add: storage_def)
  have ok: "store_ok E look st" using storage.store_reach_ok[OF world assms(3)] .
  have a: "map_of (bundles st) (b_ID b) = Some a" "\<not> deleted (heap st ! a)"
    using assms(4) by (auto simp: GetBundleDescriptor_def Deleted_def split: option.splits if_splits)
  then have mem: "(b_ID b, a) \<in> set (bundles st)" using map_of_bundles[OF ok] by blast
  then have len: "a < length (heap st)" using entry_at[OF ok] by (simp add: entry_ok_def)
  let ?m = "(metadata (heap st ! a))\<lparr>md_KnownHolders := md_KnownHolders (metadata (heap st ! a)) @ [prev]\<rparr>"
  obtain db where db: "updateBundleMetadata (env_db E) ?m (metadataStore st) = Inr db"
    using storage.db_update[OF world ok mem, of ?m] by auto
  define st' where "st' = st\<lparr>heap := (heap st)[a := (heap st ! a)\<lparr>metadata := ?m\<rparr>], metadataStore := db\<rparr>"
  have ins: "InsertBundle E d b st = (Inr a, st')"
    using a assms(5) db
    by (simp add: InsertBundle_def store_AddKnownHolder_def AddKnownHolder_def st'_def Let_def)
  have "snd (store_AddKnownHolder (env_db E) [prev] a st) = st'"
    using a db by (simp add: store_AddKnownHolder_def AddKnownHolder_def st'_def Let_def)
  then have "store_ok E look st'" using storage.store_ok_holder[OF world ok len, of "[prev]"] by simp
  then have "look (metadataStore st') (bid_String (b_ID b)) = Some (metadata (heap st' ! a))"
    using storage.db_entry[OF world, of st' "b_ID b" a] mem by (simp add: st'_def)
  then show ?thesis using ins len by (simp add: st'_def)
qed

definition sample_forwarded :: dtn_bundle where
  "sample_forwarded = sample_bundle\<lparr>ExtensionBlocks := [NewCanonicalBlock 2 0 (PreviousNodeBlock sample_eid)]\<rparr>"

theorem duplicate_insert_shares_witness:
  "let (r, st') = InsertBundle sample_env good_disk sample_forwarded sample_store in
     r = Inr 0 \<and> md_KnownHolders (metadata (heap st' ! 0)) = [DtnNone, sample_eid]"
proof -
  have id: "b_ID sample_forwarded = b_ID sample_bundle" by (simp add: sample_forwarded_def b_ID_def)
  have g: "GetBundleDescriptor (b_ID sample_forwarded) sample_store = Inr 0"
    by (simp add: id GetBundleDescriptor_def sample_insert Deleted_def NewBundleDescriptor_def)
  have p: "previous_node sample_forwarded = Inr [sample_eid]"
    by (simp add: previous_node_def ExtensionBlockByType_def ExtensionBlocksByType_def sample_forwarded_def
        TypeCode_def NewCanonicalBlock_def block_type_defs)
  show ?thesis
    using duplicate_insert_shares[OF sample_world sample_store_reach g p, of good_disk]
    by (simp add: sample_insert NewBundleDescriptor_def new_metadata_def Let_def split_beta)
qed

text \<open>
  Also shown: when writing the file of a new bundle fails, the record stays in the database though the
  store has no such bundle: every later attempt to insert the bundle is refused.
\<close>

theorem failed_write_blocks_bundle:
  assumes "reliable_db (env_db E) look" and "b_ID b \<notin> fst ` set (bundles st)"
    and "look (metadataStore st) (bid_String (b_ID b)) = None" and "previous_node b = Inr prev"
    and "create_err d = None" "write_err d = Some e"
  shows "let (r, st') = InsertBundle E d b st in
    (\<exists>err. r = Inl err) \<and> bundles st' = bundles st \<and>
    (\<forall>d'. \<exists>err. InsertBundle E d' b st' = (Inl (LibError err), st'))"
proof -
  let ?md = "new_metadata (nodeID st) b prev"
  have id: "md_IDString ?md = bid_String (b_ID b)" by (simp add: new_metadata_def Let_def)
  have none: "map_of (bundles st) (b_ID b) = None" using assms(2) by (simp add: map_of_eq_None_iff)
  obtain db where db: "kv_Insert (env_db E) (bid_String (b_ID b)) ?md (metadataStore st) = Inr db"
    using reliable_db.insert_total[OF assms(1,3)] by blast
  have full: "look db (bid_String (b_ID b)) \<noteq> None"
    using metadata_db.insert_ok[OF _ db, of look] assms(1) by (simp add: reliable_db_def)
  have refused: "\<exists>e'. kv_Insert (env_db E) (bid_String (b_ID b)) m db = Inl e'" for m
  proof (cases "kv_Insert (env_db E) (bid_String (b_ID b)) m db")
    case (Inr db')
    then show ?thesis
      using metadata_db.insert_ok[OF _ Inr, of look] assms(1) full by (simp add: reliable_db_def)
  qed simp
  have "\<exists>err fs. InsertBundle E d b st = (Inl err, st\<lparr>metadataStore := db, files := fs\<rparr>)"
    using none assms(4-6) db id
    by (cases "b_MarshalCbor (env_cbor E) b")
      (auto simp: InsertBundle_def insertNewBundleUnsafe_def Let_def)
  then obtain err fs where
    ins: "InsertBundle E d b st = (Inl err, st\<lparr>metadataStore := db, files := fs\<rparr>)" by blast
  have "\<exists>err'. InsertBundle E d' b (st\<lparr>metadataStore := db, files := fs\<rparr>) =
      (Inl (LibError err'), st\<lparr>metadataStore := db, files := fs\<rparr>)" for d'
    using refused[of ?md] none assms(4) id
    by (auto simp: InsertBundle_def insertNewBundleUnsafe_def Let_def)
  then show ?thesis using ins by simp
qed

theorem failed_write_blocks_bundle_witness:
  "\<exists>(r :: store_err + nat) st'. r \<noteq> Inr 0 \<and>
    InsertBundle sample_env (good_disk\<lparr>write_err := Some EOF\<rparr>) sample_bundle empty_store = (r, st') \<and>
    (\<exists>err. InsertBundle sample_env good_disk sample_bundle st' = (Inl (LibError err), st'))"
proof -
  let ?d = "good_disk\<lparr>write_err := Some EOF\<rparr>"
  obtain r st' where p: "InsertBundle sample_env ?d sample_bundle empty_store = (r, st')"
    by (cases "InsertBundle sample_env ?d sample_bundle empty_store")
  have "let (r, st') = InsertBundle sample_env ?d sample_bundle empty_store in
      (\<exists>err. r = Inl err) \<and> bundles st' = bundles empty_store \<and>
      (\<forall>d'. \<exists>err. InsertBundle sample_env d' sample_bundle st' = (Inl (LibError err), st'))"
    by (rule failed_write_blocks_bundle[OF sample_world(1)])
      (simp_all add: empty_store_def sample_previous good_disk_def)
  with p show ?thesis by auto
qed

text \<open>
  Claim C39: a bundle that arrives again while its deletion is under way is lost. The insertion changes nothing.
  For a bundle without a previous node block it
  reports success with the descriptor of the deleted bundle, which cannot be loaded; with a previous
  node block it fails with the error that the bundle is deleted. When the
  deletion has run, the store has no bundle of this ID.
\<close>

theorem insert_during_deletion_lost:
  assumes "store_ok E look st" and "(b_ID b, a) \<in> set (bundles st)" and "Deleted (heap st ! a)"
    and "previous_node b = Inr prev"
  shows "InsertBundle E d b st = (if prev = [] then Inr a else Inl (BundleDeletedError (b_ID b)), st) \<and>
    Load E now a st = Some (Inl (BundleDeletedError (b_ID b))) \<and>
    (\<exists>i < length (pending st).
       GetBundleDescriptor (b_ID b) (run_pending K i st) = Inl (NoSuchBundleError (b_ID b)))"
proof -
  have a: "map_of (bundles st) (b_ID b) = Some a" "deleted (heap st ! a)"
    using assms map_of_bundles[OF assms(1)] by (simp_all add: Deleted_def)
  have "b_ID b \<in> md_ID ` set (pending st)"
    using assms(1,2) a(2) unfolding store_ok_def pending_ok_def by blast
  then obtain i where i: "i < length (pending st)" "md_ID (pending st ! i) = b_ID b"
    by (auto simp: in_set_conv_nth)
  have "map_of (mapdel (b_ID b) (bundles st)) (b_ID b) = None"
    by (auto simp: mapdel_def map_of_eq_None_iff)
  then have "GetBundleDescriptor (b_ID b) (run_pending K i st) = Inl (NoSuchBundleError (b_ID b))"
    using i by (simp add: GetBundleDescriptor_def run_pending_def deleteBundle_def
        deleteFromDiskUnsafe_def Let_def split: sum.split)
  moreover have id: "md_ID (metadata (heap st ! a)) = b_ID b"
    using entry_at[OF assms(1,2)] by (simp add: entry_ok_def)
  have "InsertBundle E d b st = (if prev = [] then Inr a else Inl (BundleDeletedError (b_ID b)), st)"
    using a assms(4) id by (auto simp: InsertBundle_def store_AddKnownHolder_def AddKnownHolder_def
        deletedError_def split: list.split)
  moreover have "Load E now a st = Some (Inl (BundleDeletedError (b_ID b)))"
    using a(2) entry_at[OF assms(1,2)] by (simp add: Load_def deletedError_def entry_ok_def)
  ultimately show ?thesis using i(1) by blast
qed

theorem insert_during_deletion_lost_witness:
  "\<exists>st :: kv_list bundle_store. InsertBundle sample_env good_disk sample_bundle st = (Inr 0, st) \<and>
    Load sample_env 0 0 st = Some (Inl (BundleDeletedError (b_ID sample_bundle)))"
proof -
  define st1 where "st1 = snd (on_descriptor (run_op OpReset) 0 sample_store)"
  define st where "st = snd (on_descriptor (run_op (OpDelete False)) 0 st1)"
  have h1: "heap st1 = [(NewBundleDescriptor (new_metadata DtnNone sample_bundle []))
      \<lparr>retentionConstraints := [], retain := False\<rparr>]" "bundles st1 = bundles sample_store"
    by (simp_all add: st1_def on_descriptor_eq sample_insert NewBundleDescriptor_def
        ResetConstraints_def)
  have r1: "store_reach sample_env st1"
    unfolding st1_def
    by (rule store_reach.step[OF sample_store_reach store_step.descriptor]) (simp add: sample_insert)
  have r: "store_reach sample_env st"
    unfolding st_def by (rule store_reach.step[OF r1 store_step.descriptor]) (simp add: h1)
  have ok: "store_ok sample_env map_of st" using sample.store_reach_ok[OF r] .
  have b: "(b_ID sample_bundle, 0) \<in> set (bundles st)" "Deleted (heap st ! 0)"
    by (simp_all add: st_def on_descriptor_eq h1 sample_insert Deleted_def Delete_def unsafeDelete_def
        NewBundleDescriptor_def)
  show ?thesis
    using insert_during_deletion_lost[OF ok b sample_previous, of good_disk 0 map_db] by auto
qed

text \<open>
  Also shown: setting miscellaneous data does not ask whether the descriptor was deleted. A caller
  that still has the descriptor of a deleted bundle overwrites the database record of the same
  bundle when it was stored anew: the metadata in memory and on disk differ, and what the
  new descriptor learned is lost at the next start.
\<close>

theorem stale_descriptor_overwrites:
  assumes "reliable_db K look" and "Deleted (heap st ! a)" and "a \<noteq> a'" and "a' < length (heap st)"
    and "look (metadataStore st) (md_IDString (metadata (heap st ! a))) = Some (metadata (heap st ! a'))"
    and "md_KnownHolders (metadata (heap st ! a)) \<noteq> md_KnownHolders (metadata (heap st ! a'))"
  shows "let (e, st') = store_SetMiscData K key v a st in
    e = None \<and> heap st' ! a' = heap st ! a' \<and>
    (\<exists>m. look (metadataStore st') (md_IDString (metadata (heap st ! a))) = Some m \<and>
       md_KnownHolders m = md_KnownHolders (metadata (heap st ! a)) \<and> m \<noteq> metadata (heap st' ! a'))"
proof -
  let ?m = "(metadata (heap st ! a))\<lparr>md_MiscellaneousData :=
    (md_MiscellaneousData (metadata (heap st ! a)))(key \<mapsto> v)\<rparr>"
  let ?s = "md_IDString (metadata (heap st ! a))"
  obtain db where db: "kv_Update K ?s ?m (metadataStore st) = Inr db"
    using reliable_db.update_total[OF assms(1), of "metadataStore st" ?s] assms(5) by blast
  then have "look db = (look (metadataStore st))(?s \<mapsto> ?m)"
    using metadata_db.update_ok[OF _ db, of look] assms(1) by (simp add: reliable_db_def)
  moreover have "?m \<noteq> metadata (heap st ! a')"
  proof
    assume "?m = metadata (heap st ! a')"
    then have "md_KnownHolders ?m = md_KnownHolders (metadata (heap st ! a'))" by simp
    then show False using assms(6) by simp
  qed
  ultimately show ?thesis
    using assms(3) db
    by (simp add: store_SetMiscData_def SetMiscData_def updateBundleMetadata_def Let_def)
qed

theorem stale_descriptor_overwrites_witness:
  "\<exists>st st' :: kv_list bundle_store. store_SetMiscData map_db ''k'' (Any_uint64 1) 0 st = (None, st') \<and>
    map_of (metadataStore st') ''id'' \<noteq> Some (metadata (heap st' ! 1))"
proof -
  define new where "new = sample_metadata\<lparr>md_KnownHolders := [sample_eid]\<rparr>"
  define st where "st = empty_store\<lparr>metadataStore := [(''id'', new)],
    heap := [(NewBundleDescriptor sample_metadata)\<lparr>deleted := True\<rparr>, NewBundleDescriptor new]\<rparr>"
  have "Deleted (heap st ! 0)" "1 < length (heap st)"
    "map_of (metadataStore st) (md_IDString (metadata (heap st ! 0))) = Some (metadata (heap st ! 1))"
    "md_KnownHolders (metadata (heap st ! 0)) \<noteq> md_KnownHolders (metadata (heap st ! 1))"
    "md_IDString (metadata (heap st ! 0)) = ''id''"
    by (simp_all add: st_def new_def NewBundleDescriptor_def sample_metadata_def Deleted_def)
  then show ?thesis
    using stale_descriptor_overwrites[OF map_db.reliable_db_axioms, of st 0 1 "''k''" "Any_uint64 1"]
    by (auto simp: Let_def split_beta prod_eq_iff)
qed

text \<open>
  Also shown: the store ignores the bundle age. A bundle from a node without a clock, whose age is
  within its lifetime, is expired for the store as soon as the lifetime has passed since the
  year 2000: it is deleted at the first garbage collection that finds it unconstrained.
\<close>

theorem clockless_bundle_expired:
  assumes "CreationTimestamp (PrimaryBlock b) = (0, s)" and "IsLifetimeExceeded now b = Inr False"
    and "unat (Lifetime (PrimaryBlock b)) \<le> 9223372036854"
    and "now > (milliseconds1970To2k + int (unat (Lifetime (PrimaryBlock b)))) * 1000000"
  shows "Expired now (NewBundleDescriptor (new_metadata nid b prev))"
proof -
  have "Time 0 = milliseconds1970To2k * 1000000" using Time_small[of 0] by simp
  then show ?thesis
    using assms(1,3,4) duration_small[of "Lifetime (PrimaryBlock b)"]
    by (simp add: Expired_def NewBundleDescriptor_def new_metadata_def ct_DtnTime_def Let_def algebra_simps)
qed

definition clockless_bundle :: dtn_bundle where
  "clockless_bundle = sample_bundle\<lparr>
     PrimaryBlock := sample_primary\<lparr>CreationTimestamp := (0, 0), Lifetime := 1000\<rparr>,
     ExtensionBlocks := [NewCanonicalBlock 2 0 (BundleAgeBlock 10)]\<rparr>"

theorem clockless_bundle_expired_witness:
  "IsLifetimeExceeded 1700000000000000000 clockless_bundle = Inr False \<and>
   Expired 1700000000000000000 (NewBundleDescriptor (new_metadata DtnNone clockless_bundle []))"
proof -
  have "IsLifetimeExceeded 1700000000000000000 clockless_bundle = Inr False"
    by (simp add: clockless_bundle_def IsLifetimeExceeded_def IsZeroTime_def ct_DtnTime_def
        ExtensionBlockByType_def ExtensionBlocksByType_def TypeCode_def NewCanonicalBlock_def block_type_defs)
  then show ?thesis
    using clockless_bundle_expired[of clockless_bundle 0 "1700000000000000000" DtnNone "[]"]
    by (simp add: clockless_bundle_def milliseconds1970To2k_def)
qed

end
