(* ===== verification/Cla_Manager.thy ===== *)
theory Cla_Manager
  imports Bundle
begin

text \<open>
  \<^verbatim>\<open>pkg/cla\<close>: the types of convergence layers and the manager of the active adapters. An adapter is
  what the manager sees of it: its address, whether it receives and sends, its peer. Its
  \<^verbatim>\<open>Activate\<close> is the adapter's; its outcome is an argument. The manager works in goroutines: the
  activations that were started are in \<open>activating\<close>, the removals that were announced in
  \<open>removing\<close>, the callbacks that were started in \<open>callbacks\<close>. A critical section of the
  code is one step here, and the steps interleave freely.
\<close>

section \<open>Types of adapters\<close>

type_synonym cla_type = u64

definition TCPCLv4 :: cla_type where [simp]: "TCPCLv4 = 0"
definition MTCP :: cla_type where [simp]: "MTCP = 10"
definition QUICL :: cla_type where [simp]: "QUICL = 20"
definition Meshtastic_cla :: cla_type where [simp]: "Meshtastic_cla = 30"
definition Dummy_cla :: cla_type where [simp]: "Dummy_cla = 8080"

definition TypeFromString :: "string \<Rightarrow> cla_type res" where
  "TypeFromString s =
     (let claType = to_lower s
      in if claType = ''tcpclv4'' then Inr TCPCLv4
         else if claType = ''mtcp'' then Inr MTCP
         else if claType = ''quicl'' then Inr QUICL
         else if claType = ''meshtastic'' then Inr Meshtastic_cla
         else Inl (Errorf ''invalid CLA Type''))"

definition CLAType_String :: "cla_type \<Rightarrow> string" where
  "CLAType_String t =
     (if t = TCPCLv4 then ''TCPCLv4'' else if t = MTCP then ''MTCP'' else if t = QUICL then ''QUICL''
      else if t = Meshtastic_cla then ''meshtastic'' else ''unknown CLA type'')"

definition CLAType_CheckValid :: "cla_type \<Rightarrow> err option" where
  "CLAType_CheckValid t =
     (if CLAType_String t = ''unknown CLA type'' then Some (Errorf ''unknown CLA type'') else None)"

section \<open>The manager\<close>

record convergence =
  cla_Address :: string
  cla_receives :: bool
  cla_sends :: bool
  cla_peer :: endpoint_id

datatype cla_event = ReceiveCallback dtn_bundle | ConnectCallback endpoint_id | DisconnectCallback endpoint_id

record cla_manager =
  receivers :: "convergence list"
  senders :: "convergence list"
  pendingStart :: "convergence list"
  listeners :: "string list"
  pendingRemoval :: "string set"
  activating :: "convergence list"
  removing :: "convergence list"
  callbacks :: "cla_event list"

definition InitialiseCLAManager :: "cla_manager option \<Rightarrow> cla_manager res" where
  "InitialiseCLAManager singleton =
     (if singleton \<noteq> None
      then Inl (Panic ''Attempting to access an uninitialised CLA manager. This must never happen!'')
      else Inr \<lparr>receivers = [], senders = [], pendingStart = [], listeners = [], pendingRemoval = {},
                activating = [], removing = [], callbacks = []\<rparr>)"

definition cla_GetManagerSingleton :: "cla_manager option \<Rightarrow> cla_manager res" where
  "cla_GetManagerSingleton singleton =
     (case singleton of
        None \<Rightarrow> Inl (Panic ''Attempting to access an uninitialised CLA manager. This must never happen!'')
      | Some m \<Rightarrow> Inr m)"

text \<open>The adapters and listeners that are closed, and the manager that is left.\<close>

definition cla_shutdown :: "cla_manager \<Rightarrow> convergence list \<times> string list \<times> cla_manager" where
  "cla_shutdown m =
     (receivers m @ senders m, listeners m, m\<lparr>receivers := [], senders := [], listeners := []\<rparr>)"

definition GetSenders :: "cla_manager \<Rightarrow> convergence list" where "GetSenders m = senders m"
definition GetReceivers :: "cla_manager \<Rightarrow> convergence list" where "GetReceivers m = receivers m"
definition GetListeners :: "cla_manager \<Rightarrow> string list" where "GetListeners m = listeners m"

definition has_address :: "convergence \<Rightarrow> convergence list \<Rightarrow> bool" where
  "has_address cla cs \<longleftrightarrow> (\<exists>c \<in> set cs. cla_Address cla = cla_Address c)"

definition checkPresent :: "convergence \<Rightarrow> cla_manager \<Rightarrow> bool" where
  "checkPresent cla m \<longleftrightarrow>
     has_address cla (pendingStart m) \<or>
     cla_receives cla \<and> has_address cla (receivers m) \<or>
     cla_sends cla \<and> has_address cla (senders m)"

definition registerAsync :: "convergence \<Rightarrow> cla_manager \<Rightarrow> cla_manager" where
  "registerAsync cla m =
     (if checkPresent cla m then m
      else m\<lparr>pendingStart := pendingStart m @ [cla], activating := activating m @ [cla]\<rparr>)"

text \<open>The critical section of \<^verbatim>\<open>activateCLA\<close>, after \<^verbatim>\<open>Activate\<close> returned \<open>outcome\<close>.\<close>

definition activateCLA :: "convergence \<Rightarrow> err option \<Rightarrow> cla_manager \<Rightarrow> cla_manager" where
  "activateCLA cla outcome m =
     (let m = m\<lparr>pendingStart := filter (\<lambda>c. cla_Address cla \<noteq> cla_Address c) (pendingStart m)\<rparr>
      in if outcome = None
         then m\<lparr>receivers := receivers m @ (if cla_receives cla then [cla] else []),
                senders := senders m @ (if cla_sends cla then [cla] else [])\<rparr>
         else m)"

definition NotifyReceive :: "dtn_bundle \<Rightarrow> cla_manager \<Rightarrow> cla_manager" where
  "NotifyReceive b m = m\<lparr>callbacks := callbacks m @ [ReceiveCallback b]\<rparr>"

definition NotifyConnect :: "endpoint_id \<Rightarrow> cla_manager \<Rightarrow> cla_manager" where
  "NotifyConnect peer m = m\<lparr>callbacks := callbacks m @ [ConnectCallback peer]\<rparr>"

text \<open>
  \<^verbatim>\<open>NotifyDisconnect\<close> has two critical sections: under the one lock it announces the removal, unless
  another one is under way, and under the other it removes the adapter.
\<close>

definition announceRemoval :: "convergence \<Rightarrow> cla_manager \<Rightarrow> cla_manager" where
  "announceRemoval cla m =
     (if cla_Address cla \<in> pendingRemoval m then m
      else m\<lparr>pendingRemoval := insert (cla_Address cla) (pendingRemoval m),
             removing := removing m @ [cla]\<rparr>)"

definition removeCLA :: "convergence \<Rightarrow> cla_manager \<Rightarrow> cla_manager" where
  "removeCLA cla m =
     (let others = filter (\<lambda>c. cla_Address cla \<noteq> cla_Address c);
          m = (if cla_receives cla then m\<lparr>receivers := others (receivers m)\<rparr> else m);
          m = (if cla_sends cla
               then m\<lparr>callbacks := callbacks m @ [DisconnectCallback (cla_peer cla)],
                      senders := others (senders m)\<rparr>
               else m)
      in m\<lparr>pendingRemoval := pendingRemoval m - {cla_Address cla}\<rparr>)"

definition NotifyDisconnect :: "convergence \<Rightarrow> cla_manager \<Rightarrow> cla_manager" where
  "NotifyDisconnect cla m =
     (if cla_Address cla \<in> pendingRemoval m then m
      else let m = announceRemoval cla m
           in removeCLA cla (m\<lparr>removing := remove1 cla (removing m)\<rparr>))"

text \<open>\<open>started\<close> is the outcome of the listener's \<^verbatim>\<open>Start\<close>.\<close>

definition RegisterListener :: "string \<Rightarrow> err option \<Rightarrow> cla_manager \<Rightarrow> err option \<times> cla_manager" where
  "RegisterListener listener started m =
     (case started of
        Some e \<Rightarrow> (Some e, m) | None \<Rightarrow> (None, m\<lparr>listeners := listeners m @ [listener]\<rparr>))"

section \<open>Interleavings\<close>

inductive cla_step :: "cla_manager \<Rightarrow> cla_manager \<Rightarrow> bool" where
  register: "cla_step m (registerAsync cla m)"
| activate: "cla \<in> set (activating m) \<Longrightarrow>
    cla_step m (activateCLA cla outcome (m\<lparr>activating := remove1 cla (activating m)\<rparr>))"
| announce: "cla_step m (announceRemoval cla m)"
| remove: "cla \<in> set (removing m) \<Longrightarrow>
    cla_step m (removeCLA cla (m\<lparr>removing := remove1 cla (removing m)\<rparr>))"
| receive: "cla_step m (NotifyReceive b m)"
| connect: "cla_step m (NotifyConnect peer m)"
| listen: "cla_step m (snd (RegisterListener listener started m))"

inductive cla_reach :: "cla_manager \<Rightarrow> bool" where
  init: "InitialiseCLAManager None = Inr m \<Longrightarrow> cla_reach m"
| step: "cla_reach m \<Longrightarrow> cla_step m m' \<Longrightarrow> cla_reach m'"

text \<open>
  The invariant: the addresses of a list are distinct, and what waits for its activation is not
  yet in the lists that it will be added to.
\<close>

definition addresses :: "convergence list \<Rightarrow> string list" where
  "addresses cs = map cla_Address cs"

definition mgr_ok :: "cla_manager \<Rightarrow> bool" where
  "mgr_ok m \<longleftrightarrow>
     distinct (addresses (senders m)) \<and> distinct (addresses (receivers m)) \<and>
     distinct (addresses (pendingStart m)) \<and> mset (activating m) = mset (pendingStart m) \<and>
     (\<forall>c \<in> set (pendingStart m).
        (cla_sends c \<longrightarrow> cla_Address c \<notin> set (addresses (senders m))) \<and>
        (cla_receives c \<longrightarrow> cla_Address c \<notin> set (addresses (receivers m))))"

lemma has_address_iff: "has_address cla cs \<longleftrightarrow> cla_Address cla \<in> set (addresses cs)"
  by (auto simp: has_address_def addresses_def)

lemma addresses_simps [simp]:
  "addresses [] = []" "addresses (c # cs) = cla_Address c # addresses cs"
  "addresses (cs @ ds) = addresses cs @ addresses ds"
  by (simp_all add: addresses_def)

lemma addresses_filter: "distinct (addresses cs) \<Longrightarrow> distinct (addresses (filter P cs))"
  "set (addresses (filter P cs)) \<subseteq> set (addresses cs)"
  by (auto simp: addresses_def distinct_map_filter)

lemma filter_other_address:
  "distinct (addresses cs) \<Longrightarrow> c \<in> set cs \<Longrightarrow>
    filter (\<lambda>d. cla_Address c \<noteq> cla_Address d) cs = remove1 c cs"
  by (induction cs) (auto simp: addresses_def image_iff filter_id_conv)

lemma mgr_ok_register: "mgr_ok m \<Longrightarrow> mgr_ok (registerAsync cla m)"
  by (auto simp: mgr_ok_def registerAsync_def checkPresent_def has_address_iff)

lemma mgr_ok_activate:
  assumes ok: "mgr_ok m" and cla: "cla \<in> set (activating m)"
  shows "mgr_ok (activateCLA cla outcome (m\<lparr>activating := remove1 cla (activating m)\<rparr>))" (is "mgr_ok ?m")
proof -
  have mem: "cla \<in> set (pendingStart m)"
    using ok cla unfolding mgr_ok_def by (metis set_mset_mset)
  have d: "distinct (addresses (pendingStart m))" using ok by (simp add: mgr_ok_def)
  note rest = filter_other_address[OF d mem]
  have sub: "set (remove1 cla (pendingStart m)) \<subseteq> set (pendingStart m)" by (rule set_remove1_subset)
  have other: "cla_Address c \<noteq> cla_Address cla" if "c \<in> set (remove1 cla (pendingStart m))" for c
    using that unfolding rest[symmetric] by auto
  have f: "senders ?m = senders m @ (if outcome = None \<and> cla_sends cla then [cla] else [])"
    "receivers ?m = receivers m @ (if outcome = None \<and> cla_receives cla then [cla] else [])"
    "pendingStart ?m = remove1 cla (pendingStart m)" "activating ?m = remove1 cla (activating m)"
    by (simp_all add: activateCLA_def rest Let_def)
  have "distinct (addresses (remove1 cla (pendingStart m)))"
    using addresses_filter(1)[OF d] rest by metis
  moreover have "mset (remove1 cla (activating m)) = mset (remove1 cla (pendingStart m))"
    using ok by (simp add: mgr_ok_def)
  moreover have kept: "(cla_sends c \<longrightarrow> cla_Address c \<notin> set (addresses (senders m))) \<and>
      (cla_receives c \<longrightarrow> cla_Address c \<notin> set (addresses (receivers m)))"
    if "c \<in> set (pendingStart m)" for c using ok that by (simp add: mgr_ok_def)
  then have "(cla_sends c \<longrightarrow> cla_Address c \<notin> set (addresses (senders ?m))) \<and>
      (cla_receives c \<longrightarrow> cla_Address c \<notin> set (addresses (receivers ?m)))"
    if "c \<in> set (remove1 cla (pendingStart m))" for c
    using that sub other[OF that] kept[of c] unfolding f by auto
  moreover have "distinct (addresses (senders ?m))" "distinct (addresses (receivers ?m))"
    using ok kept[OF mem] unfolding f by (simp_all add: mgr_ok_def)
  ultimately show ?thesis unfolding mgr_ok_def f(3,4) by blast
qed

lemma mgr_ok_shrink:
  assumes "mgr_ok m" and "senders m' = senders m \<or> senders m' = filter P (senders m)"
    and "receivers m' = receivers m \<or> receivers m' = filter P (receivers m)"
    and "pendingStart m' = pendingStart m" "activating m' = activating m"
  shows "mgr_ok m'"
proof -
  have "distinct (addresses (senders m'))" "set (addresses (senders m')) \<subseteq> set (addresses (senders m))"
    "distinct (addresses (receivers m'))" "set (addresses (receivers m')) \<subseteq> set (addresses (receivers m))"
    using assms(1-3) addresses_filter unfolding mgr_ok_def by fastforce+
  then show ?thesis using assms(1,4,5) by (simp add: mgr_ok_def subset_iff) blast
qed

lemma mgr_ok_remove: "mgr_ok m \<Longrightarrow> mgr_ok (removeCLA cla m)"
  by (rule mgr_ok_shrink[where m = m and P = "\<lambda>c. cla_Address cla \<noteq> cla_Address c"]) (auto simp: removeCLA_def Let_def)

lemma mgr_ok_frame:
  "senders m' = senders m \<Longrightarrow> receivers m' = receivers m \<Longrightarrow> pendingStart m' = pendingStart m \<Longrightarrow>
    activating m' = activating m \<Longrightarrow> mgr_ok m' = mgr_ok m"
  by (simp add: mgr_ok_def)

lemma mgr_ok_step: "cla_step m m' \<Longrightarrow> mgr_ok m \<Longrightarrow> mgr_ok m'"
proof (induction rule: cla_step.induct)
  case (announce m cla)
  then show ?case by (subst mgr_ok_frame[of _ m]) (simp_all add: announceRemoval_def)
next
  case (remove cla m)
  have "mgr_ok (m\<lparr>removing := remove1 cla (removing m)\<rparr>)"
    using remove(2) by (subst mgr_ok_frame[of _ m]) simp_all
  then show ?case by (rule mgr_ok_remove)
next
  case (listen m listener started)
  then show ?case
    by (subst mgr_ok_frame[of _ m]) (simp_all add: RegisterListener_def split: option.splits)
next
  case (receive m b)
  then show ?case by (subst mgr_ok_frame[of _ m]) (simp_all add: NotifyReceive_def)
next
  case (connect m peer)
  then show ?case by (subst mgr_ok_frame[of _ m]) (simp_all add: NotifyConnect_def)
qed (simp_all add: mgr_ok_register mgr_ok_activate)

lemma mgr_ok_init: "InitialiseCLAManager None = Inr m \<Longrightarrow> mgr_ok m"
  by (auto simp: InitialiseCLAManager_def mgr_ok_def)

lemma cla_reach_ok: "cla_reach m \<Longrightarrow> mgr_ok m"
  by (induction rule: cla_reach.induct) (auto intro: mgr_ok_init mgr_ok_step)

section \<open>Properties\<close>

text \<open>
  Claim C33: however registrations, activations, disconnections and callbacks interleave, no two
  registered senders and no two registered receivers have the same address, and no adapter is
  started twice.
\<close>

theorem cla_addresses_unique:
  assumes "cla_reach m"
  shows "distinct (addresses (GetSenders m)) \<and> distinct (addresses (GetReceivers m)) \<and>
    distinct (addresses (activating m))"
proof -
  have ok: "mgr_ok m" using cla_reach_ok[OF assms] .
  then have "mset (addresses (activating m)) = mset (addresses (pendingStart m))"
    by (simp add: mgr_ok_def addresses_def)
  then have "distinct (addresses (activating m))"
    using ok unfolding mgr_ok_def by (metis mset_eq_imp_distinct_iff)
  then show ?thesis using ok by (simp add: mgr_ok_def GetSenders_def GetReceivers_def)
qed

definition sample_cla :: convergence where
  "sample_cla = \<lparr>cla_Address = ''mtcp://a'', cla_receives = False, cla_sends = True, cla_peer = sample_eid\<rparr>"

definition sample_manager :: cla_manager where
  "sample_manager = \<lparr>receivers = [], senders = [], pendingStart = [], listeners = [],
     pendingRemoval = {}, activating = [], removing = [], callbacks = []\<rparr>"

theorem cla_addresses_unique_witness:
  "distinct (addresses (GetSenders (registerAsync sample_cla sample_manager)))"
proof -
  have "cla_reach sample_manager"
    by (rule cla_reach.init) (simp add: InitialiseCLAManager_def sample_manager_def)
  then have "cla_reach (registerAsync sample_cla sample_manager)"
    by (rule cla_reach.step[OF _ cla_step.register])
  then show ?thesis using cla_addresses_unique by blast
qed

text \<open>
  Also shown: after a disconnection neither list has the adapter's address in the role the adapter
  had, all other adapters stay, and the peer's disappearance was announced if it was a sender.
\<close>

theorem disconnect_removes:
  assumes "cla_Address cla \<notin> pendingRemoval m"
  shows "let m' = NotifyDisconnect cla m in
    GetSenders m' = (if cla_sends cla then filter (\<lambda>c. cla_Address c \<noteq> cla_Address cla) (GetSenders m)
      else GetSenders m) \<and>
    GetReceivers m' = (if cla_receives cla then filter (\<lambda>c. cla_Address c \<noteq> cla_Address cla) (GetReceivers m)
      else GetReceivers m) \<and>
    callbacks m' = callbacks m @ (if cla_sends cla then [DisconnectCallback (cla_peer cla)] else []) \<and>
    pendingRemoval m' = pendingRemoval m"
  using assms
  by (simp add: NotifyDisconnect_def announceRemoval_def removeCLA_def Let_def GetSenders_def
      GetReceivers_def eq_commute[of "cla_Address cla"])

theorem disconnect_removes_witness:
  "GetSenders (NotifyDisconnect sample_cla (sample_manager\<lparr>senders := [sample_cla]\<rparr>)) = []"
  using disconnect_removes[of sample_cla "sample_manager\<lparr>senders := [sample_cla]\<rparr>"]
  by (simp add: sample_manager_def sample_cla_def GetSenders_def Let_def)

text \<open>
  Also shown: an adapter that loses its connection while it is being activated is removed from
  nothing, and then added: it stays registered as a sender though it is dead, and because it is registered,
  the address cannot be registered again.
\<close>

theorem disconnect_during_activation_kept:
  assumes "cla \<in> set (pendingStart m)" and "cla_sends cla"
  shows "let m' = activateCLA cla None (NotifyDisconnect cla m) in
    cla \<in> set (GetSenders m') \<and> registerAsync cla m' = m'"
  using assms
  by (auto simp: activateCLA_def GetSenders_def registerAsync_def checkPresent_def has_address_def Let_def)

theorem disconnect_during_activation_kept_witness:
  "sample_cla \<in> set (GetSenders (activateCLA sample_cla None
     (NotifyDisconnect sample_cla (registerAsync sample_cla sample_manager))))"
  using disconnect_during_activation_kept[of sample_cla "registerAsync sample_cla sample_manager"]
  by (simp add: registerAsync_def checkPresent_def has_address_def sample_manager_def sample_cla_def Let_def)

end
