(* ===== verification/Routing.thy ===== *)
theory Routing
  imports Store Cla_Manager
begin

text \<open>
  \<^verbatim>\<open>pkg/routing\<close>: the interface of the routing algorithms, epidemic routing and spray and wait. An
  algorithm acts on the store through the address of a descriptor. The bundle it hands back is
  \<open>None\<close> for \<^verbatim>\<open>nil\<close>. \<open>rnd\<close> is what \<^verbatim>\<open>rand.Intn\<close> draws. The contract of the interface is the locale
  \<open>routing_algorithm\<close>; both algorithms interpret it.
\<close>

section \<open>The interface\<close>

type_synonym algorithm_enum = u32

definition AlgorithmEpidemic :: algorithm_enum where [simp]: "AlgorithmEpidemic = 1"
definition AlgorithmSprayAndWait :: algorithm_enum where [simp]: "AlgorithmSprayAndWait = 2"

definition AlgorithmEnumFromString :: "string \<Rightarrow> algorithm_enum res" where
  "AlgorithmEnumFromString s =
     (let name = to_lower s
      in if name = ''epidemic'' then Inr AlgorithmEpidemic
         else if name = ''spray&wait'' then Inr AlgorithmSprayAndWait
         else Inl (Errorf ''is not a valid algorithm name''))"

type_synonym selection = "convergence list \<times> loaded option"

record 'kv algorithm =
  NotifyNewBundle :: "nat \<Rightarrow> dtn_bundle \<Rightarrow> 'kv bundle_store \<Rightarrow> 'kv bundle_store res"
  NotifyReceivedBundle :: "nat \<Rightarrow> dtn_bundle \<Rightarrow> 'kv bundle_store \<Rightarrow> 'kv bundle_store res"
  SelectPeersForForwarding ::
    "time \<Rightarrow> nat \<Rightarrow> nat \<Rightarrow> convergence list \<Rightarrow> 'kv bundle_store \<Rightarrow> (selection \<times> 'kv bundle_store) res"
  NotifyPeerAppeared :: "endpoint_id \<Rightarrow> 'kv bundle_store \<Rightarrow> 'kv bundle_store"
  NotifyPeerDisappeared :: "endpoint_id \<Rightarrow> 'kv bundle_store \<Rightarrow> 'kv bundle_store"

definition InitialiseAlgorithm :: "'a option \<Rightarrow> 'a option \<Rightarrow> 'a option res" where
  "InitialiseAlgorithm algorithm singleton =
     (if \<not> Option.is_none singleton
      then Inl (Panic ''Attempting to initialise an already initialised algorithm. This must never happen!'')
      else if Option.is_none algorithm
      then Inl (Panic ''Attempting to initialise algorithm with nil. This must never happen!'')
      else Inr algorithm)"

definition GetAlgorithmSingleton :: "'a option \<Rightarrow> 'a res" where
  "GetAlgorithmSingleton singleton =
     (case singleton of
        None \<Rightarrow> Inl (Panic ''Attempting to access an uninitialised algorithm. This must never happen!'')
      | Some a \<Rightarrow> Inr a)"

definition filterPeers :: "descriptor \<Rightarrow> convergence list \<Rightarrow> convergence list" where
  "filterPeers bd clas =
     (case GetKnownHolders bd of
        Inl _ \<Rightarrow> []
      | Inr sentEids \<Rightarrow> filter (\<lambda>cs. \<not> (\<exists>eid \<in> set sentEids. cla_peer cs = eid)) clas)"

definition getFilteredPeers :: "cla_manager \<Rightarrow> descriptor \<Rightarrow> convergence list" where
  "getFilteredPeers m bd = filterPeers bd (GetSenders m)"

fun unique_loop :: "endpoint_id set \<Rightarrow> convergence list \<Rightarrow> convergence list" where
  "unique_loop endpoints [] = []"
| "unique_loop endpoints (sender # peers) =
     (if cla_peer sender \<in> endpoints then unique_loop endpoints peers
      else sender # unique_loop (insert (cla_peer sender) endpoints) peers)"

definition uniquePeers :: "convergence list \<Rightarrow> convergence list" where
  "uniquePeers peers = unique_loop {} peers"

section \<open>Epidemic routing\<close>

definition epidemic_Select :: "nat \<Rightarrow> convergence list \<Rightarrow> 'kv bundle_store \<Rightarrow> selection" where
  "epidemic_Select a peers st = (filterPeers (heap st ! a) peers, None)"

definition NewEpidemicRouting :: "'kv algorithm" where
  "NewEpidemicRouting =
     \<lparr>NotifyNewBundle = (\<lambda>_ _ st. Inr st), NotifyReceivedBundle = (\<lambda>_ _ st. Inr st),
      SelectPeersForForwarding = (\<lambda>_ _ a peers st. Inr (epidemic_Select a peers st, st)),
      NotifyPeerAppeared = (\<lambda>_ st. st), NotifyPeerDisappeared = (\<lambda>_ st. st)\<rparr>"

section \<open>Spray and wait\<close>

record spray_and_wait =
  sw_copies :: u64
  sw_binary :: bool

definition sprayBundleCopiesKey :: string where "sprayBundleCopiesKey = ''spray_and_wait/copies''"

definition setSprayCopies ::
  "'kv badgerhold \<Rightarrow> nat \<Rightarrow> u64 \<Rightarrow> 'kv bundle_store \<Rightarrow> 'kv bundle_store" where
  "setSprayCopies K a copies st = snd (store_SetMiscData K sprayBundleCopiesKey (Any_uint64 copies) a st)"

definition getSprayCopies :: "nat \<Rightarrow> 'kv bundle_store \<Rightarrow> u64 option res" where
  "getSprayCopies a st =
     (case GetMiscData sprayBundleCopiesKey (heap st ! a) of
        None \<Rightarrow> Inr None
      | Some (Any_uint64 copies) \<Rightarrow> Inr (Some copies)
      | Some _ \<Rightarrow> Inl (Panic ''interface conversion: interface {} is not uint64''))"

definition spray_NotifyNew ::
  "'kv badgerhold \<Rightarrow> spray_and_wait \<Rightarrow> nat \<Rightarrow> 'kv bundle_store \<Rightarrow> 'kv bundle_store" where
  "spray_NotifyNew K router a st = setSprayCopies K a (sw_copies router) st"

definition spray_NotifyReceived ::
  "'kv badgerhold \<Rightarrow> nat \<Rightarrow> dtn_bundle \<Rightarrow> 'kv bundle_store \<Rightarrow> 'kv bundle_store res" where
  "spray_NotifyReceived K a b st =
     (case ExtensionBlockByType b BlockTypeBinarySprayBlock of
        Inl (Panic p) \<Rightarrow> Inl (Panic p)
      | Inl _ \<Rightarrow> Inr (setSprayCopies K a 0 st)
      | Inr i \<Rightarrow>
          (case Value (ExtensionBlocks b ! i) of
             Some (BinarySprayBlock copies) \<Rightarrow> Inr (setSprayCopies K a copies st)
           | _ \<Rightarrow> Inl (Panic ''interface conversion: ExtensionBlock is not *BinarySprayBlock'')))"

definition selectBasicSpray ::
  "'kv badgerhold \<Rightarrow> nat \<Rightarrow> u64 \<Rightarrow> convergence list \<Rightarrow> u64 \<Rightarrow> 'kv bundle_store \<Rightarrow>
   convergence list \<times> 'kv bundle_store" where
  "selectBasicSpray K a copies peers nPeers st =
     (let (remainingCopies, selectedPeers) =
        (if nPeers \<le> copies then (copies - nPeers, peers) else (0, take (unat copies) peers))
      in (selectedPeers, setSprayCopies K a remainingCopies st))"

text \<open>
  Removing the old spray blocks through pointers into the slice that shrinks meanwhile: \<open>arr\<close> is
  the array behind the slice, of which the first \<open>len\<close> elements are the bundle's blocks. A
  removal moves the elements behind it to the front, and the pointers, positions in the array, then
  refer to what was moved there.
\<close>

definition remove_in_place :: "u64 \<Rightarrow> canonical_block list \<times> nat \<Rightarrow> canonical_block list \<times> nat" where
  "remove_in_place n al =
     (let (arr, len) = al
      in case find (\<lambda>i. BlockNumber (arr ! i) = n) [0..<len] of
           None \<Rightarrow> (arr, len)
         | Some i \<Rightarrow> (take i arr @ drop (i + 1) (take len arr) @ drop (len - 1) arr, len - 1))"

definition remove_by_pointers :: "nat list \<Rightarrow> dtn_bundle \<Rightarrow> dtn_bundle" where
  "remove_by_pointers pointers b =
     (let (arr, len) = fold (\<lambda>p al. remove_in_place (BlockNumber (fst al ! p)) al) pointers
        (ExtensionBlocks b, length (ExtensionBlocks b))
      in b\<lparr>ExtensionBlocks := take len arr\<rparr>)"

definition replace_spray_block :: "u64 \<Rightarrow> dtn_bundle \<Rightarrow> dtn_bundle res" where
  "replace_spray_block sendCopies b =
     andThen (case ExtensionBlocksByType b BlockTypeBinarySprayBlock of
         Inl (Panic p) \<Rightarrow> Inl (Panic p)
       | Inl _ \<Rightarrow> Inr b
       | Inr pointers \<Rightarrow> Inr (remove_by_pointers pointers b)) (\<lambda>b.
     AddExtensionBlock (NewCanonicalBlock 0 0 (BinarySprayBlock sendCopies)) b)"

text \<open>The halves of the copies: \<open>(sendCopies, retainedCopies)\<close>.\<close>

definition spray_halves :: "u64 \<Rightarrow> u64 \<times> u64" where
  "spray_halves copies =
     (let sendCopies = copies div 2; retainedCopies = copies div 2
      in (sendCopies, if copies mod 2 \<noteq> 0 then retainedCopies + 1 else retainedCopies))"

definition selectBinarySpray ::
  "'kv store_env \<Rightarrow> time \<Rightarrow> nat \<Rightarrow> nat \<Rightarrow> u64 \<Rightarrow> convergence list \<Rightarrow> 'kv bundle_store \<Rightarrow>
   (selection \<times> 'kv bundle_store) res" where
  "selectBinarySpray E now rnd a copies peers st =
     (let (sendCopies, retainedCopies) = spray_halves copies;
          peer = [peers ! (rnd mod length peers)];
          st' = setSprayCopies (env_db E) a retainedCopies st
      in case Load E now a st of
           Some (Inr (Loaded b)) \<Rightarrow>
             (case replace_spray_block sendCopies b of
                Inl (Panic p) \<Rightarrow> Inl (Panic p)
              | Inl _ \<Rightarrow> Inr (([], None), st)
              | Inr b \<Rightarrow> Inr ((peer, Some (Loaded b)), st'))
         | Some (Inr (Incomplete e)) \<Rightarrow> Inr ((peer, Some (Incomplete e)), st')
         | Some (Inl (LibError (Panic p))) \<Rightarrow> Inl (Panic p)
         | _ \<Rightarrow> Inr (([], None), st))"

definition spray_Select ::
  "'kv store_env \<Rightarrow> spray_and_wait \<Rightarrow> time \<Rightarrow> nat \<Rightarrow> nat \<Rightarrow> convergence list \<Rightarrow> 'kv bundle_store \<Rightarrow>
   (selection \<times> 'kv bundle_store) res" where
  "spray_Select E router now rnd a peers st =
     andThen (getSprayCopies a st) (\<lambda>saved.
       let (copies, st) = (case saved of
             Some copies \<Rightarrow> (copies, st)
           | None \<Rightarrow> (sw_copies router, setSprayCopies (env_db E) a (sw_copies router) st))
       in if \<not> sw_binary router \<and> \<not> copies > 0 then Inr (([], None), st)
          else if sw_binary router \<and> \<not> copies > 1 then Inr (([], None), st)
          else
            let peers = filterPeers (heap st ! a) peers;
                nPeers = word_of_nat (length peers) :: u64
            in if \<not> nPeers > 0 then Inr (([], None), st)
               else if sw_binary router then selectBinarySpray E now rnd a copies peers st
               else case selectBasicSpray (env_db E) a copies peers nPeers st of
                      (ps, st) \<Rightarrow> Inr ((ps, None), st))"

definition NewSprayAndWait :: "'kv store_env \<Rightarrow> u64 \<Rightarrow> bool \<Rightarrow> 'kv algorithm" where
  "NewSprayAndWait E copies binary =
     (let router = \<lparr>sw_copies = copies, sw_binary = binary\<rparr>
      in \<lparr>NotifyNewBundle = (\<lambda>a _ st. Inr (spray_NotifyNew (env_db E) router a st)),
          NotifyReceivedBundle = spray_NotifyReceived (env_db E),
          SelectPeersForForwarding = spray_Select E router,
          NotifyPeerAppeared = (\<lambda>_ st. st), NotifyPeerDisappeared = (\<lambda>_ st. st)\<rparr>)"

section \<open>The contract\<close>

text \<open>
  What routing may do to the store: nothing but change metadata. The map, the files, the waiting
  deletions, the state of every descriptor and the known holders stay.
\<close>

definition same_state :: "'kv bundle_store \<Rightarrow> 'kv bundle_store \<Rightarrow> bool" where
  "same_state st st' \<longleftrightarrow>
     nodeID st' = nodeID st \<and> bundles st' = bundles st \<and> files st' = files st \<and>
     pending st' = pending st \<and> length (heap st') = length (heap st) \<and>
     (\<forall>a. retentionConstraints (heap st' ! a) = retentionConstraints (heap st ! a) \<and>
        deleted (heap st' ! a) = deleted (heap st ! a) \<and>
        shouldDelete (heap st' ! a) = shouldDelete (heap st ! a) \<and>
        md_KnownHolders (metadata (heap st' ! a)) = md_KnownHolders (metadata (heap st ! a)))"

lemma same_state_refl [simp]: "same_state st st"
  by (simp add: same_state_def)

lemma same_state_trans: "same_state st st' \<Longrightarrow> same_state st' st'' \<Longrightarrow> same_state st st''"
  by (simp add: same_state_def)

lemma same_state_filterPeers:
  "same_state st st' \<Longrightarrow> filterPeers (heap st' ! a) peers = filterPeers (heap st ! a) peers"
  by (simp add: same_state_def filterPeers_def GetKnownHolders_def)

lemma same_state_Spray [simp]: "same_state st (setSprayCopies K a copies st)"
proof -
  have "\<forall>b. (heap st)[a := d] ! b = (if b = a \<and> a < length (heap st) then d else heap st ! b)" for d
    by (auto simp: nth_list_update list_update_beyond)
  then show ?thesis
    by (auto simp: same_state_def setSprayCopies_def store_SetMiscData_def SetMiscData_def Let_def
        split: sum.split)
qed

lemma run_Spray: "a \<in> snd ` set (bundles st) \<Longrightarrow> (store_step E)\<^sup>*\<^sup>* st (setSprayCopies (env_db E) a copies st)"
  unfolding setSprayCopies_def by (rule r_into_rtranclp) (rule store_step.misc)

locale routing_algorithm =
  fixes E :: "'kv store_env" and A :: "'kv algorithm"
  assumes select_peers: "SelectPeersForForwarding A now rnd a peers st = Inr ((ps, b), st') \<Longrightarrow>
      set ps \<subseteq> set (filterPeers (heap st ! a) peers)"
    and select_run: "SelectPeersForForwarding A now rnd a peers st = Inr (sel, st') \<Longrightarrow>
      a \<in> snd ` set (bundles st) \<Longrightarrow> (store_step E)\<^sup>*\<^sup>* st st'"
    and select_same: "SelectPeersForForwarding A now rnd a peers st = Inr (sel, st') \<Longrightarrow> same_state st st'"
    and new_run: "NotifyNewBundle A a bndl st = Inr st' \<Longrightarrow>
      a \<in> snd ` set (bundles st) \<Longrightarrow> (store_step E)\<^sup>*\<^sup>* st st'"
    and new_same: "NotifyNewBundle A a bndl st = Inr st' \<Longrightarrow> same_state st st'"
    and received_run: "NotifyReceivedBundle A a bndl st = Inr st' \<Longrightarrow>
      a \<in> snd ` set (bundles st) \<Longrightarrow> (store_step E)\<^sup>*\<^sup>* st st'"
    and received_same: "NotifyReceivedBundle A a bndl st = Inr st' \<Longrightarrow> same_state st st'"
begin

lemma selected_listed:
  "SelectPeersForForwarding A now rnd a peers st = Inr ((ps, b), st') \<Longrightarrow> set ps \<subseteq> set peers"
  using select_peers by (fastforce simp: filterPeers_def split: sum.splits)

lemma selected_not_holder:
  assumes "SelectPeersForForwarding A now rnd a peers st = Inr ((ps, b), st')" and "p \<in> set ps"
  shows "\<not> Deleted (heap st ! a) \<and> cla_peer p \<notin> set (md_KnownHolders (metadata (heap st ! a)))"
proof -
  have "p \<in> set (filterPeers (heap st ! a) peers)" using select_peers[OF assms(1)] assms(2) by blast
  then show ?thesis by (auto simp: filterPeers_def GetKnownHolders_def Deleted_def split: if_splits)
qed

end

interpretation epidemic: routing_algorithm E NewEpidemicRouting for E
  by unfold_locales (auto simp: NewEpidemicRouting_def epidemic_Select_def)

lemma selectBinary_cases:
  assumes "selectBinarySpray E now rnd a copies peers st = Inr ((ps, b), st')" and "peers \<noteq> []"
  shows "ps = [] \<and> st' = st \<or>
    ps = [peers ! (rnd mod length peers)] \<and> st' = setSprayCopies (env_db E) a (snd (spray_halves copies)) st"
  using assms
  by (auto simp: selectBinarySpray_def Let_def split_beta
      split: option.splits sum.splits loaded.splits store_err.splits err.splits)

lemma spray_Select_cases:
  assumes "spray_Select E router now rnd a peers st = Inr ((ps, b), st')"
  shows "set ps \<subseteq> set (filterPeers (heap st ! a) peers) \<and> same_state st st' \<and>
    (a \<in> snd ` set (bundles st) \<longrightarrow> (store_step E)\<^sup>*\<^sup>* st st')"
proof -
  obtain saved where saved: "getSprayCopies a st = Inr saved"
    using assms by (auto simp: spray_Select_def andThen_eq_Inr)
  obtain copies st1 where c: "(case saved of Some copies \<Rightarrow> (copies, st)
      | None \<Rightarrow> (sw_copies router, setSprayCopies (env_db E) a (sw_copies router) st)) = (copies, st1)"
    by fastforce
  then have st1: "st1 = st \<or> (\<exists>c. st1 = setSprayCopies (env_db E) a c st)" by (auto split: option.splits)
  then have s1: "same_state st st1" by auto
  have r1: "a \<in> snd ` set (bundles st) \<Longrightarrow> (store_step E)\<^sup>*\<^sup>* st st1" using st1 run_Spray[of a st E] by auto
  define ps' where "ps' = filterPeers (heap st1 ! a) peers"
  have ps': "ps' = filterPeers (heap st ! a) peers" using same_state_filterPeers[OF s1] by (simp add: ps'_def)
  have mem: "a \<in> snd ` set (bundles st1) \<longleftrightarrow> a \<in> snd ` set (bundles st)" using s1 by (simp add: same_state_def)
  have body: "(if \<not> sw_binary router \<and> \<not> copies > 0 then Inr (([], None), st1)
      else if sw_binary router \<and> \<not> copies > 1 then Inr (([], None), st1)
      else if \<not> (word_of_nat (length ps') :: u64) > 0 then Inr (([], None), st1)
      else if sw_binary router then selectBinarySpray E now rnd a copies ps' st1
      else case selectBasicSpray (env_db E) a copies ps' (word_of_nat (length ps')) st1 of
        (ps, st) \<Rightarrow> Inr ((ps, None), st)) = Inr ((ps, b), st')"
    using assms unfolding spray_Select_def saved
    by (simp add: c ps'_def Let_def cong: if_cong)
  have "set ps \<subseteq> set ps' \<and> (st' = st1 \<or> (\<exists>c. st' = setSprayCopies (env_db E) a c st1))"
  proof (cases "sw_binary router \<and> copies > 1 \<and> (word_of_nat (length ps') :: u64) > 0")
    case True
    then have ne: "ps' \<noteq> []" by auto
    have "selectBinarySpray E now rnd a copies ps' st1 = Inr ((ps, b), st')"
      using body True by (simp split: if_splits)
    then show ?thesis using selectBinary_cases[OF _ ne] ne by fastforce
  next
    case False
    then show ?thesis
      using body
      by (auto simp: selectBasicSpray_def Let_def split: if_splits dest: in_set_takeD)
  qed
  then have "set ps \<subseteq> set ps'" and st': "st' = st1 \<or> (\<exists>c. st' = setSprayCopies (env_db E) a c st1)" by auto
  moreover have "same_state st1 st'" using st' by auto
  moreover have "a \<in> snd ` set (bundles st) \<Longrightarrow> (store_step E)\<^sup>*\<^sup>* st1 st'"
    using st' run_Spray[of a st1 E] mem by auto
  ultimately show ?thesis
    using ps' same_state_trans[OF s1] r1 by (auto intro: rtranclp_trans)
qed

interpretation spray: routing_algorithm E "NewSprayAndWait E copies binary" for E copies binary
proof unfold_locales
  fix now rnd a peers st ps b and st' :: "'a bundle_store"
  assume "SelectPeersForForwarding (NewSprayAndWait E copies binary) now rnd a peers st = Inr ((ps, b), st')"
  then show "set ps \<subseteq> set (filterPeers (heap st ! a) peers)"
    using spray_Select_cases[of E _ now rnd a peers st ps b st'] by (simp add: NewSprayAndWait_def Let_def)
next
  fix now rnd a peers st sel and st' :: "'a bundle_store"
  assume "SelectPeersForForwarding (NewSprayAndWait E copies binary) now rnd a peers st = Inr (sel, st')"
  then show "same_state st st'" "a \<in> snd ` set (bundles st) \<Longrightarrow> (store_step E)\<^sup>*\<^sup>* st st'"
    using spray_Select_cases[of E _ now rnd a peers st "fst sel" "snd sel" st']
    by (simp_all add: NewSprayAndWait_def Let_def)
next
  fix a bndl st and st' :: "'a bundle_store"
  assume "NotifyNewBundle (NewSprayAndWait E copies binary) a bndl st = Inr st'"
  then have "\<exists>c. st' = setSprayCopies (env_db E) a c st"
    by (auto simp: NewSprayAndWait_def spray_NotifyNew_def Let_def)
  then obtain c where c: "st' = setSprayCopies (env_db E) a c st" by blast
  show "same_state st st'" unfolding c by (rule same_state_Spray)
  show "(store_step E)\<^sup>*\<^sup>* st st'" if "a \<in> snd ` set (bundles st)"
    unfolding c using that by (rule run_Spray)
next
  fix a bndl st and st' :: "'a bundle_store"
  assume "NotifyReceivedBundle (NewSprayAndWait E copies binary) a bndl st = Inr st'"
  then have "\<exists>c. st' = setSprayCopies (env_db E) a c st"
    by (auto simp: NewSprayAndWait_def spray_NotifyReceived_def Let_def
        split: sum.splits err.splits option.splits ext_block.splits)
  then obtain c where c: "st' = setSprayCopies (env_db E) a c st" by blast
  show "same_state st st'" unfolding c by (rule same_state_Spray)
  show "(store_step E)\<^sup>*\<^sup>* st st'" if "a \<in> snd ` set (bundles st)"
    unfolding c using that by (rule run_Spray)
qed

section \<open>Lemmas\<close>

lemma unique_loop_spec:
  "distinct (map cla_peer (unique_loop seen peers)) \<and>
   cla_peer ` set (unique_loop seen peers) = cla_peer ` set peers - seen \<and>
   set (unique_loop seen peers) \<subseteq> set peers"
  by (induction seen peers rule: unique_loop.induct) auto

text \<open>Reading back the saved number.\<close>

lemma getSprayCopies_set:
  "a < length (heap st) \<Longrightarrow> getSprayCopies a (setSprayCopies K a copies st) = Inr (Some copies)"
  by (simp add: getSprayCopies_def setSprayCopies_def store_SetMiscData_def SetMiscData_def GetMiscData_def
      Let_def split: sum.split)

lemma spray_halves_sum:
  "unat (fst (spray_halves copies)) + unat (snd (spray_halves copies)) = unat copies"
proof -
  have split: "unat copies div 2 + (unat copies div 2 + unat copies mod 2) = unat copies"
    using div_mult_mod_eq[of "unat copies" 2] by linarith
  have even: "copies mod 2 = 0 \<longleftrightarrow> unat copies mod 2 = 0"
    by (simp add: unat_mod flip: unat_eq_zero)
  have small: "unat copies div 2 + 1 < 2 ^ 64" using unsigned_less[of copies, where 'a = nat] by simp
  have "unat (copies div 2 + 1) = unat copies div 2 + 1"
    using small by (simp add: unat_word_ariths unat_div)
  then show ?thesis using split even by (auto simp: spray_halves_def unat_div Let_def)
qed

text \<open>The manager never creates a spray block: its type is not registered.\<close>

definition no_spray_value :: "canonical_block \<Rightarrow> bool" where
  "no_spray_value cb \<longleftrightarrow> (\<forall>copies. Value cb \<noteq> Some (BinarySprayBlock copies))"

lemma ReadBlock_no_spray:
  "ReadBlock L GetExtensionBlockManager code i = Inr (v, r) \<Longrightarrow> v \<noteq> BinarySprayBlock copies"
  by (auto simp: ReadBlock_def andThen_eq_Inr ext_Unmarshal_def createBlock_def GetExtensionBlockManager_eq
      HopCount_UnmarshalCbor_def split: if_splits)

lemma cb_UnmarshalCbor_no_spray:
  assumes "cb_UnmarshalCbor L GetExtensionBlockManager i = Inr (cb, r)"
  shows "no_spray_value cb"
  using assms ReadBlock_no_spray
  by (auto simp: cb_UnmarshalCbor_def andThen_eq_Inr cb_checkCRC_def no_spray_value_def Let_def
      split: if_splits)

context cboring
begin

lemma read_blocks_no_spray:
  assumes "read_blocks L GetExtensionBlockManager exts payload i = Some (Inr (exts', payload', r'))"
    and "\<forall>cb \<in> set exts. no_spray_value cb"
  shows "\<forall>cb \<in> set exts'. no_spray_value cb"
  using assms
proof (induction "length i" arbitrary: i exts payload rule: less_induct)
  case less
  show ?case
  proof (cases "cb_UnmarshalCbor L GetExtensionBlockManager i")
    case (Inl e)
    then show ?thesis
      using less.prems by (subst (asm) read_blocks.simps) (auto split: if_splits)
  next
    case (Inr x)
    obtain cb r where x: "x = (cb, r)" by (cases x)
    have "length r < length i"
      using Inr x takes_frontD [OF cb_front] strict_suffix_length by blast
    then show ?thesis
      using less.hyps[of r exts cb] less.hyps[of r "exts @ [cb]" payload] less.prems Inr x
        cb_UnmarshalCbor_no_spray[of L i cb r]
      by (subst (asm) read_blocks.simps) (auto split: sum.splits if_splits)
  qed
qed

lemma ParseBundle_no_spray:
  assumes "ParseBundle L GetExtensionBlockManager now i = Some (Inr (b, errs))"
  shows "\<forall>cb \<in> set (ExtensionBlocks b). no_spray_value cb"
  using assms read_blocks_no_spray[of "[]" empty_canonical]
  by (auto simp: ParseBundle_def b_UnmarshalCbor_def andThen_eq_Inr Let_def split: sum.splits option.splits)

end

section \<open>Properties\<close>

text \<open>
  Claim C34: neither algorithm ever offers a bundle to a peer that is known to hold it, to an
  adapter that is not connected, or when the bundle is deleted.
\<close>

theorem selection_sound:
  assumes "A = NewEpidemicRouting \<or> A = NewSprayAndWait E copies binary"
    and "SelectPeersForForwarding A now rnd a peers st = Inr ((ps, b), st')" and "p \<in> set ps"
  shows "p \<in> set peers \<and> \<not> Deleted (heap st ! a) \<and>
    cla_peer p \<notin> set (md_KnownHolders (metadata (heap st ! a)))"
  using assms(1)
proof
  assume A: "A = NewEpidemicRouting"
  show ?thesis
    using epidemic.selected_listed[OF assms(2)[unfolded A]]
      epidemic.selected_not_holder[OF assms(2)[unfolded A] assms(3)] assms(3) by blast
next
  assume A: "A = NewSprayAndWait E copies binary"
  show ?thesis
    using spray.selected_listed[OF assms(2)[unfolded A]]
      spray.selected_not_holder[OF assms(2)[unfolded A] assms(3)] assms(3) by blast
qed

definition sample_peer :: convergence where
  "sample_peer = sample_cla\<lparr>cla_peer := Some (DtnEndpoint \<lparr>NodeName = ''b'', Demux = [], IsDtnNone = False\<rparr>)\<rparr>"

lemma sample_peer_selected:
  "epidemic_Select 0 [sample_peer] sample_store = ([sample_peer], None)"
  by (simp add: epidemic_Select_def filterPeers_def GetKnownHolders_def sample_insert NewBundleDescriptor_def
      new_metadata_def Let_def sample_peer_def DtnNone_def)

theorem selection_sound_witness:
  "\<not> Deleted (heap sample_store ! 0) \<and>
    cla_peer sample_peer \<notin> set (md_KnownHolders (metadata (heap sample_store ! 0)))"
  using selection_sound[of NewEpidemicRouting sample_env 0 False 0 0 0 "[sample_peer]" sample_store
      "[sample_peer]" None sample_store sample_peer]
  by (simp add: NewEpidemicRouting_def sample_peer_selected)

text \<open>
  Also shown: in basic mode no copy is made or lost: the copies that remain saved and the peers that
  get the bundle add up to the copies there were.
\<close>

theorem spray_basic_conserves:
  assumes "spray_Select E router now rnd a peers st = Inr ((ps, b), st')" and "\<not> sw_binary router"
    and "getSprayCopies a st = Inr (Some copies)" and "a < length (heap st)" and "length peers < 2 ^ 64"
  shows "\<exists>remaining. getSprayCopies a st' = Inr (Some remaining) \<and>
    unat remaining + length ps = unat copies"
proof (cases "copies > 0 \<and> (word_of_nat (length (filterPeers (heap st ! a) peers)) :: u64) > 0")
  case False
  then show ?thesis using assms by (auto simp: spray_Select_def Let_def split: if_splits)
next
  case True
  define fp where "fp = filterPeers (heap st ! a) peers"
  have "length fp \<le> length peers" by (simp add: fp_def filterPeers_def split: sum.split)
  then have len: "unat (word_of_nat (length fp) :: u64) = length fp"
    using assms(5) by (intro unat_word_small) simp
  have sel: "selectBasicSpray (env_db E) a copies fp (word_of_nat (length fp)) st = (ps, st')"
    using assms(1-3) True by (auto simp: spray_Select_def Let_def fp_def split: if_splits prod.splits)
  show ?thesis
  proof (cases "(word_of_nat (length fp) :: u64) \<le> copies")
    case True
    then have "unat (copies - word_of_nat (length fp)) = unat copies - length fp" "length fp \<le> unat copies"
      using len by (simp_all add: unat_sub word_le_nat_alt)
    then show ?thesis
      using sel True getSprayCopies_set[OF assms(4)] by (auto simp: selectBasicSpray_def)
  next
    case False
    then have "unat copies < length fp" using len by (simp add: word_le_nat_alt)
    then show ?thesis
      using sel False getSprayCopies_set[OF assms(4)] by (auto simp: selectBasicSpray_def)
  qed
qed

theorem spray_basic_conserves_witness:
  "\<exists>ps st'. spray_Select sample_env \<lparr>sw_copies = 5, sw_binary = False\<rparr> 0 0 0 [sample_peer]
      (setSprayCopies map_db 0 3 sample_store) = Inr ((ps, None), st') \<and>
    (\<exists>remaining. getSprayCopies 0 st' = Inr (Some remaining) \<and> unat remaining + length ps = 3)"
proof -
  let ?st = "setSprayCopies map_db 0 3 sample_store"
  have len: "0 < length (heap sample_store)" by (simp add: sample_insert)
  then have len': "0 < length (heap ?st)" using same_state_Spray unfolding same_state_def by metis
  have g: "getSprayCopies 0 ?st = Inr (Some 3)" by (rule getSprayCopies_set[OF len])
  have f: "filterPeers (heap ?st ! 0) [sample_peer] = [sample_peer]"
    using same_state_filterPeers[OF same_state_Spray, where a = 0 and st = sample_store and peers = "[sample_peer]"]
      sample_peer_selected by (simp add: epidemic_Select_def)
  obtain ps st' where s: "spray_Select sample_env \<lparr>sw_copies = 5, sw_binary = False\<rparr> 0 0 0 [sample_peer] ?st =
      Inr ((ps, None), st')"
    using g f
    by (cases "selectBasicSpray map_db 0 3 [sample_peer] 1 ?st") (simp add: spray_Select_def Let_def)
  show ?thesis using spray_basic_conserves[OF s _ g len'] s by simp
qed

text \<open>The sample bundle in the store: it loads, and gets a spray block.\<close>

lemma sample_load:
  assumes "(store_step sample_env)\<^sup>*\<^sup>* sample_store st" and "\<not> Deleted (heap st ! 0)"
  shows "\<exists>b'. Load sample_env 0 0 st = Some (Inr (Loaded b')) \<and> erase b' = erase sample_bundle"
proof -
  obtain bs where bs: "storable sample_env sample_bundle bs" using sample_storable by blast
  have ok: "store_ok sample_env map_of empty_store"
    by (rule sample.store_reach_ok[OF empty_store_reach])
  have "keeps 0 (b_ID sample_bundle) bs sample_store"
    by (rule sample.inserted_keeps[OF ok sample_insert(1) _ _ bs]) (simp_all add: good_disk_def empty_store_def)
  moreover have "store_ok sample_env map_of sample_store"
    by (rule sample.store_reach_ok[OF sample_store_reach])
  ultimately have "store_ok sample_env map_of st \<and> keeps 0 (b_ID sample_bundle) bs st"
    using sample.keeps_steps[OF assms(1)] by blast
  then show ?thesis
    using sample.keeps_load[OF _ _ _ bs sample_bundle_valid] assms(2) by (simp add: Deleted_def)
qed

lemma sample_replace:
  assumes "erase b = erase sample_bundle"
  shows "\<exists>b'. replace_spray_block copies b = Inr b'"
proof -
  have "map erase_cb (ExtensionBlocks b) = map erase_cb (ExtensionBlocks sample_bundle)"
    using assms by (simp add: erase_def)
  then obtain cb where cb: "ExtensionBlocks b = [cb]" "erase_cb cb = erase_cb (NewCanonicalBlock 2 0 (HopCountBlock 5 1))"
    by (auto simp: sample_bundle_def)
  then have "Value cb = Some (HopCountBlock 5 1)"
    by (cases cb) (simp add: erase_cb_def NewCanonicalBlock_def)
  then have "TypeCode cb = Inr 10" by (simp add: TypeCode_def block_type_defs)
  then show ?thesis
    using cb(1) by (simp add: replace_spray_block_def ExtensionBlocksByType_def AddExtensionBlock_def
        TypeCode_def NewCanonicalBlock_def block_type_defs Let_def)
qed

text \<open>
  Claim C35: in binary mode one peer is chosen, the copies that go with the bundle and the copies
  that stay add up to the copies there were, and the bundle that is sent has a spray block with
  the former.
\<close>

theorem spray_binary_conserves:
  assumes "spray_Select E router now rnd a peers st = Inr ((ps, Some (Loaded b)), st')"
    and "sw_binary router" and "getSprayCopies a st = Inr (Some copies)" and "a < length (heap st)"
  shows "\<exists>sent retained. getSprayCopies a st' = Inr (Some retained) \<and>
    unat sent + unat retained = unat copies \<and> length ps = 1 \<and>
    (\<exists>cb \<in> set (ExtensionBlocks b). Value cb = Some (BinarySprayBlock sent))"
proof -
  let ?fp = "filterPeers (heap st ! a) peers"
  have sel: "selectBinarySpray E now rnd a copies ?fp st = Inr ((ps, Some (Loaded b)), st')"
    using assms(1-3) by (auto simp: spray_Select_def Let_def split: if_splits)
  then obtain b0 where r: "replace_spray_block (fst (spray_halves copies)) b0 = Inr b"
    and ps: "length ps = 1" "st' = setSprayCopies (env_db E) a (snd (spray_halves copies)) st"
    by (auto simp: selectBinarySpray_def Let_def split_beta
        split: option.splits sum.splits loaded.splits store_err.splits err.splits)
  obtain b1 where "AddExtensionBlock (NewCanonicalBlock 0 0 (BinarySprayBlock (fst (spray_halves copies)))) b1 = Inr b"
    using r by (auto simp: replace_spray_block_def andThen_eq_Inr)
  then have "\<exists>cb \<in> set (ExtensionBlocks b). Value cb = Some (BinarySprayBlock (fst (spray_halves copies)))"
      (is ?block)
  proof (rule AddExtensionBlock_Inr)
    fix code
    assume "b = sortExtensionBlocks (b1\<lparr>ExtensionBlocks := ExtensionBlocks b1 @
      [(NewCanonicalBlock 0 0 (BinarySprayBlock (fst (spray_halves copies))))
        \<lparr>BlockNumber := word_of_nat (fresh_number b1 code)\<rparr>]\<rparr>)"
    then show ?block by (simp add: NewCanonicalBlock_def)
  qed
  then show ?thesis
    using ps getSprayCopies_set[OF assms(4)] spray_halves_sum[of copies] by blast
qed

theorem spray_binary_conserves_witness:
  "\<exists>ps b st' (sent :: u64) retained. spray_Select sample_env \<lparr>sw_copies = 5, sw_binary = True\<rparr> 0 0 0 [sample_peer]
      (setSprayCopies map_db 0 5 sample_store) = Inr ((ps, Some (Loaded b)), st') \<and>
    getSprayCopies 0 st' = Inr (Some retained) \<and> unat sent + unat retained = 5"
proof -
  let ?st = "setSprayCopies map_db 0 5 sample_store"
  have len: "0 < length (heap sample_store)" by (simp add: sample_insert)
  then have len': "0 < length (heap ?st)" using same_state_Spray unfolding same_state_def by metis
  have g: "getSprayCopies 0 ?st = Inr (Some 5)" by (rule getSprayCopies_set[OF len])
  have f: "filterPeers (heap ?st ! 0) [sample_peer] = [sample_peer]"
    using same_state_filterPeers[OF same_state_Spray, where a = 0 and st = sample_store and peers = "[sample_peer]"]
      sample_peer_selected by (simp add: epidemic_Select_def)
  obtain bs where bs: "storable sample_env sample_bundle bs" using sample_storable by blast
  have run: "(store_step sample_env)\<^sup>*\<^sup>* sample_store ?st"
    using run_Spray[of 0 sample_store sample_env 5] by (simp add: sample_insert)
  have live: "\<not> Deleted (heap ?st ! 0)"
    using same_state_Spray[of sample_store map_db 0 5]
    by (simp add: same_state_def Deleted_def sample_insert NewBundleDescriptor_def)
  obtain b' where "Load sample_env 0 0 ?st = Some (Inr (Loaded b'))" "erase b' = erase sample_bundle"
    using sample_load[OF run live] by blast
  then obtain b where l: "Load sample_env 0 0 ?st = Some (Inr (Loaded b'))"
    and r: "replace_spray_block (fst (spray_halves 5)) b' = Inr b"
    using sample_replace by blast
  have s: "spray_Select sample_env \<lparr>sw_copies = 5, sw_binary = True\<rparr> 0 0 0 [sample_peer] ?st =
      Inr (([sample_peer], Some (Loaded b)), setSprayCopies map_db 0 (snd (spray_halves 5)) ?st)"
    using g f l r by (simp add: spray_Select_def selectBinarySpray_def Let_def split_beta)
  obtain sent retained :: u64 where c:
    "getSprayCopies 0 (setSprayCopies map_db 0 (snd (spray_halves 5)) ?st) = Inr (Some retained)"
    "unat sent + unat retained = unat (5 :: u64)"
    using spray_binary_conserves[OF s _ g len'] by auto
  show ?thesis
    by (rule exI, rule exI, rule exI, rule exI[of _ sent], rule exI[of _ retained])
      (use s c in \<open>simp\<close>)
qed

text \<open>
  Also shown: a node that has no copies to give away, such as every node that received the bundle in basic
  mode, selects nobody, not even the destination of the bundle when it is a connected peer:
  the direct transmission that the comment describes does not happen.
\<close>

theorem spray_exhausted_selects_nobody:
  assumes "getSprayCopies a st = Inr (Some copies)" and "copies \<le> (if sw_binary router then 1 else 0)"
  shows "spray_Select E router now rnd a peers st = Inr (([], None), st)"
  using assms by (auto simp: spray_Select_def Let_def split: if_splits)

theorem spray_exhausted_selects_nobody_witness:
  "spray_Select sample_env \<lparr>sw_copies = 5, sw_binary = False\<rparr> 0 0 0 [sample_peer]
     (setSprayCopies map_db 0 0 sample_store) = Inr (([], None), setSprayCopies map_db 0 0 sample_store)"
  by (rule spray_exhausted_selects_nobody[OF getSprayCopies_set]) (simp_all add: sample_insert)

text \<open>
  Also shown: a bundle that arrives with a spray block makes spray and wait panic: the spray block is
  not registered with the extension block manager, so it is read as a generic block, and the
  algorithm asserts its type.
\<close>

theorem received_spray_block_panics:
  assumes "cboring L" and "ParseBundle L GetExtensionBlockManager now i = Some (Inr (b, errs))"
    and "ExtensionBlockByType b BlockTypeBinarySprayBlock = Inr j"
  shows "\<exists>msg. NotifyReceivedBundle (NewSprayAndWait E copies binary) a b st = Inl (Panic msg)"
proof -
  have "j < length (ExtensionBlocks b)" using ExtensionBlockByType_bound[OF assms(3)] .
  then have "no_spray_value (ExtensionBlocks b ! j)"
    using cboring.ParseBundle_no_spray[OF assms(1,2)] by simp
  then show ?thesis
    using assms(3)
    by (auto simp: NewSprayAndWait_def spray_NotifyReceived_def no_spray_value_def Let_def
        split: option.splits ext_block.splits)
qed

definition sprayed_bundle :: dtn_bundle where
  "sprayed_bundle = sample_bundle\<lparr>ExtensionBlocks :=
     [NewCanonicalBlock 2 0 (GenericExtensionBlock [5] BlockTypeBinarySprayBlock)]\<rparr>"

theorem received_spray_block_panics_witness:
  "\<exists>i b errs msg. ParseBundle rfc_lib GetExtensionBlockManager 0 i = Some (Inr (b, errs)) \<and>
    NotifyReceivedBundle (NewSprayAndWait sample_env 5 True) 0 b sample_store = Inl (Panic msg)"
proof -
  have wf: "wf_bundle GetExtensionBlockManager sprayed_bundle"
    by (simp add: wf_bundle_def sprayed_bundle_def sample_bundle_def sample_primary_wf wf_cb_def
        NewCanonicalBlock_def registered_def createBlock_def GetExtensionBlockManager_eq block_type_defs
        cb_HasCRC_def TypeCode_def)
  have m: "\<exists>bs. b_MarshalCbor rfc_lib sprayed_bundle = Inr (bs, sprayed_bundle) \<and> length bs < 2 ^ 64"
    by (simp add: b_MarshalCbor_def sprayed_bundle_def sample_bundle_def sample_primary_bytes rfc_simps
        rfc_head_def cb_MarshalCbor_def NewCanonicalBlock_def cb_HasCRC_def TypeCode_def block_type_defs
        WriteBlock_def)
  then obtain bs where bs: "b_MarshalCbor rfc_lib sprayed_bundle = Inr (bs, sprayed_bundle)" "length bs < 2 ^ 64"
    by blast
  have c: "b_CheckValid 0 sprayed_bundle = Inr []"
    using sample_bundle_valid
    by (simp add: b_CheckValid_def sprayed_bundle_def sample_bundle_def NewCanonicalBlock_def
        cb_CheckValid_def CheckContextValid_def block_type_defs IsLifetimeExceeded_def andThen_eq_Inr
        sample_primary_def IsZeroTime_def ct_DtnTime_def blockcf_CheckValid_def)
  have p: "ParseBundle rfc_lib GetExtensionBlockManager 0 bs = Some (Inr (sprayed_bundle, []))"
    using cboring.bundle_rw[OF cboring_rfc wf bs] c by simp
  have "ExtensionBlockByType sprayed_bundle BlockTypeBinarySprayBlock = Inr 0"
    by (simp add: ExtensionBlockByType_def ExtensionBlocksByType_def sprayed_bundle_def TypeCode_def
        NewCanonicalBlock_def)
  then show ?thesis using received_spray_block_panics[OF cboring_rfc p] p by blast
qed

text \<open>
  Also shown: with two old spray blocks the pointers are wrong after the first removal: the second
  removal takes away the block behind the spray blocks, whatever it is, and one old spray block stays.
\<close>

theorem spray_removal_hits_wrong_block:
  assumes "ExtensionBlocks b = [x, y, z]" and "TypeCode x = Inr BlockTypeBinarySprayBlock"
    and "TypeCode y = Inr BlockTypeBinarySprayBlock" and "TypeCode z = Inr code"
    and "code \<noteq> BlockTypeBinarySprayBlock" and "distinct (block_numbers b)"
  shows "ExtensionBlocksByType b BlockTypeBinarySprayBlock = Inr [0, 1] \<and>
    ExtensionBlocks (remove_by_pointers [0, 1] b) = [y]"
  using assms
  by (simp add: ExtensionBlocksByType_def remove_by_pointers_def remove_in_place_def block_numbers_def
      Let_def)

theorem spray_removal_hits_wrong_block_witness:
  "ExtensionBlocks (remove_by_pointers [0, 1] (sample_bundle\<lparr>ExtensionBlocks :=
     [NewCanonicalBlock 2 0 (GenericExtensionBlock [0] BlockTypeBinarySprayBlock),
      NewCanonicalBlock 3 0 (GenericExtensionBlock [0] BlockTypeBinarySprayBlock),
      NewCanonicalBlock 4 0 (HopCountBlock 5 1)]\<rparr>)) =
   [NewCanonicalBlock 3 0 (GenericExtensionBlock [0] BlockTypeBinarySprayBlock)]"
  using spray_removal_hits_wrong_block[of "sample_bundle\<lparr>ExtensionBlocks :=
     [NewCanonicalBlock 2 0 (GenericExtensionBlock [0] BlockTypeBinarySprayBlock),
      NewCanonicalBlock 3 0 (GenericExtensionBlock [0] BlockTypeBinarySprayBlock),
      NewCanonicalBlock 4 0 (HopCountBlock 5 1)]\<rparr>"]
  by (simp add: TypeCode_def NewCanonicalBlock_def block_numbers_def block_type_defs)

end
