(* ===== verification/Mailbox.thy ===== *)
theory Mailbox
  imports Store
begin

text \<open>
  \<^verbatim>\<open>pkg/application_agent/mailbox.go\<close>, \<^verbatim>\<open>mailbox_bank.go\<close> and \<^verbatim>\<open>errors.go\<close>. A mailbox maps the
  IDs of delivered bundles to whether they were retrieved; it is the list of the map's entries in
  the order in which a \<^verbatim>\<open>range\<close> loop meets them, which Go does not fix: the results hold for every
  order. A bank gives a mailbox to every registered endpoint. Mailboxes are pointers, that a client
  may hold longer than the bank does: they live in a heap, and the bank maps endpoints to
  addresses. The bundles themselves stay in the store.
\<close>

section \<open>Errors\<close>

datatype aa_err =
    AgentAlreadyRegisteredError string
  | NoSuchAgentError string
  | IDAlreadyRegisteredError endpoint_id
  | NoSuchIDError endpoint_id
  | AlreadyDeliveredError bundle_id
  | NotInMailboxError bundle_id
  | StoreError store_err
  | AgentError err

section \<open>Mailboxes\<close>

type_synonym mailbox = "(bundle_id \<times> bool) list"

definition NewMailbox :: mailbox where "NewMailbox = []"

definition mbox_Deliver :: "'kv bundle_store \<Rightarrow> descriptor \<Rightarrow> mailbox \<Rightarrow> aa_err option \<times> mailbox" where
  "mbox_Deliver st bd m =
     (let bid = bd_ID bd
      in if map_of m bid \<noteq> None then (Some (AlreadyDeliveredError bid), m)
         else case GetBundleDescriptor bid st of
                Inl e \<Rightarrow> (Some (StoreError e), m)
              | Inr _ \<Rightarrow> (None, mapset bid False m))"

definition mbox_List :: "mailbox \<Rightarrow> bundle_id list" where
  "mbox_List m = map fst m"

definition mbox_ListNew :: "mailbox \<Rightarrow> bundle_id list" where
  "mbox_ListNew m = map fst (filter (\<lambda>(bid, retrieved). \<not> retrieved) m)"

text \<open>Loading the bundle of an ID; \<open>None\<close> would be a parser that does not return.\<close>

definition load_by_id ::
  "'kv store_env \<Rightarrow> time \<Rightarrow> 'kv bundle_store \<Rightarrow> bundle_id \<Rightarrow> (store_err + loaded) option" where
  "load_by_id E now st bid =
     (case GetBundleDescriptor bid st of Inl e \<Rightarrow> Some (Inl e) | Inr a \<Rightarrow> Load E now a st)"

definition mbox_Get ::
  "'kv store_env \<Rightarrow> time \<Rightarrow> 'kv bundle_store \<Rightarrow> bundle_id \<Rightarrow> bool \<Rightarrow> mailbox \<Rightarrow>
   ((aa_err + loaded) \<times> mailbox) option" where
  "mbox_Get E now st bid remove m =
     (if map_of m bid = None then Some (Inl (NotInMailboxError bid), m)
      else case load_by_id E now st bid of
             None \<Rightarrow> None
           | Some (Inl e) \<Rightarrow> Some (Inl (StoreError e), m)
           | Some (Inr b) \<Rightarrow> Some (Inr b, if remove then mapdel bid m else mapset bid True m))"

text \<open>
  The loop of \<^verbatim>\<open>GetAll\<close> and \<^verbatim>\<open>GetNew\<close> over the IDs \<open>bids\<close>: the error that ended it, the
  bundles that are returned and the mailbox. A missing descriptor returns \<^verbatim>\<open>nil\<close>, a failed
  load what was collected before.
\<close>

fun fetch_loop ::
  "'kv store_env \<Rightarrow> time \<Rightarrow> 'kv bundle_store \<Rightarrow> bundle_id list \<Rightarrow> loaded list \<Rightarrow> mailbox \<Rightarrow>
   (aa_err option \<times> loaded list \<times> mailbox) option" where
  "fetch_loop E now st [] bndls m = Some (None, bndls, m)"
| "fetch_loop E now st (bid # bids) bndls m =
     (case GetBundleDescriptor bid st of
        Inl e \<Rightarrow> Some (Some (StoreError e), [], m)
      | Inr a \<Rightarrow>
          (case Load E now a st of
             None \<Rightarrow> None
           | Some (Inl e) \<Rightarrow> Some (Some (StoreError e), bndls, m)
           | Some (Inr b) \<Rightarrow> fetch_loop E now st bids (bndls @ [b]) (mapset bid True m)))"

definition fetch_end ::
  "bool \<Rightarrow> (aa_err option \<times> loaded list \<times> mailbox) option \<Rightarrow> (aa_err option \<times> loaded list \<times> mailbox) option" where
  "fetch_end remove r =
     map_option (\<lambda>(e, bndls, m). (e, bndls, if e = None \<and> remove then [] else m)) r"

definition mbox_GetAll ::
  "'kv store_env \<Rightarrow> time \<Rightarrow> 'kv bundle_store \<Rightarrow> bool \<Rightarrow> mailbox \<Rightarrow>
   (aa_err option \<times> loaded list \<times> mailbox) option" where
  "mbox_GetAll E now st remove m = fetch_end remove (fetch_loop E now st (mbox_List m) [] m)"

definition mbox_GetNew ::
  "'kv store_env \<Rightarrow> time \<Rightarrow> 'kv bundle_store \<Rightarrow> bool \<Rightarrow> mailbox \<Rightarrow>
   (aa_err option \<times> loaded list \<times> mailbox) option" where
  "mbox_GetNew E now st remove m = fetch_end remove (fetch_loop E now st (mbox_ListNew m) [] m)"

definition mbox_Delete :: "bundle_id \<Rightarrow> mailbox \<Rightarrow> mailbox" where
  "mbox_Delete bid m = mapdel bid m"

definition mbox_Clear :: "mailbox \<Rightarrow> mailbox" where
  "mbox_Clear m = []"

definition mbox_GC :: "'kv bundle_store \<Rightarrow> mailbox \<Rightarrow> mailbox" where
  "mbox_GC st m =
     filter (\<lambda>(bid, _). case GetBundleDescriptor bid st of
       Inl _ \<Rightarrow> False | Inr a \<Rightarrow> \<not> Deleted (heap st ! a)) m"

section \<open>The bank\<close>

record mailbox_bank =
  registeredIDs :: "endpoint_id list"
  mailboxes :: "(endpoint_id \<times> nat) list"
  boxes :: "mailbox list"

definition NewMailboxBank :: mailbox_bank where
  "NewMailboxBank = \<lparr>registeredIDs = [], mailboxes = [], boxes = []\<rparr>"

type_synonym bank_result = "aa_err option \<times> mailbox_bank"

definition bank_Register :: "endpoint_id \<Rightarrow> mailbox_bank \<Rightarrow> bank_result" where
  "bank_Register eid bank =
     (if map_of (mailboxes bank) eid \<noteq> None then (Some (IDAlreadyRegisteredError eid), bank)
      else (None, bank\<lparr>registeredIDs := registeredIDs bank @ [eid],
                       mailboxes := mapset eid (length (boxes bank)) (mailboxes bank),
                       boxes := boxes bank @ [NewMailbox]\<rparr>))"

definition bank_Unregister :: "endpoint_id \<Rightarrow> mailbox_bank \<Rightarrow> bank_result" where
  "bank_Unregister eid bank =
     (if map_of (mailboxes bank) eid = None then (Some (NoSuchIDError eid), bank)
      else (None, bank\<lparr>registeredIDs := filter (\<lambda>reid. reid \<noteq> eid) (registeredIDs bank),
                       mailboxes := mapdel eid (mailboxes bank)\<rparr>))"

definition RegisteredIDs :: "mailbox_bank \<Rightarrow> endpoint_id list" where
  "RegisteredIDs bank = registeredIDs bank"

definition GetMailbox :: "endpoint_id \<Rightarrow> mailbox_bank \<Rightarrow> aa_err + nat" where
  "GetMailbox eid bank =
     (case map_of (mailboxes bank) eid of None \<Rightarrow> Inl (NoSuchIDError eid) | Some p \<Rightarrow> Inr p)"

definition bank_Deliver :: "'kv bundle_store \<Rightarrow> nat \<Rightarrow> mailbox_bank \<Rightarrow> bank_result" where
  "bank_Deliver st a bank =
     (case Metadata (heap st ! a) of
        Inl e \<Rightarrow> (Some (StoreError e), bank)
      | Inr bundleMetadata \<Rightarrow>
          (case map_of (mailboxes bank) (md_Destination bundleMetadata) of
             None \<Rightarrow> (Some (NoSuchIDError (md_Destination bundleMetadata)), bank)
           | Some p \<Rightarrow>
               (case mbox_Deliver st (heap st ! a) (boxes bank ! p) of
                  (e, m) \<Rightarrow> (e, bank\<lparr>boxes := (boxes bank)[p := m]\<rparr>))))"

text \<open>The goroutines that \<^verbatim>\<open>GC\<close> starts, one per mailbox, and what each of them does.\<close>

definition bank_GC :: "mailbox_bank \<Rightarrow> nat list" where
  "bank_GC bank = map snd (mailboxes bank)"

definition run_GC :: "'kv bundle_store \<Rightarrow> nat \<Rightarrow> mailbox_bank \<Rightarrow> mailbox_bank" where
  "run_GC st p bank = bank\<lparr>boxes := (boxes bank)[p := mbox_GC st (boxes bank ! p)]\<rparr>"

section \<open>The contract of the bank\<close>

text \<open>
  What the bank promises: every registered endpoint has a map of bundle IDs, and an operation
  changes the map of one endpoint. The two lists and the heap of the code implement this map of
  maps; \<open>bank_ok\<close> is their invariant.
\<close>

type_synonym mail_spec = "endpoint_id \<rightharpoonup> (bundle_id \<rightharpoonup> bool)"

definition bank_abs :: "mailbox_bank \<Rightarrow> mail_spec" where
  "bank_abs bank = (\<lambda>eid. map_option (\<lambda>p. map_of (boxes bank ! p)) (map_of (mailboxes bank) eid))"

definition bank_ok :: "mailbox_bank \<Rightarrow> bool" where
  "bank_ok bank \<longleftrightarrow> registeredIDs bank = map fst (mailboxes bank) \<and>
     distinct (map fst (mailboxes bank)) \<and> distinct (map snd (mailboxes bank)) \<and>
     (\<forall>p \<in> snd ` set (mailboxes bank). p < length (boxes bank)) \<and>
     (\<forall>m \<in> set (boxes bank). distinct (map fst m))"

datatype bank_op =
    BRegister endpoint_id
  | BUnregister endpoint_id
  | BDeliver nat
  | BDelete endpoint_id bundle_id
  | BClear endpoint_id
  | BCollect endpoint_id

text \<open>An operation of a client on the mailbox that \<^verbatim>\<open>GetMailbox\<close> gave it.\<close>

definition on_mailbox :: "endpoint_id \<Rightarrow> (mailbox \<Rightarrow> mailbox) \<Rightarrow> mailbox_bank \<Rightarrow> bank_result" where
  "on_mailbox eid f bank =
     (case GetMailbox eid bank of
        Inl e \<Rightarrow> (Some e, bank)
      | Inr p \<Rightarrow> (None, bank\<lparr>boxes := (boxes bank)[p := f (boxes bank ! p)]\<rparr>))"

fun run_bank_op :: "'kv bundle_store \<Rightarrow> bank_op \<Rightarrow> mailbox_bank \<Rightarrow> bank_result" where
  "run_bank_op st (BRegister eid) bank = bank_Register eid bank"
| "run_bank_op st (BUnregister eid) bank = bank_Unregister eid bank"
| "run_bank_op st (BDeliver a) bank = bank_Deliver st a bank"
| "run_bank_op st (BDelete eid bid) bank = on_mailbox eid (mbox_Delete bid) bank"
| "run_bank_op st (BClear eid) bank = on_mailbox eid mbox_Clear bank"
| "run_bank_op st (BCollect eid) bank = on_mailbox eid (mbox_GC st) bank"

definition known_in :: "'kv bundle_store \<Rightarrow> bundle_id \<Rightarrow> bool" where
  "known_in st bid \<longleftrightarrow> (\<exists>a. GetBundleDescriptor bid st = Inr a)"

fun spec_bank_op :: "'kv bundle_store \<Rightarrow> bank_op \<Rightarrow> mail_spec \<Rightarrow> mail_spec" where
  "spec_bank_op st (BRegister eid) S = (if S eid = None then S(eid \<mapsto> Map.empty) else S)"
| "spec_bank_op st (BUnregister eid) S = S(eid := None)"
| "spec_bank_op st (BDeliver a) S =
     (let bd = heap st ! a; eid = md_Destination (metadata bd)
      in case S eid of
           Some M \<Rightarrow> if \<not> deleted bd \<and> M (bd_ID bd) = None \<and> known_in st (bd_ID bd)
                     then S(eid \<mapsto> M(bd_ID bd \<mapsto> False)) else S
         | None \<Rightarrow> S)"
| "spec_bank_op st (BDelete eid bid) S =
     (case S eid of Some M \<Rightarrow> S(eid \<mapsto> M(bid := None)) | None \<Rightarrow> S)"
| "spec_bank_op st (BClear eid) S = (case S eid of Some M \<Rightarrow> S(eid \<mapsto> Map.empty) | None \<Rightarrow> S)"
| "spec_bank_op st (BCollect eid) S =
     (case S eid of Some M \<Rightarrow> S(eid \<mapsto> M |` {bid. known_in st bid}) | None \<Rightarrow> S)"

text \<open>When an operation is refused.\<close>

fun bank_refuses :: "'kv bundle_store \<Rightarrow> bank_op \<Rightarrow> mail_spec \<Rightarrow> aa_err option" where
  "bank_refuses st (BRegister eid) S = (if S eid = None then None else Some (IDAlreadyRegisteredError eid))"
| "bank_refuses st (BDeliver a) S =
     (let bd = heap st ! a; eid = md_Destination (metadata bd)
      in if deleted bd then Some (StoreError (deletedError bd))
         else case S eid of
                None \<Rightarrow> Some (NoSuchIDError eid)
              | Some M \<Rightarrow> if M (bd_ID bd) \<noteq> None then Some (AlreadyDeliveredError (bd_ID bd))
                          else if \<not> known_in st (bd_ID bd)
                          then Some (StoreError (NoSuchBundleError (bd_ID bd))) else None)"
| "bank_refuses st (BUnregister eid) S = (if S eid = None then Some (NoSuchIDError eid) else None)"
| "bank_refuses st (BDelete eid bid) S = (if S eid = None then Some (NoSuchIDError eid) else None)"
| "bank_refuses st (BClear eid) S = (if S eid = None then Some (NoSuchIDError eid) else None)"
| "bank_refuses st (BCollect eid) S = (if S eid = None then Some (NoSuchIDError eid) else None)"

fun run_bank :: "('kv bundle_store \<times> bank_op) list \<Rightarrow> mailbox_bank \<Rightarrow> aa_err option list \<times> mailbox_bank" where
  "run_bank [] bank = ([], bank)"
| "run_bank ((st, op) # ops) bank =
     (case run_bank_op st op bank of (e, bank') \<Rightarrow>
        (case run_bank ops bank' of (es, bank'') \<Rightarrow> (e # es, bank'')))"

fun spec_bank :: "('kv bundle_store \<times> bank_op) list \<Rightarrow> mail_spec \<Rightarrow> aa_err option list \<times> mail_spec" where
  "spec_bank [] S = ([], S)"
| "spec_bank ((st, op) # ops) S =
     (case spec_bank ops (spec_bank_op st op S) of (es, S') \<Rightarrow> (bank_refuses st op S # es, S'))"

subsection \<open>The implementation\<close>

lemma GetBundleDescriptor_live: "GetBundleDescriptor bid st = Inr a \<Longrightarrow> \<not> deleted (heap st ! a)"
  by (auto simp: GetBundleDescriptor_def Deleted_def split: option.splits if_splits)

lemma GetBundleDescriptor_Inl: "GetBundleDescriptor bid st = Inl e \<Longrightarrow> e = NoSuchBundleError bid"
  by (auto simp: GetBundleDescriptor_def split: option.splits if_splits)

lemma mbox_GC_known: "mbox_GC st m = filter (\<lambda>(bid, _). known_in st bid) m"
  unfolding mbox_GC_def
  by (rule filter_cong)
    (auto simp: known_in_def Deleted_def GetBundleDescriptor_live split: sum.splits)

lemma bank_ok_New: "bank_ok NewMailboxBank" "bank_abs NewMailboxBank = Map.empty"
  by (auto simp: bank_ok_def bank_abs_def NewMailboxBank_def)

text \<open>Replacing the contents of one registered mailbox.\<close>

lemma bank_box_update:
  assumes ok: "bank_ok bank" and p: "map_of (mailboxes bank) eid = Some p" and m: "distinct (map fst m)"
  shows "bank_ok (bank\<lparr>boxes := (boxes bank)[p := m]\<rparr>)"
    "bank_abs (bank\<lparr>boxes := (boxes bank)[p := m]\<rparr>) = (bank_abs bank)(eid \<mapsto> map_of m)"
proof -
  have mem: "(eid, p) \<in> set (mailboxes bank)" using p by (rule map_of_SomeD)
  then have len: "p < length (boxes bank)" using ok by (force simp: bank_ok_def)
  show "bank_ok (bank\<lparr>boxes := (boxes bank)[p := m]\<rparr>)"
    using ok m by (auto simp: bank_ok_def dest: set_update_subset_insert[THEN subsetD])
  have other: "eid' = eid" if "map_of (mailboxes bank) eid' = Some p" for eid'
  proof -
    have "inj_on snd (set (mailboxes bank))" using ok by (simp add: bank_ok_def distinct_map)
    then show ?thesis using inj_onD[of snd _ "(eid', p)" "(eid, p)"] mem map_of_SomeD[OF that] by simp
  qed
  show "bank_abs (bank\<lparr>boxes := (boxes bank)[p := m]\<rparr>) = (bank_abs bank)(eid \<mapsto> map_of m)"
  proof
    fix eid'
    show "bank_abs (bank\<lparr>boxes := (boxes bank)[p := m]\<rparr>) eid' = ((bank_abs bank)(eid \<mapsto> map_of m)) eid'"
      using p len other[of eid'] unfolding bank_abs_def
      by (cases "map_of (mailboxes bank) eid'") (auto simp: nth_list_update)
  qed
qed

lemma bank_box_distinct:
  assumes "bank_ok bank" "map_of (mailboxes bank) eid = Some p"
  shows "distinct (map fst (boxes bank ! p))"
proof -
  have "p \<in> snd ` set (mailboxes bank)" using map_of_SomeD[OF assms(2)] by (rule rev_image_eqI) simp
  then have "p < length (boxes bank)" using assms(1) unfolding bank_ok_def by blast
  then have "boxes bank ! p \<in> set (boxes bank)" by simp
  then show ?thesis using assms(1) by (simp add: bank_ok_def)
qed

lemma on_mailbox_refines:
  assumes ok: "bank_ok bank" and f: "\<And>m. distinct (map fst m) \<Longrightarrow> distinct (map fst (f m)) \<and> map_of (f m) = g (map_of m)"
    and r: "on_mailbox eid f bank = (e, bank')"
  shows "bank_ok bank'"
    "e = (if bank_abs bank eid = None then Some (NoSuchIDError eid) else None)"
    "bank_abs bank' = (case bank_abs bank eid of Some M \<Rightarrow> (bank_abs bank)(eid \<mapsto> g M) | None \<Rightarrow> bank_abs bank)"
proof -
  have "bank_ok bank' \<and> e = (if bank_abs bank eid = None then Some (NoSuchIDError eid) else None) \<and>
    bank_abs bank' = (case bank_abs bank eid of Some M \<Rightarrow> (bank_abs bank)(eid \<mapsto> g M) | None \<Rightarrow> bank_abs bank)"
  proof (cases "map_of (mailboxes bank) eid")
    case (Some p)
    note d = f[OF bank_box_distinct[OF ok Some]]
    have "bank_abs bank eid = Some (map_of (boxes bank ! p))" by (simp add: bank_abs_def Some)
    then show ?thesis
      using r Some bank_box_update[OF ok Some, of "f (boxes bank ! p)"] d
      by (auto simp: on_mailbox_def GetMailbox_def)
  qed (use r ok in \<open>auto simp: on_mailbox_def GetMailbox_def bank_abs_def\<close>)
  then show "bank_ok bank'" "e = (if bank_abs bank eid = None then Some (NoSuchIDError eid) else None)"
    "bank_abs bank' = (case bank_abs bank eid of Some M \<Rightarrow> (bank_abs bank)(eid \<mapsto> g M) | None \<Rightarrow> bank_abs bank)"
    by blast+
qed

lemma bank_Register_refines:
  assumes ok: "bank_ok bank" and r: "bank_Register eid bank = (e, bank')"
  shows "bank_ok bank' \<and> e = bank_refuses st (BRegister eid) (bank_abs bank) \<and>
    bank_abs bank' = spec_bank_op st (BRegister eid) (bank_abs bank)"
proof (cases "map_of (mailboxes bank) eid")
  case None
  have small: "p < length (boxes bank)" if "map_of (mailboxes bank) eid' = Some p" for eid' p
  proof -
    have "p \<in> snd ` set (mailboxes bank)" using map_of_SomeD[OF that] by (rule rev_image_eqI) simp
    then show ?thesis using ok unfolding bank_ok_def by blast
  qed
  have new: "eid \<notin> fst ` set (mailboxes bank)" using None by (simp add: map_of_eq_None_iff)
  have bank': "bank' = bank\<lparr>registeredIDs := registeredIDs bank @ [eid],
      mailboxes := mailboxes bank @ [(eid, length (boxes bank))], boxes := boxes bank @ [[]]\<rparr>"
    "e = None"
    using r None new by (simp_all add: bank_Register_def mapset_def NewMailbox_def)
  have "bank_ok bank'" using ok new unfolding bank_ok_def bank' by fastforce
  moreover have "bank_abs bank' eid' = ((bank_abs bank)(eid \<mapsto> Map.empty)) eid'" for eid'
    using None small[of eid'] unfolding bank_abs_def bank'
    by (cases "eid' = eid"; cases "map_of (mailboxes bank) eid'")
      (simp_all add: map_add_def nth_append)
  ultimately show ?thesis using None bank'(2) by (auto simp: bank_abs_def)
next
  case (Some p)
  then show ?thesis using r ok by (auto simp: bank_Register_def bank_abs_def)
qed

lemma bank_Unregister_refines:
  assumes ok: "bank_ok bank" and r: "bank_Unregister eid bank = (e, bank')"
  shows "bank_ok bank' \<and> e = bank_refuses st (BUnregister eid) (bank_abs bank) \<and>
    bank_abs bank' = spec_bank_op st (BUnregister eid) (bank_abs bank)"
proof (cases "map_of (mailboxes bank) eid")
  case (Some p)
  have ids: "map fst (mapdel eid m) = filter (\<lambda>reid. reid \<noteq> eid) (map fst m)" for m :: "(endpoint_id \<times> nat) list"
    by (induction m) (auto simp: mapdel_def)
  have "\<forall>p \<in> snd ` set (mapdel eid (mailboxes bank)). p < length (boxes bank)"
    using ok by (auto simp: bank_ok_def mapdel_def)
  moreover have "bank' = bank\<lparr>registeredIDs := filter (\<lambda>reid. reid \<noteq> eid) (registeredIDs bank),
      mailboxes := mapdel eid (mailboxes bank)\<rparr>"
    using r Some by (simp add: bank_Unregister_def)
  ultimately have "bank_ok bank'"
    using ok by (simp add: bank_ok_def ids distinct_mapdel)
  then show ?thesis
    using r Some by (auto simp: bank_Unregister_def bank_abs_def map_of_mapdel)
next
  case None
  then show ?thesis using r ok by (auto simp: bank_Unregister_def bank_abs_def)
qed

lemma bank_Deliver_refines:
  assumes ok: "bank_ok bank" and r: "bank_Deliver st a bank = (e, bank')"
  shows "bank_ok bank' \<and> e = bank_refuses st (BDeliver a) (bank_abs bank) \<and>
    bank_abs bank' = spec_bank_op st (BDeliver a) (bank_abs bank)"
proof -
  define bd eid bid where "bd = heap st ! a" and "eid = md_Destination (metadata bd)" and "bid = bd_ID bd"
  show ?thesis
  proof (cases "map_of (mailboxes bank) eid")
    case None
    then have "bank_abs bank eid = None" by (simp add: bank_abs_def)
    then show ?thesis
      using r None ok by (auto simp: bank_Deliver_def Metadata_def Let_def bd_def eid_def)
  next
    case (Some p)
    let ?m = "boxes bank ! p"
    have abs: "bank_abs bank eid = Some (map_of ?m)" by (simp add: bank_abs_def Some)
    note box = bank_box_distinct[OF ok Some]
    have same: "(boxes bank)[p := ?m] = boxes bank" by simp
    show ?thesis
    proof (cases "GetBundleDescriptor bid st")
      case (Inl e')
      then have "e' = NoSuchBundleError bid" by (rule GetBundleDescriptor_Inl)
      then show ?thesis
        using r Some Inl ok abs
        by (auto simp: bank_Deliver_def mbox_Deliver_def Metadata_def Let_def same known_in_def
            bd_def[symmetric] eid_def[symmetric] bid_def[symmetric])
    next
      case (Inr a')
      then have known: "known_in st bid" by (auto simp: known_in_def)
      show ?thesis
      proof (cases "deleted bd \<or> map_of ?m bid \<noteq> None")
        case True
        then show ?thesis
          using r Some Inr known ok abs
          by (auto simp: bank_Deliver_def mbox_Deliver_def Metadata_def Let_def same
              bd_def[symmetric] eid_def[symmetric] bid_def[symmetric])
      next
        case False
        then have "bank' = bank\<lparr>boxes := (boxes bank)[p := mapset bid False ?m]\<rparr>" "e = None"
          using r Some Inr
          by (auto simp: bank_Deliver_def mbox_Deliver_def Metadata_def Let_def
              bd_def[symmetric] eid_def[symmetric] bid_def[symmetric])
        then show ?thesis
          using bank_box_update[OF ok Some distinct_mapset[OF box]] False abs known
          by (auto simp: map_of_mapset Let_def bd_def[symmetric] eid_def[symmetric] bid_def[symmetric])
      qed
    qed
  qed
qed

lemma run_bank_op_refines:
  assumes ok: "bank_ok bank" and r: "run_bank_op st op bank = (e, bank')"
  shows "bank_ok bank' \<and> e = bank_refuses st op (bank_abs bank) \<and>
    bank_abs bank' = spec_bank_op st op (bank_abs bank)"
proof (cases op)
  case (BDelete eid bid)
  then show ?thesis
    using on_mailbox_refines[OF ok _ r[unfolded BDelete run_bank_op.simps], of "\<lambda>M. M(bid := None)"]
    by (simp add: mbox_Delete_def distinct_mapdel map_of_mapdel)
next
  case (BClear eid)
  then show ?thesis
    using on_mailbox_refines[OF ok _ r[unfolded BClear run_bank_op.simps], of "\<lambda>_. Map.empty"]
    by (simp add: mbox_Clear_def)
next
  case (BCollect eid)
  then show ?thesis
    using on_mailbox_refines[OF ok _ r[unfolded BCollect run_bank_op.simps],
        of "\<lambda>M. M |` {bid. known_in st bid}"]
    by (simp add: mbox_GC_known map_of_filter_key distinct_map_filter)
qed (use r bank_Register_refines[OF ok] bank_Unregister_refines[OF ok] bank_Deliver_refines[OF ok]
    in \<open>simp_all del: bank_refuses.simps spec_bank_op.simps\<close>)

section \<open>Fetching\<close>

lemma fetch_loop_all:
  assumes "\<forall>bid \<in> set bids. \<exists>a. GetBundleDescriptor bid st = Inr a \<and> Load E now a st = Some (Inr (f bid))"
  shows "fetch_loop E now st bids bndls m =
    Some (None, bndls @ map f bids, fold (\<lambda>bid. mapset bid True) bids m)"
  using assms by (induction bids arbitrary: bndls m) auto

lemma fold_mark:
  "set bids \<subseteq> fst ` set m \<Longrightarrow>
    fold (\<lambda>bid. mapset bid True) bids m = map (\<lambda>(bid, r). (bid, r \<or> bid \<in> set bids)) m"
proof (induction bids arbitrary: m)
  case Nil
  then show ?case by (simp add: map_idI split_beta)
next
  case (Cons b bids)
  have m: "mapset b True m = map (\<lambda>(bid, r). (bid, r \<or> bid = b)) m"
    using Cons.prems by (auto simp: mapset_def)
  have "fst ` set (map (\<lambda>(bid, r). (bid, r \<or> bid = b)) m) = fst ` set m" by force
  then show ?case using Cons m by (auto simp: comp_def)
qed

lemma erase_ID: "b_ID (erase b) = b_ID b"
  by (simp add: b_ID_def erase_def)

context storage
begin

lemma known_loads:
  assumes ok: "store_ok E look st" and M: "env_ebm E BlockTypeBundleAgeBlock = Some TBundleAge"
    and a: "GetBundleDescriptor bid st = Inr a"
  shows "\<exists>b. Load E now a st = Some (Inr (Loaded b)) \<and> b_ID b = bid \<and>
    (\<forall>cb \<in> set (ExtensionBlocks b). Value cb \<noteq> None)"
proof -
  have mem: "(bid, a) \<in> set (bundles st)" and live: "\<not> deleted (heap st ! a)"
    using a map_of_bundles[OF ok]
    by (auto simp: GetBundleDescriptor_def Deleted_def split: option.splits if_splits)
  obtain b bs where b: "storable E b bs" "b_ID b = bid" "files st (file_name bid) = Some bs"
    using entry_at[OF ok mem] unfolding entry_ok_def by blast
  have keep: "keeps a (b_ID b) bs st"
    using entry_at[OF ok mem] mem b by (simp add: keeps_def entry_ok_def)
  obtain errs where "b_CheckValid now b = Inr errs"
    using wf_CheckValid_returns[of "env_ebm E" b now] M b(1) unfolding storable_def by blast
  from keeps_load[OF ok keep live b(1) this] obtain b' where
    b': "Load E now a st = Some (Inr (Loaded b'))" "erase b' = erase b" by blast
  have "b_ID b' = b_ID (erase b')" by (simp add: erase_ID)
  then have "b_ID b' = b_ID b" by (simp add: b'(2) erase_ID)
  moreover have "map Value (ExtensionBlocks b') = map Value (ExtensionBlocks b)"
    using arg_cong[OF b'(2), of "\<lambda>b. map Value (ExtensionBlocks b)"] by (simp add: erase_def comp_def)
  then have "Value ` set (ExtensionBlocks b') = Value ` set (ExtensionBlocks b)" by (metis list.set_map)
  moreover have "\<forall>cb \<in> set (ExtensionBlocks b). Value cb \<noteq> None"
    using b(1) by (auto simp: storable_def wf_bundle_def wf_cb_def split: option.splits)
  ultimately show ?thesis using b' b(2) by (metis image_iff)
qed

end

text \<open>
  Fetching the bundles one after another with \<^verbatim>\<open>Get\<close>, the reference for \<^verbatim>\<open>GetAll\<close>, and what
  \<^verbatim>\<open>GetAll\<close> returns of them.
\<close>

fun get_each ::
  "'kv store_env \<Rightarrow> time \<Rightarrow> 'kv bundle_store \<Rightarrow> bundle_id list \<Rightarrow> mailbox \<Rightarrow>
   (aa_err option \<times> loaded list \<times> mailbox) option" where
  "get_each E now st [] m = Some (None, [], m)"
| "get_each E now st (bid # bids) m =
     (case mbox_Get E now st bid False m of
        None \<Rightarrow> None
      | Some (Inl e, m) \<Rightarrow> Some (Some e, [], m)
      | Some (Inr b, m) \<Rightarrow> map_option (\<lambda>(e, bs, m). (e, b # bs, m)) (get_each E now st bids m))"

definition returned :: "aa_err option \<Rightarrow> loaded list \<Rightarrow> loaded list" where
  "returned e bs = (case e of Some (StoreError (NoSuchBundleError _)) \<Rightarrow> [] | _ \<Rightarrow> bs)"

lemma Load_errors: "Load E now a st = Some (Inl e) \<Longrightarrow> e \<noteq> NoSuchBundleError bid"
  by (auto simp: Load_def loadEntireBundle_def deletedError_def Let_def
      split: if_splits option.splits sum.splits err.splits)

lemma fetch_loop_get_each:
  assumes "set bids \<subseteq> fst ` set m"
  shows "fetch_loop E now st bids acc m =
    map_option (\<lambda>(e, bs, m'). (e, returned e (acc @ bs), m')) (get_each E now st bids m)"
  using assms
proof (induction bids arbitrary: acc m)
  case Nil
  then show ?case by (simp add: returned_def)
next
  case (Cons bid bids)
  then have k: "map_of m bid \<noteq> None" by (simp add: map_of_eq_None_iff)
  show ?case
  proof (cases "GetBundleDescriptor bid st")
    case (Inl e)
    then show ?thesis
      using k GetBundleDescriptor_Inl[OF Inl] by (auto simp: mbox_Get_def load_by_id_def returned_def)
  next
    case (Inr a)
    show ?thesis
    proof (cases "Load E now a st")
      case None
      then show ?thesis using k Inr by (auto simp: mbox_Get_def load_by_id_def)
    next
      case (Some r)
      show ?thesis
      proof (cases r)
        case (Inl e)
        then show ?thesis
          using k \<open>GetBundleDescriptor bid st = Inr a\<close> Some Load_errors[of E now a st e]
          by (auto simp: mbox_Get_def load_by_id_def returned_def split: store_err.split)
      next
        case l: (Inr b)
        have "bid \<in> fst ` set m" using Cons.prems by simp
        then have "fst ` set (mapset bid True m) = fst ` set m"
          using keys_mapset[of bid True m] by (metis list.set_map)
        then show ?thesis
          using k \<open>GetBundleDescriptor bid st = Inr a\<close> Some l Cons
          by (auto simp: mbox_Get_def load_by_id_def option.map_comp comp_def split_beta)
      qed
    qed
  qed
qed

section \<open>Properties\<close>

text \<open>
  Claim C17: every sequence of operations on a new bank behaves as the map of maps that the contract
  describes, with the same refusals. A delivered bundle reaches the mailbox of the
  destination in its metadata and no other, at most once; collecting keeps exactly the bundles
  the store still has; and the registered IDs are those that have a mailbox, without repetition.
\<close>

theorem mailbox_bank_refines:
  "case run_bank ops NewMailboxBank of (es, bank) \<Rightarrow>
     spec_bank ops Map.empty = (es, bank_abs bank) \<and>
     distinct (RegisteredIDs bank) \<and> set (RegisteredIDs bank) = dom (bank_abs bank)"
proof -
  have "bank_ok bank \<Longrightarrow> (case run_bank ops bank of (es, bank') \<Rightarrow>
      spec_bank ops (bank_abs bank) = (es, bank_abs bank') \<and> bank_ok bank')" for bank
  proof (induction ops arbitrary: bank)
    case (Cons x ops)
    obtain st op where x: "x = (st, op)" by (cases x)
    obtain e bank' where r: "run_bank_op st op bank = (e, bank')" by (cases "run_bank_op st op bank")
    from run_bank_op_refines[OF Cons.prems r] Cons.IH[of bank'] show ?case
      by (simp add: x r split_beta del: spec_bank_op.simps bank_refuses.simps run_bank_op.simps)
  qed simp
  from this[OF bank_ok_New(1)] show ?thesis
    unfolding bank_ok_New(2)
    by (auto simp: RegisteredIDs_def bank_ok_def bank_abs_def map_of_eq_None_iff split: prod.splits
        dest: map_of_SomeD) (metis domI domIff fst_conv map_of_eq_None_iff image_eqI not_Some_eq)+
qed

lemma GetAll_known:
  assumes world: "storage E look" and ok: "store_ok E look st"
    and M: "env_ebm E BlockTypeBundleAgeBlock = Some TBundleAge"
    and known: "\<forall>bid \<in> set (mbox_List m). known_in st bid"
  shows "\<exists>bs. map b_ID bs = mbox_List m \<and>
    mbox_GetAll E now st remove m =
      Some (None, map Loaded bs, if remove then [] else map (\<lambda>(bid, _). (bid, True)) m)"
proof -
  define bids where "bids = mbox_List m"
  have "\<forall>bid \<in> set bids. \<exists>b a. GetBundleDescriptor bid st = Inr a \<and>
      Load E now a st = Some (Inr (Loaded b)) \<and> b_ID b = bid"
    using known storage.known_loads[OF world ok M] unfolding known_in_def bids_def by blast
  then obtain f where f: "\<forall>bid \<in> set bids. \<exists>a. GetBundleDescriptor bid st = Inr a \<and>
      Load E now a st = Some (Inr (Loaded (f bid))) \<and> b_ID (f bid) = bid"
    using bchoice[of "set bids" "\<lambda>bid b. \<exists>a. GetBundleDescriptor bid st = Inr a \<and>
      Load E now a st = Some (Inr (Loaded b)) \<and> b_ID b = bid"] by meson
  have "fetch_loop E now st bids [] m =
      Some (None, map (\<lambda>bid. Loaded (f bid)) bids, fold (\<lambda>bid. mapset bid True) bids m)"
    using fetch_loop_all[of bids st E now "\<lambda>bid. Loaded (f bid)" "[]"] f by fastforce
  moreover have "fold (\<lambda>bid. mapset bid True) bids m = map (\<lambda>(bid, _). (bid, True)) m"
    using fold_mark[of bids m] by (force simp: bids_def mbox_List_def)
  moreover have "map b_ID (map f bids) = bids" using f by (metis list.map_comp comp_apply map_idI)
  ultimately show ?thesis
    by (intro exI[of _ "map f bids"]) (simp add: mbox_GetAll_def fetch_end_def bids_def comp_def)
qed

lemma GC_known: "\<forall>bid \<in> set (mbox_List (mbox_GC st m)). known_in st bid"
  by (auto simp: mbox_List_def mbox_GC_known)

text \<open>
  Also shown: right after its garbage collection, fetching all bundles of a mailbox succeeds, in every
  reachable state of the store: the bundles come in the order of the mailbox with exactly its
  IDs, and the mailbox is emptied or everything in it is marked as retrieved.
\<close>

theorem fetch_after_collection:
  assumes "reliable_db (env_db E) look" and "cboring (env_cbor E)" and "store_reach E st"
    and "env_ebm E BlockTypeBundleAgeBlock = Some TBundleAge"
  shows "\<exists>bs. map b_ID bs = mbox_List (mbox_GC st m) \<and>
    mbox_GetAll E now st remove (mbox_GC st m) = Some (None, map Loaded bs,
      if remove then [] else map (\<lambda>(bid, _). (bid, True)) (mbox_GC st m))"
proof -
  have world: "storage E look" using assms(1,2) by (simp add: storage_def)
  show ?thesis by (rule GetAll_known[OF world storage.store_reach_ok[OF world assms(3)] assms(4) GC_known])
qed


lemma sample_known:
  "GetBundleDescriptor (b_ID sample_bundle) sample_store = Inr 0"
  by (simp add: GetBundleDescriptor_def sample_insert Deleted_def NewBundleDescriptor_def)

theorem fetch_after_collection_witness:
  "\<exists>b. b_ID b = b_ID sample_bundle \<and>
    mbox_GetAll sample_env 0 sample_store True (mbox_GC sample_store
      [(b_ID sample_bundle, False), ((b_ID sample_bundle)\<lparr>bid_TotalDataLength := 7\<rparr>, True)]) =
    Some (None, [Loaded b], [])"
proof -
  let ?m = "[(b_ID sample_bundle, False), ((b_ID sample_bundle)\<lparr>bid_TotalDataLength := 7\<rparr>, True)]"
  have ne: "(b_ID sample_bundle)\<lparr>bid_TotalDataLength := 7\<rparr> \<noteq> b_ID sample_bundle"
    by (simp add: b_ID_def sample_bundle_def sample_primary_def)
  have gc: "mbox_GC sample_store ?m = [(b_ID sample_bundle, False)]"
    using ne by (simp add: mbox_GC_known known_in_def sample_known)
      (simp add: GetBundleDescriptor_def sample_insert(2))
  have "env_ebm sample_env BlockTypeBundleAgeBlock = Some TBundleAge"
    by (simp add: GetExtensionBlockManager_eq block_type_defs)
  from fetch_after_collection[OF sample_world sample_store_reach this, of ?m 0 True]
  show ?thesis unfolding gc by (auto simp: mbox_List_def)
qed

text \<open>
  Also shown: \<^verbatim>\<open>GetAll\<close> is the repeated \<^verbatim>\<open>Get\<close> of the mailbox's IDs in order, up to the first
  error: the same error, the same bundles and the same marks, except that a bundle the store no longer
  has makes it return none of the bundles.
\<close>

theorem get_all_is_repeated_get:
  "mbox_GetAll E now st False m =
     map_option (\<lambda>(e, bs, m'). (e, returned e bs, m')) (get_each E now st (mbox_List m) m)"
  using fetch_loop_get_each[of "mbox_List m" m E now st "[]"]
  by (simp add: mbox_GetAll_def fetch_end_def mbox_List_def option.map_comp comp_def case_prod_unfold)

text \<open>
  Also shown: a bundle that the store deleted makes \<^verbatim>\<open>GetNew\<close> return nothing, although the new bundles
  before it were loaded, and these are marked as retrieved: also after the collection of the mailbox
  \<^verbatim>\<open>GetNew\<close> does not return them any more.
\<close>

theorem deleted_bundle_hides_new:
  assumes "reliable_db (env_db E) look" and "cboring (env_cbor E)" and "store_reach E st"
    and "env_ebm E BlockTypeBundleAgeBlock = Some TBundleAge"
    and "distinct (xs @ gone # ys)" and "\<forall>bid \<in> set xs. known_in st bid" and "\<not> known_in st gone"
  shows "\<exists>m. mbox_GetNew E now st remove (map (\<lambda>bid. (bid, False)) (xs @ gone # ys)) =
      Some (Some (StoreError (NoSuchBundleError gone)), [], m) \<and>
    set (mbox_ListNew (mbox_GC st m)) \<inter> set xs = {} \<and> set xs \<subseteq> set (mbox_List (mbox_GC st m))"
proof -
  have world: "storage E look" using assms(1,2) by (simp add: storage_def)
  have ok: "store_ok E look st" using storage.store_reach_ok[OF world assms(3)] .
  obtain e where "GetBundleDescriptor gone st = Inl e"
    using assms(7) by (cases "GetBundleDescriptor gone st") (auto simp: known_in_def)
  then have gone: "GetBundleDescriptor gone st = Inl (NoSuchBundleError gone)"
    using GetBundleDescriptor_Inl by blast
  have known: "\<forall>bid \<in> set xs. \<exists>a b. GetBundleDescriptor bid st = Inr a \<and>
      Load E now a st = Some (Inr (Loaded b))"
    using storage.known_loads[OF world ok assms(4)] assms(6) unfolding known_in_def by blast
  have loop: "fetch_loop E now st (xs @ gone # ys) acc m =
      Some (Some (StoreError (NoSuchBundleError gone)), [], fold (\<lambda>bid. mapset bid True) xs m)" for acc m
    using known by (induction xs arbitrary: acc m) (auto simp: gone)
  let ?m = "map (\<lambda>bid. (bid, False)) (xs @ gone # ys)"
  have new: "mbox_ListNew ?m = xs @ gone # ys"
    by (simp add: mbox_ListNew_def filter_map comp_def)
  define m1 where "m1 = map (\<lambda>bid. (bid, bid \<in> set xs)) (xs @ gone # ys)"
  have "fold (\<lambda>bid. mapset bid True) xs ?m = m1"
    using fold_mark[of xs ?m] by (force simp: comp_def m1_def)
  then have "mbox_GetNew E now st remove ?m = Some (Some (StoreError (NoSuchBundleError gone)), [], m1)"
    using loop[of "[]" ?m] unfolding mbox_GetNew_def new by (simp add: fetch_end_def)
  moreover have "set (mbox_ListNew (mbox_GC st m1)) \<inter> set xs = {}"
    by (auto simp: mbox_GC_known mbox_ListNew_def m1_def)
  moreover have "set xs \<subseteq> set (mbox_List (mbox_GC st m1))"
    using assms(6) by (force simp: mbox_GC_known mbox_List_def m1_def)
  ultimately show ?thesis by blast
qed

theorem deleted_bundle_hides_new_witness:
  "\<exists>m. mbox_GetNew sample_env 0 sample_store False
      [(b_ID sample_bundle, False), ((b_ID sample_bundle)\<lparr>bid_TotalDataLength := 7\<rparr>, False)] =
    Some (Some (StoreError (NoSuchBundleError ((b_ID sample_bundle)\<lparr>bid_TotalDataLength := 7\<rparr>))), [], m) \<and>
    b_ID sample_bundle \<notin> set (mbox_ListNew (mbox_GC sample_store m))"
proof -
  let ?gone = "(b_ID sample_bundle)\<lparr>bid_TotalDataLength := 7\<rparr>"
  have ne: "?gone \<noteq> b_ID sample_bundle"
    by (simp add: b_ID_def sample_bundle_def sample_primary_def)
  have unknown: "\<not> known_in sample_store ?gone"
    using ne by (simp add: known_in_def GetBundleDescriptor_def sample_insert(2))
  have "env_ebm sample_env BlockTypeBundleAgeBlock = Some TBundleAge"
    by (simp add: GetExtensionBlockManager_eq block_type_defs)
  from deleted_bundle_hides_new[OF sample_world sample_store_reach this, of "[b_ID sample_bundle]" ?gone "[]" 0 False]
  show ?thesis using ne unknown by (auto simp: known_in_def sample_known)
qed

end
