(* ===== verification/Id_Keeper.thy ===== *)
theory Id_Keeper
  imports Bundle
begin

text \<open>
  \<^verbatim>\<open>pkg/id_keeper/id_keeper.go\<close>: the keeper of sequence numbers, a map from a source and a creation
  time to the number that was given last. \<open>Update\<close> gives a new bundle its number, \<open>Clean\<close>
  forgets the entries that are older than an hour. The keeper is a singleton: an option, which
  \<^verbatim>\<open>nil\<close> makes \<open>None\<close>.
\<close>

type_synonym id_tuple = "endpoint_id \<times> dtn_time"
type_synonym id_keeper = "id_tuple \<rightharpoonup> u64"

definition newIdTuple :: "dtn_bundle \<Rightarrow> id_tuple" where
  "newIdTuple b =
     (SourceNode (PrimaryBlock b), ct_DtnTime (CreationTimestamp (PrimaryBlock b)))"

definition InitializeIdKeeper :: "id_keeper option \<Rightarrow> id_keeper res" where
  "InitializeIdKeeper singleton =
     (if singleton \<noteq> None
      then Inl (Panic ''Attempting to access an uninitialised IdKeeper. This must never happen!'')
      else Inr Map.empty)"

definition ShutdownIdKeeper :: "id_keeper option \<Rightarrow> id_keeper option" where
  "ShutdownIdKeeper singleton = None"

definition GetIdKeeperSingleton :: "id_keeper option \<Rightarrow> id_keeper res" where
  "GetIdKeeperSingleton singleton =
     (case singleton of
        None \<Rightarrow> Inl (Panic ''Attempting to access an uninitialised IdKeeper. This must never happen!'')
      | Some idk \<Rightarrow> Inr idk)"

definition idk_Update :: "dtn_bundle \<Rightarrow> id_keeper \<Rightarrow> dtn_bundle \<times> id_keeper" where
  "idk_Update b idk =
     (let tpl = newIdTuple b;
          idk = (case idk tpl of Some state \<Rightarrow> idk(tpl \<mapsto> state + 1) | None \<Rightarrow> idk(tpl \<mapsto> 0));
          pb = PrimaryBlock b
      in (b\<lparr>PrimaryBlock := pb\<lparr>CreationTimestamp := (fst (CreationTimestamp pb), the (idk tpl))\<rparr>\<rparr>, idk))"

definition hour :: int where "hour = 3600 * 1000000000"

definition idk_threshold :: "time \<Rightarrow> dtn_time" where
  "idk_threshold now = DtnTimeFromTime (now - hour)"

definition idk_Clean :: "time \<Rightarrow> id_keeper \<Rightarrow> id_keeper" where
  "idk_Clean now idk = (\<lambda>tpl. if snd tpl < idk_threshold now then None else idk tpl)"

section \<open>Runs\<close>

datatype idk_op = IdUpdate dtn_bundle | IdClean time

fun idk_run :: "idk_op list \<Rightarrow> id_keeper \<Rightarrow> dtn_bundle list" where
  "idk_run [] idk = []"
| "idk_run (IdUpdate b # ops) idk = (case idk_Update b idk of (b', idk') \<Rightarrow> b' # idk_run ops idk')"
| "idk_run (IdClean now # ops) idk = idk_run ops (idk_Clean now idk)"

text \<open>The clock does not go back behind what was cleaned: \<open>ths\<close> are the thresholds so far.\<close>

fun idk_clock_ok :: "dtn_time set \<Rightarrow> idk_op list \<Rightarrow> bool" where
  "idk_clock_ok ths [] = True"
| "idk_clock_ok ths (IdUpdate b # ops) \<longleftrightarrow>
     (\<forall>th \<in> ths. \<not> snd (newIdTuple b) < th) \<and> idk_clock_ok ths ops"
| "idk_clock_ok ths (IdClean now # ops) = idk_clock_ok (insert (idk_threshold now) ths) ops"

definition stamp :: "dtn_bundle \<Rightarrow> endpoint_id \<times> creation_timestamp" where
  "stamp b = (SourceNode (PrimaryBlock b), CreationTimestamp (PrimaryBlock b))"

text \<open>
  What the keeper knows of the stamps given out: the number of each is at most the one stored, or
  the entry was cleaned. Fewer than \<open>n\<close> numbers were given for a tuple.
\<close>

definition idk_inv ::
  "(endpoint_id \<times> creation_timestamp) set \<Rightarrow> dtn_time set \<Rightarrow> nat \<Rightarrow> id_keeper \<Rightarrow> bool" where
  "idk_inv given ths n idk \<longleftrightarrow>
     (\<forall>(src, t, s) \<in> given. case idk (src, t) of Some m \<Rightarrow> s \<le> m | None \<Rightarrow> \<exists>th \<in> ths. t < th) \<and>
     (\<forall>tpl m. idk tpl = Some m \<longrightarrow> unat m < n)"

lemma stamp_Update:
  "stamp (fst (idk_Update b idk)) = (fst (newIdTuple b), snd (newIdTuple b),
     the (snd (idk_Update b idk) (newIdTuple b)))"
  by (simp add: stamp_def idk_Update_def newIdTuple_def ct_DtnTime_def Let_def split: option.split)

lemma word_add_1: "unat (m :: u64) < n \<Longrightarrow> n < 2 ^ 64 \<Longrightarrow> unat (m + 1) = unat m + 1 \<and> m < m + 1"
proof -
  assume "unat m < n" "n < 2 ^ 64"
  then have "unat (m + 1) = unat m + 1" by (simp add: unat_word_ariths)
  then show ?thesis by (simp add: word_less_nat_alt)
qed

lemma idk_inv_Update:
  assumes inv: "idk_inv given ths n idk" and n: "n < 2 ^ 64"
    and clock: "\<forall>th \<in> ths. \<not> snd (newIdTuple b) < th"
  shows "stamp (fst (idk_Update b idk)) \<notin> given \<and>
    idk_inv (insert (stamp (fst (idk_Update b idk))) given) ths (n + 1) (snd (idk_Update b idk))"
proof -
  obtain src t where tpl: "newIdTuple b = (src, t)" by fastforce
  define new where "new = (case idk (src, t) of Some m \<Rightarrow> m + 1 | None \<Rightarrow> 0)"
  have upd: "snd (idk_Update b idk) = idk((src, t) \<mapsto> new)"
    by (simp add: idk_Update_def tpl new_def Let_def split: option.split)
  have st: "stamp (fst (idk_Update b idk)) = (src, t, new)"
    by (simp add: stamp_Update tpl upd)
  have fresh: "s < new" if "(src, t, s) \<in> given" for s
  proof (cases "idk (src, t)")
    case None
    then have "\<exists>th \<in> ths. t < th" using inv that by (force simp: idk_inv_def)
    then show ?thesis using clock by (simp add: tpl)
  next
    case (Some m)
    then have "s \<le> m" "unat m < n" using inv that by (force simp: idk_inv_def)+
    then show ?thesis
      using word_add_1[of m n] n Some by (simp add: new_def order_le_less_trans)
  qed
  have "unat new < n + 1"
  proof (cases "idk (src, t)")
    case (Some m)
    then have "unat m < n" using inv by (auto simp: idk_inv_def)
    then show ?thesis using word_add_1[of m n] n Some by (simp add: new_def)
  qed (simp add: new_def)
  moreover have "(src, t, new) \<notin> given" using fresh[of new] by auto
  ultimately show ?thesis
    using inv fresh unfolding st upd idk_inv_def
    by (auto split: prod.splits option.splits simp: less_Suc_eq order_less_imp_le)
qed

lemma idk_inv_Clean:
  "idk_inv given ths n idk \<Longrightarrow> idk_inv given (insert (idk_threshold now) ths) n (idk_Clean now idk)"
  unfolding idk_inv_def idk_Clean_def by (auto split: option.splits if_splits prod.splits)

lemma idk_run_distinct:
  assumes "idk_inv given ths n idk" and "idk_clock_ok ths ops" and "n + length ops < 2 ^ 64"
  shows "distinct (map stamp (idk_run ops idk)) \<and> stamp ` set (idk_run ops idk) \<inter> given = {}"
  using assms
proof (induction ops arbitrary: given ths n idk)
  case (Cons op ops)
  show ?case
  proof (cases op)
    case (IdUpdate b)
    let ?b = "fst (idk_Update b idk)" and ?idk = "snd (idk_Update b idk)"
    have u: "stamp ?b \<notin> given" "idk_inv (insert (stamp ?b) given) ths (n + 1) ?idk"
      using idk_inv_Update[OF Cons.prems(1)] Cons.prems(2,3) IdUpdate by auto
    then have "distinct (map stamp (idk_run ops ?idk)) \<and>
        stamp ` set (idk_run ops ?idk) \<inter> insert (stamp ?b) given = {}"
      using Cons.IH[OF u(2)] Cons.prems(2,3) IdUpdate by simp
    then show ?thesis using u(1) IdUpdate by (auto simp: split_beta)
  next
    case (IdClean now)
    then show ?thesis using Cons.IH[OF idk_inv_Clean[OF Cons.prems(1)]] Cons.prems(2,3) by simp
  qed
qed simp

section \<open>Properties\<close>

text \<open>
  Claim C32: the keeper never gives the same source, creation time and sequence number to two
  bundles, in any sequence of updates and cleanings in which no bundle is created for a time that
  was already cleaned.
\<close>

theorem stamps_unique:
  assumes "InitializeIdKeeper None = Inr idk" and "idk_clock_ok {} ops" and "length ops < 2 ^ 64"
  shows "distinct (map stamp (idk_run ops idk))"
proof -
  have "idk_inv {} {} 0 idk" using assms(1) by (auto simp: idk_inv_def InitializeIdKeeper_def)
  then show ?thesis using idk_run_distinct assms(2,3) by fastforce
qed

theorem stamps_unique_witness:
  "distinct (map stamp (idk_run [IdUpdate sample_bundle, IdUpdate sample_bundle] Map.empty))"
  using stamps_unique[of Map.empty "[IdUpdate sample_bundle, IdUpdate sample_bundle]"]
  by (simp add: InitializeIdKeeper_def)

text \<open>
  Also shown: cleaning also forgets the creation time 0 of bundles from a node without a clock,
  which the comment on \<^verbatim>\<open>Clean\<close> says it keeps: two such bundles of one source get the same ID when a
  cleaning comes between them, in any year after 2000.
\<close>

theorem clean_forgets_epoch:
  assumes "CreationTimestamp (PrimaryBlock b) = (0, s)" and "idk_threshold now > 0"
  shows "let (b1, idk1) = idk_Update b Map.empty; (b2, idk2) = idk_Update b (idk_Clean now idk1)
    in b_ID b1 = b_ID b2"
  using assms
  by (simp add: idk_Update_def idk_Clean_def newIdTuple_def ct_DtnTime_def Let_def)

theorem clean_forgets_epoch_witness:
  "let b = sample_bundle\<lparr>PrimaryBlock := sample_primary\<lparr>CreationTimestamp := (0, 0)\<rparr>\<rparr>;
       (b1, idk1) = idk_Update b Map.empty;
       (b2, idk2) = idk_Update b (idk_Clean 1700000000000000000 idk1)
   in b_ID b1 = b_ID b2"
proof -
  have "idk_threshold 1700000000000000000 = 753311600000"
    by (simp add: idk_threshold_def hour_def DtnTimeFromTime_def UnixNano_def int64_def go_div_def
        milliseconds1970To2k_def nanoToMilli_def)
  then show ?thesis
    unfolding Let_def
    using clean_forgets_epoch[of "sample_bundle\<lparr>PrimaryBlock := sample_primary\<lparr>CreationTimestamp := (0, 0)\<rparr>\<rparr>"
        0 1700000000000000000]
    by simp
qed

end
