(* ===== verification/Agent_Manager.thy ===== *)
theory Agent_Manager
  imports Mailbox Id_Keeper
begin

text \<open>
  \<^verbatim>\<open>pkg/application_agent/agent.go\<close> and \<^verbatim>\<open>agent_manager.go\<close>: the interface of an application agent,
  the record \<open>application_agent\<close> of its methods over a type of agents, with its contract as a
  locale, and the manager that registers agents, delivers bundles to all of them and
  numbers the bundles they send. Starting an agent opens a socket: its outcome is an argument.
\<close>

record ('kv, 'ag) application_agent =
  ag_Name :: "'ag \<Rightarrow> string"
  ag_Endpoints :: "'ag \<Rightarrow> endpoint_id list"
  ag_Deliver :: "'kv bundle_store \<Rightarrow> nat \<Rightarrow> 'ag \<Rightarrow> aa_err option \<times> 'ag"
  ag_GC :: "'ag \<Rightarrow> nat list"

definition bagContainsEndpoint :: "endpoint_id list \<Rightarrow> endpoint_id list \<Rightarrow> bool" where
  "bagContainsEndpoint bag eids \<longleftrightarrow> (\<exists>eid \<in> set bag. eid \<in> set eids)"

section \<open>The manager\<close>

record 'ag agent_manager =
  agents :: "(string \<times> 'ag) list"

definition InitialiseApplicationAgentManager :: "'ag agent_manager" where
  "InitialiseApplicationAgentManager = \<lparr>agents = []\<rparr>"

definition aa_GetManagerSingleton :: "'ag agent_manager option \<Rightarrow> 'ag agent_manager res" where
  "aa_GetManagerSingleton singleton =
     (case singleton of
        None \<Rightarrow> Inl (Panic ''Attempting to access an uninitialised agent manager. This must never happen!'')
      | Some m \<Rightarrow> Inr m)"

text \<open>The agents that are told to shut down, each by a goroutine, and the manager without them.\<close>

definition aa_shutdown :: "'ag agent_manager \<Rightarrow> 'ag list \<times> 'ag agent_manager" where
  "aa_shutdown m = (map snd (agents m), m\<lparr>agents := []\<rparr>)"

definition ShutdownAAManager :: "'ag agent_manager option \<Rightarrow> 'ag list \<times> 'ag agent_manager option" where
  "ShutdownAAManager singleton =
     (case singleton of None \<Rightarrow> ([], None) | Some m \<Rightarrow> (fst (aa_shutdown m), None))"

definition GetEndpoints :: "('kv, 'ag) application_agent \<Rightarrow> 'ag agent_manager \<Rightarrow> endpoint_id list" where
  "GetEndpoints I m = concat (map (\<lambda>(name, agent). ag_Endpoints I agent) (agents m))"

definition RegisterAgent ::
  "('kv, 'ag) application_agent \<Rightarrow> 'ag \<Rightarrow> err option \<Rightarrow> 'ag agent_manager \<Rightarrow>
   aa_err option \<times> 'ag agent_manager" where
  "RegisterAgent I newAgent started m =
     (let agentName = ag_Name I newAgent
      in if map_of (agents m) agentName \<noteq> None then (Some (AgentAlreadyRegisteredError agentName), m)
         else case started of
                Some e \<Rightarrow> (Some (AgentError e), m)
              | None \<Rightarrow> (None, m\<lparr>agents := mapset agentName newAgent (agents m)\<rparr>))"

definition UnregisterAgent :: "string \<Rightarrow> 'ag agent_manager \<Rightarrow> aa_err option \<times> 'ag agent_manager" where
  "UnregisterAgent agentName m =
     (case map_of (agents m) agentName of
        None \<Rightarrow> (Some (NoSuchAgentError agentName), m)
      | Some agent \<Rightarrow> (None, m\<lparr>agents := mapdel agentName (agents m)\<rparr>))"

definition Delivery ::
  "('kv, 'ag) application_agent \<Rightarrow> 'kv bundle_store \<Rightarrow> nat \<Rightarrow> 'ag agent_manager \<Rightarrow> 'ag agent_manager" where
  "Delivery I st a m =
     m\<lparr>agents := map (\<lambda>(name, agent). (name, snd (ag_Deliver I st a agent))) (agents m)\<rparr>"

text \<open>\<open>Send\<close> returns the ID and the bundles handed to the callback.\<close>

definition Send :: "dtn_bundle \<Rightarrow> id_keeper \<Rightarrow> bundle_id \<times> dtn_bundle list \<times> id_keeper" where
  "Send b idk = (case idk_Update b idk of (b, idk) \<Rightarrow> (b_ID b, [b], idk))"

definition aa_GC :: "('kv, 'ag) application_agent \<Rightarrow> 'ag agent_manager \<Rightarrow> (string \<times> nat list) list" where
  "aa_GC I m = map (\<lambda>(name, agent). (name, ag_GC I agent)) (agents m)"

section \<open>The contract of an agent\<close>

text \<open>
  The manager relies on an agent to keep its name and its endpoints when a bundle is delivered, and to
  change nothing when it refuses the bundle.
\<close>

locale agent_interface =
  fixes I :: "('kv, 'ag) application_agent"
  assumes deliver_name: "ag_Name I (snd (ag_Deliver I st a agent)) = ag_Name I agent"
    and deliver_endpoints: "ag_Endpoints I (snd (ag_Deliver I st a agent)) = ag_Endpoints I agent"
    and deliver_refused: "fst (ag_Deliver I st a agent) = Some e \<Longrightarrow> snd (ag_Deliver I st a agent) = agent"
begin

definition manager_ok :: "'ag agent_manager \<Rightarrow> bool" where
  "manager_ok m \<longleftrightarrow> distinct (map fst (agents m)) \<and> (\<forall>(name, agent) \<in> set (agents m). name = ag_Name I agent)"

lemma Register_ok: "manager_ok m \<Longrightarrow> manager_ok (snd (RegisterAgent I agent started m))"
  by (auto simp: manager_ok_def RegisterAgent_def Let_def mapset_def map_of_eq_None_iff split: option.split)

lemma Unregister_ok: "manager_ok m \<Longrightarrow> manager_ok (snd (UnregisterAgent name m))"
  by (auto simp: manager_ok_def UnregisterAgent_def mapdel_def distinct_map_filter split: option.split)

lemma Delivery_ok: "manager_ok m \<Longrightarrow> manager_ok (Delivery I st a m)"
  by (auto simp: manager_ok_def Delivery_def comp_def split_beta deliver_name)

lemma Delivery_endpoints: "GetEndpoints I (Delivery I st a m) = GetEndpoints I m"
  by (simp add: GetEndpoints_def Delivery_def comp_def case_prod_unfold deliver_endpoints)

lemma Delivery_refused:
  assumes "\<forall>(name, agent) \<in> set (agents m). fst (ag_Deliver I st a agent) \<noteq> None"
  shows "Delivery I st a m = m"
proof -
  have "map (\<lambda>(name, agent). (name, snd (ag_Deliver I st a agent))) (agents m) = agents m"
    using assms deliver_refused by (intro map_idI) fastforce
  then show ?thesis by (simp add: Delivery_def)
qed

end

end
