(* ===== verification/Processing.thy ===== *)
theory Processing
  imports Routing Agent_Manager
begin

text \<open>
  \<^verbatim>\<open>pkg/processing/processing.go\<close> and \<^verbatim>\<open>reception.go\<close>: the forwarding procedure of RFC 9171 over the
  store, the CLA manager and the routing algorithm, and the reception of a bundle. The handler
  \<open>forwardingAsync\<close> is a function: what it does when no other goroutine interferes. As several
  forwardings run at once, \<open>fwd_step\<close> splits the same code at its lock boundaries into atomic
  steps; running the steps of one handler alone gives the function back. The outcome of sending
  to a peer is the argument \<open>send\<close>.
\<close>

section \<open>The bundle that is sent\<close>

text \<open>
  Step 4: the previous node block is replaced by one that names this node. Of a bundle that
  could be read only in part nothing is known, so it stays as it is.
\<close>

definition add_previous_node :: "endpoint_id \<Rightarrow> dtn_bundle \<Rightarrow> dtn_bundle res" where
  "add_previous_node own b =
     (case AddExtensionBlock (NewCanonicalBlock 0 0 (PreviousNodeBlock own)) b of
        Inl (Panic p) \<Rightarrow> Inl (Panic p) | Inl _ \<Rightarrow> Inr b | Inr b' \<Rightarrow> Inr b')"

definition replace_previous_node :: "endpoint_id \<Rightarrow> dtn_bundle \<Rightarrow> dtn_bundle res" where
  "replace_previous_node own b =
     (case ExtensionBlockByType b BlockTypePreviousNodeBlock of
        Inl (Panic p) \<Rightarrow> Inl (Panic p)
      | Inl _ \<Rightarrow> add_previous_node own b
      | Inr i \<Rightarrow>
          add_previous_node own
            (RemoveExtensionBlockByBlockNumber (BlockNumber (ExtensionBlocks b ! i)) b))"

definition outgoing :: "endpoint_id \<Rightarrow> loaded \<Rightarrow> loaded res" where
  "outgoing own l =
     (case l of Incomplete e \<Rightarrow> Inr (Incomplete e)
      | Loaded b \<Rightarrow> andThen (replace_previous_node own b) (\<lambda>b. Inr (Loaded b)))"

section \<open>Forwarding\<close>

definition bundleContraindicated :: "nat \<Rightarrow> 'kv bundle_store \<Rightarrow> 'kv bundle_store" where
  "bundleContraindicated a st = snd (on_descriptor ResetConstraints a st)"

text \<open>Sending to one peer: what went out, and the new store.\<close>

type_synonym sent = "convergence \<times> loaded"

definition forwardBundleToPeer ::
  "'kv store_env \<Rightarrow> (convergence \<Rightarrow> err option) \<Rightarrow> nat \<Rightarrow> convergence \<Rightarrow> 'kv bundle_store \<Rightarrow> 'kv bundle_store" where
  "forwardBundleToPeer E send a peer st =
     (if send peer = None then snd (store_AddKnownHolder (env_db E) [cla_peer peer] a st) else st)"

definition forwardingAsync ::
  "'kv store_env \<Rightarrow> 'kv algorithm \<Rightarrow> endpoint_id \<Rightarrow> time \<Rightarrow> nat \<Rightarrow> (convergence \<Rightarrow> err option) \<Rightarrow>
   convergence list \<Rightarrow> nat \<Rightarrow> 'kv bundle_store \<Rightarrow> (sent list \<times> 'kv bundle_store) res option" where
  "forwardingAsync E A own now rnd send peers a st =
     (case on_descriptor (AddConstraint ForwardPending) a st of
        (Some e, st) \<Rightarrow> Some (Inr ([], st))
      | (None, st) \<Rightarrow>
     (case on_descriptor (RemoveConstraint DispatchPending) a st of
        (Some e, st) \<Rightarrow> Some (Inr ([], st))
      | (None, st) \<Rightarrow>
     (case SelectPeersForForwarding A now rnd a peers st of
        Inl e \<Rightarrow> Some (Inl e)
      | Inr (([], _), st) \<Rightarrow> Some (Inr ([], bundleContraindicated a st))
      | Inr ((forwardToPeers, bndl), st) \<Rightarrow>
          (case (case bndl of Some l \<Rightarrow> Some (Inr l) | None \<Rightarrow> Load E now a st) of
             None \<Rightarrow> None
           | Some (Inl (LibError (Panic p))) \<Rightarrow> Some (Inl (Panic p))
           | Some (Inl e) \<Rightarrow> Some (Inr ([], st))
           | Some (Inr l) \<Rightarrow>
               (case outgoing own l of
                  Inl e \<Rightarrow> Some (Inl e)
                | Inr l \<Rightarrow>
                    let st = fold (forwardBundleToPeer E send a) forwardToPeers st
                    in Some (Inr (map (\<lambda>p. (p, l)) (filter (\<lambda>p. send p = None) forwardToPeers),
                         snd (on_descriptor (RemoveConstraint ForwardPending) a st))))))))"

text \<open>Every dispatchable bundle gets a goroutine; a new peer is told to the routing first.\<close>

definition DispatchPending_all :: "'kv bundle_store \<Rightarrow> nat list" where
  "DispatchPending_all st = GetDispatchable st"

definition NewPeer :: "'kv algorithm \<Rightarrow> endpoint_id \<Rightarrow> 'kv bundle_store \<Rightarrow> nat list \<times> 'kv bundle_store" where
  "NewPeer A peerID st =
     (let st = NotifyPeerAppeared A peerID st in (DispatchPending_all st, st))"

section \<open>Reception\<close>

text \<open>
  A bundle from this node (\<open>created\<close>) or from another: the goroutines that forward it, the agents
  and the store. A panic of the routing algorithm ends the program.
\<close>

definition receiveAsync ::
  "'kv store_env \<Rightarrow> 'kv algorithm \<Rightarrow> ('kv, 'ag) application_agent \<Rightarrow> disk \<Rightarrow> dtn_bundle \<Rightarrow> bool \<Rightarrow>
   'ag agent_manager \<Rightarrow> 'kv bundle_store \<Rightarrow> (nat list \<times> 'ag agent_manager \<times> 'kv bundle_store) res" where
  "receiveAsync E A I d b created m st =
     (case InsertBundle E d b st of
        (Inl (LibError (Panic p)), st) \<Rightarrow> Inl (Panic p)
      | (Inl e, st) \<Rightarrow> Inr ([], m, st)
      | (Inr a, st) \<Rightarrow>
          let m = Delivery I st a m
          in andThen ((if created then NotifyNewBundle A else NotifyReceivedBundle A) a b st) (\<lambda>st.
               Inr (if HasConstraint DispatchPending (heap st ! a) = Inr True then [a] else [], m, st)))"

section \<open>The bundle that is sent, verified\<close>

abbreviation is_previous_node :: "canonical_block \<Rightarrow> bool" where
  "is_previous_node cb \<equiv> TypeCode cb = Inr BlockTypePreviousNodeBlock"

lemma TypeCode_number [simp]: "TypeCode (cb\<lparr>BlockNumber := n\<rparr>) = TypeCode cb"
  by (simp add: TypeCode_def)

lemma types_of_values: "\<forall>cb \<in> set cbs. Value cb \<noteq> None \<Longrightarrow> \<exists>codes. map_res TypeCode cbs = Inr codes"
  by (induction cbs) (auto simp: TypeCode_def)

lemma remove_first_mset:
  assumes "distinct (map f xs)" "x \<in> set xs"
  shows "mset (remove_first (\<lambda>y. f y = f x) xs) = mset xs - {#x#}"
  using assms by (induction xs) auto

lemma filter_type_single:
  assumes "map_res TypeCode cbs = Inr codes" "filter (\<lambda>i. codes ! i = t) [0..<length codes] = js"
  shows "filter (\<lambda>cb. TypeCode cb = Inr t) cbs = map ((!) cbs) js"
proof -
  have len: "length codes = length cbs" using map_res_Inr_length[OF assms(1)] by simp
  have "filter (\<lambda>cb. TypeCode cb = Inr t) cbs = filter (\<lambda>cb. TypeCode cb = Inr t) (map ((!) cbs) [0..<length cbs])"
    by (simp add: map_nth)
  also have "\<dots> = map ((!) cbs) (filter (\<lambda>i. TypeCode (cbs ! i) = Inr t) [0..<length cbs])"
    by (simp add: filter_map comp_def)
  also have "filter (\<lambda>i. TypeCode (cbs ! i) = Inr t) [0..<length cbs] = js"
    unfolding assms(2)[symmetric] len by (rule filter_cong) (simp_all add: map_res_nth[OF assms(1)])
  finally show ?thesis .
qed

lemma added_previous_node:
  assumes ok: "distinct (block_numbers b)" and len: "length (ExtensionBlocks b) < 2 ^ 63"
    and none: "filter is_previous_node (ExtensionBlocks b) = []"
  obtains b' n where "AddExtensionBlock (NewCanonicalBlock 0 0 (PreviousNodeBlock own)) b = Inr b'"
    "blocks_ok b'" "PrimaryBlock b' = PrimaryBlock b" "b_PayloadBlock b' = b_PayloadBlock b"
    "filter_mset is_previous_node (mset (ExtensionBlocks b')) = {#NewCanonicalBlock n 0 (PreviousNodeBlock own)#}"
    "filter_mset (\<lambda>cb. \<not> is_previous_node cb) (mset (ExtensionBlocks b')) = mset (ExtensionBlocks b)"
proof -
  let ?cb = "NewCanonicalBlock 0 0 (PreviousNodeBlock own)"
  have code: "TypeCode ?cb = Inr BlockTypePreviousNodeBlock" by (simp add: TypeCode_def NewCanonicalBlock_def)
  then obtain b' where b': "AddExtensionBlock ?cb b = Inr b'" by (simp add: AddExtensionBlock_def Let_def)
  obtain c where eq: "b' = sortExtensionBlocks (b\<lparr>ExtensionBlocks := ExtensionBlocks b @
      [?cb\<lparr>BlockNumber := word_of_nat (fresh_number b c)\<rparr>]\<rparr>)" by (rule AddExtensionBlock_Inr[OF b'])
  define n :: u64 where "n = word_of_nat (fresh_number b c)"
  have m: "mset (ExtensionBlocks b') = add_mset (?cb\<lparr>BlockNumber := n\<rparr>) (mset (ExtensionBlocks b))"
    by (simp add: eq n_def)
  have ok': "blocks_ok b'" "PrimaryBlock b' = PrimaryBlock b" "b_PayloadBlock b' = b_PayloadBlock b"
    using AddExtensionBlock_ok[OF ok len b'] AddExtensionBlock_other[OF b'] by auto
  have cb: "?cb\<lparr>BlockNumber := n\<rparr> = NewCanonicalBlock n 0 (PreviousNodeBlock own)"
    by (simp add: NewCanonicalBlock_def)
  have "filter_mset is_previous_node (mset (ExtensionBlocks b)) = {#}"
    using none by (metis mset.simps(1) mset_filter)
  moreover have "filter_mset (\<lambda>cb. \<not> is_previous_node cb) (mset (ExtensionBlocks b)) = mset (ExtensionBlocks b)"
    using none by (simp add: filter_mset_eq_conv filter_empty_conv)
  moreover have "is_previous_node (NewCanonicalBlock n 0 (PreviousNodeBlock own))"
    by (simp add: TypeCode_def NewCanonicalBlock_def)
  ultimately show ?thesis using that[OF b' ok', of n] m unfolding cb by simp
qed

lemma replace_previous_node_cases:
  assumes vals: "\<forall>cb \<in> set (ExtensionBlocks b). Value cb \<noteq> None" and ok: "distinct (block_numbers b)"
    and one: "length (filter is_previous_node (ExtensionBlocks b)) \<le> 1"
  obtains b0 where "replace_previous_node own b = add_previous_node own b0"
    "distinct (block_numbers b0)" "length (ExtensionBlocks b0) \<le> length (ExtensionBlocks b)"
    "PrimaryBlock b0 = PrimaryBlock b" "b_PayloadBlock b0 = b_PayloadBlock b"
    "filter is_previous_node (ExtensionBlocks b0) = []"
    "mset (ExtensionBlocks b0) = filter_mset (\<lambda>cb. \<not> is_previous_node cb) (mset (ExtensionBlocks b))"
proof -
  let ?xs = "ExtensionBlocks b"
  obtain codes where codes: "map_res TypeCode ?xs = Inr codes" using types_of_values[OF vals] by blast
  define found where "found = filter (\<lambda>i. codes ! i = BlockTypePreviousNodeBlock) [0..<length codes]"
  have f: "filter is_previous_node ?xs = map ((!) ?xs) found"
    by (rule filter_type_single[OF codes]) (simp add: found_def)
  show ?thesis
  proof (cases found)
    case Nil
    then have none: "filter is_previous_node ?xs = []" using f by simp
    then have "filter_mset (\<lambda>cb. \<not> is_previous_node cb) (mset ?xs) = mset ?xs"
      by (simp add: filter_mset_eq_conv filter_empty_conv)
    moreover have "ExtensionBlockByType b BlockTypePreviousNodeBlock =
        Inl (Errorf ''no CanonicalBlock with block type was found in Bundle'')"
      using codes Nil by (simp add: ExtensionBlockByType_def ExtensionBlocksByType_def found_def[symmetric] Let_def)
    ultimately show ?thesis
      using none ok by (intro that[of b]) (simp_all add: replace_previous_node_def)
  next
    case (Cons i js)
    then have i: "found = [i]" using one f by simp
    then have "i \<in> set found" by simp
    then have ib: "i < length ?xs" using map_res_Inr_length[OF codes] by (simp add: found_def)
    have single: "filter is_previous_node ?xs = [?xs ! i]" using f i by simp
    let ?b0 = "RemoveExtensionBlockByBlockNumber (BlockNumber (?xs ! i)) b"
    have "distinct (map BlockNumber ?xs)" using ok by (simp add: block_numbers_def)
    then have ms: "mset (ExtensionBlocks ?b0) = mset ?xs - {#?xs ! i#}"
      using remove_first_mset[of BlockNumber ?xs "?xs ! i"] ib
      by (simp add: RemoveExtensionBlockByBlockNumber_def)
    have "filter_mset is_previous_node (mset ?xs) = {#?xs ! i#}"
      using single by (metis mset.simps mset_filter)
    moreover have "mset ?xs = filter_mset is_previous_node (mset ?xs) + filter_mset (\<lambda>cb. \<not> is_previous_node cb) (mset ?xs)"
      by (simp add: multiset_partition)
    ultimately have rest: "mset (ExtensionBlocks ?b0) = filter_mset (\<lambda>cb. \<not> is_previous_node cb) (mset ?xs)"
      using ms by (metis add_diff_cancel_left')
    have "filter is_previous_node (ExtensionBlocks ?b0) = []"
      using arg_cong[OF rest, of set_mset] by (auto simp: filter_empty_conv)
    moreover have "length (ExtensionBlocks ?b0) \<le> length ?xs"
      using arg_cong[OF rest, of size] size_filter_mset_lesseq[of _ "mset ?xs"] by simp
    moreover have "ExtensionBlockByType b BlockTypePreviousNodeBlock = Inr i"
      using codes i by (simp add: ExtensionBlockByType_def ExtensionBlocksByType_def found_def[symmetric] Let_def)
    moreover have "PrimaryBlock ?b0 = PrimaryBlock b" "b_PayloadBlock ?b0 = b_PayloadBlock b"
      by (simp_all add: RemoveExtensionBlockByBlockNumber_def)
    ultimately show ?thesis
      using rest RemoveExtensionBlock_distinct[OF ok]
      by (intro that[of ?b0]) (simp_all add: replace_previous_node_def)
  qed
qed

lemma replace_previous_node_ok:
  assumes vals: "\<forall>cb \<in> set (ExtensionBlocks b). Value cb \<noteq> None" and ok: "distinct (block_numbers b)"
    and one: "length (filter is_previous_node (ExtensionBlocks b)) \<le> 1"
    and len: "length (ExtensionBlocks b) < 2 ^ 63"
  shows "\<exists>b' n. replace_previous_node own b = Inr b' \<and> blocks_ok b' \<and>
    PrimaryBlock b' = PrimaryBlock b \<and> b_PayloadBlock b' = b_PayloadBlock b \<and>
    filter_mset is_previous_node (mset (ExtensionBlocks b')) = {#NewCanonicalBlock n 0 (PreviousNodeBlock own)#} \<and>
    filter_mset (\<lambda>cb. \<not> is_previous_node cb) (mset (ExtensionBlocks b')) =
    filter_mset (\<lambda>cb. \<not> is_previous_node cb) (mset (ExtensionBlocks b))"
proof (rule replace_previous_node_cases[OF vals ok one])
  fix b0
  assume b0: "replace_previous_node own b = add_previous_node own b0" "distinct (block_numbers b0)"
    "length (ExtensionBlocks b0) \<le> length (ExtensionBlocks b)"
    "PrimaryBlock b0 = PrimaryBlock b" "b_PayloadBlock b0 = b_PayloadBlock b"
    "filter is_previous_node (ExtensionBlocks b0) = []"
    "mset (ExtensionBlocks b0) = filter_mset (\<lambda>cb. \<not> is_previous_node cb) (mset (ExtensionBlocks b))"
  have "length (ExtensionBlocks b0) < 2 ^ 63" using b0(3) len by (rule le_less_trans)
  from added_previous_node[OF b0(2) this b0(6), of own] obtain b' n where
    "AddExtensionBlock (NewCanonicalBlock 0 0 (PreviousNodeBlock own)) b0 = Inr b'"
    "blocks_ok b'" "PrimaryBlock b' = PrimaryBlock b0" "b_PayloadBlock b' = b_PayloadBlock b0"
    "filter_mset is_previous_node (mset (ExtensionBlocks b')) = {#NewCanonicalBlock n 0 (PreviousNodeBlock own)#}"
    "filter_mset (\<lambda>cb. \<not> is_previous_node cb) (mset (ExtensionBlocks b')) = mset (ExtensionBlocks b0)"
    by metis
  then show ?thesis using b0 by (intro exI[of _ b'] exI[of _ n]) (simp add: add_previous_node_def)
qed

section \<open>What forwarding does to the store\<close>

text \<open>
  Known holders are never forgotten and deleted descriptors stay deleted, whatever the node does.
\<close>

abbreviation holders :: "'kv bundle_store \<Rightarrow> nat \<Rightarrow> endpoint_id list" where
  "holders st a \<equiv> md_KnownHolders (metadata (heap st ! a))"

definition store_mono :: "'kv bundle_store \<Rightarrow> 'kv bundle_store \<Rightarrow> bool" where
  "store_mono st st' \<longleftrightarrow> length (heap st) \<le> length (heap st') \<and>
     (\<forall>a < length (heap st). (deleted (heap st ! a) \<longrightarrow> deleted (heap st' ! a)) \<and>
        set (holders st a) \<subseteq> set (holders st' a))"

lemma store_mono_refl [simp]: "store_mono st st"
  by (simp add: store_mono_def)

lemma store_mono_trans: "store_mono st st' \<Longrightarrow> store_mono st' st'' \<Longrightarrow> store_mono st st''"
  unfolding store_mono_def by (meson less_le_trans order_trans)

lemma store_mono_heap: "heap st' = heap st \<Longrightarrow> store_mono st st'"
  by (simp add: store_mono_def)

lemma store_mono_update:
  assumes "heap st' = (heap st)[a := bd]"
    and "a < length (heap st) \<Longrightarrow> (deleted (heap st ! a) \<longrightarrow> deleted bd) \<and>
      set (holders st a) \<subseteq> set (md_KnownHolders (metadata bd))"
  shows "store_mono st st'"
  using assms by (auto simp: store_mono_def nth_update_at split: if_splits)

lemma op_as_run:
  "AddConstraint c = run_op (OpAdd c)" "RemoveConstraint c = run_op (OpRemove c)"
  "ResetConstraints = run_op OpReset" "Delete mark = run_op (OpDelete mark)"
  by (rule ext, simp)+

lemma mono_descriptor: "store_mono st (snd (on_descriptor (run_op op) a st))"
  by (rule store_mono_update[where a = a and bd = "fst (snd (run_op op (heap st ! a)))"])
    (simp_all add: on_descriptor_eq run_op_deleted_mono)

lemmas mono_constraint = mono_descriptor[of _ "OpAdd ForwardPending", folded op_as_run]
  mono_descriptor[of _ "OpRemove DispatchPending", folded op_as_run]
  mono_descriptor[of _ "OpRemove ForwardPending", folded op_as_run]
  mono_descriptor[of _ "OpReset", folded op_as_run]

lemma mono_holder: "store_mono st (snd (store_AddKnownHolder K ps a st))"
  by (rule store_mono_update[where a = a and bd = "fst (snd (AddKnownHolder K ps (heap st ! a) (metadataStore st)))"])
    (auto simp: store_AddKnownHolder_def AddKnownHolder_def Let_def split: sum.split)

lemma mono_misc: "store_mono st (snd (store_SetMiscData K key v a st))"
  by (rule store_mono_update[where a = a and bd = "fst (snd (SetMiscData K key v (heap st ! a) (metadataStore st)))"])
    (auto simp: store_SetMiscData_def SetMiscData_def Let_def split: sum.split)

lemma mono_same: "same_state st st' \<Longrightarrow> store_mono st st'"
  by (simp add: same_state_def store_mono_def)

lemma mono_collect: "store_mono st (GarbageCollect now st)"
proof -
  have "store_mono st (fold (\<lambda>a st. if Expired now (heap st ! a) \<and> \<not> Retain (heap st ! a)
      then snd (on_descriptor (Delete False) a st) else st) as st)" for as and st :: "'a bundle_store"
  proof (induction as arbitrary: st)
    case (Cons a as)
    have "store_mono st (snd (on_descriptor (Delete False) a st))"
      unfolding op_as_run by (rule mono_descriptor)
    then show ?case using Cons.IH store_mono_trans by simp blast
  qed simp
  then show ?thesis unfolding GarbageCollect_def .
qed

lemma mono_run: "store_mono st (run_pending K i st)"
  by (rule store_mono_heap)
    (simp add: run_pending_def deleteBundle_def deleteFromDiskUnsafe_def Let_def split: sum.split)

lemma mono_insert:
  assumes "InsertBundle E d b st = (r, st')"
  shows "store_mono st st'"
proof (cases "map_of (bundles st) (b_ID b)")
  case None
  then have "\<exists>new. heap st' = heap st @ new"
    using assms
    by (auto simp: InsertBundle_def insertNewBundleUnsafe_def deleteFromDiskUnsafe_def Let_def
        split: sum.splits option.splits prod.splits if_splits)
  then show ?thesis by (auto simp: store_mono_def nth_append)
next
  case (Some a)
  then have "st' = st \<or> (\<exists>ps. st' = snd (store_AddKnownHolder (env_db E) ps a st))"
    using assms
    by (auto simp: InsertBundle_def split: sum.splits list.splits prod.splits option.splits)
      (metis snd_conv)+
  then show ?thesis using mono_holder by auto
qed

lemma mono_step: "store_step E st st' \<Longrightarrow> store_mono st st'"
  by (induction rule: store_step.induct)
    (simp_all add: mono_insert mono_descriptor mono_holder mono_misc mono_collect mono_run)

text \<open>The descriptor after the stages of one forwarding.\<close>

lemma forward_all:
  assumes "a < length (heap st)" "\<not> deleted (heap st ! a)"
  shows "length (heap (fold (forwardBundleToPeer E send a) ps st)) = length (heap st)" (is ?len)
    "heap (fold (forwardBundleToPeer E send a) ps st) ! a = (heap st ! a)\<lparr>metadata := (metadata (heap st ! a))
      \<lparr>md_KnownHolders := holders st a @ map cla_peer (filter (\<lambda>p. send p = None) ps)\<rparr>\<rparr>" (is ?at)
proof -
  have "?len \<and> ?at" using assms
  proof (induction ps arbitrary: st)
    case (Cons p ps)
    let ?st = "forwardBundleToPeer E send a p st"
    have 1: "length (heap ?st) = length (heap st)"
      "heap ?st ! a = (heap st ! a)\<lparr>metadata := (metadata (heap st ! a))
        \<lparr>md_KnownHolders := holders st a @ map cla_peer (filter (\<lambda>p. send p = None) [p])\<rparr>\<rparr>"
      using Cons.prems
      by (auto simp: forwardBundleToPeer_def store_AddKnownHolder_def AddKnownHolder_def Let_def
          split: sum.split)
    then show ?case using Cons.IH[of ?st] Cons.prems by simp
  qed simp
  then show ?len ?at by blast+
qed

lemma start_forwarding:
  assumes a: "a < length (heap st)" "\<not> deleted (heap st ! a)"
  obtains st1 st2 where "on_descriptor (AddConstraint ForwardPending) a st = (None, st1)"
    "on_descriptor (RemoveConstraint DispatchPending) a st1 = (None, st2)"
    "length (heap st2) = length (heap st)" "bundles st2 = bundles st" "files st2 = files st"
    "metadata (heap st2 ! a) = metadata (heap st ! a)" "\<not> deleted (heap st2 ! a)"
    "shouldDelete (heap st2 ! a) = shouldDelete (heap st ! a)"
    "retentionConstraints (heap st2 ! a) =
       filter (\<lambda>c. c \<noteq> DispatchPending) (retentionConstraints (heap st ! a)) @ [ForwardPending]"
proof -
  let ?d1 = "(heap st ! a)\<lparr>retentionConstraints := retentionConstraints (heap st ! a) @ [ForwardPending],
    retain := True, dispatch := False\<rparr>"
  let ?st1 = "st\<lparr>heap := (heap st)[a := ?d1], pending := pending st @ []\<rparr>"
  let ?rc = "filter (\<lambda>c. c \<noteq> DispatchPending) (retentionConstraints (heap st ! a)) @ [ForwardPending]"
  let ?d2 = "?d1\<lparr>dispatch := False, retentionConstraints := ?rc, retain := True\<rparr>"
  have 1: "on_descriptor (AddConstraint ForwardPending) a st = (None, ?st1)"
    using a by (simp add: on_descriptor_def AddConstraint_def Constraint_Valid_def)
  have "RemoveConstraint DispatchPending ?d1 = (None, ?d2, [])"
    using a by (simp add: RemoveConstraint_def Let_def)
  then have 2: "on_descriptor (RemoveConstraint DispatchPending) a ?st1 =
      (None, ?st1\<lparr>heap := (heap ?st1)[a := ?d2], pending := pending ?st1 @ []\<rparr>)"
    using a by (simp add: on_descriptor_def)
  show ?thesis by (rule that[OF 1 2]) (use a in simp_all)
qed

lemma reset_at:
  "length (heap (bundleContraindicated a st)) = length (heap st)"
  "a < length (heap st) \<Longrightarrow> metadata (heap (bundleContraindicated a st) ! a) = metadata (heap st ! a)"
  "a < length (heap st) \<Longrightarrow> \<not> deleted (heap st ! a) \<Longrightarrow>
    deleted (heap (bundleContraindicated a st) ! a) = shouldDelete (heap st ! a) \<and>
    retentionConstraints (heap (bundleContraindicated a st) ! a) = [] \<and>
    \<not> retain (heap (bundleContraindicated a st) ! a) \<and> dispatch (heap (bundleContraindicated a st) ! a)"
  by (auto simp: bundleContraindicated_def on_descriptor_def ResetConstraints_def unsafeDelete_def Let_def)

lemma release_at:
  fixes st :: "'kv bundle_store" and a :: nat
  defines "st' \<equiv> snd (on_descriptor (RemoveConstraint ForwardPending) a st)"
  shows "length (heap st') = length (heap st)"
    "a < length (heap st) \<Longrightarrow> metadata (heap st' ! a) = metadata (heap st ! a)"
    "a < length (heap st) \<Longrightarrow> \<not> deleted (heap st ! a) \<Longrightarrow>
      retentionConstraints (heap st' ! a) = filter (\<lambda>c. c \<noteq> ForwardPending) (retentionConstraints (heap st ! a)) \<and>
      (retain (heap st' ! a) \<longleftrightarrow> retentionConstraints (heap st' ! a) \<noteq> []) \<and> dispatch (heap st' ! a) \<and>
      (deleted (heap st' ! a) \<longleftrightarrow> shouldDelete (heap st ! a) \<and> retentionConstraints (heap st' ! a) = [])"
  by (auto simp: st'_def on_descriptor_def RemoveConstraint_def unsafeDelete_def Let_def)

text \<open>
  What a forwarding leaves of the retention constraints: none if there was nobody to send to, and else
  those that are not of the forwarding; a bundle that was to be deleted goes with the last one.
\<close>

definition released :: "bool \<Rightarrow> descriptor \<Rightarrow> descriptor \<Rightarrow> bool" where
  "released nobody bd bd' \<longleftrightarrow>
     (let cs = (if nobody then []
        else filter (\<lambda>c. c \<noteq> DispatchPending \<and> c \<noteq> ForwardPending) (retentionConstraints bd))
      in retentionConstraints bd' = cs \<and> (Deleted bd' \<longleftrightarrow> shouldDelete bd \<and> cs = []) \<and>
        (Retain bd' \<longleftrightarrow> cs \<noteq> []) \<and> (Dispatch bd' \<longleftrightarrow> \<not> Deleted bd'))"

lemma released_live: "released nobody bd bd' \<Longrightarrow> \<not> shouldDelete bd \<Longrightarrow> Dispatch bd'"
  by (simp add: released_def Let_def)

lemma metadata_same: "metadata (d\<lparr>metadata := m\<rparr>) = m" by simp

text \<open>
  The ways a forwarding of a live descriptor can end: nobody to send to, a bundle that cannot be
  loaded, or a bundle sent to the selected peers.
\<close>

lemma forwarding_cases:
  assumes a: "a < length (heap st)" "\<not> deleted (heap st ! a)"
    and f: "forwardingAsync E A own now rnd send peers a st = Some (Inr (out, st'))"
  obtains (nobody) st2 st3 bndl where
    "SelectPeersForForwarding A now rnd a peers st2 = Inr (([], bndl), st3)"
    "st' = bundleContraindicated a st3" "out = []"
    "on_descriptor (RemoveConstraint DispatchPending) a (snd (on_descriptor (AddConstraint ForwardPending) a st)) = (None, st2)"
  | (failed) st2 st3 ps e where
    "SelectPeersForForwarding A now rnd a peers st2 = Inr ((ps, None), st3)" "ps \<noteq> []"
    "Load E now a st3 = Some (Inl e)" "st' = st3" "out = []"
    "on_descriptor (RemoveConstraint DispatchPending) a (snd (on_descriptor (AddConstraint ForwardPending) a st)) = (None, st2)"
  | (sending) st2 st3 ps bndl l l' where
    "SelectPeersForForwarding A now rnd a peers st2 = Inr ((ps, bndl), st3)" "ps \<noteq> []"
    "bndl = Some l \<or> bndl = None \<and> Load E now a st3 = Some (Inr l)" "outgoing own l = Inr l'"
    "out = map (\<lambda>p. (p, l')) (filter (\<lambda>p. send p = None) ps)"
    "st' = snd (on_descriptor (RemoveConstraint ForwardPending) a (fold (forwardBundleToPeer E send a) ps st3))"
    "on_descriptor (RemoveConstraint DispatchPending) a (snd (on_descriptor (AddConstraint ForwardPending) a st)) = (None, st2)"
proof -
  obtain st1 st2 where st: "on_descriptor (AddConstraint ForwardPending) a st = (None, st1)"
    "on_descriptor (RemoveConstraint DispatchPending) a st1 = (None, st2)"
    by (rule start_forwarding[OF a])
  have st2: "on_descriptor (RemoveConstraint DispatchPending) a
      (snd (on_descriptor (AddConstraint ForwardPending) a st)) = (None, st2)" using st by simp
  note f = f[unfolded forwardingAsync_def st option.case prod.case]
  obtain ps bndl st3 where sel: "SelectPeersForForwarding A now rnd a peers st2 = Inr ((ps, bndl), st3)"
    using f by (cases "SelectPeersForForwarding A now rnd a peers st2") auto
  show ?thesis
  proof (cases "ps = []")
    case True
    show ?thesis by (rule nobody[OF sel[unfolded True] _ _ st2]) (use f sel True in simp_all)
  next
    case ne: False
    then obtain p ps' where ps: "ps = p # ps'" by (cases ps) auto
    show ?thesis
    proof (cases "\<exists>e. bndl = None \<and> Load E now a st3 = Some (Inl e)")
      case True
      then obtain e where e: "bndl = None" "Load E now a st3 = Some (Inl e)" by blast
      show ?thesis
        by (rule failed[OF sel[unfolded e(1)] ne e(2) _ _ st2])
          (use f sel ps e in \<open>auto split: store_err.splits err.splits\<close>)
    next
      case False
      then obtain l where l: "bndl = Some l \<or> bndl = None \<and> Load E now a st3 = Some (Inr l)"
        using f sel ps by (auto split: option.splits sum.splits)
      then obtain l' where l': "outgoing own l = Inr l'"
        using f sel ps by (auto split: sum.splits)
      show ?thesis
        by (rule sending[OF sel ne l l' _ _ st2]) (use f sel ps l l' in \<open>auto simp: Let_def\<close>)
    qed
  qed
qed

context routing_algorithm
begin

text \<open>Nobody who has the bundle is sent it, and whoever was sent it is known to have it.\<close>

lemma forwarding_sends:
  assumes a: "a < length (heap st)"
    and f: "forwardingAsync E A own now rnd send peers a st = Some (Inr (out, st'))"
  shows "(\<forall>(p, l) \<in> set out. p \<in> set peers \<and> cla_peer p \<notin> set (holders st a) \<and> send p = None) \<and>
    holders st' a = holders st a @ map (cla_peer \<circ> fst) out \<and> length (heap st') = length (heap st)"
proof (cases "deleted (heap st ! a)")
  case True
  then have "on_descriptor (AddConstraint ForwardPending) a st = (Some (deletedError (heap st ! a)), st)"
    by (simp add: on_descriptor_def AddConstraint_def)
  then show ?thesis using f by (simp add: forwardingAsync_def)
next
  case live: False
  obtain st1 st2' where "on_descriptor (AddConstraint ForwardPending) a st = (None, st1)"
    "on_descriptor (RemoveConstraint DispatchPending) a st1 = (None, st2')"
    and s2: "length (heap st2') = length (heap st)" "metadata (heap st2' ! a) = metadata (heap st ! a)"
      "\<not> deleted (heap st2' ! a)"
    by (rule start_forwarding[OF a live])
  then have eq: "on_descriptor (RemoveConstraint DispatchPending) a
      (snd (on_descriptor (AddConstraint ForwardPending) a st)) = (None, st2')" by simp
  have s3: "length (heap st3) = length (heap st) \<and> holders st3 a = holders st a \<and> \<not> deleted (heap st3 ! a)"
    if "SelectPeersForForwarding A now rnd a peers st2' = Inr (sel, st3)" for sel st3
    using select_same[OF that] s2 by (simp add: same_state_def)
  from a live f show ?thesis
  proof (cases rule: forwarding_cases)
    case (nobody st2 st3 bndl)
    then have "st2 = st2'" using eq by simp
    then show ?thesis using nobody s3[of "([], bndl)" st3] reset_at(1,2)[of a st3] a by simp
  next
    case (failed st2 st3 ps e)
    then have "st2 = st2'" using eq by simp
    then show ?thesis using failed s3[of "(ps, None)" st3] by simp
  next
    case (sending st2 st3 ps bndl l l')
    then have st2: "st2 = st2'" using eq by simp
    note s = s3[OF sending(1)[unfolded st2]]
    have sub: "set ps \<subseteq> set (filterPeers (heap st2' ! a) peers)" using select_peers[OF sending(1)] st2 by simp
    have a3: "a < length (heap st3)" "\<not> deleted (heap st3 ! a)" using s a by simp_all
    note all = forward_all[OF a3, of E send ps]
    let ?st4 = "fold (forwardBundleToPeer E send a) ps st3"
    have "holders ?st4 a = holders st a @ map cla_peer (filter (\<lambda>p. send p = None) ps)"
      unfolding all(2) metadata_same by (simp add: s)
    moreover have "metadata (heap st' ! a) = metadata (heap ?st4 ! a)" "length (heap st') = length (heap st)"
      using release_at(1,2)[of a ?st4] a all(1) s sending(6) by simp_all
    moreover have "\<forall>p \<in> set ps. p \<in> set peers \<and> cla_peer p \<notin> set (holders st a)"
      using sub s2(2,3) by (auto simp: filterPeers_def GetKnownHolders_def)
    ultimately show ?thesis using sending(5) by (auto simp: comp_def)
  qed
qed

end

lemma forward_bundles: "bundles (forwardBundleToPeer E send a p st) = bundles st"
  by (simp add: forwardBundleToPeer_def store_AddKnownHolder_def split: prod.split)

lemma bundles_same [simp]:
  "bundles (snd (on_descriptor f a st)) = bundles st"
  "bundles (bundleContraindicated a st) = bundles st"
  "bundles (fold (forwardBundleToPeer E send a) ps st) = bundles st"
proof -
  show 1: "bundles (snd (on_descriptor f a st)) = bundles st" for f
    by (simp add: on_descriptor_def split: prod.split)
  show "bundles (bundleContraindicated a st) = bundles st" by (simp add: bundleContraindicated_def 1)
  show "bundles (fold (forwardBundleToPeer E send a) ps st) = bundles st"
    by (induction ps arbitrary: st) (simp_all add: forward_bundles)
qed

lemma add_previous_node_Inr:
  "\<exists>b'. add_previous_node own b = Inr b' \<and> PrimaryBlock b' = PrimaryBlock b"
proof -
  have "TypeCode (NewCanonicalBlock 0 0 (PreviousNodeBlock own)) = Inr BlockTypePreviousNodeBlock"
    by (simp add: TypeCode_def NewCanonicalBlock_def)
  then show ?thesis by (simp add: add_previous_node_def AddExtensionBlock_def Let_def)
qed

lemma replace_previous_node_Inr:
  assumes "\<forall>cb \<in> set (ExtensionBlocks b). Value cb \<noteq> None"
  shows "\<exists>b'. replace_previous_node own b = Inr b' \<and> PrimaryBlock b' = PrimaryBlock b"
proof -
  obtain codes where "map_res TypeCode (ExtensionBlocks b) = Inr codes"
    using types_of_values[OF assms] by blast
  then show ?thesis
  proof (cases rule: byType_cases[where t = BlockTypePreviousNodeBlock])
    case (no m)
    then show ?thesis using add_previous_node_Inr[of own b] by (simp add: replace_previous_node_def)
  next
    case (one i)
    then show ?thesis
      using add_previous_node_Inr[of own "RemoveExtensionBlockByBlockNumber (BlockNumber (ExtensionBlocks b ! i)) b"]
      by (simp add: replace_previous_node_def RemoveExtensionBlockByBlockNumber_def)
  qed
qed

context storage
begin

lemma start_forwarding_ok:
  assumes "store_ok E look st" "a < length (heap st)"
  shows "store_ok E look (snd (on_descriptor (RemoveConstraint DispatchPending) a
    (snd (on_descriptor (AddConstraint ForwardPending) a st))))"
  unfolding op_as_run
  by (intro store_ok_descriptor assms) (simp add: on_descriptor_eq assms)

lemma forward_all_ok:
  assumes "store_ok E look st" "a < length (heap st)"
  shows "store_ok E look (fold (forwardBundleToPeer E send a) ps st)"
  using assms
proof (induction ps arbitrary: st)
  case (Cons p ps)
  have "length (heap (forwardBundleToPeer E send a p st)) = length (heap st)"
    by (simp add: forwardBundleToPeer_def store_AddKnownHolder_def split: prod.split)
  then show ?case
    using Cons store_ok_holder[OF Cons.prems] by (simp add: forwardBundleToPeer_def)
qed simp

end

context storage
begin

lemma epidemic_completes:
  assumes ok: "store_ok E look st"
    and age: "env_ebm E BlockTypeBundleAgeBlock = Some TBundleAge"
    and mem: "(bid, a) \<in> set (bundles st)" and "\<not> Deleted (heap st ! a)"
  shows "\<exists>out st'. forwardingAsync E NewEpidemicRouting own now rnd send peers a st = Some (Inr (out, st')) \<and>
    map fst out = filter (\<lambda>p. send p = None) (filterPeers (heap st ! a) peers) \<and>
    (\<forall>(p, l) \<in> set out. \<exists>b. l = Loaded b \<and> b_ID b = bid) \<and>
    released (filterPeers (heap st ! a) peers = []) (heap st ! a) (heap st' ! a) \<and>
    store_ok E look st' \<and> bundles st' = bundles st"
proof -
  have a: "a < length (heap st)" using entry_at[OF ok mem] by (simp add: entry_ok_def)
  have live: "\<not> deleted (heap st ! a)" using assms(4) by (simp add: Deleted_def)
  obtain st1 st2 where st: "on_descriptor (AddConstraint ForwardPending) a st = (None, st1)"
    "on_descriptor (RemoveConstraint DispatchPending) a st1 = (None, st2)"
    and s2: "length (heap st2) = length (heap st)" "bundles st2 = bundles st"
      "metadata (heap st2 ! a) = metadata (heap st ! a)" "\<not> deleted (heap st2 ! a)"
      "shouldDelete (heap st2 ! a) = shouldDelete (heap st ! a)"
      "retentionConstraints (heap st2 ! a) =
         filter (\<lambda>c. c \<noteq> DispatchPending) (retentionConstraints (heap st ! a)) @ [ForwardPending]"
    by (rule start_forwarding[OF a live])
  have ok2: "store_ok E look st2" using start_forwarding_ok[OF ok a] st by simp
  define ps where "ps = filterPeers (heap st ! a) peers"
  have "filterPeers (heap st2 ! a) peers = ps"
    using s2 live by (simp add: ps_def filterPeers_def GetKnownHolders_def)
  then have sel: "SelectPeersForForwarding NewEpidemicRouting now rnd a peers st2 = Inr ((ps, None), st2)"
    by (simp add: NewEpidemicRouting_def epidemic_Select_def)
  show ?thesis
  proof (cases ps)
    case Nil
    let ?st' = "bundleContraindicated a st2"
    have "forwardingAsync E NewEpidemicRouting own now rnd send peers a st = Some (Inr ([], ?st'))"
      unfolding forwardingAsync_def st option.case prod.case by (simp add: sel Nil)
    moreover have "store_ok E look ?st'"
      unfolding bundleContraindicated_def op_as_run
      by (rule store_ok_descriptor[OF ok2]) (simp add: s2 a)
    moreover have "released (ps = []) (heap st ! a) (heap ?st' ! a)" "bundles ?st' = bundles st"
      using reset_at(3)[of a st2] a s2 Nil by (simp_all add: released_def Deleted_def Dispatch_def Retain_def Let_def)
    ultimately show ?thesis using Nil by (auto simp: ps_def)
  next
    case (Cons p ps')
    have "map_of (bundles st2) bid = Some a" using map_of_bundles[OF ok] mem s2(2) by simp
    then have "GetBundleDescriptor bid st2 = Inr a" using s2(4) by (simp add: GetBundleDescriptor_def Deleted_def)
    from known_loads[OF ok2 age this] obtain b where
      b: "Load E now a st2 = Some (Inr (Loaded b))" "b_ID b = bid"
        "\<forall>cb \<in> set (ExtensionBlocks b). Value cb \<noteq> None" by blast
    obtain b' where b': "replace_previous_node own b = Inr b'" "PrimaryBlock b' = PrimaryBlock b"
      using replace_previous_node_Inr[OF b(3)] by blast
    have id: "b_ID b' = bid" using b(2) b'(2) by (simp add: b_ID_def)
    let ?st3 = "fold (forwardBundleToPeer E send a) ps st2"
    let ?st' = "snd (on_descriptor (RemoveConstraint ForwardPending) a ?st3)"
    have "forwardingAsync E NewEpidemicRouting own now rnd send peers a st =
        Some (Inr (map (\<lambda>p. (p, Loaded b')) (filter (\<lambda>p. send p = None) ps), ?st'))"
      unfolding forwardingAsync_def st option.case prod.case
      by (simp add: sel Cons b(1) b'(1) outgoing_def Let_def)
    moreover have "store_ok E look ?st3"
      using forward_all_ok[OF ok2] a s2(1) by simp
    then have "store_ok E look ?st'"
      using a s2 forward_all(1)[of a st2 E send ps] store_ok_descriptor[of E look ?st3 a "OpRemove ForwardPending"]
      by (simp add: op_as_run)
    moreover have "bundles ?st' = bundles st"
      using forward_all[of a st2 E send ps] a s2 by simp
    moreover have "released (ps = []) (heap st ! a) (heap ?st' ! a)"
      using release_at(3)[of a ?st3] forward_all[of a st2 E send ps] a s2 Cons
      by (auto simp: released_def Dispatch_def Deleted_def Retain_def Let_def filter_filter conj_commute)
    ultimately show ?thesis using id by (fastforce simp: ps_def comp_def)
  qed
qed


end

section \<open>Properties of forwarding\<close>

text \<open>
  Also shown: the bundle that is sent has exactly one previous node block, which names this node;
  its other blocks, its primary block and its payload are those of the stored bundle, and its blocks
  are sorted, with distinct numbers.
\<close>

theorem outgoing_names_this_node:
  assumes "\<forall>cb \<in> set (ExtensionBlocks b). Value cb \<noteq> None" and "distinct (block_numbers b)"
    and "length (filter is_previous_node (ExtensionBlocks b)) \<le> 1" and "length (ExtensionBlocks b) < 2 ^ 63"
  shows "\<exists>b' n. outgoing own (Loaded b) = Inr (Loaded b') \<and> blocks_ok b' \<and>
    PrimaryBlock b' = PrimaryBlock b \<and> b_PayloadBlock b' = b_PayloadBlock b \<and>
    filter_mset is_previous_node (mset (ExtensionBlocks b')) = {#NewCanonicalBlock n 0 (PreviousNodeBlock own)#} \<and>
    filter_mset (\<lambda>cb. \<not> is_previous_node cb) (mset (ExtensionBlocks b')) =
    filter_mset (\<lambda>cb. \<not> is_previous_node cb) (mset (ExtensionBlocks b))"
  using replace_previous_node_ok[OF assms, of own] by (auto simp: outgoing_def)

theorem outgoing_names_this_node_witness:
  "\<exists>b' n. outgoing sample_eid (Loaded sample_bundle) = Inr (Loaded b') \<and>
    filter_mset is_previous_node (mset (ExtensionBlocks b')) = {#NewCanonicalBlock n 0 (PreviousNodeBlock sample_eid)#}"
proof -
  have "\<forall>cb \<in> set (ExtensionBlocks sample_bundle). Value cb \<noteq> None" "length (ExtensionBlocks sample_bundle) < 2 ^ 63"
    "length (filter is_previous_node (ExtensionBlocks sample_bundle)) \<le> 1"
    by (simp_all add: sample_bundle_def NewCanonicalBlock_def)
  from outgoing_names_this_node[OF this(1) _ this(3,2), of sample_eid] sample_bundle_blocks
  show ?thesis by (auto simp: blocks_ok_def)
qed

text \<open>
  Claim C11: with epidemic routing a forwarding of a stored bundle that is not deleted always completes, in every
  consistent state of the store, if bundle age blocks are registered: it sends the bundle, under its ID, to every connected peer that is not
  known to have it and that can be reached. It releases its constraints (\<open>released\<close>): neither that of
  dispatching nor that of forwarding is left, and no constraint at all if every connected peer has the bundle. The
  bundle is retained exactly if another constraint is left, it is deleted exactly if none is and a deletion
  was postponed, and else it may be dispatched again.
\<close>

theorem epidemic_forwarding_completes:
  assumes "reliable_db (env_db E) look" and "cboring (env_cbor E)" and "store_ok E look st"
    and "env_ebm E BlockTypeBundleAgeBlock = Some TBundleAge"
    and "(bid, a) \<in> set (bundles st)" and "\<not> Deleted (heap st ! a)"
  shows "\<exists>out st'. forwardingAsync E NewEpidemicRouting own now rnd send peers a st = Some (Inr (out, st')) \<and>
    map fst out = filter (\<lambda>p. send p = None) (filterPeers (heap st ! a) peers) \<and>
    (\<forall>(p, l) \<in> set out. \<exists>b. l = Loaded b \<and> b_ID b = bid) \<and>
    released (filterPeers (heap st ! a) peers = []) (heap st ! a) (heap st' ! a) \<and>
    store_ok E look st' \<and> bundles st' = bundles st"
  by (rule storage.epidemic_completes) (use assms in \<open>simp_all add: storage_def\<close>)

theorem epidemic_forwarding_completes_witness:
  "\<exists>out st'. forwardingAsync sample_env NewEpidemicRouting sample_eid 0 0 (\<lambda>_. None) [sample_peer] 0
      sample_store = Some (Inr (out, st')) \<and> map fst out = [sample_peer] \<and> Dispatch (heap st' ! 0) \<and>
    retentionConstraints (heap st' ! 0) = [] \<and> \<not> Retain (heap st' ! 0)"
proof -
  have ok: "store_ok sample_env map_of sample_store"
    by (rule storage.store_reach_ok[OF sample.storage_axioms sample_store_reach])
  have age: "env_ebm sample_env BlockTypeBundleAgeBlock = Some TBundleAge"
    by (simp add: GetExtensionBlockManager_eq block_type_defs)
  have mem: "(b_ID sample_bundle, 0) \<in> set (bundles sample_store)"
    and live: "\<not> Deleted (heap sample_store ! 0)" "\<not> shouldDelete (heap sample_store ! 0)"
    by (simp_all add: sample_insert Deleted_def NewBundleDescriptor_def)
  have "filterPeers (heap sample_store ! 0) [sample_peer] = [sample_peer]"
    using sample_peer_selected by (simp add: epidemic_Select_def)
  with epidemic_forwarding_completes[OF sample_world ok age mem live(1), of sample_eid 0 0 "\<lambda>_. None" "[sample_peer]"] live(2)
  show ?thesis by (auto simp: released_def sample_insert NewBundleDescriptor_def)
qed

text \<open>
  Forwardings of one bundle, one after another, with anything the store does in between. Each
  forwarding has its own peers, clock and outcomes of sending.
\<close>

inductive forward_run ::
  "'kv store_env \<Rightarrow> 'kv algorithm \<Rightarrow> endpoint_id \<Rightarrow> nat \<Rightarrow> 'kv bundle_store \<Rightarrow> sent list list \<Rightarrow>
   'kv bundle_store \<Rightarrow> bool" for E A own a st where
  start: "forward_run E A own a st [] st"
| other: "forward_run E A own a st outs st1 \<Longrightarrow> store_step E st1 st2 \<Longrightarrow> forward_run E A own a st outs st2"
| forward: "forward_run E A own a st outs st1 \<Longrightarrow>
    forwardingAsync E A own now rnd send peers a st1 = Some (Inr (out, st2)) \<Longrightarrow>
    forward_run E A own a st (outs @ [out]) st2"

lemma sorted_wrt_snoc: "sorted_wrt P (xs @ [x]) \<longleftrightarrow> sorted_wrt P xs \<and> (\<forall>y \<in> set xs. P y x)"
  by (simp add: sorted_wrt_append)

definition reached :: "sent list \<Rightarrow> endpoint_id set" where
  "reached out = (\<lambda>(p, l). cla_peer p) ` set out"

context routing_algorithm
begin

lemma forward_run_holders:
  assumes "forward_run E A own a st outs st'" "a < length (heap st)"
  shows "a < length (heap st') \<and> (\<forall>out \<in> set outs. reached out \<subseteq> set (holders st' a)) \<and>
    sorted_wrt (\<lambda>out out'. reached out \<inter> reached out' = {}) outs"
  using assms
proof (induction rule: forward_run.induct)
  case (other outs st1 st2)
  then show ?case using mono_step[OF other.hyps(2)] unfolding store_mono_def by fastforce
next
  case (forward outs st1 now rnd send peers out st2)
  then have a: "a < length (heap st1)" by simp
  note f = forwarding_sends[OF a forward.hyps(2)]
  have disj: "reached out \<inter> set (holders st1 a) = {}" using f by (fastforce simp: reached_def)
  have eq: "set (holders st2 a) = set (holders st1 a) \<union> reached out"
    using f by (simp add: reached_def comp_def case_prod_unfold image_image)
  have IH: "\<forall>o1 \<in> set outs. reached o1 \<subseteq> set (holders st1 a)"
    "sorted_wrt (\<lambda>o1 o2. reached o1 \<inter> reached o2 = {}) outs"
    using forward.IH forward.prems by blast+
  have "\<forall>o1 \<in> set outs. reached o1 \<inter> reached out = {}" using IH(1) disj by blast
  then have "sorted_wrt (\<lambda>o1 o2. reached o1 \<inter> reached o2 = {}) (outs @ [out])"
    using IH(2) by (simp add: sorted_wrt_snoc)
  moreover have "\<forall>o1 \<in> set (outs @ [out]). reached o1 \<subseteq> set (holders st2 a)"
    using IH(1) unfolding eq by auto
  moreover have "a < length (heap st2)" using f a by simp
  ultimately show ?case by blast
qed simp

end

text \<open>
  Claim C13: as long as the forwardings of a bundle do not overlap, no peer that was reached by one
  of them is sent the bundle again by a later one, with any routing algorithm that fulfils its contract,
  whichever adapters are connected and whatever the store does in between.
\<close>

theorem never_sent_again:
  assumes "routing_algorithm E A" and "forward_run E A own a st outs st'" and "a < length (heap st)"
    and "i < j" and "j < length outs" and "(p, l) \<in> set (outs ! i)" and "(q, k) \<in> set (outs ! j)"
  shows "cla_peer p \<noteq> cla_peer q"
proof -
  have "sorted_wrt (\<lambda>out out'. reached out \<inter> reached out' = {}) outs"
    using routing_algorithm.forward_run_holders[OF assms(1-3)] by blast
  then have "reached (outs ! i) \<inter> reached (outs ! j) = {}"
    using assms(4,5) by (simp add: sorted_wrt_iff_nth_less)
  moreover have "cla_peer p \<in> reached (outs ! i)" "cla_peer q \<in> reached (outs ! j)"
    using assms(6,7) by (force simp: reached_def)+
  ultimately show ?thesis by auto
qed

theorem never_sent_again_witness:
  "\<exists>outs st' p l q k. forward_run sample_env NewEpidemicRouting sample_eid 0 sample_store outs st' \<and>
     (p, l) \<in> set (outs ! 0) \<and> (q, k) \<in> set (outs ! 1) \<and> cla_peer p \<noteq> cla_peer q"
proof -
  let ?F = "\<lambda>ps. forwardingAsync sample_env NewEpidemicRouting sample_eid 0 0 (\<lambda>_. None) ps 0"
  have ok: "store_ok sample_env map_of sample_store"
    by (rule storage.store_reach_ok[OF sample.storage_axioms sample_store_reach])
  have age: "env_ebm sample_env BlockTypeBundleAgeBlock = Some TBundleAge"
    by (simp add: GetExtensionBlockManager_eq block_type_defs)
  have mem: "(b_ID sample_bundle, 0) \<in> set (bundles sample_store)"
    and live: "\<not> Deleted (heap sample_store ! 0)" "\<not> shouldDelete (heap sample_store ! 0)"
    by (simp_all add: sample_insert Deleted_def NewBundleDescriptor_def)
  obtain out1 st1 where 1: "?F [sample_peer] sample_store = Some (Inr (out1, st1))"
    "map fst out1 = [sample_peer]" "Dispatch (heap st1 ! 0)" "store_ok sample_env map_of st1"
    "bundles st1 = bundles sample_store"
    using storage.epidemic_completes[OF sample.storage_axioms ok age mem live(1), of sample_eid 0 0 "\<lambda>_. None" "[sample_peer]"]
      live(2) sample_peer_selected by (auto simp: epidemic_Select_def dest: released_live)
  define other where "other = sample_peer\<lparr>cla_peer := Some (DtnEndpoint \<lparr>NodeName = ''c'', Demux = [], IsDtnNone = False\<rparr>)\<rparr>"
  obtain l where l: "out1 = [(sample_peer, l)]" using 1(2) by auto
  have "holders st1 0 = [DtnNone, cla_peer sample_peer]"
    using epidemic.forwarding_sends[OF _ 1(1)] l
    by (simp add: sample_insert NewBundleDescriptor_def new_metadata_def Let_def)
  then have sel: "filterPeers (heap st1 ! 0) [other] = [other]"
    using 1(3) by (simp add: filterPeers_def GetKnownHolders_def Dispatch_def other_def sample_peer_def DtnNone_def)
  have mem1: "(b_ID sample_bundle, 0) \<in> set (bundles st1)" "\<not> Deleted (heap st1 ! 0)"
    using mem 1(3,5) by (simp_all add: Dispatch_def Deleted_def)
  obtain out2 st2 where 2: "?F [other] st1 = Some (Inr (out2, st2))" "map fst out2 = [other]"
    using storage.epidemic_completes[OF sample.storage_axioms 1(4) age mem1, of sample_eid 0 0 "\<lambda>_. None" "[other]"] sel by auto
  have run: "forward_run sample_env NewEpidemicRouting sample_eid 0 sample_store [out1, out2] st2"
    using forward_run.forward[OF forward_run.forward[OF forward_run.start 1(1)] 2(1)] by simp
  obtain k where lk: "out1 = [(sample_peer, l)]" "out2 = [(other, k)]" using l 2(2) by auto
  have "cla_peer sample_peer \<noteq> cla_peer other"
    by (rule never_sent_again[OF epidemic.routing_algorithm_axioms run, of 0 1])
      (simp_all add: lk sample_insert)
  then show ?thesis using run lk by (intro exI[of _ "[out1, out2]"]) auto
qed

lemma collect_retained:
  assumes "Retain (heap st ! a)"
  shows "heap (GarbageCollect now st) ! a = heap st ! a"
proof -
  have "heap (fold (\<lambda>a st. if Expired now (heap st ! a) \<and> \<not> Retain (heap st ! a)
      then snd (on_descriptor (Delete False) a st) else st) as st) ! a = heap st ! a"
    if "Retain (heap st ! a)" for as and st :: "'a bundle_store"
    using that
  proof (induction as arbitrary: st)
    case (Cons b as)
    show ?case
    proof (cases "b = a")
      case False
      then have "heap (snd (on_descriptor (Delete False) b st)) ! a = heap st ! a"
        by (simp add: on_descriptor_def split: prod.split)
      then show ?thesis using Cons by simp
    qed (use Cons in simp)
  qed simp
  then show ?thesis using assms unfolding GarbageCollect_def by blast
qed

text \<open>
  Also shown: when the file of the bundle cannot be read, the forwarding gives up with the constraint
  \<^verbatim>\<open>ForwardPending\<close> still set: the bundle is not dispatchable any more, and no garbage collection
  deletes it, however long ago it expired.
\<close>

theorem load_failure_blocks_bundle:
  assumes "a < length (heap st)" and "\<not> Deleted (heap st ! a)"
    and "files st (md_SerialisedFileName (metadata (heap st ! a))) = None"
    and "filterPeers (heap st ! a) peers \<noteq> []"
  shows "\<exists>st'. forwardingAsync E NewEpidemicRouting own now rnd send peers a st = Some (Inr ([], st')) \<and>
    ForwardPending \<in> set (retentionConstraints (heap st' ! a)) \<and> a \<notin> set (GetDispatchable st') \<and>
    (\<forall>t. heap (GarbageCollect t st') ! a = heap st' ! a)"
proof -
  have live: "\<not> deleted (heap st ! a)" using assms(2) by (simp add: Deleted_def)
  obtain st1 st2 where st: "on_descriptor (AddConstraint ForwardPending) a st = (None, st1)"
    "on_descriptor (RemoveConstraint DispatchPending) a st1 = (None, st2)"
    and s2: "files st2 = files st" "metadata (heap st2 ! a) = metadata (heap st ! a)" "\<not> deleted (heap st2 ! a)"
      "retentionConstraints (heap st2 ! a) =
       filter (\<lambda>c. c \<noteq> DispatchPending) (retentionConstraints (heap st ! a)) @ [ForwardPending]"
    by (rule start_forwarding[OF assms(1) live])
  have "filterPeers (heap st2 ! a) peers = filterPeers (heap st ! a) peers"
    using s2 live by (simp add: filterPeers_def GetKnownHolders_def)
  then obtain p ps where sel: "SelectPeersForForwarding NewEpidemicRouting now rnd a peers st2 = Inr ((p # ps, None), st2)"
    using assms(4) by (cases "filterPeers (heap st ! a) peers") (simp_all add: NewEpidemicRouting_def epidemic_Select_def)
  have "Load E now a st2 = Some (Inl (LibError (LibErr ''no such file or directory'')))"
    using s2 assms(3) by (simp add: Load_def loadEntireBundle_def)
  then have "forwardingAsync E NewEpidemicRouting own now rnd send peers a st = Some (Inr ([], st2))"
    unfolding forwardingAsync_def st option.case prod.case by (simp add: sel)
  moreover have "retain (heap st2 ! a) \<and> \<not> dispatch (heap st2 ! a)"
    using st assms(1) live
    by (auto simp: on_descriptor_def AddConstraint_def RemoveConstraint_def Constraint_Valid_def Let_def)
  ultimately show ?thesis
    using s2(3,4) collect_retained[of st2 a] by (auto simp: GetDispatchable_def Dispatch_def Retain_def)
qed

theorem load_failure_blocks_bundle_witness:
  "\<exists>st'. forwardingAsync sample_env NewEpidemicRouting sample_eid 0 0 (\<lambda>_. None) [sample_peer] 0
      (sample_store\<lparr>files := Map.empty\<rparr>) = Some (Inr ([], st')) \<and> 0 \<notin> set (GetDispatchable st') \<and>
    heap (GarbageCollect (10 ^ 30) st') ! 0 = heap st' ! 0"
proof -
  have "filterPeers (heap sample_store ! 0) [sample_peer] = [sample_peer]"
    using sample_peer_selected by (simp add: epidemic_Select_def)
  moreover have "0 < length (heap sample_store)" "\<not> Deleted (heap sample_store ! 0)"
    by (simp_all add: sample_insert Deleted_def NewBundleDescriptor_def)
  ultimately show ?thesis
    using load_failure_blocks_bundle[of 0 "sample_store\<lparr>files := Map.empty\<rparr>" "[sample_peer]"
      sample_env sample_eid 0 0 "\<lambda>_. None"] by auto
qed

section \<open>Forwardings that overlap\<close>

text \<open>
  The handler cut at the points where other goroutines can run: each call of a descriptor method
  or of the routing algorithm is one step under its lock, sending to a peer and recording it as a
  holder are two. \<open>FSend todo sent l\<close> has the peers whose goroutine has not sent yet and those that
  were sent \<open>l\<close> and wait to be recorded.
\<close>

datatype fwd =
    FAdd
  | FRemove
  | FSelect
  | FContraindicated
  | FLoad "convergence list"
  | FSend "convergence list" "convergence list" loaded
  | FDone

inductive fwd_step ::
  "'kv store_env \<Rightarrow> 'kv algorithm \<Rightarrow> endpoint_id \<Rightarrow> nat \<Rightarrow> fwd \<times> sent list \<times> 'kv bundle_store \<Rightarrow>
   fwd \<times> sent list \<times> 'kv bundle_store \<Rightarrow> bool" for E A own a where
  add: "on_descriptor (AddConstraint ForwardPending) a st = (None, st') \<Longrightarrow>
    fwd_step E A own a (FAdd, out, st) (FRemove, out, st')"
| add_failed: "on_descriptor (AddConstraint ForwardPending) a st = (Some e, st') \<Longrightarrow>
    fwd_step E A own a (FAdd, out, st) (FDone, out, st')"
| remove: "on_descriptor (RemoveConstraint DispatchPending) a st = (None, st') \<Longrightarrow>
    fwd_step E A own a (FRemove, out, st) (FSelect, out, st')"
| remove_failed: "on_descriptor (RemoveConstraint DispatchPending) a st = (Some e, st') \<Longrightarrow>
    fwd_step E A own a (FRemove, out, st) (FDone, out, st')"
| select_nobody: "SelectPeersForForwarding A now rnd a peers st = Inr (([], bndl), st') \<Longrightarrow>
    fwd_step E A own a (FSelect, out, st) (FContraindicated, out, st')"
| contraindicate:
    "fwd_step E A own a (FContraindicated, out, st) (FDone, out, bundleContraindicated a st)"
| select_loaded: "SelectPeersForForwarding A now rnd a peers st = Inr ((ps, Some l), st') \<Longrightarrow> ps \<noteq> [] \<Longrightarrow>
    outgoing own l = Inr l' \<Longrightarrow> fwd_step E A own a (FSelect, out, st) (FSend ps [] l', out, st')"
| select: "SelectPeersForForwarding A now rnd a peers st = Inr ((ps, None), st') \<Longrightarrow> ps \<noteq> [] \<Longrightarrow>
    fwd_step E A own a (FSelect, out, st) (FLoad ps, out, st')"
| load: "Load E now a st = Some (Inr l) \<Longrightarrow> outgoing own l = Inr l' \<Longrightarrow>
    fwd_step E A own a (FLoad ps, out, st) (FSend ps [] l', out, st)"
| load_failed: "Load E now a st = Some (Inl e) \<Longrightarrow>
    fwd_step E A own a (FLoad ps, out, st) (FDone, out, st)"
| send: "p \<in> set todo \<Longrightarrow>
    fwd_step E A own a (FSend todo fin l, out, st) (FSend (remove1 p todo) (fin @ [p]) l, out @ [(p, l)], st)"
| send_failed: "p \<in> set todo \<Longrightarrow>
    fwd_step E A own a (FSend todo fin l, out, st) (FSend (remove1 p todo) fin l, out, st)"
| recorded: "p \<in> set fin \<Longrightarrow>
    fwd_step E A own a (FSend todo fin l, out, st)
      (FSend todo (remove1 p fin) l, out, snd (store_AddKnownHolder (env_db E) [cla_peer p] a st))"
| release: "fwd_step E A own a (FSend [] [] l, out, st)
    (FDone, out, snd (on_descriptor (RemoveConstraint ForwardPending) a st))"

inductive_cases fwd_stepE: "fwd_step E A own a (f, out, st) (f', out', st')"
inductive_simps fwd_finsimps: "fwd_step E A own a (FDone, out, st) s"

text \<open>
  The node: the goroutines that forward, with the addresses of their bundles, what was sent for
  which descriptor, and the store, on which everything else happens as well. The dispatcher starts a
  forwarding of a dispatchable bundle at any moment.
\<close>

record 'kv node =
  jobs :: "(nat \<times> fwd) list"
  outbox :: "(nat \<times> sent) list"
  node_store :: "'kv bundle_store"

inductive node_step :: "'kv store_env \<Rightarrow> 'kv algorithm \<Rightarrow> endpoint_id \<Rightarrow> 'kv node \<Rightarrow> 'kv node \<Rightarrow> bool"
  for E A own where
  job: "i < length js \<Longrightarrow> js ! i = (a, f) \<Longrightarrow> fwd_step E A own a (f, [], st) (f', out, st') \<Longrightarrow>
    node_step E A own \<lparr>jobs = js, outbox = os, node_store = st\<rparr>
      \<lparr>jobs = js[i := (a, f')], outbox = os @ map (Pair a) out, node_store = st'\<rparr>"
| store: "store_step E st st' \<Longrightarrow>
    node_step E A own \<lparr>jobs = js, outbox = os, node_store = st\<rparr> \<lparr>jobs = js, outbox = os, node_store = st'\<rparr>"
| dispatch: "a \<in> set (GetDispatchable st) \<Longrightarrow>
    node_step E A own \<lparr>jobs = js, outbox = os, node_store = st\<rparr>
      \<lparr>jobs = js @ [(a, FAdd)], outbox = os, node_store = st\<rparr>"

definition idle :: "'kv bundle_store \<Rightarrow> 'kv node" where
  "idle st = \<lparr>jobs = [], outbox = [], node_store = st\<rparr>"

lemma send_run:
  "(fwd_step E A own a)\<^sup>*\<^sup>* (FSend ps [] l, out, st)
    (FSend [] [] l, out @ map (\<lambda>p. (p, l)) (filter (\<lambda>p. send p = None) ps),
     fold (forwardBundleToPeer E send a) ps st)"
proof (induction ps arbitrary: out st)
  case (Cons p ps)
  let ?step = "fwd_step E A own a"
  have "?step\<^sup>*\<^sup>* (FSend (p # ps) [] l, out, st)
      (FSend ps [] l, out @ map (\<lambda>p. (p, l)) (filter (\<lambda>p. send p = None) [p]), forwardBundleToPeer E send a p st)"
  proof (cases "send p = None")
    case True
    have "?step (FSend (p # ps) [] l, out, st) (FSend ps ([] @ [p]) l, out @ [(p, l)], st)"
      using fwd_step.send[of p "p # ps" E A own a "[]" l out st] by simp
    moreover have "?step (FSend ps ([] @ [p]) l, out @ [(p, l)], st)
        (FSend ps [] l, out @ [(p, l)], snd (store_AddKnownHolder (env_db E) [cla_peer p] a st))"
      using fwd_step.recorded[of p "[p]" E A own a ps l "out @ [(p, l)]" st] by simp
    ultimately show ?thesis
      using True by (simp add: forwardBundleToPeer_def converse_rtranclp_into_rtranclp)
  next
    case False
    have "?step (FSend (p # ps) [] l, out, st) (FSend ps [] l, out, st)"
      using fwd_step.send_failed[of p "p # ps" E A own a "[]" l out st] by simp
    moreover have "forwardBundleToPeer E send a p st = st" "filter (\<lambda>p. send p = None) [p] = []"
      using False by (auto simp: forwardBundleToPeer_def)
    ultimately show ?thesis by (simp only: list.map append_Nil2 r_into_rtranclp)
  qed
  then show ?case
    using Cons.IH[of "out @ map (\<lambda>p. (p, l)) (filter (\<lambda>p. send p = None) [p])" "forwardBundleToPeer E send a p st"]
    by (cases "send p = None") (auto intro: rtranclp_trans)
qed simp

lemma select_run:
  assumes f: "(case SelectPeersForForwarding A now rnd a peers st of
        Inl e \<Rightarrow> Some (Inl e)
      | Inr (([], _), st) \<Rightarrow> Some (Inr ([], bundleContraindicated a st))
      | Inr ((forwardToPeers, bndl), st) \<Rightarrow>
          (case (case bndl of Some l \<Rightarrow> Some (Inr l) | None \<Rightarrow> Load E now a st) of
             None \<Rightarrow> None
           | Some (Inl (LibError (Panic p))) \<Rightarrow> Some (Inl (Panic p))
           | Some (Inl e) \<Rightarrow> Some (Inr ([], st))
           | Some (Inr l) \<Rightarrow>
               (case outgoing own l of
                  Inl e \<Rightarrow> Some (Inl e)
                | Inr l \<Rightarrow>
                    let st = fold (forwardBundleToPeer E send a) forwardToPeers st
                    in Some (Inr (map (\<lambda>p. (p, l)) (filter (\<lambda>p. send p = None) forwardToPeers),
                         snd (on_descriptor (RemoveConstraint ForwardPending) a st)))))) = Some (Inr (out, st'))"
  shows "(fwd_step E A own a)\<^sup>*\<^sup>* (FSelect, [], st) (FDone, out, st')"
proof -
  let ?step = "fwd_step E A own a"
  obtain ps bndl st3 where sel: "SelectPeersForForwarding A now rnd a peers st = Inr ((ps, bndl), st3)"
    using f by (cases "SelectPeersForForwarding A now rnd a peers st") auto
  show ?thesis
  proof (cases ps)
    case Nil
    have "?step (FSelect, [], st) (FContraindicated, [], st3)"
      by (rule fwd_step.select_nobody[OF sel[unfolded Nil]])
    moreover have "?step (FContraindicated, [], st3) (FDone, [], bundleContraindicated a st3)"
      by (rule fwd_step.contraindicate)
    ultimately show ?thesis using f sel Nil by auto
  next
    case (Cons p ps')
    then have ne: "ps \<noteq> []" by simp
    have last: "?step\<^sup>*\<^sup>* (FSend ps [] l', [], st3) (FDone, out, st')"
      if "outgoing own l = Inr l'" "bndl = Some l \<or> bndl = None \<and> Load E now a st3 = Some (Inr l)" for l l'
    proof -
      have "?step\<^sup>*\<^sup>* (FSend ps [] l', [], st3) (FSend [] [] l', map (\<lambda>p. (p, l')) (filter (\<lambda>p. send p = None) ps),
          fold (forwardBundleToPeer E send a) ps st3)"
        using send_run[of E A own a ps l' "[]" st3 send] by simp
      moreover have "out = map (\<lambda>p. (p, l')) (filter (\<lambda>p. send p = None) ps)"
        "st' = snd (on_descriptor (RemoveConstraint ForwardPending) a (fold (forwardBundleToPeer E send a) ps st3))"
        using f sel Cons that by (auto simp: Let_def)
      ultimately show ?thesis by (metis fwd_step.release rtranclp.rtrancl_into_rtrancl)
    qed
    show ?thesis
    proof (cases bndl)
      case (Some l)
      then obtain l' where l': "outgoing own l = Inr l'" using f sel Cons by (auto split: sum.splits)
      have "?step (FSelect, [], st) (FSend ps [] l', [], st3)"
        by (rule fwd_step.select_loaded[OF sel[unfolded Some] ne l'])
      then show ?thesis using last[OF l'] Some by (simp add: converse_rtranclp_into_rtranclp)
    next
      case None
      have s: "?step (FSelect, [], st) (FLoad ps, [], st3)" by (rule fwd_step.select[OF sel[unfolded None] ne])
      show ?thesis
      proof (cases "Load E now a st3")
        case None
        then show ?thesis using f sel Cons \<open>bndl = None\<close> by simp
      next
        case (Some r)
        show ?thesis
        proof (cases r)
          case (Inl e)
          have "?step (FLoad ps, [], st3) (FDone, [], st3)"
            by (rule fwd_step.load_failed[of E now a st3 e]) (simp add: Some Inl)
          moreover have "out = []" "st' = st3"
            using f sel Cons \<open>bndl = None\<close> Some Inl by (auto split: store_err.splits err.splits)
          ultimately show ?thesis using s by auto
        next
          case (Inr l)
          then obtain l' where l': "outgoing own l = Inr l'"
            using f sel Cons \<open>bndl = None\<close> Some by (auto split: sum.splits)
          have "?step (FLoad ps, [], st3) (FSend ps [] l', [], st3)"
            by (rule fwd_step.load[of E now a st3 l]) (simp_all add: Some Inr l')
          then show ?thesis
            using s last[OF l'] \<open>bndl = None\<close> Some Inr by (meson converse_rtranclp_into_rtranclp)
        qed
      qed
    qed
  qed
qed

text \<open>
  Also shown: the handler does what its steps do when nothing interferes: every result of
  \<open>forwardingAsync\<close> is the end of a run of the steps, with the same bundles sent and the same store.
\<close>

theorem handler_is_run_of_steps:
  assumes "forwardingAsync E A own now rnd send peers a st = Some (Inr (out, st'))"
  shows "(fwd_step E A own a)\<^sup>*\<^sup>* (FAdd, [], st) (FDone, out, st')"
proof -
  let ?step = "fwd_step E A own a"
  obtain e1 st1 where 1: "on_descriptor (AddConstraint ForwardPending) a st = (e1, st1)" by fastforce
  obtain e2 st2 where 2: "on_descriptor (RemoveConstraint DispatchPending) a st1 = (e2, st2)" by fastforce
  note f = assms[unfolded forwardingAsync_def 1 prod.case]
  show ?thesis
  proof (cases e1)
    case (Some e)
    then show ?thesis using f fwd_step.add_failed[OF 1[unfolded Some], of E A own "[]"] by auto
  next
    case e1: None
    have s1: "?step (FAdd, [], st) (FRemove, [], st1)" by (rule fwd_step.add[OF 1[unfolded e1]])
    note f = f[unfolded e1 option.case 2 prod.case]
    show ?thesis
    proof (cases e2)
      case (Some e)
      have "?step (FRemove, [], st1) (FDone, [], st2)" by (rule fwd_step.remove_failed[OF 2[unfolded Some]])
      then show ?thesis using f Some s1 by auto
    next
      case e2: None
      have s2: "?step (FRemove, [], st1) (FSelect, [], st2)" by (rule fwd_step.remove[OF 2[unfolded e2]])
      note f = f[unfolded e2 option.case]
      have "?step\<^sup>*\<^sup>* (FSelect, [], st2) (FDone, out, st')" by (rule select_run[OF f])
      then show ?thesis using s1 s2 by (meson converse_rtranclp_into_rtranclp)
    qed
  qed
qed

theorem handler_is_run_of_steps_witness:
  "\<exists>out st'. (fwd_step sample_env NewEpidemicRouting sample_eid 0)\<^sup>*\<^sup>* (FAdd, [], sample_store) (FDone, out, st') \<and>
    map fst out = [sample_peer]"
proof -
  have "store_ok sample_env map_of sample_store"
    by (rule storage.store_reach_ok[OF sample.storage_axioms sample_store_reach])
  then obtain out st' where f: "forwardingAsync sample_env NewEpidemicRouting sample_eid 0 0 (\<lambda>_. None) [sample_peer] 0
      sample_store = Some (Inr (out, st'))" "map fst out = [sample_peer]"
    using storage.epidemic_completes[OF sample.storage_axioms, of sample_store "b_ID sample_bundle" 0
      sample_eid 0 0 "\<lambda>_. None" "[sample_peer]"] sample_peer_selected
    by (auto simp: GetExtensionBlockManager_eq block_type_defs sample_insert Deleted_def
        NewBundleDescriptor_def epidemic_Select_def)
  show ?thesis by (intro exI[of _ out] exI[of _ st'] conjI handler_is_run_of_steps[OF f(1)] f(2))
qed

subsection \<open>Nothing that was sent is forgotten\<close>

definition addresses_ok :: "'kv bundle_store \<Rightarrow> bool" where
  "addresses_ok st \<longleftrightarrow> (\<forall>a \<in> snd ` set (bundles st). a < length (heap st))"

lemma addresses_ok_keep:
  "addresses_ok st \<Longrightarrow> set (bundles st') \<subseteq> set (bundles st) \<Longrightarrow> store_mono st st' \<Longrightarrow> addresses_ok st'"
  unfolding addresses_ok_def store_mono_def by fastforce

lemma holder_bundles: "bundles (snd (store_AddKnownHolder K ps a st)) = bundles st"
  by (simp add: store_AddKnownHolder_def split: prod.split)

lemma addresses_ok_insert:
  assumes "InsertBundle E d b st = (r, st')" "addresses_ok st"
  shows "addresses_ok st'"
proof (cases "map_of (bundles st) (b_ID b)")
  case None
  then have new: "b_ID b \<notin> fst ` set (bundles st)" by (simp add: map_of_eq_None_iff)
  have "bundles st' = bundles st \<and> heap st' = heap st \<or>
      (\<exists>bd. bundles st' = bundles st @ [(b_ID b, length (heap st))] \<and> heap st' = heap st @ [bd])"
    using assms(1) None new
    by (auto simp: InsertBundle_def insertNewBundleUnsafe_def deleteFromDiskUnsafe_def Let_def mapset_def
        split: sum.splits option.splits prod.splits if_splits)
  then have "snd ` set (bundles st') \<subseteq> snd ` set (bundles st) \<union> {..<length (heap st')}"
    and "length (heap st) \<le> length (heap st')" by auto
  then show ?thesis using assms(2) unfolding addresses_ok_def by fastforce
next
  case (Some a)
  then have "bundles st' = bundles st"
    using assms(1)
    by (auto simp: InsertBundle_def store_AddKnownHolder_def
        split: sum.splits list.splits prod.splits option.splits)
  then show ?thesis using addresses_ok_keep[OF assms(2) _ mono_insert[OF assms(1)]] by simp
qed

lemma addresses_ok_step:
  assumes "store_step E st st'" "addresses_ok st"
  shows "addresses_ok st'"
  using assms(1)
proof (cases rule: store_step.cases)
  case (insert d b r bs)
  then show ?thesis using addresses_ok_insert assms(2) by blast
next
  case (collect now)
  have "bundles (fold (\<lambda>a st. if Expired now (heap st ! a) \<and> \<not> Retain (heap st ! a)
      then snd (on_descriptor (Delete False) a st) else st) as st) = bundles st" for as and st :: "'a bundle_store"
    by (induction as arbitrary: st) simp_all
  then have "bundles st' = bundles st" unfolding collect GarbageCollect_def .
  then show ?thesis using addresses_ok_keep[OF assms(2) _ mono_step[OF assms(1)]] by simp
next
  case (run i)
  then have "set (bundles st') \<subseteq> set (bundles st)"
    by (auto simp: run_pending_def deleteBundle_def deleteFromDiskUnsafe_def mapdel_def Let_def split: sum.splits)
  then show ?thesis using addresses_ok_keep[OF assms(2) _ mono_step[OF assms(1)]] by simp
qed (use addresses_ok_keep[OF assms(2) _ mono_step[OF assms(1)]] in
    \<open>simp_all add: store_AddKnownHolder_def store_SetMiscData_def split: prod.splits\<close>)

text \<open>What a goroutine still has to record.\<close>

definition unrecorded :: "fwd \<Rightarrow> sent \<Rightarrow> bool" where
  "unrecorded f s \<longleftrightarrow> (\<exists>todo fin. f = FSend todo fin (snd s) \<and> fst s \<in> set fin)"

definition recorded :: "'kv bundle_store \<Rightarrow> nat \<Rightarrow> sent \<Rightarrow> bool" where
  "recorded st a s \<longleftrightarrow> deleted (heap st ! a) \<or> cla_peer (fst s) \<in> set (holders st a)"

lemma recorded_mono: "recorded st a s \<Longrightarrow> store_mono st st' \<Longrightarrow> a < length (heap st) \<Longrightarrow> recorded st' a s"
  unfolding recorded_def store_mono_def by blast

lemma same_bundles: "same_state st st' \<Longrightarrow> bundles st' = bundles st"
  by (simp add: same_state_def)

context routing_algorithm
begin

lemma fwd_step_mono:
  assumes "fwd_step E A own a (f, out, st) (f', out', st')"
  shows "store_mono st st' \<and> bundles st' = bundles st"
  using assms
proof (cases rule: fwd_step.cases)
  case add
  then show ?thesis using mono_constraint(1)[of st a] bundles_same(1)[of "AddConstraint ForwardPending" a st] by simp
next
  case (add_failed e)
  then show ?thesis using mono_constraint(1)[of st a] bundles_same(1)[of "AddConstraint ForwardPending" a st] by simp
next
  case remove
  then show ?thesis using mono_constraint(2)[of st a] bundles_same(1)[of "RemoveConstraint DispatchPending" a st] by simp
next
  case (remove_failed e)
  then show ?thesis using mono_constraint(2)[of st a] bundles_same(1)[of "RemoveConstraint DispatchPending" a st] by simp
next
  case contraindicate
  then show ?thesis using mono_constraint(4)[of st a] by (simp add: bundleContraindicated_def)
next
  case release
  then show ?thesis using mono_constraint(3)[of st a] by simp
next
  case (recorded p todo fin l)
  then show ?thesis by (simp add: mono_holder holder_bundles)
next
  case (select_nobody now rnd peers bndl)
  then have "same_state st st'" by (auto dest: select_same)
  then show ?thesis by (simp add: mono_same same_bundles)
next
  case (select_loaded now rnd peers ps l l')
  then have "same_state st st'" by (auto dest: select_same)
  then show ?thesis by (simp add: mono_same same_bundles)
next
  case (select now rnd peers ps)
  then have "same_state st st'" by (auto dest: select_same)
  then show ?thesis by (simp add: mono_same same_bundles)
qed simp_all

lemma fwd_step_recorded:
  assumes s: "fwd_step E A own a (f, [], st) (f', out, st')" and a: "a < length (heap st)"
    and x: "x \<in> set out \<or> unrecorded f x"
  shows "recorded st' a x \<or> unrecorded f' x"
  using s
proof (cases rule: fwd_step.cases)
  case (recorded p fin todo l)
  have "recorded st' a (p, l)"
    using recorded a
    by (auto simp: recorded_def store_AddKnownHolder_def AddKnownHolder_def Let_def split: sum.split)
  then show ?thesis
    using x recorded by (cases "fst x = p") (auto simp: unrecorded_def recorded_def)
qed (use x in \<open>auto simp: unrecorded_def\<close>)

definition node_ok :: "'kv node \<Rightarrow> bool" where
  "node_ok n \<longleftrightarrow> addresses_ok (node_store n) \<and>
     (\<forall>a \<in> fst ` set (jobs n) \<union> fst ` set (outbox n). a < length (heap (node_store n))) \<and>
     (\<forall>(a, x) \<in> set (outbox n). recorded (node_store n) a x \<or>
        (\<exists>f. (a, f) \<in> set (jobs n) \<and> unrecorded f x))"

lemma node_step_ok:
  assumes "node_step E A own n n'" "node_ok n"
  shows "node_ok n'"
  using assms
proof (induction rule: node_step.induct)
  case (job i js a f st f' out st' os)
  note m = fwd_step_mono[OF job.hyps(3)]
  have ja: "(a, f) \<in> set js" using job.hyps(1,2) by (metis nth_mem)
  have ok: "addresses_ok st" "\<And>a. a \<in> fst ` set js \<union> fst ` set os \<Longrightarrow> a < length (heap st)"
    "\<And>b x. (b, x) \<in> set os \<Longrightarrow> recorded st b x \<or> (\<exists>g. (b, g) \<in> set js \<and> unrecorded g x)"
    using job.prems unfolding node_ok_def by auto
  have "a \<in> fst ` set js" using ja by (rule rev_image_eqI) simp
  then have a: "a < length (heap st)" using ok(2) by blast
  have grow: "length (heap st) \<le> length (heap st')" using m by (simp add: store_mono_def)
  have fsts: "fst ` set (js[i := (a, f')]) \<subseteq> fst ` set js"
    using set_update_subset_insert[of js i "(a, f')"] ja by force
  have new: "recorded st' b x \<or> (\<exists>g. (b, g) \<in> set (js[i := (a, f')]) \<and> unrecorded g x)"
    if x: "(b, x) \<in> set (os @ map (Pair a) out)" for b x
  proof -
    have here: "(a, f') \<in> set (js[i := (a, f')])" using job.hyps(1) by (rule set_update_memI)
    consider "b = a" "x \<in> set out \<or> unrecorded f x" | "recorded st b x" "b < length (heap st)"
      | g where "(b, g) \<in> set js" "unrecorded g x" "(b, g) \<noteq> (a, f)"
    proof (cases "(b, x) \<in> set os")
      case False
      then have "b = a" "x \<in> set out" using x by auto
      then show ?thesis using that(1) by blast
    next
      case True
      then have "b \<in> fst ` set js \<union> fst ` set os" by (intro UnI2 rev_image_eqI[OF True]) simp
      then have "b < length (heap st)" by (rule ok(2))
      with ok(3)[OF True] show ?thesis using that by blast
    qed
    then show ?thesis
    proof cases
      case 1
      then show ?thesis using fwd_step_recorded[OF job.hyps(3) a, of x] here by blast
    next
      case 2
      then show ?thesis using recorded_mono m by blast
    next
      case 3
      then obtain k where "k < length js" "js ! k = (b, g)" by (auto simp: in_set_conv_nth)
      then have "k \<noteq> i" using 3(3) job.hyps(2) by auto
      then have "(b, g) \<in> set (js[i := (a, f')])"
        using \<open>k < length js\<close> \<open>js ! k = (b, g)\<close> by (metis length_list_update nth_list_update_neq nth_mem)
      then show ?thesis using 3(2) by blast
    qed
  qed
  have "addresses_ok st'"
    using ok(1) m addresses_ok_keep[of st st'] by simp
  moreover have "\<forall>b \<in> fst ` set (js[i := (a, f')]) \<union> fst ` set (os @ map (Pair a) out). b < length (heap st')"
  proof
    fix b
    assume "b \<in> fst ` set (js[i := (a, f')]) \<union> fst ` set (os @ map (Pair a) out)"
    then have "b \<in> fst ` set js \<union> fst ` set os \<or> b = a" using fsts by auto
    then have "b < length (heap st)" using ok(2) a by blast
    then show "b < length (heap st')" using grow by simp
  qed
  moreover have "\<forall>z \<in> set (os @ map (Pair a) out). recorded st' (fst z) (snd z) \<or>
      (\<exists>g. (fst z, g) \<in> set (js[i := (a, f')]) \<and> unrecorded g (snd z))"
    using new by (metis prod.collapse)
  ultimately show ?case unfolding node_ok_def node.select_convs case_prod_unfold by blast
next
  case (store st st' js os)
  note m = mono_step[OF store.hyps]
  then have grow: "length (heap st) \<le> length (heap st')" by (simp add: store_mono_def)
  have ok: "addresses_ok st" "\<forall>a \<in> fst ` set js \<union> fst ` set os. a < length (heap st)"
    "\<forall>z \<in> set os. recorded st (fst z) (snd z) \<or> (\<exists>g. (fst z, g) \<in> set js \<and> unrecorded g (snd z))"
    using store.prems unfolding node_ok_def node.select_convs case_prod_unfold by blast+
  have "\<forall>a \<in> fst ` set js \<union> fst ` set os. a < length (heap st')"
    using ok(2) grow less_le_trans by blast
  moreover have "recorded st' (fst z) (snd z) \<or> (\<exists>g. (fst z, g) \<in> set js \<and> unrecorded g (snd z))"
    if "z \<in> set os" for z
    using ok(3) that recorded_mono[OF _ m] ok(2) by (meson UnI2 imageI)
  ultimately show ?case
    using addresses_ok_step[OF store.hyps ok(1)]
    unfolding node_ok_def node.select_convs case_prod_unfold by blast
next
  case (dispatch a st js os)
  then have "a < length (heap st)" by (auto simp: GetDispatchable_def node_ok_def addresses_ok_def)
  then show ?case using dispatch.prems by (fastforce simp: node_ok_def)
qed

end
subsection \<open>Two forwardings of one bundle\<close>

lemma live_add:
  assumes "a < length (heap st)" "\<not> deleted (heap st ! a)"
  obtains st' where "on_descriptor (AddConstraint ForwardPending) a st = (None, st')"
    "length (heap st') = length (heap st)" "bundles st' = bundles st"
    "metadata (heap st' ! a) = metadata (heap st ! a)" "\<not> deleted (heap st' ! a)"
    "ForwardPending \<in> set (retentionConstraints (heap st' ! a))"
proof -
  obtain e st' where r: "on_descriptor (AddConstraint ForwardPending) a st = (e, st')" by fastforce
  then show ?thesis
    using assms by (intro that[of st']) (auto simp: on_descriptor_def AddConstraint_def Constraint_Valid_def)
qed

lemma live_remove:
  assumes "a < length (heap st)" "\<not> deleted (heap st ! a)"
    and "ForwardPending \<in> set (retentionConstraints (heap st ! a))"
  obtains st' where "on_descriptor (RemoveConstraint DispatchPending) a st = (None, st')"
    "length (heap st') = length (heap st)" "bundles st' = bundles st"
    "metadata (heap st' ! a) = metadata (heap st ! a)" "\<not> deleted (heap st' ! a)"
    "ForwardPending \<in> set (retentionConstraints (heap st' ! a))"
proof -
  let ?d = "heap st ! a"
  define rc where "rc = filter (\<lambda>c. c \<noteq> DispatchPending) (retentionConstraints ?d)"
  have rc: "ForwardPending \<in> set rc" using assms(3) by (simp add: rc_def)
  then have "RemoveConstraint DispatchPending ?d =
      (None, ?d\<lparr>dispatch := False, retentionConstraints := rc, retain := True\<rparr>, [])"
    using assms(2) unfolding RemoveConstraint_def Let_def rc_def[symmetric] by (cases rc) auto
  then show ?thesis
    using assms(1,2) rc
    by (intro that[of "st\<lparr>heap := (heap st)[a := ?d\<lparr>dispatch := False, retentionConstraints := rc, retain := True\<rparr>],
      pending := pending st @ []\<rparr>"]) (simp_all add: on_descriptor_def)
qed

context storage
begin

lemma two_forwardings:
  assumes ok: "store_ok E look st" and age: "env_ebm E BlockTypeBundleAgeBlock = Some TBundleAge"
    and mem: "(bid, a) \<in> set (bundles st)" and disp: "Dispatch (heap st ! a)"
    and new: "cla_peer p \<notin> set (holders st a)"
  shows "\<exists>n b. (node_step E NewEpidemicRouting own)\<^sup>*\<^sup>* (idle st) n \<and> b_ID b = bid \<and>
    outbox n = [(a, (p, Loaded b)), (a, (p, Loaded b))]"
proof -
  let ?N = "\<lambda>js os st. \<lparr>jobs = js, outbox = os, node_store = st\<rparr>"
  let ?step = "node_step E NewEpidemicRouting own"
  have a: "a < length (heap st)" using entry_at[OF ok mem] by (simp add: entry_ok_def)
  have live: "\<not> deleted (heap st ! a)" using disp by (simp add: Dispatch_def)
  obtain st1 where 1: "on_descriptor (AddConstraint ForwardPending) a st = (None, st1)"
    "length (heap st1) = length (heap st)" "bundles st1 = bundles st"
    "metadata (heap st1 ! a) = metadata (heap st ! a)" "\<not> deleted (heap st1 ! a)"
    by (rule live_add[OF a live])
  obtain st2 where 2: "on_descriptor (AddConstraint ForwardPending) a st1 = (None, st2)"
    "length (heap st2) = length (heap st1)" "bundles st2 = bundles st1"
    "metadata (heap st2 ! a) = metadata (heap st1 ! a)" "\<not> deleted (heap st2 ! a)"
    "ForwardPending \<in> set (retentionConstraints (heap st2 ! a))"
    using live_add[of a st1] a 1 by metis
  obtain st3 where 3: "on_descriptor (RemoveConstraint DispatchPending) a st2 = (None, st3)"
    "length (heap st3) = length (heap st2)" "bundles st3 = bundles st2"
    "metadata (heap st3 ! a) = metadata (heap st2 ! a)" "\<not> deleted (heap st3 ! a)"
    "ForwardPending \<in> set (retentionConstraints (heap st3 ! a))"
    using live_remove[of a st2] a 1 2 by metis
  obtain st4 where 4: "on_descriptor (RemoveConstraint DispatchPending) a st3 = (None, st4)"
    "length (heap st4) = length (heap st3)" "bundles st4 = bundles st3"
    "metadata (heap st4 ! a) = metadata (heap st3 ! a)" "\<not> deleted (heap st4 ! a)"
    using live_remove[of a st3] a 1 2 3 by metis
  have "store_ok E look (snd (on_descriptor f a st'))"
    if "store_ok E look st'" "a < length (heap st')" "f = run_op op" for f op st'
    unfolding that(3) by (rule store_ok_descriptor[OF that(1,2)])
  from this[OF _ _ op_as_run(1)] this[OF _ _ op_as_run(2)] have ok4: "store_ok E look st4"
    using ok a 1 2 3 4 by (metis snd_conv)
  have "map_of (bundles st4) bid = Some a" using map_of_bundles[OF ok] mem 1 2 3 4 by simp
  then have "GetBundleDescriptor bid st4 = Inr a" using 4(5) by (simp add: GetBundleDescriptor_def Deleted_def)
  from known_loads[OF ok4 age this, of 0] obtain b where
    load: "Load E 0 a st4 = Some (Inr (Loaded b))" "b_ID b = bid"
      "\<forall>cb \<in> set (ExtensionBlocks b). Value cb \<noteq> None" by blast
  obtain b' where b': "replace_previous_node own b = Inr b'" "PrimaryBlock b' = PrimaryBlock b"
    using replace_previous_node_Inr[OF load(3)] by blast
  then have out: "outgoing own (Loaded b) = Inr (Loaded b')" by (simp add: outgoing_def)
  have "filterPeers (heap st4 ! a) [p] = [p]"
    using 1 2 3 4 new by (simp add: filterPeers_def GetKnownHolders_def)
  then have sel: "SelectPeersForForwarding NewEpidemicRouting 0 0 a [p] st4 = Inr (([p], None), st4)"
    by (simp add: NewEpidemicRouting_def epidemic_Select_def)
  have listed: "a \<in> set (GetDispatchable st)"
    using mem disp by (force simp: GetDispatchable_def)
  have job0: "?step (?N [(a, f), (a, g)] os s) (?N [(a, f'), (a, g)] (os @ map (Pair a) out) s')"
    if "fwd_step E NewEpidemicRouting own a (f, [], s) (f', out, s')" for f g f' os out s s'
    using node_step.job[of 0 "[(a, f), (a, g)]" a f E NewEpidemicRouting own s f' out s' os] that by simp
  have job1: "?step (?N [(a, g), (a, f)] os s) (?N [(a, g), (a, f')] (os @ map (Pair a) out) s')"
    if "fwd_step E NewEpidemicRouting own a (f, [], s) (f', out, s')" for f g f' os out s s'
    using node_step.job[of 1 "[(a, g), (a, f)]" a f E NewEpidemicRouting own s f' out s' os] that by simp
  note add = fwd_step.add[of a, where A = NewEpidemicRouting and E = E and own = own and out = "[]"]
  note rem = fwd_step.remove[of a, where A = NewEpidemicRouting and E = E and own = own and out = "[]"]
  have sel': "fwd_step E NewEpidemicRouting own a (FSelect, [], st4) (FLoad [p], [], st4)"
    by (rule fwd_step.select[OF sel]) simp
  have load': "fwd_step E NewEpidemicRouting own a (FLoad [p], [], st4) (FSend [p] [] (Loaded b'), [], st4)"
    by (rule fwd_step.load[OF load(1) out])
  have send': "fwd_step E NewEpidemicRouting own a (FSend [p] [] (Loaded b'), [], st4)
      (FSend [] [p] (Loaded b'), [(p, Loaded b')], st4)"
    using fwd_step.send[of p "[p]" E NewEpidemicRouting own a "[]" "Loaded b'" "[]" st4] by simp
  have "?step\<^sup>*\<^sup>* (idle st) (?N [(a, FAdd), (a, FAdd)] [] st)"
    using node_step.dispatch[OF listed, of E NewEpidemicRouting own "[]" "[]"]
      node_step.dispatch[OF listed, of E NewEpidemicRouting own "[(a, FAdd)]" "[]"] by (simp add: idle_def)
  also have "?step\<^sup>*\<^sup>* \<dots> (?N [(a, FRemove), (a, FRemove)] [] st2)"
    using job0[OF add[OF 1(1)], of FAdd "[]"] job1[OF add[OF 2(1)], of FRemove "[]"] by simp
  also have "?step\<^sup>*\<^sup>* \<dots> (?N [(a, FSelect), (a, FSelect)] [] st4)"
    using job0[OF rem[OF 3(1)], of FRemove "[]"] job1[OF rem[OF 4(1)], of FSelect "[]"] by simp
  also have "?step\<^sup>*\<^sup>* \<dots> (?N [(a, FLoad [p]), (a, FLoad [p])] [] st4)"
    using job0[OF sel', of FSelect "[]"] job1[OF sel', of "FLoad [p]" "[]"] by simp
  also have "?step\<^sup>*\<^sup>* \<dots> (?N [(a, FSend [p] [] (Loaded b')), (a, FSend [p] [] (Loaded b'))] [] st4)"
    using job0[OF load', of "FLoad [p]" "[]"] job1[OF load', of "FSend [p] [] (Loaded b')" "[]"] by simp
  also have "?step\<^sup>*\<^sup>* \<dots> (?N [(a, FSend [] [p] (Loaded b')), (a, FSend [] [p] (Loaded b'))]
      [(a, (p, Loaded b')), (a, (p, Loaded b'))] st4)"
    using job0[OF send', of "FSend [p] [] (Loaded b')" "[]"]
      job1[OF send', of "FSend [] [p] (Loaded b')" "[(a, (p, Loaded b'))]"] by simp
  finally have "?step\<^sup>*\<^sup>* (idle st) (?N [(a, FSend [] [p] (Loaded b')), (a, FSend [] [p] (Loaded b'))]
      [(a, (p, Loaded b')), (a, (p, Loaded b'))] st4)" .
  moreover have "b_ID b' = bid" using load(2) b'(2) by (simp add: b_ID_def)
  ultimately show ?thesis by (intro exI[of _ b'] exI conjI) auto
qed

end

text \<open>
  Claim C12: whatever overlaps, no successful transmission is forgotten: in every run of the
  node each peer that was sent a bundle is a known holder of it, or the goroutine that sent it is
  about to record it, or the bundle is deleted. When all forwardings are done, all is recorded.
\<close>

theorem transmissions_recorded:
  assumes "routing_algorithm E A" and "store_reach E st" and "reliable_db (env_db E) look" and "cboring (env_cbor E)"
    and "(node_step E A own)\<^sup>*\<^sup>* (idle st) n" and "(a, (p, l)) \<in> set (outbox n)"
  shows "Deleted (heap (node_store n) ! a) \<or> cla_peer p \<in> set (holders (node_store n) a) \<or>
    (\<exists>todo fin. (a, FSend todo fin l) \<in> set (jobs n) \<and> p \<in> set fin)"
proof -
  have ok: "store_ok E look st"
    using storage.store_reach_ok[of E look st] assms(2-4) by (simp add: storage_def)
  have "addresses_ok st"
    unfolding addresses_ok_def using entry_at[OF ok] by (force simp: entry_ok_def)
  then have "routing_algorithm.node_ok (idle st)"
    using routing_algorithm.node_ok_def[OF assms(1)] by (simp add: idle_def)
  with assms(5) have "routing_algorithm.node_ok n"
    by (induction rule: rtranclp_induct) (auto intro: routing_algorithm.node_step_ok[OF assms(1)])
  then show ?thesis
    using assms(6) routing_algorithm.node_ok_def[OF assms(1), of n]
    by (auto simp: recorded_def unrecorded_def Deleted_def)
qed

theorem transmissions_recorded_witness:
  "\<exists>n p l. (node_step sample_env NewEpidemicRouting sample_eid)\<^sup>*\<^sup>* (idle sample_store) n \<and>
    (0, (p, l)) \<in> set (outbox n) \<and>
    (Deleted (heap (node_store n) ! 0) \<or> cla_peer p \<in> set (holders (node_store n) 0) \<or>
     (\<exists>todo fin. (0, FSend todo fin l) \<in> set (jobs n) \<and> p \<in> set fin))"
proof -
  have ok: "store_ok sample_env map_of sample_store"
    by (rule storage.store_reach_ok[OF sample.storage_axioms sample_store_reach])
  have age: "env_ebm sample_env BlockTypeBundleAgeBlock = Some TBundleAge"
    by (simp add: GetExtensionBlockManager_eq block_type_defs)
  have mem: "(b_ID sample_bundle, 0) \<in> set (bundles sample_store)" and disp: "Dispatch (heap sample_store ! 0)"
    by (simp_all add: sample_insert Dispatch_def NewBundleDescriptor_def)
  have "sample_peer \<in> set (filterPeers (heap sample_store ! 0) [sample_peer])"
    using sample_peer_selected by (simp add: epidemic_Select_def)
  then have "cla_peer sample_peer \<notin> set (holders sample_store 0)"
    by (auto simp: filterPeers_def GetKnownHolders_def split: if_splits)
  from storage.two_forwardings[OF sample.storage_axioms ok age mem disp this, of sample_eid] obtain n b where
    n: "(node_step sample_env NewEpidemicRouting sample_eid)\<^sup>*\<^sup>* (idle sample_store) n"
      "outbox n = [(0, (sample_peer, Loaded b)), (0, (sample_peer, Loaded b))]" by blast
  then have out: "(0, (sample_peer, Loaded b)) \<in> set (outbox n)" by simp
  note r = transmissions_recorded[OF epidemic.routing_algorithm_axioms sample_store_reach sample_world n(1) out]
  show ?thesis
    by (rule exI[of _ n], rule exI[of _ sample_peer], rule exI[of _ "Loaded b"]) (intro conjI n(1) out r)
qed

text \<open>
  Also shown: two forwardings of the same bundle that overlap send it twice to the same peer,
  although each selects only peers that are not known to have it: in every state of a consistent store
  in which a bundle is dispatchable and a connected peer is not known to have it.
\<close>

theorem overlapping_forwardings_send_twice:
  assumes "reliable_db (env_db E) look" and "cboring (env_cbor E)" and "store_ok E look st"
    and "env_ebm E BlockTypeBundleAgeBlock = Some TBundleAge"
    and "(bid, a) \<in> set (bundles st)" and "Dispatch (heap st ! a)"
    and "cla_peer p \<notin> set (holders st a)"
  shows "\<exists>n b. (node_step E NewEpidemicRouting own)\<^sup>*\<^sup>* (idle st) n \<and> b_ID b = bid \<and>
    outbox n = [(a, (p, Loaded b)), (a, (p, Loaded b))]"
  by (rule storage.two_forwardings) (use assms in \<open>simp_all add: storage_def\<close>)

theorem overlapping_forwardings_send_twice_witness:
  "\<exists>n b. (node_step sample_env NewEpidemicRouting sample_eid)\<^sup>*\<^sup>* (idle sample_store) n \<and>
    outbox n = [(0, (sample_peer, Loaded b)), (0, (sample_peer, Loaded b))]"
proof -
  have ok: "store_ok sample_env map_of sample_store"
    by (rule storage.store_reach_ok[OF sample.storage_axioms sample_store_reach])
  have age: "env_ebm sample_env BlockTypeBundleAgeBlock = Some TBundleAge"
    by (simp add: GetExtensionBlockManager_eq block_type_defs)
  have mem: "(b_ID sample_bundle, 0) \<in> set (bundles sample_store)" and disp: "Dispatch (heap sample_store ! 0)"
    by (simp_all add: sample_insert Dispatch_def NewBundleDescriptor_def)
  have "sample_peer \<in> set (filterPeers (heap sample_store ! 0) [sample_peer])"
    using sample_peer_selected by (simp add: epidemic_Select_def)
  then have "cla_peer sample_peer \<notin> set (holders sample_store 0)"
    by (auto simp: filterPeers_def GetKnownHolders_def split: if_splits)
  from overlapping_forwardings_send_twice[OF sample_world ok age mem disp this]
  show ?thesis by blast
qed

end
