(* ===== verification/Validity.thy ===== *)
theory Validity
  imports Fragmentation Processing
begin

text \<open>
  When a bundle passes \<^verbatim>\<open>Bundle.CheckValid\<close>, said without the order of its extension blocks, and what
  follows for a bundle on its way: serialising it and replacing its previous node block, as every node that
  forwards it does, leaves it well formed and valid.
\<close>

section \<open>Checks without positions\<close>

text \<open>The types of block that check that they are the only one of their type.\<close>

fun context_type :: "ext_block \<Rightarrow> u64 option" where
  "context_type (PreviousNodeBlock _) = Some BlockTypePreviousNodeBlock"
| "context_type (BundleAgeBlock _) = Some BlockTypeBundleAgeBlock"
| "context_type (HopCountBlock _ _) = Some BlockTypeHopCountBlock"
| "context_type _ = None"

lemma context_type_code: "context_type v = Some t \<Longrightarrow> BlockTypeCode v = t"
  by (cases v) auto

lemma context_Nil:
  "CheckContextValid b i v = Inr [] \<longleftrightarrow>
    (\<forall>t. context_type v = Some t \<longrightarrow> ExtensionBlockByType b t = Inr i)"
proof -
  have "unique_of_type b i t = Inr [] \<longleftrightarrow> ExtensionBlockByType b t = Inr i" for t
    by (auto simp: unique_of_type_def split: sum.split err.split)
  then show ?thesis by (cases v) (simp_all add: CheckContextValid_def)
qed

lemma by_type_iff:
  assumes "\<forall>cb \<in> set (ExtensionBlocks b). Value cb \<noteq> None"
  shows "ExtensionBlockByType b t = Inr i \<longleftrightarrow>
    i < length (ExtensionBlocks b) \<and> filter (\<lambda>cb. TypeCode cb = Inr t) (ExtensionBlocks b) = [ExtensionBlocks b ! i]"
    (is "?l \<longleftrightarrow> ?r")
proof -
  obtain codes where codes: "map_res TypeCode (ExtensionBlocks b) = Inr codes"
    using types_of_values[OF assms] by blast
  define found where "found = filter (\<lambda>i. codes ! i = t) [0..<length codes]"
  have len: "length codes = length (ExtensionBlocks b)" using map_res_Inr_length[OF codes] by simp
  have f: "filter (\<lambda>cb. TypeCode cb = Inr t) (ExtensionBlocks b) = map ((!) (ExtensionBlocks b)) found"
    by (rule filter_type_single[OF codes]) (simp add: found_def)
  have l: "?l \<longleftrightarrow> found = [i]"
    using codes by (cases found)
      (auto simp: ExtensionBlockByType_def ExtensionBlocksByType_def found_def[symmetric] Let_def)
  show ?thesis
  proof
    assume ?l
    then have "found = [i]" using l by simp
    moreover from this have "i \<in> set found" by simp
    then have "i < length codes" by (simp add: found_def)
    ultimately show ?r using f len by simp
  next
    assume r: ?r
    then obtain j where j: "found = [j]" using f by (cases found) auto
    have "ExtensionBlocks b ! i \<in> set (filter (\<lambda>cb. TypeCode cb = Inr t) (ExtensionBlocks b))"
      using r by simp
    then have "TypeCode (ExtensionBlocks b ! i) = Inr t" by simp
    then have "codes ! i = t" using map_res_nth[OF codes] r by simp
    then have "i \<in> set found" using r len by (simp add: found_def)
    then show ?l using l j by simp
  qed
qed

lemma by_type_no_panic:
  assumes "\<forall>cb \<in> set (ExtensionBlocks b). Value cb \<noteq> None"
  shows "(\<exists>i. ExtensionBlockByType b t = Inr i) \<or> (\<exists>m. ExtensionBlockByType b t = Inl (Errorf m))"
proof -
  obtain codes where "map_res TypeCode (ExtensionBlocks b) = Inr codes" using types_of_values[OF assms] by blast
  then show ?thesis by (rule byType_cases[of b codes t]) auto
qed

lemma check_blocks_Nil:
  "check_blocks b seen i cbs = Inr [] \<longleftrightarrow>
    (\<forall>k < length cbs. \<exists>v. Value (cbs ! k) = Some v \<and> CheckContextValid b (i + k) v = Inr []) \<and>
    distinct (map BlockNumber cbs) \<and> set (map BlockNumber cbs) \<inter> set seen = {}"
proof (induction cbs arbitrary: seen i)
  case (Cons cb cbs)
  show ?case
    by (cases "Value cb") (auto simp: All_less_Suc2 andThen_eq_Inr Cons.IH nil_deref_def simp del: nth_Cons_Suc)
qed simp

lemma checks_Nil:
  "(\<exists>exts. map_res cb_CheckValid cbs = Inr exts \<and> concat exts = []) \<longleftrightarrow> (\<forall>cb \<in> set cbs. cb_CheckValid cb = Inr [])"
  by (induction cbs) (auto simp: andThen_eq_Inr)

text \<open>
  The checks of the blocks look at the multiset of blocks only: each block is in order and, where it checks it, the
  only one of its type, and the numbers differ.
\<close>

definition of_type :: "u64 \<Rightarrow> dtn_bundle \<Rightarrow> canonical_block multiset" where
  "of_type t b = filter_mset (\<lambda>cb. TypeCode cb = Inr t) (mset (ExtensionBlocks b))"

lemma of_type_single:
  "of_type t b = {#cb#} \<longleftrightarrow> filter (\<lambda>cb. TypeCode cb = Inr t) (ExtensionBlocks b) = [cb]"
proof -
  have "of_type t b = mset (filter (\<lambda>cb. TypeCode cb = Inr t) (ExtensionBlocks b))"
    by (simp add: of_type_def)
  then show ?thesis by (metis mset_single_iff_right mset.simps)
qed

definition blocks_checked :: "dtn_bundle \<Rightarrow> bool" where
  "blocks_checked b \<longleftrightarrow> distinct (block_numbers b) \<and>
     (\<forall>cb \<in># mset (ExtensionBlocks b). cb_CheckValid cb = Inr [] \<and>
       (\<forall>v t. Value cb = Some v \<and> context_type v = Some t \<longrightarrow> of_type t b = {#cb#}))"

lemma checked_values: "cb_CheckValid cb = Inr errs \<Longrightarrow> Value cb \<noteq> None"
  by (cases "Value cb") (simp_all add: cb_CheckValid_def nil_deref_def)

lemma blocks_checked_iff:
  "blocks_checked b \<longleftrightarrow> (\<forall>cb \<in> set (ExtensionBlocks b). cb_CheckValid cb = Inr []) \<and>
    check_blocks b [] 0 (ExtensionBlocks b) = Inr []"
proof (cases "\<forall>cb \<in> set (ExtensionBlocks b). cb_CheckValid cb = Inr []")
  case True
  let ?xs = "ExtensionBlocks b"
  have vals: "\<forall>cb \<in> set ?xs. Value cb \<noteq> None" using True checked_values by blast
  have at: "(\<exists>v. Value (?xs ! k) = Some v \<and> CheckContextValid b k v = Inr []) \<longleftrightarrow>
      (\<forall>v t. Value (?xs ! k) = Some v \<and> context_type v = Some t \<longrightarrow> of_type t b = {#?xs ! k#})"
    if k: "k < length ?xs" for k
  proof -
    obtain v where "Value (?xs ! k) = Some v" using vals nth_mem[OF k] by blast
    then show ?thesis using k by (simp add: context_Nil by_type_iff[OF vals] of_type_single)
  qed
  show ?thesis
    using True at by (auto simp: blocks_checked_def check_blocks_Nil block_numbers_def all_set_conv_all_nth)
qed (auto simp: blocks_checked_def)

lemma blocks_valid_iff:
  "blocks_valid now b \<longleftrightarrow> blocks_checked b \<and>
    (IsZeroTime (CreationTimestamp (PrimaryBlock b)) \<longrightarrow> of_type BlockTypeBundleAgeBlock b \<noteq> {#}) \<and>
    IsLifetimeExceeded now b = Inr False"
proof (cases "blocks_checked b")
  case True
  have vals: "\<forall>cb \<in> set (ExtensionBlocks b). Value cb \<noteq> None"
    using True checked_values by (auto simp: blocks_checked_def)
  obtain codes where codes: "map_res TypeCode (ExtensionBlocks b) = Inr codes" using types_of_values[OF vals] by blast
  have "HasExtensionBlock b t = Inr (of_type t b \<noteq> {#})" for t
    using codes filter_type_single[OF codes refl, of t]
    by (auto simp: HasExtensionBlock_def ExtensionBlocksByType_def Let_def of_type_def simp flip: mset_filter)
  then show ?thesis using True unfolding blocks_valid_def checks_Nil blocks_checked_iff by simp
next
  case False
  then show ?thesis unfolding blocks_valid_def checks_Nil blocks_checked_iff by blast
qed

text \<open>The lifetime is checked against the primary block and the bundle age block, if there is one.\<close>

lemma lifetime_cong:
  assumes "\<forall>cb \<in> set (ExtensionBlocks b). Value cb \<noteq> None" and "\<forall>cb \<in> set (ExtensionBlocks b'). Value cb \<noteq> None"
    and "of_type BlockTypeBundleAgeBlock b = of_type BlockTypeBundleAgeBlock b'"
    and "PrimaryBlock b = PrimaryBlock b'"
  shows "IsLifetimeExceeded now b = IsLifetimeExceeded now b'"
proof -
  let ?t = BlockTypeBundleAgeBlock
  have one: "\<exists>j. ExtensionBlockByType c' ?t = Inr j \<and> ExtensionBlocks c' ! j = ExtensionBlocks c ! i"
    if i: "ExtensionBlockByType c ?t = Inr i" and v: "\<forall>cb \<in> set (ExtensionBlocks c). Value cb \<noteq> None"
      "\<forall>cb \<in> set (ExtensionBlocks c'). Value cb \<noteq> None" and e: "of_type ?t c = of_type ?t c'" for c c' i
  proof -
    have "of_type ?t c' = {#ExtensionBlocks c ! i#}" using i by (simp add: by_type_iff[OF v(1)] of_type_single flip: e)
    then have f: "filter (\<lambda>cb. TypeCode cb = Inr ?t) (ExtensionBlocks c') = [ExtensionBlocks c ! i]"
      by (simp add: of_type_single)
    then have "ExtensionBlocks c ! i \<in> set (filter (\<lambda>cb. TypeCode cb = Inr ?t) (ExtensionBlocks c'))" by simp
    then obtain j where "j < length (ExtensionBlocks c')" "ExtensionBlocks c' ! j = ExtensionBlocks c ! i"
      by (auto simp: in_set_conv_nth)
    then show ?thesis using f by (auto simp: by_type_iff[OF v(2)])
  qed
  show ?thesis
  proof (cases "ExtensionBlockByType b ?t")
    case (Inr i)
    then obtain j where "ExtensionBlockByType b' ?t = Inr j" "ExtensionBlocks b' ! j = ExtensionBlocks b ! i"
      using one assms(1-3) by blast
    then show ?thesis using Inr assms(4) by (simp add: IsLifetimeExceeded_def Let_def)
  next
    case (Inl e)
    then have "\<nexists>j. ExtensionBlockByType b' ?t = Inr j" using one[of b' _ b] assms(1-3) by fastforce
    then show ?thesis
      using by_type_no_panic[OF assms(1), of ?t] by_type_no_panic[OF assms(2), of ?t] Inl assms(4)
      by (auto simp: IsLifetimeExceeded_def Let_def)
  qed
qed

section \<open>On the way\<close>

text \<open>Serialising only sets CRC values, of blocks that have one.\<close>

lemma pb_Marshal_cases:
  assumes "pb_MarshalCbor L pb = Inr (bs, pb')"
  obtains (crc) c where "pb_HasCRC pb" "pb' = pb\<lparr>pb_CRC := c\<rparr>" | (plain) "\<not> pb_HasCRC pb" "pb' = pb"
proof (cases "pb_HasCRC pb")
  case True
  then show ?thesis using crc pb_MarshalCbor_CRC[OF assms] by blast
next
  case False
  then show ?thesis using plain assms by (auto simp: pb_MarshalCbor_def andThen_eq_Inr)
qed

lemma cb_Marshal_cases:
  assumes "cb_MarshalCbor L cb = Inr (bs, cb')"
  obtains (crc) c where "cb_HasCRC cb" "cb' = cb\<lparr>cb_CRC := c\<rparr>" | (plain) "\<not> cb_HasCRC cb" "cb' = cb"
proof (cases "cb_HasCRC cb")
  case True
  moreover have "cb' = cb\<lparr>cb_CRC := cb_CRC cb'\<rparr>"
    using cb_MarshalCbor_erase[OF assms] by (cases cb, cases cb') (simp add: erase_cb_def)
  ultimately show ?thesis using crc by blast
next
  case False
  show ?thesis by (rule cb_MarshalCbor_InrD[OF assms]) (use False plain in blast)
qed

lemma pb_MarshalCbor_wf: "pb_MarshalCbor L pb = Inr (bs, pb') \<Longrightarrow> wf_pb pb \<Longrightarrow> wf_pb pb'"
  by (erule pb_Marshal_cases) (simp_all add: wf_pb_def HasFragmentation_def pb_HasCRC_def)

lemma cb_MarshalCbor_wf:
  "cb_MarshalCbor L cb = Inr (bs, cb') \<Longrightarrow> TypeCode cb' = TypeCode cb \<and> (wf_cb M cb \<longrightarrow> wf_cb M cb')"
  by (erule cb_Marshal_cases) (simp_all add: wf_cb_def cb_HasCRC_def TypeCode_def cong: option.case_cong)

lemma marshal_blocks_wf:
  "marshal_blocks L cbs = Inr (bs, cbs') \<Longrightarrow> \<forall>cb \<in> set cbs. wf_cb M cb \<and> TypeCode cb \<noteq> Inr BlockTypePayloadBlock \<Longrightarrow>
    \<forall>cb \<in> set cbs'. wf_cb M cb \<and> TypeCode cb \<noteq> Inr BlockTypePayloadBlock"
proof (induction cbs arbitrary: bs cbs')
  case (Cons cb cbs)
  obtain bs1 cb1 bs2 cbs2 where m: "cb_MarshalCbor L cb = Inr (bs1, cb1)" "marshal_blocks L cbs = Inr (bs2, cbs2)"
    "cbs' = cb1 # cbs2"
    using Cons.prems(1) by (auto simp: andThen_eq_Inr)
  have "wf_cb M cb1" "TypeCode cb1 \<noteq> Inr BlockTypePayloadBlock"
    using cb_MarshalCbor_wf[OF m(1), of M] Cons.prems(2) by auto
  moreover have "\<forall>cb \<in> set cbs2. wf_cb M cb \<and> TypeCode cb \<noteq> Inr BlockTypePayloadBlock"
    using Cons.IH[OF m(2)] Cons.prems(2) by simp
  ultimately show ?case by (simp add: m(3))
qed simp

lemma marshalled_wf:
  assumes "wf_bundle M b" and "b_MarshalCbor L b = Inr (bs, b')"
  shows "wf_bundle M b'"
proof -
  obtain p es pl where m: "pb_MarshalCbor L (PrimaryBlock b) = Inr (p, PrimaryBlock b')"
    "marshal_blocks L (ExtensionBlocks b) = Inr (es, ExtensionBlocks b')"
    "cb_MarshalCbor L (b_PayloadBlock b) = Inr (pl, b_PayloadBlock b')"
    using assms(2) by (auto simp: b_MarshalCbor_def andThen_eq_Inr)
  have wf: "wf_pb (PrimaryBlock b)" "wf_cb M (b_PayloadBlock b)" "TypeCode (b_PayloadBlock b) = Inr BlockTypePayloadBlock"
    "\<forall>cb \<in> set (ExtensionBlocks b). wf_cb M cb \<and> TypeCode cb \<noteq> Inr BlockTypePayloadBlock"
    using assms(1) unfolding wf_bundle_def by blast+
  have "TypeCode (b_PayloadBlock b') = Inr BlockTypePayloadBlock" "wf_cb M (b_PayloadBlock b')"
    using cb_MarshalCbor_wf[OF m(3), of M] wf(2,3) by auto
  then show ?thesis
    unfolding wf_bundle_def using pb_MarshalCbor_wf[OF m(1) wf(1)] marshal_blocks_wf[OF m(2) wf(4)] by blast
qed

text \<open>A block of a type that the manager knows has a value of that type.\<close>

lemma one_previous_node:
  assumes wf: "wf_bundle M b" and M: "M BlockTypePreviousNodeBlock = Some TPreviousNode" and ok: "blocks_checked b"
  shows "length (filter is_previous_node (ExtensionBlocks b)) \<le> 1"
proof (cases "filter is_previous_node (ExtensionBlocks b)")
  case (Cons cb cbs)
  then have "cb \<in> set (filter is_previous_node (ExtensionBlocks b))" by simp
  then have cb: "cb \<in> set (ExtensionBlocks b)" "is_previous_node cb" by auto
  then obtain v where v: "Value cb = Some v" "BlockTypeCode v = BlockTypePreviousNodeBlock"
    by (auto simp: TypeCode_def nil_deref_def split: option.splits)
  have "registered M v" using wf cb(1) v(1) by (auto simp: wf_bundle_def wf_cb_def)
  then have "type_of v = TPreviousNode" using v(2) M by (simp add: registered_def createBlock_def)
  then have "context_type v = Some BlockTypePreviousNodeBlock" by (cases v) simp_all
  then have "of_type BlockTypePreviousNodeBlock b = {#cb#}" using ok cb(1) v(1) by (auto simp: blocks_checked_def)
  then show ?thesis by (simp add: of_type_single)
qed simp

lemma outgoing_checked:
  fixes n own
  defines "p \<equiv> NewCanonicalBlock n 0 (PreviousNodeBlock own)"
  assumes ok: "blocks_checked b" and own: "eid_CheckValid own = []" and "blocks_ok l"
    and p: "filter_mset is_previous_node (mset (ExtensionBlocks l)) = {#p#}"
    and rest: "filter_mset (\<lambda>cb. \<not> is_previous_node cb) (mset (ExtensionBlocks l)) =
      filter_mset (\<lambda>cb. \<not> is_previous_node cb) (mset (ExtensionBlocks b))"
  shows "blocks_checked l" "t \<noteq> BlockTypePreviousNodeBlock \<Longrightarrow> of_type t l = of_type t b"
    "mset (ExtensionBlocks l) = add_mset p (filter_mset (\<lambda>cb. \<not> is_previous_node cb) (mset (ExtensionBlocks b)))"
proof -
  show l: "mset (ExtensionBlocks l) = add_mset p (filter_mset (\<lambda>cb. \<not> is_previous_node cb) (mset (ExtensionBlocks b)))"
    using p rest multiset_partition[of "mset (ExtensionBlocks l)" is_previous_node] by simp
  have code: "TypeCode p = Inr BlockTypePreviousNodeBlock" by (simp add: p_def TypeCode_def NewCanonicalBlock_def)
  show others: "of_type t l = of_type t b" if "t \<noteq> BlockTypePreviousNodeBlock" for t
    using that code by (auto simp: of_type_def l filter_filter_mset intro!: filter_mset_cong)
  have "of_type t l = {#cb#}" if cb: "cb \<in># mset (ExtensionBlocks l)" "Value cb = Some v" "context_type v = Some t" for cb v t
  proof (cases "t = BlockTypePreviousNodeBlock")
    case True
    then have "cb \<in># filter_mset is_previous_node (mset (ExtensionBlocks l))"
      using cb context_type_code by (simp add: TypeCode_def)
    then show ?thesis using p True by (simp add: of_type_def)
  next
    case False
    then have "\<not> is_previous_node cb" using cb context_type_code by (simp add: TypeCode_def)
    then have "cb \<in># mset (ExtensionBlocks b)" using cb(1) code by (auto simp: l)
    then show ?thesis using ok cb False by (simp add: others blocks_checked_def)
  qed
  moreover have "cb_CheckValid p = Inr []"
    by (simp add: p_def cb_CheckValid_def NewCanonicalBlock_def own blockcf_CheckValid_def block_type_defs)
  then have "\<forall>cb \<in># mset (ExtensionBlocks l). cb_CheckValid cb = Inr []"
    using ok by (auto simp: l blocks_checked_def)
  ultimately show "blocks_checked l" using assms(4) by (auto simp: blocks_checked_def blocks_ok_def)
qed

text \<open>What the checks of a bundle say once the order is forgotten.\<close>

lemma valid_iff:
  "b_CheckValid now b = Inr [] \<longleftrightarrow>
    pb_CheckValid (PrimaryBlock b) = [] \<and> blocks_checked b \<and>
    (IsZeroTime (CreationTimestamp (PrimaryBlock b)) \<longrightarrow> of_type BlockTypeBundleAgeBlock b \<noteq> {#}) \<and>
    IsLifetimeExceeded now b = Inr False \<and> cb_CheckValid (b_PayloadBlock b) = Inr [] \<and>
    \<not> Has (BlockControlFlags (b_PayloadBlock b)) StatusReportBlock"
  unfolding b_CheckValid_Nil blocks_valid_iff by blast

lemma outgoing_valid:
  assumes wf: "wf_bundle M b" and valid: "b_CheckValid now b = Inr []"
    and M: "M BlockTypePreviousNodeBlock = Some TPreviousNode" and own: "wf_eid own"
    and len: "length (ExtensionBlocks b) < 2 ^ 63"
  obtains l n where "outgoing own (Loaded b) = Inr (Loaded l)" "wf_bundle M l" "b_CheckValid now l = Inr []"
    "PrimaryBlock l = PrimaryBlock b" "b_PayloadBlock l = b_PayloadBlock b"
    "mset (ExtensionBlocks l) = add_mset (NewCanonicalBlock n 0 (PreviousNodeBlock own))
      (filter_mset (\<lambda>cb. \<not> is_previous_node cb) (mset (ExtensionBlocks b)))"
proof -
  have ok: "blocks_checked b" using valid by (simp add: valid_iff)
  have vals: "\<forall>cb \<in> set (ExtensionBlocks b). Value cb \<noteq> None"
    using ok checked_values by (auto simp: blocks_checked_def)
  have "distinct (block_numbers b)" using ok by (simp add: blocks_checked_def)
  from replace_previous_node_ok[OF vals this one_previous_node[OF wf M ok] len, of own]
  obtain l n where l: "replace_previous_node own b = Inr l" "blocks_ok l"
    "PrimaryBlock l = PrimaryBlock b" "b_PayloadBlock l = b_PayloadBlock b"
    "filter_mset is_previous_node (mset (ExtensionBlocks l)) = {#NewCanonicalBlock n 0 (PreviousNodeBlock own)#}"
    "filter_mset (\<lambda>cb. \<not> is_previous_node cb) (mset (ExtensionBlocks l)) =
      filter_mset (\<lambda>cb. \<not> is_previous_node cb) (mset (ExtensionBlocks b))" by metis
  let ?p = "NewCanonicalBlock n 0 (PreviousNodeBlock own)"
  note c = outgoing_checked[OF ok wf_eidD[OF own] l(2,5,6)]
  have age: "of_type BlockTypeBundleAgeBlock l = of_type BlockTypeBundleAgeBlock b"
    by (rule c(2)) (simp add: block_type_defs)
  have "\<forall>cb \<in> set (ExtensionBlocks l). Value cb \<noteq> None"
    using c(1) checked_values by (auto simp: blocks_checked_def)
  from lifetime_cong[OF this vals age l(3)] have valid': "b_CheckValid now l = Inr []"
    using valid age c(1) by (simp add: valid_iff l(3,4))
  have p: "wf_cb M ?p" "TypeCode ?p \<noteq> Inr BlockTypePayloadBlock"
    using M own by (simp_all add: wf_cb_def NewCanonicalBlock_def registered_def createBlock_def cb_HasCRC_def
        TypeCode_def block_type_defs)
  have "set (ExtensionBlocks l) \<subseteq> insert ?p (set (ExtensionBlocks b))"
    using arg_cong[OF c(3), of set_mset] by auto
  then have "\<forall>cb \<in> set (ExtensionBlocks l). wf_cb M cb \<and> TypeCode cb \<noteq> Inr BlockTypePayloadBlock"
    using wf p unfolding wf_bundle_def by blast
  then have "wf_bundle M l" using wf unfolding wf_bundle_def l(3,4) by blast
  from that[OF _ this valid' l(3,4) c(3)] show ?thesis using l(1) by (simp add: outgoing_def)
qed

lemma outgoing_sent:
  assumes "wf_bundle M b" and "\<forall>t \<in> T. b_CheckValid t b = Inr []" and "T \<noteq> {}"
    and "M BlockTypePreviousNodeBlock = Some TPreviousNode" and "wf_eid own" and "length (ExtensionBlocks b) < 2 ^ 63"
    and "outgoing own (Loaded b) = Inr (Loaded l)"
  shows "wf_bundle M l" "PrimaryBlock l = PrimaryBlock b" "b_PayloadBlock l = b_PayloadBlock b"
    "\<forall>t \<in> T. b_CheckValid t l = Inr []"
proof -
  have l: "wf_bundle M l \<and> b_CheckValid t l = Inr [] \<and> PrimaryBlock l = PrimaryBlock b \<and> b_PayloadBlock l = b_PayloadBlock b"
    if "t \<in> T" for t
    by (rule outgoing_valid[OF assms(1) _ assms(4-6), of t]) (use assms(2,7) that in auto)
  then show "wf_bundle M l" "PrimaryBlock l = PrimaryBlock b" "b_PayloadBlock l = b_PayloadBlock b"
    "\<forall>t \<in> T. b_CheckValid t l = Inr []" using assms(3) by blast+
qed

text \<open>What bundles that differ only in their CRC values have in common.\<close>

lemma erase_fields:
  assumes "erase b = erase b'"
  shows "b_ID b = b_ID b'" "Destination (PrimaryBlock b) = Destination (PrimaryBlock b')"
    "payload_data (b_PayloadBlock b) = payload_data (b_PayloadBlock b')"
proof -
  have p: "(PrimaryBlock b)\<lparr>pb_CRC := []\<rparr> = (PrimaryBlock b')\<lparr>pb_CRC := []\<rparr>"
    and pl: "erase_cb (b_PayloadBlock b) = erase_cb (b_PayloadBlock b')"
    using assms by (simp_all add: erase_def)
  have id: "b_ID b = b_ID (b\<lparr>PrimaryBlock := (PrimaryBlock b)\<lparr>pb_CRC := []\<rparr>\<rparr>)" for b
    by (simp add: b_ID_def HasFragmentation_def)
  show "b_ID b = b_ID b'" using id[of b] id[of b'] p by (simp add: b_ID_def)
  show "Destination (PrimaryBlock b) = Destination (PrimaryBlock b')"
    using arg_cong[OF p, of Destination] by simp
  show "payload_data (b_PayloadBlock b) = payload_data (b_PayloadBlock b')"
    using arg_cong[OF pl, of Value] by (simp add: payload_data_def)
qed

section \<open>Properties\<close>

text \<open>
  Claim C8: forwarding keeps bundles valid. From a well-formed bundle that passes the checks the forwarding makes one
  that is well formed and passes the checks at the same time: nothing but the previous node block has
  changed, and the receiver parses, without an error, what is sent, up to the CRC values it was written with.
\<close>

theorem forwarded_stays_valid:
  assumes "cboring L" and "wf_bundle M b" and "b_CheckValid now b = Inr []"
    and "M BlockTypePreviousNodeBlock = Some TPreviousNode" and "wf_eid own"
    and "length (ExtensionBlocks b) < 2 ^ 63"
  shows "\<exists>l n. outgoing own (Loaded b) = Inr (Loaded l) \<and> b_CheckValid now l = Inr [] \<and>
    PrimaryBlock l = PrimaryBlock b \<and> b_PayloadBlock l = b_PayloadBlock b \<and>
    mset (ExtensionBlocks l) = add_mset (NewCanonicalBlock n 0 (PreviousNodeBlock own))
      (filter_mset (\<lambda>cb. \<not> is_previous_node cb) (mset (ExtensionBlocks b))) \<and>
    (\<forall>bs l'. b_MarshalCbor L l = Inr (bs, l') \<and> length bs < 2 ^ 64 \<longrightarrow>
      ParseBundle L M now bs = Some (Inr (l', [])) \<and> erase l' = erase l)"
proof -
  obtain l n where l: "outgoing own (Loaded b) = Inr (Loaded l)" "wf_bundle M l" "b_CheckValid now l = Inr []"
    "PrimaryBlock l = PrimaryBlock b" "b_PayloadBlock l = b_PayloadBlock b"
    "mset (ExtensionBlocks l) = add_mset (NewCanonicalBlock n 0 (PreviousNodeBlock own))
      (filter_mset (\<lambda>cb. \<not> is_previous_node cb) (mset (ExtensionBlocks b)))"
    by (rule outgoing_valid[OF assms(2-6)])
  have "ParseBundle L M now bs = Some (Inr (l', [])) \<and> erase l' = erase l"
    if "b_MarshalCbor L l = Inr (bs, l')" "length bs < 2 ^ 64" for bs l'
    using cboring.bundle_rw[OF assms(1) l(2) that, of now] b_MarshalCbor_erase[OF that(1)] l(3) by simp
  then show ?thesis using l by blast
qed

theorem forwarded_stays_valid_witness:
  "\<exists>l. outgoing sample_eid (Loaded sample_bundle) = Inr (Loaded l) \<and> b_CheckValid 0 l = Inr []"
proof -
  have "length (ExtensionBlocks sample_bundle) < 2 ^ 63" by (simp add: sample_bundle_def)
  moreover have "GetExtensionBlockManager BlockTypePreviousNodeBlock = Some TPreviousNode"
    by (simp add: GetExtensionBlockManager_eq block_type_defs)
  ultimately show ?thesis
    using forwarded_stays_valid[OF cboring_rfc sample_bundle_wf sample_bundle_valid _ sample_eid_wf] by blast
qed

end
