(* ===== verification/Admin_Record.thy ===== *)
theory Admin_Record
  imports Bundle
begin

text \<open>
  \<^verbatim>\<open>pkg/bpv7/administrative_record.go\<close> and \<^verbatim>\<open>administrative_record_status_report.go\<close>:
  administrative records with the manager of their types, and the bundle status report, the only
  record there is.
\<close>

section \<open>Status reports\<close>

record status_item =
  Asserted :: bool
  si_Time :: dtn_time
  StatusRequested :: bool

definition bsi_MarshalCbor :: "lib \<Rightarrow> status_item \<Rightarrow> bytes" where
  "bsi_MarshalCbor L bsi =
     (let arrLen = (if Asserted bsi \<and> StatusRequested bsi then 2 else 1)
      in WriteArrayLength L arrLen @ WriteBoolean L (Asserted bsi) @
         (if arrLen = 2 then WriteUInt L (si_Time bsi) else []))"

definition bsi_UnmarshalCbor :: "lib \<Rightarrow> status_item reader" where
  "bsi_UnmarshalCbor L i =
     andThen (ReadArrayLength L i) (\<lambda>(n, r).
       if n \<noteq> 1 \<and> n \<noteq> 2 then Inl (Errorf ''BundleStatusItem: Array's length is not 1 or 2'')
       else andThen (ReadBoolean L r) (\<lambda>(b, r).
         if n = 2
         then andThen (ReadUInt L r) (\<lambda>(t, r).
           Inr (\<lparr>Asserted = b, si_Time = t, StatusRequested = True\<rparr>, r))
         else Inr (\<lparr>Asserted = b, si_Time = 0, StatusRequested = False\<rparr>, r)))"

definition NewBundleStatusItem :: "bool \<Rightarrow> status_item" where
  "NewBundleStatusItem asserted = \<lparr>Asserted = asserted, si_Time = DtnTimeEpoch, StatusRequested = False\<rparr>"

definition NewTimeReportingBundleStatusItem :: "dtn_time \<Rightarrow> status_item" where
  "NewTimeReportingBundleStatusItem time = \<lparr>Asserted = True, si_Time = time, StatusRequested = True\<rparr>"

text \<open>The reason codes with their names, in the order of the constants.\<close>

definition reason_names :: "string list" where
  "reason_names =
     [''No additional information'', ''Lifetime expired'', ''Forward over unidirectional link'',
      ''Transmission canceled'', ''Depleted storage'', ''Destination endpoint ID unintelligible'',
      ''No known route to destination from here'', ''No timely contact with next node on route'',
      ''Block unintelligible'', ''Hop limit exceeded'', ''Traffic pared'', ''Block unsupported'']"

definition StatusReportReason_String :: "u64 \<Rightarrow> string" where
  "StatusReportReason_String srr =
     (if unat srr < length reason_names then reason_names ! unat srr else ''unknown'')"

definition maxStatusInformationPos :: nat where "maxStatusInformationPos = 4"

definition StatusInformationPos_String :: "int \<Rightarrow> string" where
  "StatusInformationPos_String sip =
     (if sip = 0 then ''received bundle'' else if sip = 1 then ''forwarded bundle''
      else if sip = 2 then ''delivered bundle'' else if sip = 3 then ''deleted bundle'' else ''unknown'')"

record status_report =
  StatusInformation :: "status_item list"
  ReportReason :: u64
  RefBundle :: bundle_id

definition NewStatusReport :: "dtn_bundle \<Rightarrow> int \<Rightarrow> u64 \<Rightarrow> dtn_time \<Rightarrow> status_report" where
  "NewStatusReport bndl statusItem reason time =
     \<lparr>StatusInformation = map (\<lambda>i.
        if int i = statusItem \<and> Has (BundleControlFlags (PrimaryBlock bndl)) RequestStatusTime
        then NewTimeReportingBundleStatusItem time
        else if int i = statusItem then NewBundleStatusItem True
        else NewBundleStatusItem False) [0..<maxStatusInformationPos],
      ReportReason = reason, RefBundle = b_ID bndl\<rparr>"

definition StatusInformations :: "status_report \<Rightarrow> nat list" where
  "StatusInformations sr =
     filter (\<lambda>i. Asserted (StatusInformation sr ! i)) [0..<length (StatusInformation sr)]"

definition sr_MarshalCbor :: "lib \<Rightarrow> status_report \<Rightarrow> bytes res" where
  "sr_MarshalCbor L sr =
     andThen (wrapping ''Marshalling BundleID failed'' (bid_MarshalCbor L (RefBundle sr))) (\<lambda>ref.
       Inr (WriteArrayLength L (2 + bid_Len (RefBundle sr)) @
         WriteArrayLength L (word_of_nat (length (StatusInformation sr))) @
         concat (map (bsi_MarshalCbor L) (StatusInformation sr)) @
         WriteUInt L (ReportReason sr) @ ref))"

fun read_items :: "lib \<Rightarrow> nat \<Rightarrow> status_item list reader" where
  "read_items L 0 i = Inr ([], i)"
| "read_items L (Suc n) i =
     andThen (wrapping ''Unmarshalling BundleStatusItem failed'' (bsi_UnmarshalCbor L i)) (\<lambda>(x, r).
     andThen (read_items L n r) (\<lambda>(xs, r). Inr (x # xs, r)))"

text \<open>A \<^verbatim>\<open>BundleStatusItem\<close> takes 24 bytes.\<close>

definition sr_UnmarshalCbor :: "lib \<Rightarrow> status_report reader" where
  "sr_UnmarshalCbor L i =
     andThen (ReadArrayLength L i) (\<lambda>(k, r).
       if k \<noteq> 4 \<and> k \<noteq> 6 then Inl (Errorf ''Expected array of length 4 or 6'')
       else andThen (ReadArrayLength L r) (\<lambda>(n, r).
         if \<not> make_slice_ok 24 (unat n) then Inl (Panic ''makeslice: len out of range'')
         else andThen (read_items L (unat n) r) (\<lambda>(items, r).
         andThen (ReadUInt L r) (\<lambda>(reason, r).
         andThen (wrapping ''Unmarshalling BundleID failed'' (bid_UnmarshalCbor L (k = 6) r)) (\<lambda>(ref, r).
           Inr (\<lparr>StatusInformation = items, ReportReason = reason, RefBundle = ref\<rparr>, r))))))"

section \<open>Administrative records\<close>

definition AdminRecordTypeStatusReport :: u64 where "AdminRecordTypeStatusReport = 1"

datatype admin_record = StatusReport status_report
datatype admin_type = TStatusReport

fun RecordTypeCode :: "admin_record \<Rightarrow> u64" where
  "RecordTypeCode (StatusReport _) = AdminRecordTypeStatusReport"

fun admin_type_of :: "admin_record \<Rightarrow> admin_type" where
  "admin_type_of (StatusReport _) = TStatusReport"

type_synonym arm = "u64 \<rightharpoonup> admin_type"

definition NewAdministrativeRecordManager :: arm where
  "NewAdministrativeRecordManager = Map.empty"

definition arm_Register :: "admin_record \<Rightarrow> arm \<Rightarrow> err option \<times> arm" where
  "arm_Register ar M =
     (if M (RecordTypeCode ar) \<noteq> None then (Some (Errorf ''record type code is already registered''), M)
      else (None, M(RecordTypeCode ar \<mapsto> admin_type_of ar)))"

definition arm_Unregister :: "admin_record \<Rightarrow> arm \<Rightarrow> arm" where
  "arm_Unregister ar M = M(RecordTypeCode ar := None)"

definition arm_IsKnown :: "arm \<Rightarrow> u64 \<Rightarrow> bool" where
  "arm_IsKnown M typeCode \<longleftrightarrow> M typeCode \<noteq> None"

fun ar_MarshalCbor :: "lib \<Rightarrow> admin_record \<Rightarrow> bytes res" where
  "ar_MarshalCbor L (StatusReport sr) = sr_MarshalCbor L sr"

fun ar_UnmarshalCbor :: "lib \<Rightarrow> admin_type \<Rightarrow> admin_record reader" where
  "ar_UnmarshalCbor L TStatusReport i = andThen (sr_UnmarshalCbor L i) (\<lambda>(sr, r). Inr (StatusReport sr, r))"

definition WriteAdministrativeRecord :: "lib \<Rightarrow> admin_record \<Rightarrow> bytes res" where
  "WriteAdministrativeRecord L ar =
     andThen (wrapping ''marshalling AdministrativeRecord erred'' (ar_MarshalCbor L ar)) (\<lambda>bs.
       Inr (WriteArrayLength L 2 @ WriteUInt L (RecordTypeCode ar) @ bs))"

definition ReadAdministrativeRecord :: "lib \<Rightarrow> arm \<Rightarrow> admin_record reader" where
  "ReadAdministrativeRecord L M i =
     andThen (ReadArrayLength L i) (\<lambda>(n, r).
       if n \<noteq> 2 then Inl (Errorf ''expected CBOR array of length 2'')
       else andThen (ReadUInt L r) (\<lambda>(typeCode, r).
         case M typeCode of
           None \<Rightarrow> Inl (Errorf ''no AdministrativeRecord registered for record type code'')
         | Some t \<Rightarrow> wrapping ''unmarshalling AdministrativeRecord failed'' (ar_UnmarshalCbor L t r)))"

text \<open>The singleton, in which the status report is registered.\<close>

definition GetAdministrativeRecordManager :: arm where
  "GetAdministrativeRecordManager =
     snd (arm_Register (StatusReport \<lparr>StatusInformation = [], ReportReason = 0, RefBundle =
       \<lparr>bid_SourceNode = None, bid_Timestamp = (0, 0), bid_IsFragment = False,
        bid_FragmentOffset = 0, bid_TotalDataLength = 0\<rparr>\<rparr>) NewAdministrativeRecordManager)"

definition NewAdministrativeRecordFromCbor :: "lib \<Rightarrow> bytes \<Rightarrow> admin_record res" where
  "NewAdministrativeRecordFromCbor L data =
     andThen (ReadAdministrativeRecord L GetAdministrativeRecordManager data) (\<lambda>(ar, r). Inr ar)"

definition AdministrativeRecordToCbor :: "lib \<Rightarrow> admin_record \<Rightarrow> canonical_block res" where
  "AdministrativeRecordToCbor L ar =
     andThen (WriteAdministrativeRecord L ar) (\<lambda>bs. Inr (NewCanonicalBlock 1 0 (PayloadBlock bs)))"

text \<open>\<^verbatim>\<open>Bundle.AdministrativeRecord\<close>: the record in the payload of a bundle that is flagged as one.\<close>

definition b_AdministrativeRecord :: "lib \<Rightarrow> dtn_bundle \<Rightarrow> admin_record res" where
  "b_AdministrativeRecord L b =
     (if \<not> IsAdministrativeRecord b then Inl (Errorf ''bundle is not an administrative record'')
      else andThen (payload_data (b_PayloadBlock b)) (\<lambda>data.
           andThen (ReadAdministrativeRecord L GetAdministrativeRecordManager data) (\<lambda>(ar, r). Inr ar)))"

section \<open>Reading back\<close>

text \<open>A time is only written with a positive assertion for which it was requested.\<close>

definition wf_item :: "status_item \<Rightarrow> bool" where
  "wf_item x \<longleftrightarrow> (if StatusRequested x then Asserted x else si_Time x = 0)"

definition wf_report :: "status_report \<Rightarrow> bool" where
  "wf_report sr \<longleftrightarrow> (\<forall>x \<in> set (StatusInformation sr). wf_item x) \<and> wf_bid (RefBundle sr) \<and>
     make_slice_ok 24 (length (StatusInformation sr))"

lemma known_status_report: "GetAdministrativeRecordManager = [1 \<mapsto> TStatusReport]"
  by (simp add: GetAdministrativeRecordManager_def arm_Register_def NewAdministrativeRecordManager_def
      AdminRecordTypeStatusReport_def)

context cboring
begin

lemma bsi_rw [codec]: "wf_item x \<Longrightarrow> bsi_UnmarshalCbor L (bsi_MarshalCbor L x @ r) = Inr (x, r)"
  by (cases x) (simp add: bsi_UnmarshalCbor_def bsi_MarshalCbor_def wf_item_def read_back split: if_splits)

lemma items_rw: "\<forall>x \<in> set xs. wf_item x \<Longrightarrow>
    read_items L (length xs) (concat (map (bsi_MarshalCbor L) xs) @ r) = Inr (xs, r)"
  by (induction xs) (simp_all add: bsi_rw)

lemma report_rw:
  assumes wf: "wf_report sr" and m: "sr_MarshalCbor L sr = Inr bs"
  shows "sr_UnmarshalCbor L (bs @ r) = Inr (sr, r)"
proof -
  obtain ref where ref: "bid_MarshalCbor L (RefBundle sr) = Inr ref"
    using m by (auto simp: sr_MarshalCbor_def andThen_eq_Inr)
  have len: "length (StatusInformation sr) < 2 ^ 64"
    using wf by (simp add: wf_report_def make_slice_ok_def)
  have "bid_UnmarshalCbor L (bid_IsFragment (RefBundle sr)) (ref @ r) = Inr (RefBundle sr, r)"
    using wf by (intro bid_rw[OF _ ref]) (simp add: wf_report_def)
  moreover have "(2 + bid_Len (RefBundle sr) = 6) = bid_IsFragment (RefBundle sr)"
    "2 + bid_Len (RefBundle sr) = 4 \<or> 2 + bid_Len (RefBundle sr) = 6" by (simp_all add: bid_Len_def)
  ultimately show ?thesis
    using m ref wf items_rw[of "StatusInformation sr"]
    by (auto simp: sr_MarshalCbor_def sr_UnmarshalCbor_def read_back wf_report_def unat_word_small[OF len])
qed

lemma record_rw:
  assumes "wf_report sr"
  shows "\<exists>bs. AdministrativeRecordToCbor L (StatusReport sr) = Inr (NewCanonicalBlock 1 0 (PayloadBlock bs)) \<and>
    NewAdministrativeRecordFromCbor L bs = Inr (StatusReport sr)"
proof -
  obtain src where "eid_MarshalCbor L (bid_SourceNode (RefBundle sr)) = Inr src"
    using assms eid_marshals by (auto simp: wf_report_def wf_bid_def)
  then obtain bs where m: "sr_MarshalCbor L sr = Inr bs"
    by (simp add: sr_MarshalCbor_def bid_MarshalCbor_def)
  have rd: "sr_UnmarshalCbor L bs = Inr (sr, [])" using report_rw[OF assms m, of "[]"] by simp
  show ?thesis
    by (rule exI[of _ "WriteArrayLength L 2 @ WriteUInt L 1 @ bs"])
      (simp add: AdministrativeRecordToCbor_def WriteAdministrativeRecord_def m
        NewAdministrativeRecordFromCbor_def ReadAdministrativeRecord_def read_back
        known_status_report AdminRecordTypeStatusReport_def rd)
qed

end

section \<open>The reports that are made\<close>

lemma positions: "[0..<maxStatusInformationPos] = [0, 1, 2, 3]"
  by (simp add: maxStatusInformationPos_def upt_rec numeral_eq_Suc)

lemma NewStatusReport_wf: "wf_bid (b_ID b) \<Longrightarrow> wf_report (NewStatusReport b sip reason time)"
  by (auto simp: wf_report_def NewStatusReport_def wf_item_def NewBundleStatusItem_def
      NewTimeReportingBundleStatusItem_def positions make_slice_ok_def)

lemma NewStatusReport_asserts:
  "StatusInformations (NewStatusReport b sip reason time) =
     (if 0 \<le> sip \<and> sip < 4 then [nat sip] else [])"
proof -
  let ?sr = "NewStatusReport b sip reason time"
  have item: "Asserted (StatusInformation ?sr ! i) \<longleftrightarrow> int i = sip" if "i < 4" for i
    using that by (simp add: NewStatusReport_def maxStatusInformationPos_def NewBundleStatusItem_def
        NewTimeReportingBundleStatusItem_def)
  have "StatusInformations ?sr = filter (\<lambda>i. Asserted (StatusInformation ?sr ! i)) [0..<4]"
    by (simp add: StatusInformations_def NewStatusReport_def maxStatusInformationPos_def)
  also have "\<dots> = filter (\<lambda>i. int i = sip) [0..<4]"
    by (rule filter_cong) (simp_all add: item)
  also have "\<dots> = (if 0 \<le> sip \<and> sip < 4 then [nat sip] else [])"
    using positions by (auto simp: maxStatusInformationPos_def)
  finally show ?thesis .
qed

section \<open>Properties\<close>

text \<open>
  Also shown: a status report made for a bundle with a well-formed ID asserts the one item it was asked
  for, or none when there is no such item. It always serialises, into a payload block from whose data
  the same report is read: with its reason, its time and the ID of the bundle, fragment or not.
\<close>

theorem status_report_roundtrip:
  assumes "cboring L" and "wf_bid (b_ID b)"
  shows "StatusInformations (NewStatusReport b sip reason time) =
      (if 0 \<le> sip \<and> sip < 4 then [nat sip] else []) \<and>
    (\<exists>bs. AdministrativeRecordToCbor L (StatusReport (NewStatusReport b sip reason time)) =
        Inr (NewCanonicalBlock 1 0 (PayloadBlock bs)) \<and>
      NewAdministrativeRecordFromCbor L bs = Inr (StatusReport (NewStatusReport b sip reason time)))"
  using cboring.record_rw[OF assms(1) NewStatusReport_wf[OF assms(2)]] NewStatusReport_asserts by blast

lemma sample_bundle_bid: "wf_bid (b_ID sample_bundle)"
  using sample_eid_wf
  by (simp add: wf_bid_def b_ID_def sample_bundle_def sample_primary_def Has_def IsFragment_def)

theorem status_report_roundtrip_witness:
  "StatusInformations (NewStatusReport sample_bundle 2 0 9) = [2] \<and>
   (\<exists>bs. AdministrativeRecordToCbor rfc_lib (StatusReport (NewStatusReport sample_bundle 2 0 9)) =
      Inr (NewCanonicalBlock 1 0 (PayloadBlock bs)) \<and>
    NewAdministrativeRecordFromCbor rfc_lib bs = Inr (StatusReport (NewStatusReport sample_bundle 2 0 9)))"
  using status_report_roundtrip[OF cboring_rfc sample_bundle_bid, of 2 0 9] by simp

text \<open>
  Also shown: reading a record allocates the list of items from the length that the record announces,
  before a single item is read. A few bytes that announce more than the address space holds make the
  reader panic.
\<close>

theorem status_report_length_panics:
  assumes "cboring L" and "24 * unat n > 2 ^ 48"
  shows "NewAdministrativeRecordFromCbor L
    (WriteArrayLength L 2 @ WriteUInt L 1 @ WriteArrayLength L 4 @ WriteArrayLength L n @ r) =
    Inl (Panic ''makeslice: len out of range'')"
  using assms(2) cboring.read_back[OF assms(1)]
  by (simp add: NewAdministrativeRecordFromCbor_def ReadAdministrativeRecord_def known_status_report
      sr_UnmarshalCbor_def make_slice_ok_def)

theorem status_report_length_panics_witness:
  "NewAdministrativeRecordFromCbor rfc_lib [130, 1, 132, 155, 16, 0, 0, 0, 0, 0, 0, 0] =
    Inl (Panic ''makeslice: len out of range'')"
  using status_report_length_panics[OF cboring_rfc, of "1152921504606846976" "[]"]
  by (simp add: rfc_simps rfc_head_def eight_bytes)

end
