(* ===== verification/Builder.thy ===== *)
theory Builder
  imports Admin_Record
begin

text \<open>
  \<^verbatim>\<open>pkg/bpv7/bundle_builder.go\<close>: the chained builder of bundles and \<^verbatim>\<open>BuildFromMap\<close>, which the
  application agents call with what a client sent. An \<^verbatim>\<open>interface{}\<close> is a value of
  \<open>go_val\<close>. A method returns the builder, which remembers the first error; \<open>Inl\<close> is a panic
  only. The clock's readings are arguments. Floating-point arithmetic is a parameter: the product that
  \<^verbatim>\<open>time.ParseDuration\<close> takes for a fraction, and the conversion of a \<^verbatim>\<open>float64\<close> that no
  \<^verbatim>\<open>uint64\<close> holds, which Go leaves to the platform.
\<close>

section \<open>Values\<close>

text \<open>
  The dynamic types the code distinguishes. \<open>V_fixed\<close> is a number of another fixed-size
  type with its little-endian bytes, \<open>V_list\<close> a \<^verbatim>\<open>[]interface{}\<close>, \<open>V_map\<close> a map. A
  \<^verbatim>\<open>float64\<close> is its bits, a duration its nanoseconds.
\<close>

datatype go_val =
    V_nil
  | V_bool bool
  | V_int int
  | V_uint64 u64
  | V_float64 u64
  | V_fixed bytes
  | V_string string
  | V_bytes bytes
  | V_list "go_val list"
  | V_map "(string \<times> go_val) list"
  | V_time time
  | V_duration u64
  | V_eid endpoint_id
  | V_blockFlags block_control_flags
  | V_block ext_block
  | V_canonical canonical_block
  | V_bundle dtn_bundle
  | V_statusPos int
  | V_reason u64
  | V_dtnTime dtn_time

record float_ops =
  fraction :: "nat \<Rightarrow> nat \<Rightarrow> nat \<Rightarrow> nat"
  float_out_of_range :: "u64 \<Rightarrow> u64"

section \<open>time.ParseDuration\<close>

fun leadingInt :: "nat \<Rightarrow> string \<Rightarrow> (nat \<times> string) res" where
  "leadingInt x [] = Inr (x, [])"
| "leadingInt x (c # s) =
     (if \<not> is_digit c then Inr (x, c # s)
      else if x > 2 ^ 63 div 10 then Inl (LibErr ''time: invalid duration'')
      else let y = 10 * x + digit_value c
           in if y > 2 ^ 63 then Inl (LibErr ''time: invalid duration'') else leadingInt y s)"

fun leadingFraction :: "nat \<Rightarrow> nat \<Rightarrow> bool \<Rightarrow> string \<Rightarrow> nat \<times> nat \<times> string" where
  "leadingFraction x scale overflow [] = (x, scale, [])"
| "leadingFraction x scale overflow (c # s) =
     (if \<not> is_digit c then (x, scale, c # s)
      else let y = 10 * x + digit_value c
           in if overflow \<or> x > (2 ^ 63 - 1) div 10 \<or> y > 2 ^ 63 then leadingFraction x scale True s
              else leadingFraction y (10 * scale) False s)"

text \<open>The micro sign and the Greek letter are two bytes each.\<close>

definition unitMap :: "string \<rightharpoonup> nat" where
  "unitMap = map_of
     [(''ns'', 1), (''us'', 1000), ([CHR 0xC2, CHR 0xB5, CHR ''s''], 1000),
      ([CHR 0xCE, CHR 0xBC, CHR ''s''], 1000), (''ms'', 1000000), (''s'', 1000000000),
      (''m'', 60000000000), (''h'', 3600000000000)]"

definition unit_char :: "char \<Rightarrow> bool" where
  "unit_char c \<longleftrightarrow> c \<noteq> CHR ''.'' \<and> \<not> is_digit c"

text \<open>One number with its unit.\<close>

definition parse_component :: "float_ops \<Rightarrow> string \<Rightarrow> (nat \<times> string) res" where
  "parse_component F s =
     (let invalid = Inl (LibErr ''time: invalid duration'')
      in if s = [] \<or> unit_char (hd s) then invalid
         else andThen (leadingInt 0 s) (\<lambda>(v, s1).
           let pre = s1 \<noteq> s;
               point = s1 \<noteq> [] \<and> hd s1 = CHR ''.'';
               (f, scale, s2) = (if point then leadingFraction 0 1 False (tl s1) else (0, 1, s1));
               post = point \<and> s2 \<noteq> tl s1;
               u = takeWhile unit_char s2
           in if \<not> pre \<and> \<not> post then invalid
              else if u = [] then Inl (LibErr ''time: missing unit in duration'')
              else case unitMap u of
                     None \<Rightarrow> Inl (LibErr ''time: unknown unit in duration'')
                   | Some unit \<Rightarrow>
                       if v > 2 ^ 63 div unit then invalid
                       else let w = (v * unit + (if f > 0 then fraction F f unit scale else 0)) mod 2 ^ 64
                            in if f > 0 \<and> w > 2 ^ 63 then invalid
                               else Inr (w, dropWhile unit_char s2)))"

lemma leadingInt_length: "leadingInt x s = Inr (v, r) \<Longrightarrow> length r \<le> length s"
  by (induction x s rule: leadingInt.induct) (auto simp: Let_def split: if_splits)

lemma leadingFraction_length: "leadingFraction x scale ovf s = (v, k, r) \<Longrightarrow> length r \<le> length s"
  by (induction x scale ovf s rule: leadingFraction.induct) (auto simp: Let_def split: if_splits)

lemma dropWhile_shorter: "takeWhile P s \<noteq> [] \<Longrightarrow> length (dropWhile P s) < length s"
  by (metis append_self_conv2 length_append length_greater_0_conv less_add_same_cancel2 takeWhile_dropWhile_id)

lemma parse_component_length:
  assumes "parse_component F s = Inr (v, r)"
  shows "length r < length s"
proof -
  obtain n s1 where s1: "leadingInt 0 s = Inr (n, s1)"
    using assms by (auto simp: parse_component_def Let_def andThen_eq_Inr split: if_splits)
  define p where "p = (s1 \<noteq> [] \<and> hd s1 = CHR ''.'')"
  obtain f scale s2 where s2: "(if p then leadingFraction 0 1 False (tl s1) else (0, 1, s1)) = (f, scale, s2)"
    by (metis prod_cases3)
  have "length s2 \<le> length s1"
    using s2 leadingFraction_length[of 0 1 False "tl s1"] by (auto split: if_splits)
  also have "\<dots> \<le> length s" using leadingInt_length[OF s1] .
  finally have "length s2 \<le> length s" .
  moreover have "takeWhile unit_char s2 \<noteq> [] \<and> r = dropWhile unit_char s2"
    using assms s1 s2[unfolded p_def]
    by (auto simp: parse_component_def Let_def split: if_splits option.splits prod.splits)
  ultimately show ?thesis using dropWhile_shorter[of unit_char s2] by (auto intro: less_le_trans)
qed

function parse_components :: "float_ops \<Rightarrow> nat \<Rightarrow> string \<Rightarrow> nat res" where
  "parse_components F d s =
     (if s = [] then Inr d
      else case parse_component F s of
             Inl e \<Rightarrow> Inl e
           | Inr (v, r) \<Rightarrow>
               let d' = (d + v) mod 2 ^ 64
               in if d' > 2 ^ 63 then Inl (LibErr ''time: invalid duration'') else parse_components F d' r)"
  by auto
termination
  by (relation "measure (\<lambda>(F, d, s). length s)") (auto dest: parse_component_length)

declare parse_components.simps [simp del]

text \<open>The nanoseconds, as the \<^verbatim>\<open>int64\<close> of a \<^verbatim>\<open>time.Duration\<close>.\<close>

definition ParseDuration :: "float_ops \<Rightarrow> string \<Rightarrow> int res" where
  "ParseDuration F orig =
     (let signed = orig \<noteq> [] \<and> hd orig \<in> {CHR ''-'', CHR ''+''};
          neg = signed \<and> hd orig = CHR ''-'';
          s = (if signed then tl orig else orig)
      in if s = ''0'' then Inr 0
         else if s = [] then Inl (LibErr ''time: invalid duration'')
         else andThen (parse_components F 0 s) (\<lambda>d.
           if neg then Inr (- int d)
           else if d > 2 ^ 63 - 1 then Inl (LibErr ''time: invalid duration'')
           else Inr (int d)))"

section \<open>encoding/binary\<close>

text \<open>
  \<^verbatim>\<open>binary.Write\<close> in little-endian order. It dereferences a pointer, writes what has a fixed size,
  and names the type of anything else in its error: a nil interface has no type to name.
\<close>

definition le_u64 :: "u64 \<Rightarrow> bytes" where
  "le_u64 w = rev (PutUint64 w)"

fun bin_Write :: "go_val \<Rightarrow> bytes res" where
  "bin_Write V_nil = nil_deref"
| "bin_Write (V_bool b) = Inr [if b then 1 else 0]"
| "bin_Write (V_uint64 w) = Inr (le_u64 w)"
| "bin_Write (V_float64 w) = Inr (le_u64 w)"
| "bin_Write (V_fixed bs) = Inr bs"
| "bin_Write (V_bytes bs) = Inr bs"
| "bin_Write (V_duration w) = Inr (le_u64 w)"
| "bin_Write (V_blockFlags w) = Inr (le_u64 w)"
| "bin_Write (V_reason w) = Inr (le_u64 w)"
| "bin_Write (V_dtnTime w) = Inr (le_u64 w)"
| "bin_Write (V_block (PayloadBlock bs)) = Inr bs"
| "bin_Write (V_block (BundleAgeBlock w)) = Inr (le_u64 w)"
| "bin_Write (V_block (HopCountBlock limit cnt)) = Inr [limit, cnt]"
| "bin_Write (V_block (BinarySprayBlock w)) = Inr (le_u64 w)"
| "bin_Write v = Inl (LibErr ''binary.Write: some values are not fixed-sized in type'')"

section \<open>float64\<close>

definition f64_exponent :: "u64 \<Rightarrow> nat" where "f64_exponent w = unat (drop_bit 52 w) mod 2048"
definition f64_mantissa :: "u64 \<Rightarrow> nat" where "f64_mantissa w = unat w mod 2 ^ 52"

text \<open>\<open>f < 0\<close>: the sign is set, and the number is neither zero nor no number at all.\<close>

definition f64_negative :: "u64 \<Rightarrow> bool" where
  "f64_negative w \<longleftrightarrow> unat w \<ge> 2 ^ 63 \<and> (f64_exponent w \<noteq> 0 \<or> f64_mantissa w \<noteq> 0) \<and>
     \<not> (f64_exponent w = 2047 \<and> f64_mantissa w \<noteq> 0)"

text \<open>\<^verbatim>\<open>uint64(f)\<close> of a number that is not negative cuts the fraction off.\<close>

definition f64_to_u64 :: "float_ops \<Rightarrow> u64 \<Rightarrow> u64" where
  "f64_to_u64 F w =
     (let e = f64_exponent w; sig = 2 ^ 52 + f64_mantissa w
      in if e \<ge> 1087 then float_out_of_range F w
         else if e < 1023 then 0
         else if e \<ge> 1075 then word_of_nat (sig * 2 ^ (e - 1075))
         else word_of_nat (sig div 2 ^ (1075 - e)))"

section \<open>The builder\<close>

record builder =
  bldr_err :: "err option"
  primary :: primary_block
  canonicals :: "canonical_block list"
  canonicalCounter :: u64
  payload :: canonical_block
  crcType :: crc_type

text \<open>\<^verbatim>\<open>PrimaryBlock{Version: dtnVersion}\<close>\<close>

definition empty_primary :: primary_block where
  "empty_primary =
     \<lparr>Version = dtnVersion, BundleControlFlags = 0, pb_CRCType = CRCNo, Destination = None,
      SourceNode = None, ReportTo = None, CreationTimestamp = (0, 0), Lifetime = 0,
      FragmentOffset = 0, TotalDataLength = 0, pb_CRC = []\<rparr>"

definition NewBuilder :: builder where
  "NewBuilder =
     \<lparr>bldr_err = None, primary = empty_primary, canonicals = [], canonicalCounter = 2,
      payload = empty_canonical, crcType = CRCNo\<rparr>"

text \<open>Every setter leaves a builder with an error as it is.\<close>

definition unless_err :: "(builder \<Rightarrow> builder) \<Rightarrow> builder \<Rightarrow> builder" where
  "unless_err f bldr = (if bldr_err bldr = None then f bldr else bldr)"

definition bldr_fail :: "err \<Rightarrow> builder \<Rightarrow> builder" where
  "bldr_fail e bldr = bldr\<lparr>bldr_err := Some e\<rparr>"

definition bldr_CRC :: "crc_type \<Rightarrow> builder \<Rightarrow> builder" where
  "bldr_CRC t = unless_err (\<lambda>bldr. bldr\<lparr>crcType := t\<rparr>)"

definition Build :: "lib \<Rightarrow> time \<Rightarrow> builder \<Rightarrow> dtn_bundle res" where
  "Build L now bldr =
     (case bldr_err bldr of
        Some e \<Rightarrow> Inl e
      | None \<Rightarrow>
          let pb = primary bldr;
              pb = (if ReportTo pb = None then pb\<lparr>ReportTo := SourceNode pb\<rparr> else pb)
          in if SourceNode pb = None \<or> Destination pb = None
             then Inl (Errorf ''both Source and Destination must be set'')
             else andThen (NewBundle now pb (canonicals bldr) (payload bldr)) (\<lambda>(bndl, errs).
               if errs \<noteq> [] then Inl (MultiErr errs) else Inr (b_SetCRCType L (crcType bldr) bndl)))"

section \<open>Parsing arguments\<close>

fun bldrParseEndpoint :: "go_val \<Rightarrow> endpoint_id res" where
  "bldrParseEndpoint (V_eid e) = Inr e"
| "bldrParseEndpoint (V_string s) = NewEndpointID s"
| "bldrParseEndpoint _ = Inl (Errorf ''neither an EndpointID nor a string'')"

definition bldrParseLifetime :: "float_ops \<Rightarrow> go_val \<Rightarrow> u64 res" where
  "bldrParseLifetime F duration =
     (case duration of
        V_uint64 w \<Rightarrow> Inr w
      | V_int n \<Rightarrow> if n < 0 then Inl (Errorf ''lifetime's duration <= 0'') else Inr (word_of_int n)
      | V_float64 w \<Rightarrow>
          if f64_negative w then Inl (Errorf ''lifetime's duration <= 0'') else Inr (f64_to_u64 F w)
      | V_string s \<Rightarrow>
          andThen (ParseDuration F s) (\<lambda>dur.
            if dur \<le> 0 then Inl (Errorf ''lifetime's duration <= 0'')
            else Inr (word_of_int (go_div dur 1000000)))
      | V_duration d \<Rightarrow> Inr (word_of_int (go_div (sint d) 1000000))
      | _ \<Rightarrow> Inl (Errorf ''unsupported type to parse a Duration from''))"

section \<open>The primary block\<close>

definition set_parsed :: "'a res \<Rightarrow> ('a \<Rightarrow> builder \<Rightarrow> builder) \<Rightarrow> builder \<Rightarrow> builder" where
  "set_parsed parsed f bldr = (case parsed of Inl e \<Rightarrow> bldr_fail e bldr | Inr x \<Rightarrow> f x bldr)"

definition bldr_Destination :: "go_val \<Rightarrow> builder \<Rightarrow> builder" where
  "bldr_Destination eid = unless_err (set_parsed (bldrParseEndpoint eid)
     (\<lambda>e bldr. bldr\<lparr>primary := (primary bldr)\<lparr>Destination := e\<rparr>\<rparr>))"

definition bldr_Source :: "go_val \<Rightarrow> builder \<Rightarrow> builder" where
  "bldr_Source eid = unless_err (set_parsed (bldrParseEndpoint eid)
     (\<lambda>e bldr. bldr\<lparr>primary := (primary bldr)\<lparr>SourceNode := e\<rparr>\<rparr>))"

definition bldr_ReportTo :: "go_val \<Rightarrow> builder \<Rightarrow> builder" where
  "bldr_ReportTo eid = unless_err (set_parsed (bldrParseEndpoint eid)
     (\<lambda>e bldr. bldr\<lparr>primary := (primary bldr)\<lparr>ReportTo := e\<rparr>\<rparr>))"

definition bldr_creationTimestamp :: "dtn_time \<Rightarrow> builder \<Rightarrow> builder" where
  "bldr_creationTimestamp t = unless_err
     (\<lambda>bldr. bldr\<lparr>primary := (primary bldr)\<lparr>CreationTimestamp := NewCreationTimestamp t 0\<rparr>\<rparr>)"

definition CreationTimestampEpoch :: "builder \<Rightarrow> builder" where
  "CreationTimestampEpoch = bldr_creationTimestamp DtnTimeEpoch"

definition CreationTimestampNow :: "time \<Rightarrow> builder \<Rightarrow> builder" where
  "CreationTimestampNow now = bldr_creationTimestamp (DtnTimeNow now)"

definition CreationTimestampTime :: "time \<Rightarrow> builder \<Rightarrow> builder" where
  "CreationTimestampTime t = bldr_creationTimestamp (DtnTimeFromTime t)"

definition bldr_Lifetime :: "float_ops \<Rightarrow> go_val \<Rightarrow> builder \<Rightarrow> builder" where
  "bldr_Lifetime F duration = unless_err (set_parsed (bldrParseLifetime F duration)
     (\<lambda>ms bldr. bldr\<lparr>primary := (primary bldr)\<lparr>Lifetime := ms\<rparr>\<rparr>))"

definition BundleCtrlFlags :: "bundle_control_flags \<Rightarrow> builder \<Rightarrow> builder" where
  "BundleCtrlFlags bcf = unless_err
     (\<lambda>bldr. bldr\<lparr>primary := (primary bldr)\<lparr>BundleControlFlags := bcf\<rparr>\<rparr>)"

section \<open>Canonical blocks\<close>

text \<open>A payload becomes block one, every other block gets the next number.\<close>

definition put_block :: "u64 \<Rightarrow> canonical_block \<Rightarrow> builder \<Rightarrow> builder" where
  "put_block code cb bldr =
     (if code = BlockTypePayloadBlock then bldr\<lparr>payload := cb\<lparr>BlockNumber := 1\<rparr>\<rparr>
      else bldr\<lparr>canonicalCounter := canonicalCounter bldr + 1,
             canonicals := canonicals bldr @ [cb\<lparr>BlockNumber := canonicalCounter bldr\<rparr>]\<rparr>)"

definition bldr_Canonical :: "go_val list \<Rightarrow> builder \<Rightarrow> builder res" where
  "bldr_Canonical args bldr =
     (if bldr_err bldr \<noteq> None then Inr bldr
      else case args of
        [] \<Rightarrow> Inr (bldr_fail (Errorf ''canonical was called with no parameters'') bldr)
      | V_block data # flags \<Rightarrow>
          (case flags of
             [] \<Rightarrow> Inr (put_block (BlockTypeCode data) (NewCanonicalBlock 0 0 data) bldr)
           | [V_blockFlags bcf] \<Rightarrow>
               Inr (put_block (BlockTypeCode data) (NewCanonicalBlock 0 bcf data) bldr)
           | [_] \<Rightarrow> Inr (bldr_fail (Errorf ''Canonical received wrong parameter types'') bldr)
           | _ \<Rightarrow> Inr (bldr_fail
               (Errorf ''Canonical was called with neither one nor two parameters'') bldr))
      | V_canonical cb # _ \<Rightarrow> andThen (TypeCode cb) (\<lambda>code. Inr (put_block code cb bldr))
      | _ \<Rightarrow> Inr (bldr_fail (Errorf ''canonicals received unknown type'') bldr))"

definition canonicalParseFlags :: "go_val list \<Rightarrow> builder \<Rightarrow> block_control_flags \<times> builder" where
  "canonicalParseFlags args bldr =
     (if length args = 2
      then case args ! 1 of
             V_blockFlags passedFlags \<Rightarrow> (passedFlags, bldr)
           | _ \<Rightarrow> (0, bldr_fail (Errorf ''second parameter are no BlockControlFlags'') bldr)
      else (0, bldr))"

text \<open>
  The common course of the typed methods: the error of a bad first argument is noted, the flags are
  read, and \<^verbatim>\<open>Canonical\<close> is called. The methods hand their argument slice to
  \<^verbatim>\<open>canonicalParseFlags\<close> as one argument, not as its arguments.
\<close>

definition typed_block ::
  "(go_val \<Rightarrow> 'a res) \<Rightarrow> 'a \<Rightarrow> ('a \<Rightarrow> ext_block) \<Rightarrow> go_val list \<Rightarrow> builder \<Rightarrow> builder res" where
  "typed_block parse zero mk args bldr =
     (if bldr_err bldr \<noteq> None then Inr bldr
      else case args of
        [] \<Rightarrow> Inl (Panic ''index out of range'')
      | arg # _ \<Rightarrow>
          let (x, bldr) = (case parse arg of Inl e \<Rightarrow> (zero, bldr_fail e bldr) | Inr x \<Rightarrow> (x, bldr));
              (flags, bldr) = canonicalParseFlags [V_list args] bldr
          in bldr_Canonical [V_block (mk x), V_blockFlags (flags OR ReplicateBlock)] bldr)"

definition bldr_BundleAgeBlock :: "float_ops \<Rightarrow> go_val list \<Rightarrow> builder \<Rightarrow> builder res" where
  "bldr_BundleAgeBlock F = typed_block (bldrParseLifetime F) 0 BundleAgeBlock"

definition bldr_HopCountBlock :: "go_val list \<Rightarrow> builder \<Rightarrow> builder res" where
  "bldr_HopCountBlock = typed_block
     (\<lambda>arg. case arg of V_int limit \<Rightarrow> Inr limit
        | _ \<Rightarrow> Inl (Errorf ''HopCountBlock received wrong parameter type''))
     0 (\<lambda>limit. HopCountBlock (word_of_int limit) 0)"

definition bldr_PreviousNodeBlock :: "go_val list \<Rightarrow> builder \<Rightarrow> builder res" where
  "bldr_PreviousNodeBlock = typed_block bldrParseEndpoint None PreviousNodeBlock"

definition bldr_PayloadBlock :: "go_val list \<Rightarrow> builder \<Rightarrow> builder res" where
  "bldr_PayloadBlock args bldr =
     (case args of
        [] \<Rightarrow> Inl (Panic ''index out of range'')
      | arg # rest \<Rightarrow>
          (case bin_Write arg of
             Inl (Panic p) \<Rightarrow> Inl (Panic p)
           | Inl e \<Rightarrow> Inr (bldr_fail e bldr)
           | Inr bs \<Rightarrow> bldr_Canonical (V_block (PayloadBlock bs) # rest) bldr))"

text \<open>The payload of an administrative record; its bundle requests no status reports.\<close>

definition bldr_AdministrativeRecord :: "lib \<Rightarrow> admin_record \<Rightarrow> builder \<Rightarrow> builder res" where
  "bldr_AdministrativeRecord L ar bldr =
     (if bldr_err bldr \<noteq> None then Inr bldr
      else case WriteAdministrativeRecord L ar of
             Inl (Panic p) \<Rightarrow> Inl (Panic p)
           | Inl e \<Rightarrow> Inr (bldr_fail e bldr)
           | Inr buff \<Rightarrow>
               let noRequests = NOT (StatusRequestReception OR StatusRequestForward OR
                     StatusRequestDelivery OR StatusRequestDeletion);
                   pb = primary bldr;
                   pb = pb\<lparr>BundleControlFlags :=
                     (BundleControlFlags pb OR AdministrativeRecordPayload) AND noRequests\<rparr>
               in bldr_PayloadBlock [V_bytes buff] (bldr\<lparr>primary := pb\<rparr>))"

definition bldr_StatusReport :: "lib \<Rightarrow> time \<Rightarrow> go_val list \<Rightarrow> builder \<Rightarrow> builder res" where
  "bldr_StatusReport L now args bldr =
     (let fail = (\<lambda>msg. Inr (bldr_fail (Errorf msg) bldr))
      in if bldr_err bldr \<noteq> None then Inr bldr
         else if length args \<noteq> 3 \<and> length args \<noteq> 4
         then fail ''StatusReport expects three or four arguments''
         else case args ! 0 of
           V_bundle bndl \<Rightarrow>
             (case args ! 1 of
                V_statusPos statusItem \<Rightarrow>
                  (case args ! 2 of
                     V_reason reason \<Rightarrow>
                       if length args = 4
                       then case args ! 3 of
                              V_dtnTime t \<Rightarrow> bldr_AdministrativeRecord L
                                (StatusReport (NewStatusReport bndl statusItem reason t)) bldr
                            | _ \<Rightarrow> fail ''StatusReport's fourth argument is not a DtnTime''
                       else bldr_AdministrativeRecord L
                              (StatusReport (NewStatusReport bndl statusItem reason (DtnTimeNow now))) bldr
                   | _ \<Rightarrow> fail ''StatusReport's third argument is not a StatusReportReason'')
              | _ \<Rightarrow> fail ''StatusReport's second argument is not an StatusInformationPos'')
         | _ \<Rightarrow> fail ''StatusReport's first argument is not a Bundle'')"

section \<open>Building from a map\<close>

text \<open>
  One pass of the loop, with the error that the loop itself found. The map is the list of its entries
  in the order of the iteration, which Go does not fix.
\<close>

definition map_method ::
  "float_ops \<Rightarrow> time \<Rightarrow> string \<Rightarrow> go_val \<Rightarrow> builder \<Rightarrow> builder res" where
  "map_method F now name args bldr =
     (if name = ''destination'' then Inr (bldr_Destination args bldr)
      else if name = ''source'' then Inr (bldr_Source args bldr)
      else if name = ''report_to'' then Inr (bldr_ReportTo args bldr)
      else if name = ''creation_timestamp_epoch'' then Inr (CreationTimestampEpoch bldr)
      else if name = ''creation_timestamp_now'' then Inr (CreationTimestampNow now bldr)
      else if name = ''creation_timestamp_time'' then
        (case args of V_time t \<Rightarrow> Inr (CreationTimestampTime t bldr)
         | _ \<Rightarrow> Inl (Errorf ''creation_timestamp_time needs a time.Time''))
      else if name = ''lifetime'' then Inr (bldr_Lifetime F args bldr)
      else if name = ''bundle_ctrl_flags'' then Inl (Errorf ''bundle_ctrl_flags is not yet implemented'')
      else if name = ''canonical'' then Inl (Errorf ''canonical is not impelemtend'')
      else if name = ''bundle_age_block'' then bldr_BundleAgeBlock F [args] bldr
      else if name = ''hop_count_block'' then bldr_HopCountBlock [args] bldr
      else if name = ''payload_block'' then
        bldr_PayloadBlock [case args of V_string s \<Rightarrow> V_bytes (bytes_of_string s) | _ \<Rightarrow> args] bldr
      else if name = ''previous_node_block'' then bldr_PreviousNodeBlock [args] bldr
      else Inl (Errorf ''method is either not implemented or not existing''))"

fun map_methods :: "float_ops \<Rightarrow> time \<Rightarrow> (string \<times> go_val) list \<Rightarrow> builder \<Rightarrow> builder res" where
  "map_methods F now [] bldr = Inr bldr"
| "map_methods F now ((name, args) # m) bldr =
     andThen (map_method F now name args bldr) (\<lambda>bldr.
       case bldr_err bldr of Some e \<Rightarrow> Inl e | None \<Rightarrow> map_methods F now m bldr)"

definition BuildFromMap ::
  "lib \<Rightarrow> float_ops \<Rightarrow> time \<Rightarrow> time \<Rightarrow> (string \<times> go_val) list \<Rightarrow> dtn_bundle res" where
  "BuildFromMap L F now now' m = andThen (map_methods F now m NewBuilder) (Build L now')"

section \<open>What is built\<close>

text \<open>
  The values that decoding a message gives, within the bounds of a Go string: among them no
  endpoint, block or bundle.
\<close>

fun decoded :: "go_val \<Rightarrow> bool" where
  "decoded (V_string s) \<longleftrightarrow> length s < 2 ^ 63"
| "decoded (V_eid _) \<longleftrightarrow> False"
| "decoded (V_block _) \<longleftrightarrow> False"
| "decoded (V_canonical _) \<longleftrightarrow> False"
| "decoded _ \<longleftrightarrow> True"

definition wf_opt_eid :: "endpoint_id \<Rightarrow> bool" where
  "wf_opt_eid e \<longleftrightarrow> e = None \<or> wf_eid e"

text \<open>The builder's invariant: the blocks are numbered in the order they were added.\<close>

definition primary_ok :: "primary_block \<Rightarrow> bool" where
  "primary_ok pb \<longleftrightarrow> Version pb = dtnVersion \<and> FragmentOffset pb = 0 \<and> TotalDataLength pb = 0 \<and>
     wf_opt_eid (Destination pb) \<and> wf_opt_eid (SourceNode pb) \<and> wf_opt_eid (ReportTo pb)"

definition block_ok :: "canonical_block \<Rightarrow> bool" where
  "block_ok cb \<longleftrightarrow> wf_cb GetExtensionBlockManager cb \<and> cb_CRC cb = []"

definition bldr_ok :: "builder \<Rightarrow> bool" where
  "bldr_ok bldr \<longleftrightarrow> primary_ok (primary bldr) \<and>
     (\<forall>cb \<in> set (canonicals bldr). block_ok cb \<and> TypeCode cb \<noteq> Inr BlockTypePayloadBlock) \<and>
     map BlockNumber (canonicals bldr) = map (\<lambda>i. word_of_nat (2 + i)) [0..<length (canonicals bldr)] \<and>
     canonicalCounter bldr = word_of_nat (2 + length (canonicals bldr)) \<and>
     (payload bldr = empty_canonical \<or>
      block_ok (payload bldr) \<and> TypeCode (payload bldr) = Inr BlockTypePayloadBlock \<and>
      BlockNumber (payload bldr) = 1)"

lemma NewEndpointID_wf:
  assumes "NewEndpointID s = Inr e" and "length s < 2 ^ 63"
  shows "wf_eid e"
proof -
  obtain et where et: "e = Some et" "wf_endpoint et"
    "case et of DtnEndpoint _ \<Rightarrow> et_String et = s | IpnEndpoint _ _ \<Rightarrow> True"
    using assms(1) by (rule NewEndpointID_InrD)
  have "length (ipn_String n m) < 2 ^ 64" for n m
    using show_u64_length[of n] show_u64_length[of m] by (simp add: ipn_String_def)
  then have "length (et_String et) < 2 ^ 64"
    using et(3) assms(2) by (cases et) (auto simp: et_String_def)
  with et show ?thesis by (simp add: wf_eid_def)
qed

lemma ParseEndpoint_wf: "bldrParseEndpoint v = Inr e \<Longrightarrow> decoded v \<Longrightarrow> wf_eid e"
  by (cases v) (auto intro: NewEndpointID_wf)

lemma setters_ok:
  assumes "bldr_ok b" and "decoded v"
  shows "bldr_ok (bldr_Destination v b)" "bldr_ok (bldr_Source v b)" "bldr_ok (bldr_ReportTo v b)"
    "bldr_ok (bldr_creationTimestamp t b)" "bldr_ok (bldr_Lifetime F v b)"
  using assms ParseEndpoint_wf
  by (auto simp: bldr_Destination_def bldr_Source_def bldr_ReportTo_def bldr_creationTimestamp_def
      bldr_Lifetime_def unless_err_def set_parsed_def bldr_fail_def bldr_ok_def primary_ok_def wf_opt_eid_def
      split: sum.split)

lemma put_block_ok:
  assumes "bldr_ok b" and "block_ok cb" and "TypeCode cb = Inr code"
  shows "bldr_ok (put_block code cb b)"
proof -
  have n: "block_ok (cb\<lparr>BlockNumber := n\<rparr>)" "TypeCode (cb\<lparr>BlockNumber := n\<rparr>) = Inr code" for n
    using assms(2,3) by (simp_all add: block_ok_def wf_cb_def cb_HasCRC_def TypeCode_def)
  show ?thesis
    using assms(1) n by (auto simp: bldr_ok_def put_block_def)
qed

lemma fail_ok: "bldr_ok (bldr_fail e b) = bldr_ok b"
  by (simp add: bldr_fail_def bldr_ok_def)

lemma NewCanonicalBlock_ok:
  "block_ok (NewCanonicalBlock n flags data) \<longleftrightarrow> wf_ext data \<and> registered GetExtensionBlockManager data"
  by (simp add: block_ok_def wf_cb_def NewCanonicalBlock_def)

lemma registered_blocks:
  "registered GetExtensionBlockManager (PayloadBlock bs)"
  "registered GetExtensionBlockManager (BundleAgeBlock w)"
  "registered GetExtensionBlockManager (HopCountBlock l c)"
  "registered GetExtensionBlockManager (PreviousNodeBlock e)"
  by (simp_all add: registered_def createBlock_def GetExtensionBlockManager_eq block_type_defs)

lemma Canonical_ok:
  assumes "bldr_ok b" and "wf_ext data" and "registered GetExtensionBlockManager data"
    and "bldr_Canonical (V_block data # flags) b = Inr b'"
  shows "bldr_ok b'"
proof -
  have "TypeCode (NewCanonicalBlock n f data) = Inr (BlockTypeCode data)" for n f
    by (simp add: TypeCode_def NewCanonicalBlock_def)
  then have "bldr_ok (put_block (BlockTypeCode data) (NewCanonicalBlock 0 f data) b)" for f
    using assms(1-3) put_block_ok NewCanonicalBlock_ok by blast
  with assms(1,4) show ?thesis
    by (auto simp: bldr_Canonical_def fail_ok split: if_splits list.splits go_val.splits)
qed

lemma typed_block_ok:
  assumes "bldr_ok b" and "typed_block parse zero mk args b = Inr b'"
    and "\<And>x. args \<noteq> [] \<and> parse (hd args) = Inr x \<Longrightarrow> wf_ext (mk x)"
    and "\<And>x. registered GetExtensionBlockManager (mk x)"
  shows "bldr_ok b'"
proof (cases "bldr_err b \<noteq> None \<or> args = []")
  case True
  with assms(1,2) show ?thesis by (auto simp: typed_block_def split: if_splits)
next
  case False
  then obtain arg rest where a: "args = arg # rest" by (cases args) auto
  show ?thesis
  proof (cases "parse arg")
    case (Inl e)
    with False a assms(1,2) show ?thesis
      by (auto simp: typed_block_def canonicalParseFlags_def bldr_Canonical_def bldr_fail_def bldr_ok_def)
  next
    case (Inr x)
    then have "bldr_Canonical [V_block (mk x), V_blockFlags ReplicateBlock] b = Inr b'"
      using False a assms(2) by (simp add: typed_block_def canonicalParseFlags_def)
    with assms(1,3,4) Inr a show ?thesis by (auto intro: Canonical_ok)
  qed
qed

lemma PayloadBlock_ok:
  assumes "bldr_ok b" and "bldr_PayloadBlock [v] b = Inr b'"
  shows "bldr_ok b'"
proof -
  consider (same) "b' = b" | (failed) e where "b' = bldr_fail e b"
    | (put) bs where "bldr_Canonical [V_block (PayloadBlock bs)] b = Inr b'"
    using assms(2) by (auto simp: bldr_PayloadBlock_def split: sum.splits err.splits)
  then show ?thesis
    by cases (use assms(1) in \<open>auto simp: fail_ok intro: Canonical_ok[OF _ _ registered_blocks(1)]\<close>)
qed

lemma map_method_ok:
  assumes "bldr_ok b" and "decoded v" and "map_method F now name v b = Inr b'"
  shows "bldr_ok b'"
proof -
  note blocks = bldr_BundleAgeBlock_def bldr_HopCountBlock_def bldr_PreviousNodeBlock_def
  have typed: "bldr_ok c" if "typed_block parse zero mk [v] b = Inr c" "\<And>x. parse v = Inr x \<Longrightarrow> wf_ext (mk x)"
    "\<And>x. registered GetExtensionBlockManager (mk x)" for parse zero c and mk :: "'x \<Rightarrow> ext_block"
    by (rule typed_block_ok[OF assms(1) that(1)]) (use that(2,3) in auto)
  have age: "bldr_ok c" if "bldr_BundleAgeBlock F [v] b = Inr c" for c
    by (rule typed_block_ok[OF assms(1) that[unfolded blocks]]) (simp_all add: registered_blocks)
  have hop: "bldr_ok c" if "bldr_HopCountBlock [v] b = Inr c" for c
    by (rule typed_block_ok[OF assms(1) that[unfolded blocks]]) (simp_all add: registered_blocks)
  have prev: "bldr_ok c" if "bldr_PreviousNodeBlock [v] b = Inr c" for c
    by (rule typed_block_ok[OF assms(1) that[unfolded blocks]])
      (use ParseEndpoint_wf[OF _ assms(2)] in \<open>auto simp: registered_blocks\<close>)
  show ?thesis
    using assms(3) setters_ok[OF assms(1,2)] age hop prev PayloadBlock_ok[OF assms(1)]
    by (auto simp: map_method_def CreationTimestampEpoch_def CreationTimestampNow_def
        CreationTimestampTime_def split: if_splits go_val.splits)
qed

lemma NewBuilder_ok: "bldr_ok NewBuilder"
  by (simp add: bldr_ok_def NewBuilder_def primary_ok_def empty_primary_def wf_opt_eid_def)

lemma map_methods_ok:
  "bldr_ok b \<Longrightarrow> \<forall>(name, v) \<in> set m. decoded v \<Longrightarrow> map_methods F now m b = Inr b' \<Longrightarrow> bldr_ok b'"
  by (induction F now m b rule: map_methods.induct)
    (auto simp: andThen_eq_Inr split: option.splits dest: map_method_ok)

text \<open>A method adds one block at most, and does not touch the type of the CRC.\<close>

definition at_most_one_block :: "builder \<Rightarrow> builder \<Rightarrow> bool" where
  "at_most_one_block b b' \<longleftrightarrow>
     length (canonicals b') \<le> length (canonicals b) + 1 \<and> crcType b' = crcType b"

lemma small_steps [simp]:
  "at_most_one_block b b" "at_most_one_block b (bldr_fail e b)" "at_most_one_block b (put_block code cb b)"
  "at_most_one_block b (bldr_creationTimestamp t b)"
  by (simp_all add: at_most_one_block_def bldr_fail_def put_block_def bldr_creationTimestamp_def unless_err_def)

lemma setter_steps [simp]:
  "at_most_one_block b (bldr_Destination v b)" "at_most_one_block b (bldr_Source v b)"
  "at_most_one_block b (bldr_ReportTo v b)" "at_most_one_block b (bldr_Lifetime F v b)"
  by (auto simp: at_most_one_block_def bldr_Destination_def bldr_Source_def bldr_ReportTo_def
      bldr_Lifetime_def unless_err_def set_parsed_def bldr_fail_def split: sum.split)

lemma Canonical_step: "bldr_Canonical (V_block data # flags) b = Inr b' \<Longrightarrow> at_most_one_block b b'"
  by (auto simp: bldr_Canonical_def split: if_splits list.splits go_val.splits)

lemma typed_block_step:
  assumes "typed_block parse zero mk args b = Inr b'"
  shows "at_most_one_block b b'"
proof (cases "bldr_err b \<noteq> None \<or> args = []")
  case True
  with assms show ?thesis by (auto simp: typed_block_def split: if_splits)
next
  case False
  then obtain arg rest where a: "args = arg # rest" by (cases args) auto
  show ?thesis
  proof (cases "parse arg")
    case (Inl e)
    with False a assms have "b' = bldr_fail e b"
      by (auto simp: typed_block_def canonicalParseFlags_def bldr_Canonical_def bldr_fail_def)
    then show ?thesis by simp
  next
    case (Inr x)
    then have "bldr_Canonical [V_block (mk x), V_blockFlags ReplicateBlock] b = Inr b'"
      using False a assms by (simp add: typed_block_def canonicalParseFlags_def)
    then show ?thesis by (rule Canonical_step)
  qed
qed

lemma typed_steps:
  "bldr_BundleAgeBlock F args b = Inr b' \<Longrightarrow> at_most_one_block b b'"
  "bldr_HopCountBlock args b = Inr b' \<Longrightarrow> at_most_one_block b b'"
  "bldr_PreviousNodeBlock args b = Inr b' \<Longrightarrow> at_most_one_block b b'"
  unfolding bldr_BundleAgeBlock_def bldr_HopCountBlock_def bldr_PreviousNodeBlock_def
  by (rule typed_block_step, assumption)+

lemma PayloadBlock_step: "bldr_PayloadBlock [v] b = Inr b' \<Longrightarrow> at_most_one_block b b'"
  by (auto simp: bldr_PayloadBlock_def split: sum.splits err.splits intro: Canonical_step)

lemma map_method_step: "map_method F now name v b = Inr b' \<Longrightarrow> at_most_one_block b b'"
  using typed_steps PayloadBlock_step
  by (auto simp: map_method_def CreationTimestampEpoch_def CreationTimestampNow_def
      CreationTimestampTime_def split: if_splits go_val.splits)

lemma map_methods_bound:
  "map_methods F now m b = Inr b' \<Longrightarrow>
    length (canonicals b') \<le> length (canonicals b) + length m \<and> crcType b' = crcType b"
proof (induction F now m b rule: map_methods.induct)
  case (2 F now name v m b)
  then obtain c where c: "map_method F now name v b = Inr c" "bldr_err c = None"
    "map_methods F now m c = Inr b'"
    by (auto simp: andThen_eq_Inr split: option.splits)
  from "2.IH"[OF c(1,2,3)] map_method_step[OF c(1)] show ?case
    by (simp add: at_most_one_block_def)
qed simp

text \<open>The checks do not look at the CRC.\<close>

lemma SetCRCType_primary: "\<exists>c. pb_SetCRCType L t pb =
    pb\<lparr>pb_CRCType := (if t = CRCNo then CRC32 else t), pb_CRC := c\<rparr>"
proof -
  define p where "p = pb\<lparr>pb_CRCType := (if t = CRCNo then CRC32 else t)\<rparr>"
  have "\<exists>c. pb_calculateCRC L p = p\<lparr>pb_CRC := c\<rparr>"
    using pb_MarshalCbor_CRC[of L "p\<lparr>pb_CRC := []\<rparr>"]
    by (cases "pb_MarshalCbor L (p\<lparr>pb_CRC := []\<rparr>)") (auto simp: pb_calculateCRC_def)
  then show ?thesis by (simp add: pb_SetCRCType_def p_def)
qed

lemma SetCRCType_block [simp]:
  "TypeCode (cb_SetCRCType t cb) = TypeCode cb" "cb_CheckValid (cb_SetCRCType t cb) = cb_CheckValid cb"
  "Value (cb_SetCRCType t cb) = Value cb" "BlockControlFlags (cb_SetCRCType t cb) = BlockControlFlags cb"
  by (simp_all add: cb_SetCRCType_def TypeCode_def cb_CheckValid_def cong: option.case_cong)

lemma map_res_comp: "map_res f (map g xs) = map_res (f \<circ> g) xs"
  by (simp add: map_res_map comp_def)

lemma SetCRCType_checks: "b_CheckValid now (b_SetCRCType L t b) = b_CheckValid now b"
proof -
  let ?b = "b_SetCRCType L t b"
  obtain c where c: "PrimaryBlock ?b =
      (PrimaryBlock b)\<lparr>pb_CRCType := (if t = CRCNo then CRC32 else t), pb_CRC := c\<rparr>"
    using SetCRCType_primary[of L t "PrimaryBlock b"] by (auto simp: b_SetCRCType_def)
  have ebs: "ExtensionBlocks ?b = map (cb_SetCRCType t) (ExtensionBlocks b)"
    "b_PayloadBlock ?b = cb_SetCRCType t (b_PayloadBlock b)"
    by (simp_all add: b_SetCRCType_def)
  have pf: "Lifetime (PrimaryBlock ?b) = Lifetime (PrimaryBlock b)"
    "CreationTimestamp (PrimaryBlock ?b) = CreationTimestamp (PrimaryBlock b)" by (simp_all add: c)
  have ids: "TypeCode \<circ> cb_SetCRCType t = TypeCode" "cb_CheckValid \<circ> cb_SetCRCType t = cb_CheckValid"
    by (simp_all add: fun_eq_iff)
  have ty: "ExtensionBlocksByType ?b = ExtensionBlocksByType b"
    by (rule ext) (simp add: ExtensionBlocksByType_def ebs map_res_comp ids)
  then have ty1: "ExtensionBlockByType ?b = ExtensionBlockByType b" "HasExtensionBlock ?b = HasExtensionBlock b"
    by (simp_all add: fun_eq_iff ExtensionBlockByType_def HasExtensionBlock_def)
  then have "unique_of_type ?b = unique_of_type b"
    by (intro ext) (simp add: unique_of_type_def)
  then have "CheckContextValid ?b = CheckContextValid b"
    by (intro ext) (simp add: CheckContextValid_def split: ext_block.split)
  then have "check_blocks ?b seen i (map (cb_SetCRCType t) cbs) = check_blocks b seen i cbs" for seen i cbs
    by (induction cbs arbitrary: seen i) (simp_all add: SetCRCType_key split: option.split)
  moreover have "IsLifetimeExceeded now ?b = IsLifetimeExceeded now b"
  proof (cases "ExtensionBlockByType b BlockTypeBundleAgeBlock")
    case (Inr j)
    then have "j < length (ExtensionBlocks b)"
      by (auto simp: ExtensionBlockByType_def ExtensionBlocksByType_def andThen_eq_Inr Let_def
          dest!: map_res_Inr_length split: if_splits)
        (metis (no_types, lifting) One_nat_def atLeastLessThan_iff length_greater_0_conv less_numeral_extra(1) mem_Collect_eq nth_mem set_filter set_upt)
    then have "Value (ExtensionBlocks ?b ! j) = Value (ExtensionBlocks b ! j)" by (simp add: ebs)
    then show ?thesis unfolding IsLifetimeExceeded_def Let_def pf ty1 Inr sum.case by simp
  next
    case (Inl e)
    show ?thesis unfolding IsLifetimeExceeded_def Let_def pf ty1 Inl sum.case ..
  qed
  moreover have "pb_CheckValid (PrimaryBlock ?b) = pb_CheckValid (PrimaryBlock b)"
    by (simp add: c pb_CheckValid_def)
  ultimately show ?thesis
    by (simp add: b_CheckValid_def ebs map_res_comp ids ty1 c)
qed

lemma Build_Inr:
  assumes "Build L now bldr = Inr b"
  obtains pb bndl where
    "pb = (if ReportTo (primary bldr) = None then (primary bldr)\<lparr>ReportTo := SourceNode (primary bldr)\<rparr>
       else primary bldr)"
    "SourceNode (primary bldr) \<noteq> None" "Destination (primary bldr) \<noteq> None"
    "bndl = MustNewBundle pb (canonicals bldr) (payload bldr)" "b_CheckValid now bndl = Inr []"
    "b = b_SetCRCType L (crcType bldr) bndl"
  using assms
  by (auto simp: Build_def Let_def andThen_eq_Inr NewBundle_def split: option.splits if_splits)

lemma CheckValid_payload: "b_CheckValid now b = Inr errs \<Longrightarrow> Value (b_PayloadBlock b) \<noteq> None"
  by (auto simp: b_CheckValid_def andThen_eq_Inr cb_CheckValid_def nil_deref_def split: option.splits)

lemma numbers_distinct:
  assumes "length cbs < 2 ^ 63" and "map BlockNumber cbs = map (\<lambda>i. word_of_nat (2 + i)) [0..<length cbs]"
  shows "distinct (map BlockNumber cbs)"
proof -
  have "inj_on (\<lambda>i. word_of_nat (2 + i) :: u64) {0..<length cbs}"
  proof (rule inj_onI)
    fix i j
    assume "i \<in> {0..<length cbs}" "j \<in> {0..<length cbs}" and eq: "word_of_nat (2 + i) = (word_of_nat (2 + j) :: u64)"
    then have "2 + i < 2 ^ 64" "2 + j < 2 ^ 64" using assms(1) by simp_all
    then show "i = j" using eq by (metis add_left_cancel unat_word_small)
  qed
  then show ?thesis unfolding assms(2) by (simp add: distinct_map)
qed

lemma SetCRCType_wf_block:
  "block_ok cb \<Longrightarrow> wf_cb GetExtensionBlockManager (cb_SetCRCType t cb)"
  by (auto simp: block_ok_def wf_cb_def cb_SetCRCType_def cb_HasCRC_def split: option.splits)

lemma Build_wf:
  assumes ok: "bldr_ok bldr" and len: "length (canonicals bldr) < 2 ^ 63" and b: "Build L now bldr = Inr b"
  shows "wf_bundle GetExtensionBlockManager b" "blocks_ok b" "BlockNumber (b_PayloadBlock b) = 1"
    "b_CheckValid now b = Inr []"
    "set (block_numbers b) = (\<lambda>i. word_of_nat (2 + i)) ` {..<length (ExtensionBlocks b)}"
proof -
  obtain pb bndl where pb: "pb = (if ReportTo (primary bldr) = None
        then (primary bldr)\<lparr>ReportTo := SourceNode (primary bldr)\<rparr> else primary bldr)"
    and set_eids: "SourceNode (primary bldr) \<noteq> None" "Destination (primary bldr) \<noteq> None"
    and bndl: "bndl = MustNewBundle pb (canonicals bldr) (payload bldr)"
    and valid: "b_CheckValid now bndl = Inr []"
    and b': "b = b_SetCRCType L (crcType bldr) bndl"
    by (rule Build_Inr[OF b])
  have parts: "PrimaryBlock bndl = pb" "set (ExtensionBlocks bndl) = set (canonicals bldr)"
    "b_PayloadBlock bndl = payload bldr" "mset (ExtensionBlocks bndl) = mset (canonicals bldr)"
    by (simp_all add: bndl MustNewBundle_def)
  have "payload bldr \<noteq> empty_canonical"
    using CheckValid_payload[OF valid] by (auto simp: parts empty_canonical_def)
  then have payload: "block_ok (payload bldr)" "TypeCode (payload bldr) = Inr BlockTypePayloadBlock"
    "BlockNumber (payload bldr) = 1"
    using ok by (simp_all add: bldr_ok_def)
  obtain c where "PrimaryBlock b = pb\<lparr>pb_CRCType := (if crcType bldr = CRCNo then CRC32 else crcType bldr), pb_CRC := c\<rparr>"
    using SetCRCType_primary[of L "crcType bldr" pb] by (auto simp: b' b_SetCRCType_def parts)
  then have "wf_pb (PrimaryBlock b)"
    using ok set_eids
    by (auto simp: wf_pb_def pb bldr_ok_def primary_ok_def wf_opt_eid_def pb_HasCRC_def)
  then show "wf_bundle GetExtensionBlockManager b"
    using ok payload by (auto simp: wf_bundle_def b' b_SetCRCType_def parts bldr_ok_def SetCRCType_wf_block)
  have nums: "mset (block_numbers bndl) = mset (map BlockNumber (canonicals bldr))"
    using parts(4) by (simp add: block_numbers_def mset_map)
  have "distinct (map BlockNumber (canonicals bldr))"
    using ok numbers_distinct[OF len] by (simp add: bldr_ok_def)
  then have "blocks_ok bndl"
    unfolding bndl MustNewBundle_def by (intro blocks_ok_sort) (simp add: block_numbers_def)
  then show "blocks_ok b" unfolding b' by (rule SetCRCType_ok)
  show "BlockNumber (b_PayloadBlock b) = 1"
    using payload(3) by (simp add: b' b_SetCRCType_def parts cb_SetCRCType_def)
  show "b_CheckValid now b = Inr []" using valid by (simp add: b' SetCRCType_checks)
  have same: "block_numbers b = block_numbers bndl"
    by (simp add: block_numbers_def b' b_SetCRCType_def comp_def SetCRCType_key)
  have "length (ExtensionBlocks b) = length (canonicals bldr)"
    using mset_eq_length[OF parts(4)] by (simp add: b' b_SetCRCType_def)
  moreover have "set (block_numbers bndl) = (\<lambda>i. word_of_nat (2 + i)) ` {0..<length (canonicals bldr)}"
  proof -
    have "map BlockNumber (canonicals bldr) = map (\<lambda>i. word_of_nat (2 + i)) [0..<length (canonicals bldr)]"
      using ok by (simp add: bldr_ok_def)
    then show ?thesis using mset_eq_setD[OF nums] by (metis image_set set_upt)
  qed
  ultimately show "set (block_numbers b) = (\<lambda>i. word_of_nat (2 + i)) ` {..<length (ExtensionBlocks b)}"
    by (simp add: same lessThan_atLeast0)
qed

lemma BuildFromMap_wf:
  assumes "\<forall>(name, v) \<in> set m. decoded v" and "length m < 2 ^ 63" and "BuildFromMap L F now now' m = Inr b"
  obtains bldr where "map_methods F now m NewBuilder = Inr bldr" "Build L now' bldr = Inr b"
    "bldr_ok bldr" "length (canonicals bldr) < 2 ^ 63"
proof -
  obtain bldr where b: "map_methods F now m NewBuilder = Inr bldr" "Build L now' bldr = Inr b"
    using assms(3) by (auto simp: BuildFromMap_def andThen_eq_Inr)
  moreover have "bldr_ok bldr" using map_methods_ok[OF NewBuilder_ok assms(1) b(1)] .
  moreover have "length (canonicals bldr) < 2 ^ 63"
    using map_methods_bound[OF b(1)] assms(2) by (simp add: NewBuilder_def)
  ultimately show thesis by (rule that)
qed

text \<open>Without a payload, building panics: the check of the missing payload block calls a nil interface.\<close>

lemma put_payload [simp]:
  "code \<noteq> BlockTypePayloadBlock \<Longrightarrow> payload (put_block code cb b) = payload b"
  "payload (bldr_fail e b) = payload b"
  by (simp_all add: put_block_def bldr_fail_def)

lemma typed_block_payload:
  assumes "typed_block parse zero mk [v] b = Inr c" and "\<And>x. BlockTypeCode (mk x) \<noteq> BlockTypePayloadBlock"
  shows "payload c = payload b"
  using assms
  by (auto simp: typed_block_def canonicalParseFlags_def bldr_Canonical_def split: if_splits sum.splits)

lemma typed_payloads:
  "bldr_BundleAgeBlock F [v] b = Inr c \<Longrightarrow> payload c = payload b"
  "bldr_HopCountBlock [v] b = Inr c \<Longrightarrow> payload c = payload b"
  "bldr_PreviousNodeBlock [v] b = Inr c \<Longrightarrow> payload c = payload b"
  unfolding bldr_BundleAgeBlock_def bldr_HopCountBlock_def bldr_PreviousNodeBlock_def
  by (erule typed_block_payload; simp add: block_type_defs)+

lemma setter_payloads [simp]:
  "payload (bldr_Destination v b) = payload b" "payload (bldr_Source v b) = payload b"
  "payload (bldr_ReportTo v b) = payload b" "payload (bldr_Lifetime F v b) = payload b"
  "payload (bldr_creationTimestamp t b) = payload b"
  by (auto simp: bldr_Destination_def bldr_Source_def bldr_ReportTo_def bldr_Lifetime_def
      bldr_creationTimestamp_def unless_err_def set_parsed_def split: sum.split)

lemma map_method_payload:
  "map_method F now name v b = Inr c \<Longrightarrow> name \<noteq> ''payload_block'' \<Longrightarrow> payload c = payload b"
  using typed_payloads
  by (auto simp: map_method_def CreationTimestampEpoch_def CreationTimestampNow_def
      CreationTimestampTime_def split: if_splits go_val.splits)

lemma map_methods_payload:
  "map_methods F now m b = Inr c \<Longrightarrow> ''payload_block'' \<notin> fst ` set m \<Longrightarrow> payload c = payload b"
proof (induction F now m b rule: map_methods.induct)
  case (2 F now name v m b)
  then obtain d where d: "map_method F now name v b = Inr d" "bldr_err d = None" "map_methods F now m d = Inr c"
    by (auto simp: andThen_eq_Inr split: option.splits)
  have "name \<noteq> ''payload_block''" "''payload_block'' \<notin> fst ` set m" using "2.prems"(2) by auto
  with "2.IH"[OF d] map_method_payload[OF d(1)] show ?case by simp
qed simp

section \<open>A concrete map\<close>

definition sample_map :: "(string \<times> go_val) list" where
  "sample_map =
     [(''source'', V_string ''dtn://a/''), (''destination'', V_string ''dtn://a/''),
      (''creation_timestamp_epoch'', V_bool True), (''lifetime'', V_uint64 1000),
      (''bundle_age_block'', V_uint64 5), (''payload_block'', V_string ''hi'')]"

definition sample_floats :: float_ops where
  "sample_floats = \<lparr>fraction = (\<lambda>f unit scale. f * unit div scale), float_out_of_range = (\<lambda>_. 0)\<rparr>"

lemma sample_component: "parse_component sample_floats ''1s'' = Inr (1000000000, [])"
  by (simp add: parse_component_def unit_char_def unitMap_def digit_value_def is_digit_def)

lemma sample_second: "ParseDuration sample_floats ''1s'' = Inr 1000000000"
  by (simp add: ParseDuration_def parse_components.simps[of _ _ "''1s''"] parse_components.simps[of _ _ "[]"]
      sample_component)

definition sample_built :: builder where
  "sample_built =
     \<lparr>bldr_err = None, primary = empty_primary\<lparr>Destination := sample_eid, SourceNode := sample_eid, Lifetime := 1000\<rparr>,
      canonicals = [NewCanonicalBlock 2 ReplicateBlock (BundleAgeBlock 5)], canonicalCounter = 3,
      payload = NewCanonicalBlock 1 0 (PayloadBlock [104, 105]), crcType = CRCNo\<rparr>"

lemma sample_uri: "NewEndpointID ''dtn://a/'' = Inr sample_eid"
proof -
  obtain et where "sample_eid = Some et" "wf_endpoint et" "et_String et = ''dtn://a/''"
    using sample_eid_wf by (auto simp: sample_eid_def wf_eid_def et_String_def dtn_String_def)
  then show ?thesis using endpoint_uri_rw[of et] by simp
qed

lemma sample_map_methods: "map_methods sample_floats 0 sample_map NewBuilder = Inr sample_built"
  by (simp add: sample_map_def map_method_def NewBuilder_def sample_built_def bldr_Destination_def bldr_Source_def
      unless_err_def set_parsed_def sample_uri CreationTimestampEpoch_def bldr_creationTimestamp_def
      bldr_Lifetime_def bldrParseLifetime_def bldr_BundleAgeBlock_def typed_block_def canonicalParseFlags_def
      bldr_Canonical_def put_block_def block_type_defs NewCanonicalBlock_def bldr_PayloadBlock_def
      empty_primary_def NewCreationTimestamp_def bytes_of_string_def)

definition sample_made :: dtn_bundle where
  "sample_made =
     \<lparr>PrimaryBlock = empty_primary\<lparr>Destination := sample_eid, SourceNode := sample_eid,
        ReportTo := sample_eid, Lifetime := 1000\<rparr>,
      ExtensionBlocks = [NewCanonicalBlock 2 ReplicateBlock (BundleAgeBlock 5)],
      b_PayloadBlock = NewCanonicalBlock 1 0 (PayloadBlock [104, 105])\<rparr>"

lemma sample_made_valid: "b_CheckValid 0 sample_made = Inr []"
  by (simp add: b_CheckValid_def sample_made_def empty_primary_def NewCanonicalBlock_def
      cb_CheckValid_def blockcf_CheckValid_def block_type_defs ReplicateBlock_def StatusReportBlock_def
      CheckContextValid_def unique_of_type_def ExtensionBlockByType_def ExtensionBlocksByType_def
      HasExtensionBlock_def TypeCode_def pb_CheckValid_def bcf_CheckValid_def Has_def dtnVersion_def
      wf_eidD [OF sample_eid_wf] IsZeroTime_def ct_DtnTime_def IsLifetimeExceeded_def)
    (simp add: sample_eid_def DtnNone_def)

lemma sample_map_builds:
  "BuildFromMap L sample_floats 0 0 sample_map = Inr (b_SetCRCType L CRCNo sample_made)"
proof -
  have "MustNewBundle ((primary sample_built)\<lparr>ReportTo := sample_eid\<rparr>) (canonicals sample_built)
      (payload sample_built) = sample_made"
    by (simp add: MustNewBundle_def sample_built_def sample_made_def sortExtensionBlocks_def go_sort_def
        empty_primary_def)
  moreover have "ReportTo (primary sample_built) = None" "SourceNode (primary sample_built) = sample_eid"
    "Destination (primary sample_built) = sample_eid" "sample_eid \<noteq> None"
    by (simp_all add: sample_built_def empty_primary_def sample_eid_def)
  ultimately show ?thesis
    by (simp add: BuildFromMap_def sample_map_methods Build_def NewBundle_def sample_made_valid
        sample_built_def Let_def)
qed

lemma empty_check: "cb_CheckValid empty_canonical = Inl (Panic ''invalid memory address or nil pointer dereference'')"
  by (simp add: empty_canonical_def cb_CheckValid_def nil_deref_def)

lemma map_methods_no_err: "map_methods F now m b = Inr c \<Longrightarrow> bldr_err b = None \<Longrightarrow> bldr_err c = None"
  by (induction F now m b rule: map_methods.induct) (auto simp: andThen_eq_Inr split: option.splits)

section \<open>Properties\<close>

text \<open>
  Claim C18: a bundle that is built from a decoded map is well formed and passes its own checks. Its extension
  blocks are numbered from two on without a gap or a repetition, its payload is block one, and its source,
  destination and report-to endpoints are set and legal.
\<close>

theorem built_bundle_wellformed:
  assumes "\<forall>(name, v) \<in> set m. decoded v" and "length m < 2 ^ 63" and "BuildFromMap L F now now' m = Inr b"
  shows "wf_bundle GetExtensionBlockManager b \<and> blocks_ok b \<and> b_CheckValid now' b = Inr [] \<and>
    set (block_numbers b) = (\<lambda>i. word_of_nat (2 + i)) ` {..<length (ExtensionBlocks b)} \<and>
    BlockNumber (b_PayloadBlock b) = 1"
proof -
  obtain bldr where "Build L now' bldr = Inr b" "bldr_ok bldr" "length (canonicals bldr) < 2 ^ 63"
    by (rule BuildFromMap_wf[OF assms])
  note wf = Build_wf[OF this(2,3,1)]
  show ?thesis by (intro conjI wf)
qed

lemma sample_map_decoded: "\<forall>(name, v) \<in> set sample_map. decoded v"
  by (simp add: sample_map_def)

theorem built_bundle_wellformed_witness:
  "wf_bundle GetExtensionBlockManager (b_SetCRCType rfc_lib CRCNo sample_made) \<and>
   b_CheckValid 0 (b_SetCRCType rfc_lib CRCNo sample_made) = Inr []"
  using built_bundle_wellformed[OF sample_map_decoded _ sample_map_builds]
  by (simp add: sample_map_def)

text \<open>
  Also shown: whatever bytes a bundle serialises into that was built from a decoded map, a node that reads
  them at that time gets the bundle, and finds nothing wrong with it.
\<close>

theorem built_bundle_parses:
  assumes "cboring L" and "\<forall>(name, v) \<in> set m. decoded v" and "length m < 2 ^ 63"
    and "BuildFromMap L F now now' m = Inr b" and "b_MarshalCbor L b = Inr (bs, b')" and "length bs < 2 ^ 64"
  shows "ParseBundle L GetExtensionBlockManager now' bs = Some (Inr (b', [])) \<and> erase b' = erase b"
proof -
  obtain bldr where "Build L now' bldr = Inr b" "bldr_ok bldr" "length (canonicals bldr) < 2 ^ 63"
    by (rule BuildFromMap_wf[OF assms(2-4)])
  note wf = Build_wf[OF this(2,3,1)]
  from wf(4) cboring.bundle_rw[OF assms(1) wf(1) assms(5,6)] b_MarshalCbor_erase[OF assms(5)] show ?thesis by simp
qed

text \<open>
  Also shown: building a bundle from a map without a payload panics, when the map is otherwise complete: the
  check of the missing payload block calls a nil interface. Both agents pass what a client sends.
\<close>

theorem build_without_payload_panics:
  assumes "''payload_block'' \<notin> fst ` set m" and "\<forall>(name, v) \<in> set m. decoded v"
    and "map_methods F now m NewBuilder = Inr bldr"
    and "SourceNode (primary bldr) \<noteq> None" and "Destination (primary bldr) \<noteq> None"
  shows "\<exists>msg. BuildFromMap L F now now' m = Inl (Panic msg)"
proof -
  have "bldr_ok bldr" using map_methods_ok[OF NewBuilder_ok assms(2,3)] .
  then have blocks: "\<forall>cb \<in> set (go_sort canonicalBlockNumberSort_Less (canonicals bldr)).
      wf_cb GetExtensionBlockManager cb \<and> True"
    by (simp add: bldr_ok_def block_ok_def)
  have "payload bldr = empty_canonical"
    using map_methods_payload[OF assms(3,1)] by (simp add: NewBuilder_def)
  then have "\<exists>msg. NewBundle now' pb (canonicals bldr) (payload bldr) = Inl (Panic msg)" for pb
    using wf_blocks_checked[OF blocks]
    by (auto simp: NewBundle_def MustNewBundle_def sortExtensionBlocks_def b_CheckValid_def empty_check Let_def)
  then obtain msg where "NewBundle now' (if ReportTo (primary bldr) = None
      then (primary bldr)\<lparr>ReportTo := SourceNode (primary bldr)\<rparr> else primary bldr)
      (canonicals bldr) (payload bldr) = Inl (Panic msg)" by blast
  moreover have "bldr_err bldr = None" by (rule map_methods_no_err[OF assms(3)]) (simp add: NewBuilder_def)
  ultimately show ?thesis
    using assms(4,5) by (simp add: BuildFromMap_def assms(3) Build_def Let_def)
qed

lemma sample_without_payload:
  "map_methods sample_floats 0 (butlast sample_map) NewBuilder = Inr (sample_built\<lparr>payload := empty_canonical\<rparr>)"
  by (simp add: sample_map_def map_method_def NewBuilder_def sample_built_def bldr_Destination_def bldr_Source_def
      unless_err_def set_parsed_def sample_uri CreationTimestampEpoch_def bldr_creationTimestamp_def
      bldr_Lifetime_def bldrParseLifetime_def bldr_BundleAgeBlock_def typed_block_def canonicalParseFlags_def
      bldr_Canonical_def put_block_def block_type_defs NewCanonicalBlock_def
      empty_primary_def NewCreationTimestamp_def)

theorem build_without_payload_panics_witness:
  "\<exists>msg. BuildFromMap rfc_lib sample_floats 0 0 (butlast sample_map) = Inl (Panic msg)"
  by (rule build_without_payload_panics[OF _ _ sample_without_payload])
    (simp_all add: sample_map_def sample_built_def empty_primary_def sample_eid_def)

text \<open>
  Also shown: the optional flags of the typed block methods are not read: the methods hand their arguments to
  the reader of the flags as one argument.
\<close>

theorem typed_block_flags_ignored:
  "bldr_BundleAgeBlock F (x # rest) b = bldr_BundleAgeBlock F [x] b \<and>
   bldr_HopCountBlock (x # rest) b = bldr_HopCountBlock [x] b \<and>
   bldr_PreviousNodeBlock (x # rest) b = bldr_PreviousNodeBlock [x] b"
  by (simp add: bldr_BundleAgeBlock_def bldr_HopCountBlock_def bldr_PreviousNodeBlock_def typed_block_def
      canonicalParseFlags_def)

text \<open>Also shown: a hop count block of a decoded message fails, as decoders make no \<^verbatim>\<open>int\<close>.\<close>

theorem decoded_hop_count_refused:
  assumes "\<And>n. v \<noteq> V_int n" and "bldr_err b = None" and "bldr_HopCountBlock [v] b = Inr b'"
  shows "bldr_err b' \<noteq> None"
  using assms
  by (cases v) (auto simp: bldr_HopCountBlock_def typed_block_def canonicalParseFlags_def bldr_Canonical_def bldr_fail_def)

text \<open>Also shown: a negative duration becomes a lifetime of half a billion years.\<close>

theorem negative_duration_accepted:
  "bldrParseLifetime F (V_duration (- 1000000)) = Inr (- 1)"
  by (simp add: bldrParseLifetime_def go_div_def)

text \<open>Also shown: the documented ways to write ten minutes agree.\<close>

theorem lifetime_forms_agree:
  "bldrParseLifetime F (V_string ''10m'') = Inr 600000"
  "bldrParseLifetime F (V_string ''600000ms'') = Inr 600000"
  "bldrParseLifetime F (V_int 600000) = Inr 600000"
  "bldrParseLifetime F (V_duration 600000000000) = Inr 600000"
  by (simp_all add: bldrParseLifetime_def ParseDuration_def parse_components.simps parse_component_def
      is_digit_def digit_value_def unit_char_def unitMap_def go_div_def)

section \<open>Status reports as bundles\<close>

lemma record_written:
  assumes "AdministrativeRecordToCbor L ar = Inr (NewCanonicalBlock 1 0 (PayloadBlock bs))"
  shows "WriteAdministrativeRecord L ar = Inr bs"
  using assms by (auto simp: AdministrativeRecordToCbor_def andThen_eq_Inr NewCanonicalBlock_def)

lemma no_requests:
  fixes f :: u64
  defines "g \<equiv> (f OR AdministrativeRecordPayload) AND NOT (StatusRequestReception OR StatusRequestForward OR
    StatusRequestDelivery OR StatusRequestDeletion)"
  shows "Has g AdministrativeRecordPayload" "\<not> Has g StatusRequestReception" "\<not> Has g StatusRequestForward"
    "\<not> Has g StatusRequestDelivery" "\<not> Has g StatusRequestDeletion"
proof -
  have "g AND AdministrativeRecordPayload = (f OR 2) AND 2"
    unfolding g_def bundle_flag_defs by (simp add: and.assoc)
  also have "\<dots> = 2" by (rule bit_word_eqI) (auto simp: bit_simps)
  finally show "Has g AdministrativeRecordPayload" by (simp add: Has_def)
qed (unfold g_def Has_def bundle_flag_defs, simp_all add: and.assoc)

text \<open>
  Also shown: a bundle that was built as the status report of another bundle is an administrative record, its flags
  request no reports about itself, and the node that receives its payload reads exactly that report.
\<close>

theorem status_report_bundle:
  assumes "cboring L" and "wf_bid (b_ID ref)" and "bldr_err bldr = None"
    and "bldr_StatusReport L now [V_bundle ref, V_statusPos pos, V_reason reason, V_dtnTime t] bldr = Inr bldr'"
    and "Build L now' bldr' = Inr b"
  shows "IsAdministrativeRecord b \<and>
    (\<forall>f \<in> {StatusRequestReception, StatusRequestForward, StatusRequestDelivery, StatusRequestDeletion}.
      \<not> Has (BundleControlFlags (PrimaryBlock b)) f) \<and>
    b_AdministrativeRecord L b = Inr (StatusReport (NewStatusReport ref pos reason t))"
proof -
  let ?ar = "StatusReport (NewStatusReport ref pos reason t)"
  obtain data where data: "WriteAdministrativeRecord L ?ar = Inr data"
    "NewAdministrativeRecordFromCbor L data = Inr ?ar"
    using cboring.record_rw[OF assms(1) NewStatusReport_wf[OF assms(2)]] record_written by blast
  let ?flags = "(BundleControlFlags (primary bldr) OR AdministrativeRecordPayload) AND
    NOT (StatusRequestReception OR StatusRequestForward OR StatusRequestDelivery OR StatusRequestDeletion)"
  have b': "bldr' = bldr\<lparr>primary := (primary bldr)\<lparr>BundleControlFlags := ?flags\<rparr>,
      payload := NewCanonicalBlock 1 0 (PayloadBlock data)\<rparr>"
    using assms(3,4) data(1)
    by (simp add: bldr_StatusReport_def bldr_AdministrativeRecord_def Let_def bldr_PayloadBlock_def
        bldr_Canonical_def put_block_def block_type_defs NewCanonicalBlock_def)
  obtain pb bndl where "pb = (if ReportTo (primary bldr') = None
        then (primary bldr')\<lparr>ReportTo := SourceNode (primary bldr')\<rparr> else primary bldr')"
    "bndl = MustNewBundle pb (canonicals bldr') (payload bldr')" "b = b_SetCRCType L (crcType bldr') bndl"
    by (rule Build_Inr[OF assms(5)])
  then have pb: "BundleControlFlags pb = ?flags" "b = b_SetCRCType L (crcType bldr')
      (MustNewBundle pb (canonicals bldr') (payload bldr'))"
    by (simp_all add: b')
  obtain c where "PrimaryBlock b = pb\<lparr>pb_CRCType := (if crcType bldr' = CRCNo then CRC32 else crcType bldr'), pb_CRC := c\<rparr>"
    using SetCRCType_primary[of L "crcType bldr'" pb] by (auto simp: pb(2) b_SetCRCType_def MustNewBundle_def)
  then have "BundleControlFlags (PrimaryBlock b) = ?flags" by (simp add: pb(1))
  moreover have "payload_data (b_PayloadBlock b) = Inr data"
    by (simp add: pb(2) b' b_SetCRCType_def MustNewBundle_def payload_data_def NewCanonicalBlock_def)
  ultimately show ?thesis using no_requests data(2)
    by (simp add: IsAdministrativeRecord_def b_AdministrativeRecord_def NewAdministrativeRecordFromCbor_def)
qed

definition sample_report :: "bytes \<Rightarrow> dtn_bundle" where
  "sample_report data =
     \<lparr>PrimaryBlock = (PrimaryBlock sample_made)\<lparr>BundleControlFlags := 2\<rparr>,
      ExtensionBlocks = ExtensionBlocks sample_made,
      b_PayloadBlock = NewCanonicalBlock 1 0 (PayloadBlock data)\<rparr>"

lemma sample_report_valid: "b_CheckValid 0 (sample_report data) = Inr []"
  by (simp add: sample_report_def b_CheckValid_def sample_made_def empty_primary_def NewCanonicalBlock_def
      cb_CheckValid_def blockcf_CheckValid_def block_type_defs ReplicateBlock_def StatusReportBlock_def
      CheckContextValid_def unique_of_type_def ExtensionBlockByType_def ExtensionBlocksByType_def
      HasExtensionBlock_def TypeCode_def pb_CheckValid_def bcf_CheckValid_def Has_def bundle_flag_defs dtnVersion_def
      wf_eidD [OF sample_eid_wf] IsZeroTime_def ct_DtnTime_def IsLifetimeExceeded_def)
    (simp add: sample_eid_def DtnNone_def)

lemma sample_report_builds:
  assumes "WriteAdministrativeRecord L (StatusReport (NewStatusReport sample_bundle 2 0 9)) = Inr data"
  obtains c where "bldr_StatusReport L 0 [V_bundle sample_bundle, V_statusPos 2, V_reason 0, V_dtnTime 9]
      sample_built = Inr c" "Build L 0 c = Inr (b_SetCRCType L CRCNo (sample_report data))"
proof
  let ?c = "sample_built\<lparr>primary := (primary sample_built)\<lparr>BundleControlFlags := 2\<rparr>,
    payload := NewCanonicalBlock 1 0 (PayloadBlock data)\<rparr>"
  show "bldr_StatusReport L 0 [V_bundle sample_bundle, V_statusPos 2, V_reason 0, V_dtnTime 9] sample_built = Inr ?c"
    using assms
    by (simp add: bldr_StatusReport_def bldr_AdministrativeRecord_def Let_def bldr_PayloadBlock_def sample_built_def
        bldr_Canonical_def put_block_def block_type_defs NewCanonicalBlock_def empty_primary_def bundle_flag_defs)
  have "MustNewBundle ((primary ?c)\<lparr>ReportTo := sample_eid\<rparr>) (canonicals ?c) (payload ?c) = sample_report data"
    by (simp add: MustNewBundle_def sample_built_def sample_report_def sample_made_def sortExtensionBlocks_def
        go_sort_def empty_primary_def)
  moreover have "ReportTo (primary ?c) = None" "SourceNode (primary ?c) = sample_eid"
    "Destination (primary ?c) = sample_eid" "sample_eid \<noteq> None" "bldr_err ?c = None" "crcType ?c = CRCNo"
    by (simp_all add: sample_built_def empty_primary_def sample_eid_def)
  ultimately show "Build L 0 ?c = Inr (b_SetCRCType L CRCNo (sample_report data))"
    unfolding Build_def NewBundle_def Let_def by (simp add: sample_report_valid)
qed

theorem status_report_bundle_witness:
  "\<exists>b. IsAdministrativeRecord b \<and>
    b_AdministrativeRecord rfc_lib b = Inr (StatusReport (NewStatusReport sample_bundle 2 0 9))"
proof -
  obtain data where data: "WriteAdministrativeRecord rfc_lib (StatusReport (NewStatusReport sample_bundle 2 0 9)) = Inr data"
    using cboring.record_rw[OF cboring_rfc NewStatusReport_wf[OF sample_bundle_bid]] record_written by blast
  obtain c where c: "bldr_StatusReport rfc_lib 0 [V_bundle sample_bundle, V_statusPos 2, V_reason 0, V_dtnTime 9]
      sample_built = Inr c" "Build rfc_lib 0 c = Inr (b_SetCRCType rfc_lib CRCNo (sample_report data))"
    by (rule sample_report_builds[OF data])
  show ?thesis
    using status_report_bundle[OF cboring_rfc sample_bundle_bid _ c] by (auto simp: sample_built_def)
qed

end
