(* ===== verification/Agents.thy ===== *)
theory Agents
  imports Agent_Manager Builder
begin

text \<open>
  The two application agents: \<^verbatim>\<open>pkg/application_agent/unix_agent/unix_agent.go\<close>, which serves messages
  on a socket, and \<^verbatim>\<open>rest_agent/rest_agent.go\<close>, which serves JSON over HTTP. Both keep a bank of
  mailboxes. The coding of messages is not code of the repository: \<open>msgpack\<close> has its
  functions, and the REST handlers take the decoded request, or the decoder's error. An error text in
  a reply is the error itself. A connection is the bytes a client sent; handlers say what they
  write, what they hand to the manager, and \<open>Inl\<close> is a panic.
\<close>

section \<open>The unix agent\<close>

record unix_agent =
  listenAddress :: string
  ua_mailboxes :: mailbox_bank

definition NewUNIXAgent :: "string \<Rightarrow> unix_agent" where
  "NewUNIXAgent address = \<lparr>listenAddress = address, ua_mailboxes = NewMailboxBank\<rparr>"

definition MsgTypeRegisterEID :: u8 where "MsgTypeRegisterEID = 2"
definition MsgTypeUnregisterEID :: u8 where "MsgTypeUnregisterEID = 3"
definition MsgTypeBundleCreate :: u8 where "MsgTypeBundleCreate = 4"
definition MsgTypeListBundles :: u8 where "MsgTypeListBundles = 6"
definition MsgTypeFetchBundle :: u8 where "MsgTypeFetchBundle = 8"
definition MsgTypeFetchAllBundles :: u8 where "MsgTypeFetchAllBundles = 10"

lemmas msg_type_defs = MsgTypeRegisterEID_def MsgTypeUnregisterEID_def MsgTypeBundleCreate_def
  MsgTypeListBundles_def MsgTypeFetchBundle_def MsgTypeFetchAllBundles_def

record bundle_content =
  bc_BundleID :: string
  bc_SourceID :: string
  bc_DestinationID :: string
  bc_Payload :: bytes

datatype unix_reply =
    GeneralResponse "aa_err option"
  | BundleCreateResponse "aa_err option" string
  | ListResponse "aa_err option" "string list"
  | FetchBundleResponse "aa_err option" "bundle_content option"
  | FetchAllBundlesResponse "aa_err option" "bundle_content list"

record msgpack =
  mp_Message :: "bytes \<Rightarrow> u8 res"
  mp_RegisterUnregister :: "bytes \<Rightarrow> (u8 \<times> string) res"
  mp_BundleCreate :: "bytes \<Rightarrow> (string \<times> go_val) list res"
  mp_ListBundles :: "bytes \<Rightarrow> (string \<times> bool) res"
  mp_FetchBundle :: "bytes \<Rightarrow> (string \<times> string \<times> bool) res"
  mp_FetchAllBundles :: "bytes \<Rightarrow> (string \<times> bool \<times> bool) res"
  mp_Marshal :: "unix_reply \<Rightarrow> bytes res"

definition handleRegisterUnregister :: "string \<Rightarrow> bool \<Rightarrow> mailbox_bank \<Rightarrow> unix_reply \<times> mailbox_bank" where
  "handleRegisterUnregister uri register bank =
     (case NewEndpointID uri of
        Inl e \<Rightarrow> (GeneralResponse (Some (AgentError e)), bank)
      | Inr eid \<Rightarrow>
          (case (if register then bank_Register eid bank else bank_Unregister eid bank) of
             (e, bank) \<Rightarrow> (GeneralResponse e, bank)))"

definition handleBundleCreate ::
  "lib \<Rightarrow> float_ops \<Rightarrow> time \<Rightarrow> time \<Rightarrow> (string \<times> go_val) list \<Rightarrow> id_keeper \<Rightarrow>
   (unix_reply \<times> dtn_bundle list \<times> id_keeper) res" where
  "handleBundleCreate L F now now' args idk =
     (case BuildFromMap L F now now' args of
        Inl (Panic p) \<Rightarrow> Inl (Panic p)
      | Inl e \<Rightarrow> Inr (BundleCreateResponse (Some (AgentError e)) [], [], idk)
      | Inr b \<Rightarrow>
          (case Send b idk of (bid, sent, idk) \<Rightarrow> Inr (BundleCreateResponse None (bid_String bid), sent, idk)))"

text \<open>The mailbox that a message names.\<close>

definition named_mailbox :: "string \<Rightarrow> mailbox_bank \<Rightarrow> aa_err + nat" where
  "named_mailbox uri bank =
     (case NewEndpointID uri of Inl e \<Rightarrow> Inl (AgentError e) | Inr eid \<Rightarrow> GetMailbox eid bank)"

definition handleMailboxList :: "string \<Rightarrow> bool \<Rightarrow> mailbox_bank \<Rightarrow> unix_reply" where
  "handleMailboxList uri new bank =
     (case named_mailbox uri bank of
        Inl e \<Rightarrow> ListResponse (Some e) []
      | Inr p \<Rightarrow>
          let m = boxes bank ! p; bids = (if new then mbox_ListNew m else mbox_List m)
          in ListResponse None (map bid_String bids))"

text \<open>
  The fields of a loaded bundle that a reply has. The store writes a payload last: of a bundle whose
  file could not be read to the end, the payload has no value.
\<close>

fun content_of :: "loaded \<Rightarrow> bundle_content res" where
  "content_of (Loaded b) =
     andThen (payload_data (b_PayloadBlock b)) (\<lambda>data.
       Inr \<lparr>bc_BundleID = bid_String (b_ID b), bc_SourceID = eid_String (SourceNode (PrimaryBlock b)),
            bc_DestinationID = eid_String (Destination (PrimaryBlock b)), bc_Payload = data\<rparr>)"
| "content_of (Incomplete e) = Inl (Panic ''interface conversion: ExtensionBlock is nil, not *PayloadBlock'')"

definition set_box :: "nat \<Rightarrow> mailbox \<Rightarrow> mailbox_bank \<Rightarrow> mailbox_bank" where
  "set_box p m bank = bank\<lparr>boxes := (boxes bank)[p := m]\<rparr>"

definition handleGetBundle ::
  "'kv store_env \<Rightarrow> time \<Rightarrow> 'kv bundle_store \<Rightarrow> string \<Rightarrow> string \<Rightarrow> bool \<Rightarrow> mailbox_bank \<Rightarrow>
   (unix_reply \<times> mailbox_bank) res option" where
  "handleGetBundle E now st uri bundleID remove bank =
     (let failure = (\<lambda>e. Some (Inr (FetchBundleResponse (Some e) None, bank)))
      in case named_mailbox uri bank of
           Inl e \<Rightarrow> failure e
         | Inr p \<Rightarrow>
             (case NewBundleID bundleID of
                Inl e \<Rightarrow> failure (AgentError e)
              | Inr bid \<Rightarrow>
                  (case mbox_Get E now st bid remove (boxes bank ! p) of
                     None \<Rightarrow> None
                   | Some (Inl e, m) \<Rightarrow> Some (Inr (FetchBundleResponse (Some e) None, set_box p m bank))
                   | Some (Inr b, m) \<Rightarrow> Some (andThen (content_of b) (\<lambda>content.
                       Inr (FetchBundleResponse None (Some content), set_box p m bank))))))"

definition handleGetAllBundles ::
  "'kv store_env \<Rightarrow> time \<Rightarrow> 'kv bundle_store \<Rightarrow> string \<Rightarrow> bool \<Rightarrow> bool \<Rightarrow> mailbox_bank \<Rightarrow>
   (unix_reply \<times> mailbox_bank) res option" where
  "handleGetAllBundles E now st uri new remove bank =
     (case named_mailbox uri bank of
        Inl e \<Rightarrow> Some (Inr (FetchAllBundlesResponse (Some e) [], bank))
      | Inr p \<Rightarrow>
          (case (if new then mbox_GetNew else mbox_GetAll) E now st remove (boxes bank ! p) of
             None \<Rightarrow> None
           | Some (Some e, bndls, m) \<Rightarrow> Some (Inr (FetchAllBundlesResponse (Some e) [], set_box p m bank))
           | Some (None, bndls, m) \<Rightarrow> Some (andThen (map_res content_of bndls) (\<lambda>contents.
               Inr (FetchAllBundlesResponse None contents, set_box p m bank)))))"

text \<open>
  One connection: what is written back, the mailboxes, the bundles given to the manager's callback and
  the ID keeper. A client that breaks off or sends what cannot be decoded gets no reply.
\<close>

type_synonym conn_result = "bytes \<times> mailbox_bank \<times> dtn_bundle list \<times> id_keeper"

definition unix_reply_bytes :: "msgpack \<Rightarrow> unix_reply \<Rightarrow> bytes" where
  "unix_reply_bytes MP reply =
     (case mp_Marshal MP reply of
        Inl e \<Rightarrow> []
      | Inr replyBytes \<Rightarrow> PutUint64 (word_of_nat (length replyBytes)) @ replyBytes)"

definition dispatch_message ::
  "msgpack \<Rightarrow> 'kv store_env \<Rightarrow> float_ops \<Rightarrow> time \<Rightarrow> time \<Rightarrow> 'kv bundle_store \<Rightarrow> bytes \<Rightarrow> mailbox_bank \<Rightarrow>
   id_keeper \<Rightarrow> conn_result res option" where
  "dispatch_message MP E F now now' st msgBytes bank idk =
     (let ignore = Some (Inr ([], bank, [], idk));
          answer = (\<lambda>reply bank. Inr (unix_reply_bytes MP reply, bank, [], idk))
      in case mp_Message MP msgBytes of
           Inl e \<Rightarrow> ignore
         | Inr t \<Rightarrow>
             if t = MsgTypeRegisterEID \<or> t = MsgTypeUnregisterEID then
               (case mp_RegisterUnregister MP msgBytes of
                  Inl e \<Rightarrow> ignore
                | Inr (t', uri) \<Rightarrow>
                    (case handleRegisterUnregister uri (t' = MsgTypeRegisterEID) bank of
                       (reply, bank) \<Rightarrow> Some (answer reply bank)))
             else if t = MsgTypeBundleCreate then
               (case mp_BundleCreate MP msgBytes of
                  Inl e \<Rightarrow> ignore
                | Inr args \<Rightarrow> Some (andThen (handleBundleCreate (env_cbor E) F now now' args idk)
                    (\<lambda>(reply, sent, idk). Inr (unix_reply_bytes MP reply, bank, sent, idk))))
             else if t = MsgTypeListBundles then
               (case mp_ListBundles MP msgBytes of
                  Inl e \<Rightarrow> ignore
                | Inr (uri, new) \<Rightarrow> Some (answer (handleMailboxList uri new bank) bank))
             else if t = MsgTypeFetchBundle then
               (case mp_FetchBundle MP msgBytes of
                  Inl e \<Rightarrow> ignore
                | Inr (uri, bundleID, remove) \<Rightarrow>
                    map_option (\<lambda>r. andThen r (\<lambda>(reply, bank). answer reply bank))
                      (handleGetBundle E now st uri bundleID remove bank))
             else if t = MsgTypeFetchAllBundles then
               (case mp_FetchAllBundles MP msgBytes of
                  Inl e \<Rightarrow> ignore
                | Inr (uri, new, remove) \<Rightarrow>
                    map_option (\<lambda>r. andThen r (\<lambda>(reply, bank). answer reply bank))
                      (handleGetAllBundles E now st uri new remove bank))
             else ignore)"

definition handleConnection ::
  "msgpack \<Rightarrow> 'kv store_env \<Rightarrow> float_ops \<Rightarrow> time \<Rightarrow> time \<Rightarrow> 'kv bundle_store \<Rightarrow> bytes \<Rightarrow> mailbox_bank \<Rightarrow>
   id_keeper \<Rightarrow> conn_result res option" where
  "handleConnection MP E F now now' st input bank idk =
     (let ignore = Some (Inr ([], bank, [], idk))
      in if length input < 8 then ignore
         else let msgLen = unat (Uint64 (take 8 input)); rest = drop 8 input
              in if \<not> make_slice_ok 1 msgLen then Some (Inl (Panic ''makeslice: len out of range''))
                 else if length rest < msgLen then ignore
                 else dispatch_message MP E F now now' st (take msgLen rest) bank idk)"

text \<open>The agent as the manager sees it.\<close>

definition unix_interface :: "('kv, unix_agent) application_agent" where
  "unix_interface =
     \<lparr>ag_Name = (\<lambda>a. ''UNIXAgent('' @ listenAddress a @ '')''),
      ag_Endpoints = (\<lambda>a. RegisteredIDs (ua_mailboxes a)),
      ag_Deliver = (\<lambda>st d a. case bank_Deliver st d (ua_mailboxes a) of
        (e, bank) \<Rightarrow> (e, a\<lparr>ua_mailboxes := bank\<rparr>)),
      ag_GC = (\<lambda>a. bank_GC (ua_mailboxes a))\<rparr>"

section \<open>The REST agent\<close>

text \<open>The clients are a \<^verbatim>\<open>sync.Map\<close>: the list of its entries in the order of an iteration.\<close>

record rest_agent =
  ra_listenAddress :: string
  clients :: "(string \<times> endpoint_id) list"
  ra_mailboxes :: mailbox_bank

definition NewRestAgent :: "string \<Rightarrow> rest_agent" where
  "NewRestAgent address = \<lparr>ra_listenAddress = address, clients = [], ra_mailboxes = NewMailboxBank\<rparr>"

definition rest_uuid :: "bytes \<Rightarrow> string" where
  "rest_uuid b =
     show_hex (take 4 b) @ ''-'' @ show_hex (take 2 (drop 4 b)) @ ''-'' @ show_hex (take 2 (drop 6 b)) @ ''-'' @
     show_hex (take 2 (drop 8 b)) @ ''-'' @ show_hex (drop 10 b)"

text \<open>The sixteen random bytes are an argument. The reply is an error or the client's UUID.\<close>

definition randomUuid :: "bytes res \<Rightarrow> string res" where
  "randomUuid rnd = andThen rnd (\<lambda>b. Inr (rest_uuid b))"

definition handleRegister :: "string res \<Rightarrow> bytes res \<Rightarrow> rest_agent \<Rightarrow> string res \<times> rest_agent" where
  "handleRegister request rnd ra =
     (case andThen request NewEndpointID of
        Inl e \<Rightarrow> (Inl e, ra)
      | Inr eid \<Rightarrow>
          (case randomUuid rnd of
             Inl e \<Rightarrow> (Inl e, ra)
           | Inr uuid \<Rightarrow>
               (Inr uuid, ra\<lparr>ra_mailboxes := snd (bank_Register eid (ra_mailboxes ra)),
                            clients := mapset uuid eid (clients ra)\<rparr>)))"

definition handleUnregister :: "string res \<Rightarrow> rest_agent \<Rightarrow> aa_err option \<times> rest_agent" where
  "handleUnregister request ra =
     (case request of
        Inl e \<Rightarrow> (None, ra)
      | Inr uuid \<Rightarrow>
          (case map_of (clients ra) uuid of
             None \<Rightarrow> (Some (AgentError (Errorf ''REST client does not know client'')),
                 ra\<lparr>clients := mapdel uuid (clients ra)\<rparr>)
           | Some eid \<Rightarrow>
               (case bank_Unregister eid (ra_mailboxes ra) of
                  (e, bank) \<Rightarrow> (e, ra\<lparr>ra_mailboxes := bank, clients := mapdel uuid (clients ra)\<rparr>))))"

definition handleFetch ::
  "'kv store_env \<Rightarrow> time \<Rightarrow> 'kv bundle_store \<Rightarrow> string res \<Rightarrow> rest_agent \<Rightarrow>
   ((aa_err option \<times> loaded list) \<times> rest_agent) option" where
  "handleFetch E now st request ra =
     (let failure = (\<lambda>e. Some ((Some e, []), ra))
      in case request of
           Inl e \<Rightarrow> failure (AgentError e)
         | Inr uuid \<Rightarrow>
             (case map_of (clients ra) uuid of
                None \<Rightarrow> failure (AgentError (Errorf ''REST client does not know client''))
              | Some eid \<Rightarrow>
                  (case GetMailbox eid (ra_mailboxes ra) of
                     Inl _ \<Rightarrow> failure (AgentError (Errorf ''No mailbox registered for this eid''))
                   | Inr p \<Rightarrow>
                       map_option (\<lambda>(e, bndls, m).
                         ((e, if e = None then bndls else []),
                          ra\<lparr>ra_mailboxes := set_box p m (ra_mailboxes ra)\<rparr>))
                         (mbox_GetAll E now st True (boxes (ra_mailboxes ra) ! p)))))"

definition handleBuild ::
  "lib \<Rightarrow> float_ops \<Rightarrow> time \<Rightarrow> time \<Rightarrow> (string \<times> (string \<times> go_val) list) res \<Rightarrow> rest_agent \<Rightarrow> id_keeper \<Rightarrow>
   (aa_err option \<times> dtn_bundle list \<times> id_keeper) res" where
  "handleBuild L F now now' request ra idk =
     (let failure = (\<lambda>e. Inr (Some (AgentError e), [], idk))
      in case request of
           Inl e \<Rightarrow> failure e
         | Inr (uuid, args) \<Rightarrow>
             (case map_of (clients ra) uuid of
                None \<Rightarrow> failure (Errorf ''Invalid UUID'')
              | Some eid \<Rightarrow>
                  (case BuildFromMap L F now now' args of
                     Inl (Panic p) \<Rightarrow> Inl (Panic p)
                   | Inl e \<Rightarrow> failure e
                   | Inr b \<Rightarrow>
                       if SourceNode (PrimaryBlock b) \<noteq> eid \<and> ReportTo (PrimaryBlock b) \<noteq> eid
                       then failure (Errorf
                         ''REST client's endpoint is neither the source nor the report_to field'')
                       else (case Send b idk of (bid, sent, idk) \<Rightarrow> Inr (None, sent, idk)))))"

text \<open>The function that \<^verbatim>\<open>Endpoints\<close> gives to \<^verbatim>\<open>Range\<close> returns false, which ends the iteration.\<close>

definition rest_Endpoints :: "rest_agent \<Rightarrow> endpoint_id list" where
  "rest_Endpoints ra = map snd (take 1 (clients ra))"

definition rest_interface :: "('kv, rest_agent) application_agent" where
  "rest_interface =
     \<lparr>ag_Name = (\<lambda>a. ''RestAgent('' @ ra_listenAddress a @ '')''),
      ag_Endpoints = rest_Endpoints,
      ag_Deliver = (\<lambda>st d a. case bank_Deliver st d (ra_mailboxes a) of
        (e, bank) \<Rightarrow> (e, a\<lparr>ra_mailboxes := bank\<rparr>)),
      ag_GC = (\<lambda>a. bank_GC (ra_mailboxes a))\<rparr>"

section \<open>Both agents under one manager\<close>

definition either_agent ::
  "('kv, 'a) application_agent \<Rightarrow> ('kv, 'b) application_agent \<Rightarrow> ('kv, 'a + 'b) application_agent" where
  "either_agent I J =
     \<lparr>ag_Name = case_sum (ag_Name I) (ag_Name J),
      ag_Endpoints = case_sum (ag_Endpoints I) (ag_Endpoints J),
      ag_Deliver = (\<lambda>st d. case_sum (map_prod id Inl \<circ> ag_Deliver I st d) (map_prod id Inr \<circ> ag_Deliver J st d)),
      ag_GC = case_sum (ag_GC I) (ag_GC J)\<rparr>"

definition node_agents :: "('kv, unix_agent + rest_agent) application_agent" where
  "node_agents = either_agent unix_interface rest_interface"

lemma bank_Deliver_refused: "fst (bank_Deliver st d bank) = Some e \<Longrightarrow> snd (bank_Deliver st d bank) = bank"
  by (auto simp: bank_Deliver_def mbox_Deliver_def Let_def split: sum.splits option.splits prod.splits if_splits)

lemma bank_Deliver_ids: "RegisteredIDs (snd (bank_Deliver st d bank)) = RegisteredIDs bank"
  by (auto simp: bank_Deliver_def RegisteredIDs_def split: sum.split option.split prod.split)

interpretation unix: agent_interface unix_interface
  by unfold_locales (auto simp: unix_interface_def bank_Deliver_ids split_beta dest: bank_Deliver_refused)

interpretation rest: agent_interface rest_interface
  by unfold_locales (auto simp: rest_interface_def rest_Endpoints_def split_beta dest: bank_Deliver_refused)

lemma either_agent_interface:
  "agent_interface I \<Longrightarrow> agent_interface J \<Longrightarrow> agent_interface (either_agent I J)"
  unfolding agent_interface_def either_agent_def
  by (auto split: sum.split)

interpretation both: agent_interface node_agents
  unfolding node_agents_def
  by (rule either_agent_interface[OF unix.agent_interface_axioms rest.agent_interface_axioms])

section \<open>Delivery to a client\<close>

text \<open>A bundle the store has, delivered to the bank that has a mailbox for its destination.\<close>

lemma bank_Deliver_known:
  assumes "GetBundleDescriptor (bd_ID (heap st ! a)) st = Inr a"
    and "map_of (mailboxes bank) (md_Destination (metadata (heap st ! a))) = Some p"
  shows "snd (bank_Deliver st a bank) =
    (if map_of (boxes bank ! p) (bd_ID (heap st ! a)) \<noteq> None then bank
     else set_box p (mapset (bd_ID (heap st ! a)) False (boxes bank ! p)) bank)"
  using assms GetBundleDescriptor_live[OF assms(1)]
  by (auto simp: bank_Deliver_def Metadata_def mbox_Deliver_def Let_def set_box_def split: option.split)

lemma known_address:
  assumes "store_ok E look st" and "GetBundleDescriptor bid st = Inr a"
  shows "bd_ID (heap st ! a) = bid"
proof -
  have "(bid, a) \<in> set (bundles st)"
    using assms map_of_bundles[OF assms(1)]
    by (auto simp: GetBundleDescriptor_def split: option.splits if_splits)
  then show ?thesis using entry_at[OF assms(1)] by (simp add: entry_ok_def bd_ID_def)
qed

lemma GetAll_empty [simp]: "mbox_GetAll E now st remove [] = Some (None, [], [])"
  by (simp add: mbox_GetAll_def mbox_List_def fetch_end_def)

lemma deliver_then_fetch:
  assumes world: "storage E look" and reach: "store_reach E st"
    and M: "env_ebm E BlockTypeBundleAgeBlock = Some TBundleAge"
    and client: "map_of (clients ra) uuid = Some (md_Destination (metadata (heap st ! a)))"
    and box: "map_of (mailboxes (ra_mailboxes ra)) (md_Destination (metadata (heap st ! a))) = Some p"
    and p: "p < length (boxes (ra_mailboxes ra))"
    and known: "\<forall>bid \<in> set (mbox_List (boxes (ra_mailboxes ra) ! p)). known_in st bid"
    and a: "GetBundleDescriptor bid st = Inr a"
  defines "m \<equiv> (if map_of (boxes (ra_mailboxes ra) ! p) bid \<noteq> None then boxes (ra_mailboxes ra) ! p
    else mapset bid False (boxes (ra_mailboxes ra) ! p))"
  shows "\<exists>bs. map b_ID bs = mbox_List m \<and>
    handleFetch E now st (Inr uuid) (snd (ag_Deliver rest_interface st a ra)) =
      Some ((None, map Loaded bs), ra\<lparr>ra_mailboxes := set_box p [] (ra_mailboxes ra)\<rparr>)"
proof -
  let ?bank = "ra_mailboxes ra"
  have ok: "store_ok E look st" using storage.store_reach_ok[OF world reach] .
  have id: "bd_ID (heap st ! a) = bid" by (rule known_address[OF ok a])
  have bank: "snd (bank_Deliver st a ?bank) = set_box p m ?bank"
    using bank_Deliver_known[of st a ?bank p] a box by (simp add: id m_def set_box_def)
  have "\<forall>bid \<in> set (mbox_List m). known_in st bid"
    using known a by (auto simp: m_def mbox_List_def keys_mapset known_in_def simp flip: set_map split: if_splits)
  then obtain bs where bs: "map b_ID bs = mbox_List m"
    "mbox_GetAll E now st True m = Some (None, map Loaded bs, [])"
    using GetAll_known[OF world ok M, of m now True] by auto
  have ra': "snd (ag_Deliver rest_interface st a ra) = ra\<lparr>ra_mailboxes := set_box p m ?bank\<rparr>"
    using bank by (simp add: rest_interface_def split_beta)
  show ?thesis
    using bs client box p
    by (intro exI[of _ bs]) (simp add: ra' handleFetch_def GetMailbox_def set_box_def)
qed

section \<open>Properties\<close>

text \<open>
  Claim C16: a bundle of the store that is delivered to the REST agent reaches the client that registered
  its destination, if the store still knows every bundle that was waiting in its mailbox: the next fetch
  returns it, together with everything else in the mailbox, and
  the fetch after that returns nothing. What a waiting bundle does that is gone from the store is shown by
  \<open>deleted_bundle_hides_new\<close>.
\<close>

theorem delivered_bundle_fetched:
  assumes "reliable_db (env_db E) look" and "cboring (env_cbor E)" and "store_reach E st"
    and "env_ebm E BlockTypeBundleAgeBlock = Some TBundleAge"
    and "map_of (clients ra) uuid = Some (md_Destination (metadata (heap st ! a)))"
    and "map_of (mailboxes (ra_mailboxes ra)) (md_Destination (metadata (heap st ! a))) = Some p"
    and "p < length (boxes (ra_mailboxes ra))"
    and "\<forall>bid \<in> set (mbox_List (boxes (ra_mailboxes ra) ! p)). known_in st bid"
    and "GetBundleDescriptor bid st = Inr a"
  shows "\<exists>bs ra'. handleFetch E now st (Inr uuid) (snd (ag_Deliver rest_interface st a ra)) =
      Some ((None, map Loaded bs), ra') \<and> bid \<in> set (map b_ID bs) \<and>
    set (mbox_List (boxes (ra_mailboxes ra) ! p)) \<subseteq> set (map b_ID bs) \<and>
    handleFetch E now' st (Inr uuid) ra' = Some ((None, []), ra')"
proof -
  have "storage E look" using assms(1,2) by (simp add: storage_def)
  then obtain bs where bs: "map b_ID bs = mbox_List
      (if map_of (boxes (ra_mailboxes ra) ! p) bid \<noteq> None then boxes (ra_mailboxes ra) ! p
       else mapset bid False (boxes (ra_mailboxes ra) ! p))"
    "handleFetch E now st (Inr uuid) (snd (ag_Deliver rest_interface st a ra)) =
      Some ((None, map Loaded bs), ra\<lparr>ra_mailboxes := set_box p [] (ra_mailboxes ra)\<rparr>)"
    using deliver_then_fetch[OF _ assms(3-9)] by blast
  have "handleFetch E now' st (Inr uuid) (ra\<lparr>ra_mailboxes := set_box p [] (ra_mailboxes ra)\<rparr>) =
      Some ((None, []), ra\<lparr>ra_mailboxes := set_box p [] (ra_mailboxes ra)\<rparr>)"
    using assms(5-7) by (simp add: handleFetch_def GetMailbox_def set_box_def)
  moreover have "bid \<in> set (map b_ID bs)" "set (mbox_List (boxes (ra_mailboxes ra) ! p)) \<subseteq> set (map b_ID bs)"
    unfolding bs(1) by (auto simp: mbox_List_def keys_mapset map_of_eq_None_iff simp flip: set_map)
  ultimately show ?thesis using bs(2) by blast
qed

definition sample_client :: rest_agent where
  "sample_client = \<lparr>ra_listenAddress = [], clients = [(''u'', sample_eid)],
     ra_mailboxes = \<lparr>registeredIDs = [sample_eid], mailboxes = [(sample_eid, 0)], boxes = [[]]\<rparr>\<rparr>"

lemma sample_destination: "md_Destination (metadata (heap sample_store ! 0)) = sample_eid"
  by (simp add: sample_insert NewBundleDescriptor_def new_metadata_def Let_def sample_bundle_def sample_primary_def)

lemma sample_ages: "env_ebm sample_env BlockTypeBundleAgeBlock = Some TBundleAge"
  by (simp add: GetExtensionBlockManager_eq block_type_defs)

theorem delivered_bundle_fetched_witness:
  "\<exists>bs ra'. handleFetch sample_env 0 sample_store (Inr ''u'')
      (snd (ag_Deliver rest_interface sample_store 0 sample_client)) = Some ((None, map Loaded bs), ra') \<and>
    b_ID sample_bundle \<in> set (map b_ID bs)"
  using delivered_bundle_fetched[OF sample_world sample_store_reach sample_ages, of sample_client "''u''" 0 0
      "b_ID sample_bundle" 0 0]
  by (auto simp: sample_destination sample_client_def mbox_List_def sample_known)

text \<open>
  Also shown: a bundle that a client removed when it fetched is delivered to it again when it is received
  again: the store answers a duplicate with the descriptor it has, whose bundle is then delivered, and the
  mailbox has forgotten it.
\<close>

theorem duplicate_delivered_again:
  assumes "reliable_db (env_db E) look" and "cboring (env_cbor E)" and "store_reach E st"
    and "env_ebm E BlockTypeBundleAgeBlock = Some TBundleAge"
    and "map_of (clients ra) uuid = Some (md_Destination (metadata (heap st ! a)))"
    and "map_of (mailboxes (ra_mailboxes ra)) (md_Destination (metadata (heap st ! a))) = Some p"
    and "p < length (boxes (ra_mailboxes ra))" and "boxes (ra_mailboxes ra) ! p = []"
    and "GetBundleDescriptor (b_ID b) st = Inr a" and "previous_node b = Inr []"
  shows "InsertBundle E d b st = (Inr a, st) \<and>
    (\<exists>b' ra'. handleFetch E now st (Inr uuid) (snd (ag_Deliver rest_interface st a ra)) =
      Some ((None, [Loaded b']), ra') \<and> b_ID b' = b_ID b)"
proof
  have "map_of (bundles st) (b_ID b) = Some a"
    using assms(9) by (auto simp: GetBundleDescriptor_def split: option.splits if_splits)
  then show "InsertBundle E d b st = (Inr a, st)" using assms(10) by (simp add: InsertBundle_def)
  have "storage E look" using assms(1,2) by (simp add: storage_def)
  have "\<forall>bid \<in> set (mbox_List (boxes (ra_mailboxes ra) ! p)). known_in st bid"
    by (simp add: assms(8) mbox_List_def)
  then have "\<exists>bs. map b_ID bs = [b_ID b] \<and>
    handleFetch E now st (Inr uuid) (snd (ag_Deliver rest_interface st a ra)) =
      Some ((None, map Loaded bs), ra\<lparr>ra_mailboxes := set_box p [] (ra_mailboxes ra)\<rparr>)"
    using deliver_then_fetch[OF \<open>storage E look\<close> assms(3-7) _ assms(9), of now] assms(8)
    by (simp add: mapset_def mbox_List_def)
  then show "\<exists>b' ra'. handleFetch E now st (Inr uuid) (snd (ag_Deliver rest_interface st a ra)) =
      Some ((None, [Loaded b']), ra') \<and> b_ID b' = b_ID b"
    by (auto simp: map_eq_Cons_conv)
qed

theorem duplicate_delivered_again_witness:
  "InsertBundle sample_env good_disk sample_bundle sample_store = (Inr 0, sample_store) \<and>
   (\<exists>b' ra'. handleFetch sample_env 0 sample_store (Inr ''u'')
      (snd (ag_Deliver rest_interface sample_store 0 sample_client)) = Some ((None, [Loaded b']), ra') \<and>
    b_ID b' = b_ID sample_bundle)"
  by (rule duplicate_delivered_again[OF sample_world sample_store_reach sample_ages, where p = 0])
    (simp_all add: sample_destination sample_client_def sample_known sample_previous)

text \<open>
  Claim C31: the REST agent hands a bundle to the manager only for a client that is registered, whose endpoint is
  the bundle's source or its report-to endpoint, and only what the builder made of the client's map, with the
  sequence number of the ID keeper.
\<close>

theorem rest_build_authentic:
  assumes "handleBuild L F now now' request ra idk = Inr (e, sent, idk')" and "b \<in> set sent"
  shows "\<exists>uuid args eid b0. request = Inr (uuid, args) \<and> map_of (clients ra) uuid = Some eid \<and>
    BuildFromMap L F now now' args = Inr b0 \<and> (b, idk') = idk_Update b0 idk \<and> e = None \<and> sent = [b] \<and>
    eid \<in> {SourceNode (PrimaryBlock b), ReportTo (PrimaryBlock b)}"
proof -
  obtain uuid args where r: "request = Inr (uuid, args)"
    using assms by (cases request) (auto simp: handleBuild_def)
  obtain eid where eid: "map_of (clients ra) uuid = Some eid"
    using assms by (cases "map_of (clients ra) uuid") (auto simp: r handleBuild_def)
  obtain b0 where b0: "BuildFromMap L F now now' args = Inr b0"
    using assms by (cases "BuildFromMap L F now now' args") (auto simp: r eid handleBuild_def split: err.splits)
  have src: "SourceNode (PrimaryBlock b0) = eid \<or> ReportTo (PrimaryBlock b0) = eid"
    using assms by (auto simp: r eid b0 handleBuild_def split: if_splits)
  then have "e = None" "sent = [fst (idk_Update b0 idk)]" "idk' = snd (idk_Update b0 idk)"
    using assms(1) by (auto simp: r eid b0 handleBuild_def Send_def split_beta split: if_splits)
  moreover have "SourceNode (PrimaryBlock (fst (idk_Update b0 idk))) = SourceNode (PrimaryBlock b0)"
    "ReportTo (PrimaryBlock (fst (idk_Update b0 idk))) = ReportTo (PrimaryBlock b0)"
    by (simp_all add: idk_Update_def Let_def)
  ultimately show ?thesis using r eid b0 src assms(2) by auto
qed

theorem rest_build_authentic_witness:
  "\<exists>b idk'. handleBuild rfc_lib sample_floats 0 0 (Inr (''u'', sample_map)) sample_client Map.empty =
      Inr (None, [b], idk') \<and> SourceNode (PrimaryBlock b) = sample_eid"
proof -
  let ?b0 = "b_SetCRCType rfc_lib CRCNo sample_made"
  obtain b idk' where u: "idk_Update ?b0 Map.empty = (b, idk')" by (cases "idk_Update ?b0 Map.empty")
  have s: "SourceNode (PrimaryBlock ?b0) = sample_eid" "ReportTo (PrimaryBlock ?b0) = sample_eid"
    using SetCRCType_primary[of rfc_lib CRCNo "PrimaryBlock sample_made"]
    by (auto simp: b_SetCRCType_def sample_made_def)
  have h: "handleBuild rfc_lib sample_floats 0 0 (Inr (''u'', sample_map)) sample_client Map.empty =
      Inr (None, [b], idk')"
    using u s by (simp add: handleBuild_def sample_client_def sample_map_builds Send_def)
  have "\<exists>eid. map_of (clients sample_client) ''u'' = Some eid \<and>
      eid \<in> {SourceNode (PrimaryBlock b), ReportTo (PrimaryBlock b)}"
    using rest_build_authentic[OF h, of b] by auto
  moreover have "SourceNode (PrimaryBlock b) = SourceNode (PrimaryBlock ?b0)"
    using arg_cong[OF u, of fst] by (auto simp: idk_Update_def Let_def)
  ultimately show ?thesis using h s by auto
qed

text \<open>
  Also shown: two clients may register one endpoint, and share its mailbox, as the refusal of the bank is ignored. When
  one of them unregisters, the other is still a client, but has no mailbox: it cannot fetch, and the agent
  refuses bundles for its endpoint.
\<close>

theorem second_client_cut_off:
  assumes "NewEndpointID uri = Inr eid" and "rest_uuid r1 \<noteq> rest_uuid r2"
    and "map_of (mailboxes (ra_mailboxes ra)) eid = None"
    and "handleRegister (Inr uri) (Inr r1) ra = (Inr uuid1, ra1)"
    and "handleRegister (Inr uri) (Inr r2) ra1 = (Inr uuid2, ra2)"
    and "handleUnregister (Inr uuid1) ra2 = (e, ra3)"
  shows "e = None \<and> map_of (clients ra3) uuid2 = Some eid \<and>
    (\<exists>err. handleFetch E now st (Inr uuid2) ra3 = Some ((Some err, []), ra3)) \<and>
    (md_Destination (metadata (heap st ! a)) = eid \<and> \<not> deleted (heap st ! a) \<longrightarrow>
      ag_Deliver rest_interface st a ra3 = (Some (NoSuchIDError eid), ra3))"
proof -
  have r: "uuid1 = rest_uuid r1" "uuid2 = rest_uuid r2"
    and ra1: "ra1 = ra\<lparr>ra_mailboxes := snd (bank_Register eid (ra_mailboxes ra)),
      clients := mapset uuid1 eid (clients ra)\<rparr>"
    and ra2: "ra2 = ra1\<lparr>ra_mailboxes := snd (bank_Register eid (ra_mailboxes ra1)),
      clients := mapset uuid2 eid (clients ra1)\<rparr>"
    using assms(1,4,5) by (auto simp: handleRegister_def randomUuid_def)
  have reg: "map_of (mailboxes (ra_mailboxes ra1)) eid \<noteq> None"
    using assms(3) by (simp add: ra1 bank_Register_def map_of_mapset)
  then have box: "ra_mailboxes ra2 = ra_mailboxes ra1" by (simp add: ra2 bank_Register_def)
  have cl: "map_of (clients ra2) uuid1 = Some eid" "map_of (clients ra2) uuid2 = Some eid"
    using assms(2) by (simp_all add: ra1 ra2 map_of_mapset r)
  have un: "bank_Unregister eid (ra_mailboxes ra2) = (None, ra_mailboxes ra3)" and e: "e = None"
    and cl3: "clients ra3 = mapdel uuid1 (clients ra2)"
    using assms(6) cl(1) reg box by (auto simp: handleUnregister_def bank_Unregister_def split: if_splits)
  have gone: "map_of (mailboxes (ra_mailboxes ra3)) eid = None"
  proof -
    have "ra_mailboxes ra3 = snd (bank_Unregister eid (ra_mailboxes ra2))" by (simp add: un)
    then show ?thesis using reg by (simp add: box bank_Unregister_def map_of_mapdel)
  qed
  have "map_of (clients ra3) uuid2 = Some eid"
    using cl(2) assms(2) by (simp add: cl3 map_of_mapdel r)
  moreover have "md_Destination (metadata (heap st ! a)) = eid \<and> \<not> deleted (heap st ! a) \<Longrightarrow>
      ag_Deliver rest_interface st a ra3 = (Some (NoSuchIDError eid), ra3)"
    using gone by (simp add: rest_interface_def bank_Deliver_def Metadata_def)
  ultimately show ?thesis
    using e gone by (simp add: handleFetch_def GetMailbox_def)
qed

theorem second_client_cut_off_witness:
  "let ra1 = snd (handleRegister (Inr ''dtn://a/'') (Inr [1]) (NewRestAgent []));
       ra2 = snd (handleRegister (Inr ''dtn://a/'') (Inr [2]) ra1);
       ra3 = snd (handleUnregister (Inr (rest_uuid [1])) ra2)
   in map_of (clients ra3) (rest_uuid [2]) = Some sample_eid \<and>
     (\<exists>err. handleFetch sample_env 0 sample_store (Inr (rest_uuid [2])) ra3 = Some ((Some err, []), ra3))"
proof -
  have ne: "rest_uuid [1] \<noteq> rest_uuid [2]"
    by (simp add: rest_uuid_def show_hex_def hex_digit_def)
  define ra1 where "ra1 = snd (handleRegister (Inr ''dtn://a/'') (Inr [1]) (NewRestAgent []))"
  define ra2 where "ra2 = snd (handleRegister (Inr ''dtn://a/'') (Inr [2]) ra1)"
  have r: "handleRegister (Inr ''dtn://a/'') (Inr [1]) (NewRestAgent []) = (Inr (rest_uuid [1]), ra1)"
    "handleRegister (Inr ''dtn://a/'') (Inr [2]) ra1 = (Inr (rest_uuid [2]), ra2)"
    by (simp_all add: ra1_def ra2_def handleRegister_def sample_uri randomUuid_def)
  obtain e ra3 where u: "handleUnregister (Inr (rest_uuid [1])) ra2 = (e, ra3)"
    by (cases "handleUnregister (Inr (rest_uuid [1])) ra2")
  have none: "map_of (mailboxes (ra_mailboxes (NewRestAgent []))) sample_eid = None"
    by (simp add: NewRestAgent_def NewMailboxBank_def)
  from second_client_cut_off[OF sample_uri ne none r u, of sample_env 0 sample_store 0]
  show ?thesis by (simp add: ra1_def[symmetric] ra2_def[symmetric] u Let_def)
qed

text \<open>
  Also shown: in a mailbox whose bundles come from sources with a hyphen in their name, the unix agent lists the bundles by
  strings that it cannot read back: no string that a client may send fetches a single one of them.
\<close>

theorem listed_bundle_not_fetchable:
  assumes "named_mailbox uri bank = Inr p"
    and "\<forall>bid \<in> set (mbox_List (boxes bank ! p)). \<not> hyphen_free (bid_SourceNode bid)"
  shows "handleMailboxList uri False bank = ListResponse None (map bid_String (mbox_List (boxes bank ! p))) \<and>
    (\<exists>e. handleGetBundle E now st uri s remove bank = Some (Inr (FetchBundleResponse (Some e) None, bank)))"
proof -
  have "map_of (boxes bank ! p) bid = None" if "NewBundleID s = Inr bid" for bid
    using NewBundleID_source[OF that] assms(2) by (auto simp: mbox_List_def map_of_eq_None_iff)
  then show ?thesis
    using assms(1)
    by (cases "NewBundleID s")
      (auto simp: handleMailboxList_def handleGetBundle_def mbox_Get_def set_box_def Let_def)
qed

theorem listed_bundle_not_fetchable_witness:
  "\<exists>e. handleGetBundle sample_env 0 sample_store ''dtn://a/'' ''dtn://b-c/-1-0'' False
      \<lparr>registeredIDs = [sample_eid], mailboxes = [(sample_eid, 0)],
       boxes = [[((b_ID sample_bundle)\<lparr>bid_SourceNode :=
         Some (DtnEndpoint \<lparr>NodeName = ''b-c'', Demux = [], IsDtnNone = False\<rparr>)\<rparr>, False)]]\<rparr> =
    Some (Inr (FetchBundleResponse (Some e) None, \<lparr>registeredIDs = [sample_eid], mailboxes = [(sample_eid, 0)],
       boxes = [[((b_ID sample_bundle)\<lparr>bid_SourceNode :=
         Some (DtnEndpoint \<lparr>NodeName = ''b-c'', Demux = [], IsDtnNone = False\<rparr>)\<rparr>, False)]]\<rparr>))"
proof -
  let ?bank = "\<lparr>registeredIDs = [sample_eid], mailboxes = [(sample_eid, 0)],
       boxes = [[((b_ID sample_bundle)\<lparr>bid_SourceNode :=
         Some (DtnEndpoint \<lparr>NodeName = ''b-c'', Demux = [], IsDtnNone = False\<rparr>)\<rparr>, False)]]\<rparr>"
  have "named_mailbox ''dtn://a/'' ?bank = Inr 0" by (simp add: named_mailbox_def sample_uri GetMailbox_def)
  then show ?thesis
    by (rule listed_bundle_not_fetchable[THEN conjunct2])
      (simp add: mbox_List_def hyphen_free_def eid_String_def et_String_def dtn_String_def)
qed

text \<open>
  Also shown: a client of the unix agent that announces a message longer than the address space, in its first eight
  bytes, makes the agent's goroutine panic, and with it the program.
\<close>

theorem announced_length_panics:
  assumes "unat n > 2 ^ 48"
  shows "handleConnection MP E F now now' st (PutUint64 n @ rest) bank idk =
    Some (Inl (Panic ''makeslice: len out of range''))"
  using assms by (simp add: handleConnection_def make_slice_ok_def)

theorem announced_length_panics_witness:
  "handleConnection MP E F now now' st (PutUint64 0x1000000000000000) bank idk =
    Some (Inl (Panic ''makeslice: len out of range''))"
  using announced_length_panics[of "0x1000000000000000" MP E F now now' st "[]" bank idk] by simp

text \<open>
  Also shown: of all clients' endpoints, \<^verbatim>\<open>Endpoints\<close> of the REST agent returns one.
\<close>

theorem rest_endpoints_first_only:
  "length (ag_Endpoints rest_interface ra) = min 1 (length (clients ra))"
  by (simp add: rest_interface_def rest_Endpoints_def)

end
