(* ===== verification/Node.thy ===== *)
theory Node
  imports Processing Agents
begin

text \<open>
  The parts of a node together: the runs of the manager with both agents, and the reception of a
  bundle, from the store over the manager to a client's mailbox.
\<close>

section \<open>Runs of the manager\<close>

datatype mgr_op =
    MRegister "unix_agent + rest_agent" "err option"
  | MUnregister string
  | MDeliver nat

type_synonym node_manager = "(unix_agent + rest_agent) agent_manager"

fun run_mgr_op :: "'kv bundle_store \<Rightarrow> mgr_op \<Rightarrow> node_manager \<Rightarrow> node_manager" where
  "run_mgr_op st (MRegister agent started) m = snd (RegisterAgent (node_agents :: ('kv, _) application_agent) agent started m)"
| "run_mgr_op st (MUnregister name) m = snd (UnregisterAgent name m)"
| "run_mgr_op st (MDeliver a) m = Delivery node_agents st a m"

fun run_mgr :: "('kv bundle_store \<times> mgr_op) list \<Rightarrow> node_manager \<Rightarrow> node_manager" where
  "run_mgr [] m = m"
| "run_mgr ((st, op) # ops) m = run_mgr ops (run_mgr_op st op m)"

lemma run_mgr_ok:
  fixes ops :: "('kv bundle_store \<times> mgr_op) list"
  shows "agent_interface.manager_ok (node_agents :: ('kv, _) application_agent) m \<Longrightarrow>
    agent_interface.manager_ok (node_agents :: ('kv, _) application_agent) (run_mgr ops m)"
proof (induction ops arbitrary: m)
  case (Cons x ops)
  obtain st op where x: "x = (st, op)" by (cases x)
  have "agent_interface.manager_ok (node_agents :: ('kv, _) application_agent) (run_mgr_op st op m)"
    by (cases op) (simp_all add: Cons.prems both.Register_ok both.Unregister_ok both.Delivery_ok)
  with Cons.IH show ?case by (simp add: x)
qed simp

section \<open>Reception\<close>

lemma InsertBundle_new:
  assumes "InsertBundle E d b st = (Inr a, st')" and "map_of (bundles st) (b_ID b) = None"
  shows "GetBundleDescriptor (b_ID b) st' = Inr a" "bd_ID (heap st' ! a) = b_ID b"
    "md_Destination (metadata (heap st' ! a)) = Destination (PrimaryBlock b)"
    "HasConstraint DispatchPending (heap st' ! a) = Inr True"
proof -
  have ins: "insertNewBundleUnsafe E d b st = (Inr a, st')" using assms by (simp add: InsertBundle_def)
  obtain prev where prev: "previous_node b = Inr prev"
    using ins by (auto simp: insertNewBundleUnsafe_def split: sum.splits)
  have "a = length (heap st) \<and> bundles st' = mapset (b_ID b) a (bundles st) \<and>
      heap st' = heap st @ [NewBundleDescriptor (new_metadata (nodeID st) b prev)]"
    using ins by (auto simp: insertNewBundleUnsafe_def prev Let_def split: sum.splits option.splits prod.splits)
  then show "GetBundleDescriptor (b_ID b) st' = Inr a" "bd_ID (heap st' ! a) = b_ID b"
    "md_Destination (metadata (heap st' ! a)) = Destination (PrimaryBlock b)"
    "HasConstraint DispatchPending (heap st' ! a) = Inr True"
    by (simp_all add: GetBundleDescriptor_def map_of_mapset Deleted_def NewBundleDescriptor_def new_metadata_def
        bd_ID_def Let_def HasConstraint_def)
qed

definition agent_bank :: "unix_agent + rest_agent \<Rightarrow> mailbox_bank" where
  "agent_bank = case_sum ua_mailboxes ra_mailboxes"

lemma Deliver_bank:
  "agent_bank (snd (ag_Deliver node_agents st a agent)) = snd (bank_Deliver st a (agent_bank agent))"
  by (cases agent) (simp_all add: node_agents_def either_agent_def unix_interface_def rest_interface_def
      agent_bank_def split_beta)

lemma Delivery_member:
  "(name, agent) \<in> set (agents m) \<Longrightarrow> (name, snd (ag_Deliver I st a agent)) \<in> set (agents (Delivery I st a m))"
  by (force simp: Delivery_def)

lemma Delivery_reaches:
  assumes "(name, agent) \<in> set (agents m)" and "GetBundleDescriptor (bd_ID (heap st ! a)) st = Inr a"
    and "map_of (mailboxes (agent_bank agent)) (md_Destination (metadata (heap st ! a))) = Some p"
    and "p < length (boxes (agent_bank agent))"
  shows "\<exists>agent'. (name, agent') \<in> set (agents (Delivery node_agents st a m)) \<and>
    map_of (boxes (agent_bank agent') ! p) (bd_ID (heap st ! a)) \<noteq> None"
proof -
  have "map_of (boxes (snd (bank_Deliver st a (agent_bank agent))) ! p) (bd_ID (heap st ! a)) \<noteq> None"
    using assms(4) by (auto simp: bank_Deliver_known[OF assms(2,3)] set_box_def map_of_mapset)
  then show ?thesis using Delivery_member[OF assms(1)] Deliver_bank by metis
qed

lemma reception_reaches:
  fixes m :: node_manager
  assumes "routing_algorithm E A" and "InsertBundle E d b st = (Inr a, st1)" and "map_of (bundles st) (b_ID b) = None"
    and "receiveAsync E A node_agents d b created m st = Inr (gos, m', st2)"
    and "(name, agent) \<in> set (agents m)"
    and "map_of (mailboxes (agent_bank agent)) (Destination (PrimaryBlock b)) = Some p"
    and "p < length (boxes (agent_bank agent))"
  shows "gos = [a] \<and> (\<exists>agent'. (name, agent') \<in> set (agents m') \<and>
    map_of (boxes (agent_bank agent') ! p) (b_ID b) \<noteq> None)"
proof -
  note new = InsertBundle_new[OF assms(2,3)]
  have st2: "(if created then NotifyNewBundle A else NotifyReceivedBundle A) a b st1 = Inr st2"
    and m': "m' = Delivery node_agents st1 a m"
    and gos: "gos = (if HasConstraint DispatchPending (heap st2 ! a) = Inr True then [a] else [])"
    using assms(4) by (auto simp: receiveAsync_def assms(2) andThen_eq_Inr Let_def)
  have "same_state st1 st2"
    using st2 routing_algorithm.new_same[OF assms(1)] routing_algorithm.received_same[OF assms(1)]
    by (cases created) auto
  then have "HasConstraint DispatchPending (heap st2 ! a) = Inr True"
    using new(4) by (auto simp: same_state_def HasConstraint_def split: if_splits)
  moreover have "\<exists>agent'. (name, agent') \<in> set (agents m') \<and>
      map_of (boxes (agent_bank agent') ! p) (b_ID b) \<noteq> None"
    using Delivery_reaches[OF assms(5), of st1 a p] new assms(6,7) by (simp add: m')
  ultimately show ?thesis using gos by simp
qed

section \<open>Properties\<close>

text \<open>
  Also shown: however agents are registered, unregistered and given bundles, the manager keeps every agent under its
  own name and no name twice, and a delivery does not change which endpoints are registered.
\<close>

theorem agent_manager_invariant:
  fixes ops :: "('kv bundle_store \<times> mgr_op) list"
  shows "let m = run_mgr ops InitialiseApplicationAgentManager; I = (node_agents :: ('kv, _) application_agent)
    in distinct (map fst (agents m)) \<and> (\<forall>(name, agent) \<in> set (agents m). name = ag_Name I agent) \<and>
      GetEndpoints I (Delivery I st a m) = GetEndpoints I m"
proof -
  have "agent_interface.manager_ok (node_agents :: ('kv, _) application_agent)
      (InitialiseApplicationAgentManager :: node_manager)"
    by (simp add: both.manager_ok_def InitialiseApplicationAgentManager_def)
  then have "agent_interface.manager_ok (node_agents :: ('kv, _) application_agent)
      (run_mgr ops InitialiseApplicationAgentManager)"
    by (rule run_mgr_ok)
  then show ?thesis by (auto simp: both.manager_ok_def Let_def both.Delivery_endpoints)
qed

theorem agent_manager_invariant_witness:
  "distinct (map fst (agents (run_mgr
     [(sample_store, MRegister (Inl (NewUNIXAgent ''a'')) None), (sample_store, MRegister (Inr (NewRestAgent ''a'')) None)]
     InitialiseApplicationAgentManager)))"
  using agent_manager_invariant[where ops = "[(sample_store, MRegister (Inl (NewUNIXAgent ''a'')) None),
    (sample_store, MRegister (Inr (NewRestAgent ''a'')) None)]"]
  by (simp add: Let_def)

text \<open>
  Claim C15: a new bundle that a node receives or creates ends up in the mailbox of its destination at every agent
  that has one, and its forwarding is started, under every routing algorithm that keeps its contract.
\<close>

theorem reception_delivers:
  fixes m :: node_manager
  assumes "routing_algorithm E A" and "InsertBundle E d b st = (Inr a, st1)" and "map_of (bundles st) (b_ID b) = None"
    and "receiveAsync E A node_agents d b created m st = Inr (gos, m', st2)"
    and "(name, agent) \<in> set (agents m)"
    and "map_of (mailboxes (agent_bank agent)) (Destination (PrimaryBlock b)) = Some p"
    and "p < length (boxes (agent_bank agent))"
  shows "gos = [a] \<and> (\<exists>agent'. (name, agent') \<in> set (agents m') \<and>
    map_of (boxes (agent_bank agent') ! p) (b_ID b) \<noteq> None)"
  by (rule reception_reaches[OF assms])

theorem reception_delivers_witness:
  "\<exists>gos m' st2. receiveAsync sample_env NewEpidemicRouting node_agents good_disk sample_bundle False
      \<lparr>agents = [(''r'', Inr sample_client)]\<rparr> empty_store = Inr (gos, m', st2) \<and> gos = [0] \<and>
    (\<exists>agent'. (''r'', agent') \<in> set (agents m') \<and>
      map_of (boxes (agent_bank agent') ! 0) (b_ID sample_bundle) \<noteq> None)"
proof -
  let ?m = "\<lparr>agents = [(''r'', Inr sample_client)]\<rparr> :: node_manager"
  have r: "receiveAsync sample_env NewEpidemicRouting node_agents good_disk sample_bundle False ?m empty_store =
      Inr ([0], Delivery node_agents sample_store 0 ?m, sample_store)"
    by (simp add: receiveAsync_def sample_insert(1) NewEpidemicRouting_def Let_def)
      (simp add: sample_insert HasConstraint_def NewBundleDescriptor_def)
  have "map_of (mailboxes (agent_bank (Inr sample_client))) (Destination (PrimaryBlock sample_bundle)) = Some 0"
    by (simp add: agent_bank_def sample_client_def sample_bundle_def sample_primary_def)
  from reception_delivers[OF epidemic.routing_algorithm_axioms sample_insert(1) _ r, of "''r''" "Inr sample_client" 0]
  show ?thesis using r
    by (auto simp: empty_store_def agent_bank_def sample_client_def sample_bundle_def sample_primary_def)
qed

end
