(* ===== verification/Mtcp.thy ===== *)
theory Mtcp
  imports Cla_Manager
begin

text \<open>
  \<^verbatim>\<open>pkg/cla/mtcp\<close>: the minimal TCP convergence layer. A client writes each bundle behind the head of
  a byte string, and empty byte strings to see whether the connection lives; a server reads bundles
  from each connection until something fails. A connection is a \<^verbatim>\<open>net.Conn\<close>: what was written, and
  the fault that it will meet after so many more bytes.
\<close>

section \<open>Connections\<close>

record tcp_conn =
  tc_sent :: bytes
  tc_fault :: "(nat \<times> err) option"

definition conn_Write :: "bytes \<Rightarrow> tcp_conn \<Rightarrow> err option \<times> tcp_conn" where
  "conn_Write bs c =
     (case tc_fault c of
        None \<Rightarrow> (None, c\<lparr>tc_sent := tc_sent c @ bs\<rparr>)
      | Some (n, e) \<Rightarrow>
          if length bs \<le> n
          then (None, c\<lparr>tc_sent := tc_sent c @ bs, tc_fault := Some (n - length bs, e)\<rparr>)
          else (Some e, c\<lparr>tc_sent := tc_sent c @ take n bs, tc_fault := Some (0, e)\<rparr>))"

text \<open>A connection that was closed takes nothing any more.\<close>

definition conn_Close :: "tcp_conn \<Rightarrow> tcp_conn" where
  "conn_Close c = c\<lparr>tc_fault := Some (0, LibErr ''use of closed network connection'')\<rparr>"

section \<open>The client\<close>

text \<open>
  \<open>mt_stopSyn\<close> is the channel that stops the handler, nil before the activation: whether it was closed.
  \<open>mt_handler\<close> says whether the handler's goroutine runs.
\<close>

record mtcp_client =
  mt_peer :: endpoint_id
  mt_address :: string
  mt_conn :: "tcp_conn option"
  mt_stopSyn :: "bool option"
  mt_handler :: bool
  mt_stopped :: bool

definition NewMTCPClient :: "string \<Rightarrow> endpoint_id \<Rightarrow> mtcp_client" where
  "NewMTCPClient address peer =
     \<lparr>mt_peer = peer, mt_address = address, mt_conn = None, mt_stopSyn = None, mt_handler = False,
      mt_stopped = False\<rparr>"

definition NewAnonymousMTCPClient :: "string \<Rightarrow> mtcp_client" where
  "NewAnonymousMTCPClient address = NewMTCPClient address DtnNone"

text \<open>What the manager sees of a client.\<close>

definition mtcp_conv :: "mtcp_client \<Rightarrow> convergence" where
  "mtcp_conv c = \<lparr>cla_Address = mt_address c, cla_receives = False, cla_sends = True, cla_peer = mt_peer c\<rparr>"

text \<open>
  \<open>dialled\<close> is the outcome of dialling. The handler that is started introduces the peer to the
  manager.
\<close>

definition mtcp_Activate ::
  "tcp_conn res \<Rightarrow> mtcp_client \<Rightarrow> cla_manager \<Rightarrow> err option \<times> mtcp_client \<times> cla_manager" where
  "mtcp_Activate dialled c m =
     (case dialled of
        Inl e \<Rightarrow> (Some e, c, m)
      | Inr conn \<Rightarrow>
          (None, c\<lparr>mt_conn := Some conn, mt_stopSyn := Some False, mt_handler := True\<rparr>,
           NotifyConnect (mt_peer c) m))"

text \<open>
  The first \<^verbatim>\<open>Close\<close> tells the manager and closes the channel that stops the handler. The channel of a client
  that was never activated is nil, and closing it panics, as closing it twice would.
\<close>

definition mtcp_Close :: "mtcp_client \<Rightarrow> cla_manager \<Rightarrow> err option \<times> mtcp_client \<times> cla_manager" where
  "mtcp_Close c m =
     (if mt_stopped c then (None, c, m)
      else let c' = c\<lparr>mt_stopped := True\<rparr>; m = NotifyDisconnect (mtcp_conv c) m
           in (case mt_stopSyn c of
                 None \<Rightarrow> (Some (Panic ''close of nil channel''), c', m)
               | Some True \<Rightarrow> (Some (Panic ''close of closed channel''), c', m)
               | Some False \<Rightarrow> (None, c'\<lparr>mt_stopSyn := Some True\<rparr>, m)))"

text \<open>
  The rounds of the handler. On a tick it writes a keepalive, and ends the client if it cannot; only a panic
  of \<^verbatim>\<open>Close\<close> would come out of it. When the channel is closed, it closes the connection and is done; a tick may
  come first.
\<close>

definition mtcp_tick :: "lib \<Rightarrow> mtcp_client \<Rightarrow> cla_manager \<Rightarrow> err option \<times> mtcp_client \<times> cla_manager" where
  "mtcp_tick L c m =
     (case mt_conn c of
        None \<Rightarrow> (None, c, m)
      | Some conn \<Rightarrow>
          if \<not> mt_handler c then (None, c, m)
          else (case conn_Write (WriteByteStringLen L 0) conn of
             (None, conn) \<Rightarrow> (None, c\<lparr>mt_conn := Some conn\<rparr>, m)
           | (Some e, conn) \<Rightarrow> mtcp_Close (c\<lparr>mt_conn := Some conn\<rparr>) m))"

definition mtcp_handler_stop :: "mtcp_client \<Rightarrow> mtcp_client" where
  "mtcp_handler_stop c =
     (if mt_handler c \<and> mt_stopSyn c = Some True
      then c\<lparr>mt_handler := False, mt_conn := map_option conn_Close (mt_conn c)\<rparr> else c)"

text \<open>
  \<^verbatim>\<open>Send\<close>. An error closes the client; a panic, that of a serialisation or of writing to a client
  without a connection, becomes an error and leaves the client open. The buffered writer passes on
  the head and the bundle, the probe goes to the connection at once.
\<close>

definition mtcp_Send ::
  "lib \<Rightarrow> dtn_bundle \<Rightarrow> mtcp_client \<Rightarrow> cla_manager \<Rightarrow> err option \<times> mtcp_client \<times> cla_manager" where
  "mtcp_Send L b c m =
     (let recovered = (\<lambda>p. Errorf (''MTCPClient.Send: '' @ p));
          fail = (\<lambda>e c. case mtcp_Close c m of
                    (Some (Panic p), c, m) \<Rightarrow> (Some (recovered p), c, m)
                  | (_, c, m) \<Rightarrow> (Some e, c, m))
      in case b_MarshalCbor L b of
           Inl (Panic p) \<Rightarrow> (Some (recovered p), c, m)
         | Inl e \<Rightarrow> fail e c
         | Inr (buff, _) \<Rightarrow>
             (case mt_conn c of
                None \<Rightarrow> (Some (recovered ''nil pointer dereference''), c, m)
              | Some conn \<Rightarrow>
                  (case conn_Write (WriteByteStringLen L (word_of_nat (length buff)) @ buff) conn of
                     (Some e, conn) \<Rightarrow> fail e (c\<lparr>mt_conn := Some conn\<rparr>)
                   | (None, conn) \<Rightarrow>
                       (case conn_Write (WriteByteStringLen L 0) conn of
                          (Some e, conn) \<Rightarrow> fail e (c\<lparr>mt_conn := Some conn\<rparr>)
                        | (None, conn) \<Rightarrow> (None, c\<lparr>mt_conn := Some conn\<rparr>, m)))))"

section \<open>The server\<close>

record mtcp_server =
  mtcp_listenAddress :: string
  mtcp_endpointID :: endpoint_id
  mtcp_running :: bool
  mtcp_closed :: bool

definition NewMTCPServer :: "string \<Rightarrow> endpoint_id \<Rightarrow> mtcp_server" where
  "NewMTCPServer address eid =
     \<lparr>mtcp_listenAddress = address, mtcp_endpointID = eid, mtcp_running = False, mtcp_closed = False\<rparr>"

text \<open>\<open>listening\<close> is the outcome of resolving the address and of listening on it.\<close>

definition mtcp_Start :: "err option \<Rightarrow> mtcp_server \<Rightarrow> err option \<times> mtcp_server" where
  "mtcp_Start listening s =
     (case listening of Some e \<Rightarrow> (Some e, s) | None \<Rightarrow> (None, s\<lparr>mtcp_running := True\<rparr>))"

text \<open>
  \<^verbatim>\<open>Close\<close> waits until the accepting loop has seen it. Closing twice panics; a server that was not
  started has no loop, and the call never returns: \<open>None\<close>.
\<close>

definition mtcp_server_Close :: "mtcp_server \<Rightarrow> mtcp_server res option" where
  "mtcp_server_Close s =
     (if mtcp_closed s then Some (Inl (Panic ''close of closed channel''))
      else if \<not> mtcp_running s then None
      else Some (Inr (s\<lparr>mtcp_running := False, mtcp_closed := True\<rparr>)))"

definition mtcp_server_Address :: "mtcp_server \<Rightarrow> string" where
  "mtcp_server_Address s = ''mtcp://'' @ mtcp_listenAddress s"

text \<open>
  The bundles that \<^verbatim>\<open>handleSender\<close> hands to the callback, from the bytes of a connection; \<open>clock k\<close>
  is the time at which the \<open>k\<close>-th of them is checked. A read that fails, an error or a panic ends the
  connection. Where a reader stands when it has met a break code is the library's: \<open>after\<close> is what
  is left of the stream from which the broken block was tried.
\<close>

partial_function (option) handleSender ::
  "lib \<Rightarrow> ebm \<Rightarrow> (bytes \<Rightarrow> bytes) \<Rightarrow> (nat \<Rightarrow> time) \<Rightarrow> nat \<Rightarrow> bytes \<Rightarrow> dtn_bundle list option" where
  "handleSender L M after clock k conn =
     (case ReadByteStringLen L conn of
        Inl e \<Rightarrow> Some []
      | Inr (n, r) \<Rightarrow>
          if n = 0 then handleSender L M after clock k r
          else (case b_UnmarshalCbor L M (clock k) r of
                  None \<Rightarrow> None
                | Some (Inl e) \<Rightarrow> Some []
                | Some (Inr (bndl, errs, r)) \<Rightarrow>
                    if errs \<noteq> [] then Some []
                    else Option.bind (handleSender L M after clock (Suc k) (after r)) (\<lambda>bs. Some (bndl # bs))))"

declare handleSender.simps [code]

definition leaves_after_break :: "lib \<Rightarrow> (bytes \<Rightarrow> bytes) \<Rightarrow> bool" where
  "leaves_after_break L after \<longleftrightarrow>
     (\<forall>r. after (BreakCode L # r) = r) \<and> (\<forall>i. length (after i) \<le> length i)"

section \<open>Runs of a client\<close>

text \<open>
  What happens to a client: bundles are sent, the handler ticks or sees that it is to stop, the client is closed,
  in any order. A step has the error, or the panic, of its operation.
\<close>

datatype mtcp_op = MtcpSend dtn_bundle | MtcpTick | MtcpClose | MtcpStop

fun mtcp_step ::
  "lib \<Rightarrow> mtcp_op \<Rightarrow> mtcp_client \<Rightarrow> cla_manager \<Rightarrow> err option \<times> mtcp_client \<times> cla_manager" where
  "mtcp_step L (MtcpSend b) c m = mtcp_Send L b c m"
| "mtcp_step L MtcpTick c m = mtcp_tick L c m"
| "mtcp_step L MtcpClose c m = mtcp_Close c m"
| "mtcp_step L MtcpStop c m = (None, mtcp_handler_stop c, m)"

fun run_mtcp :: "lib \<Rightarrow> mtcp_op list \<Rightarrow> mtcp_client \<Rightarrow> cla_manager \<Rightarrow> mtcp_client \<times> cla_manager" where
  "run_mtcp L [] c m = (c, m)"
| "run_mtcp L (op # ops) c m = (case mtcp_step L op c m of (_, c, m) \<Rightarrow> run_mtcp L ops c m)"

fun mtcp_results :: "lib \<Rightarrow> mtcp_op list \<Rightarrow> mtcp_client \<Rightarrow> cla_manager \<Rightarrow> err option list" where
  "mtcp_results L [] c m = []"
| "mtcp_results L (op # ops) c m = (case mtcp_step L op c m of (e, c, m) \<Rightarrow> e # mtcp_results L ops c m)"

text \<open>
  The bundles offered in a run, as they come out of their serialisation, and those of them whose \<^verbatim>\<open>Send\<close> reported
  no error.
\<close>

definition offered :: "lib \<Rightarrow> mtcp_op \<Rightarrow> dtn_bundle list" where
  "offered L op =
     (case op of
        MtcpSend b \<Rightarrow> (case b_MarshalCbor L b of Inl e \<Rightarrow> [] | Inr (_, b') \<Rightarrow> [b'])
      | _ \<Rightarrow> [])"

definition sent_bundles :: "lib \<Rightarrow> mtcp_op list \<Rightarrow> mtcp_client \<Rightarrow> cla_manager \<Rightarrow> dtn_bundle list" where
  "sent_bundles L ops c m =
     concat (map (\<lambda>(op, e). if e = None then offered L op else []) (zip ops (mtcp_results L ops c m)))"

lemma sent_bundles_simps [simp]:
  "sent_bundles L [] c m = []"
  "mtcp_step L op c m = (e, c', m') \<Longrightarrow>
    sent_bundles L (op # ops) c m = (if e = None then offered L op else []) @ sent_bundles L ops c' m'"
  by (simp_all add: sent_bundles_def)

text \<open>A bundle that arrives: it can be read back, and is valid whenever it is checked.\<close>

definition arrives :: "lib \<Rightarrow> ebm \<Rightarrow> (nat \<Rightarrow> time) \<Rightarrow> mtcp_op \<Rightarrow> bool" where
  "arrives L M clock op \<longleftrightarrow>
     (case op of
        MtcpSend b \<Rightarrow> wf_bundle M b \<and> (\<forall>k. b_CheckValid (clock k) b = Inr []) \<and>
          (\<exists>bs b'. b_MarshalCbor L b = Inr (bs, b') \<and> length bs < 2 ^ 64)
      | _ \<Rightarrow> True)"

section \<open>What a connection carries\<close>

lemma conn_Write_ok: "tc_fault c = None \<Longrightarrow> conn_Write bs c = (None, c\<lparr>tc_sent := tc_sent c @ bs\<rparr>)"
  by (simp add: conn_Write_def)

lemma conn_Write_closed: "tc_fault c = Some (0, e) \<Longrightarrow> bs \<noteq> [] \<Longrightarrow> conn_Write bs c = (Some e, c)"
  by (simp add: conn_Write_def)

lemma mtcp_Close_conn: "mtcp_Close c m = (e, c', m') \<Longrightarrow> mt_conn c' = mt_conn c"
  by (auto simp: mtcp_Close_def Let_def split: if_splits option.splits bool.splits)

text \<open>A connection without faults, or one that was closed.\<close>

definition sound_conn :: "tcp_conn \<Rightarrow> bool" where
  "sound_conn c \<longleftrightarrow> tc_fault c = None \<or> (\<exists>e. tc_fault c = Some (0, e))"

context cboring
begin

lemma handleSender_end [simp]: "handleSender L M after clock k [] = Some []"
proof -
  have "\<exists>e. ReadByteStringLen L [] = Inl e"
    using takes_frontD [OF byte_len_front, of "[]"]
    by (cases "ReadByteStringLen L []") (auto simp: strict_suffix_def)
  then show ?thesis by (subst handleSender.simps) auto
qed

lemma byte_len_nonempty [simp]: "WriteByteStringLen L n \<noteq> []"
proof
  assume "WriteByteStringLen L n = []"
  then show False
    using byte_len_rw [of n "[]"] takes_frontD [OF byte_len_front, of "[]"] by (auto simp: strict_suffix_def)
qed

lemma handleSender_keepalive [simp]:
  "handleSender L M after clock k (WriteByteStringLen L 0 @ r) = handleSender L M after clock k r"
  by (subst handleSender.simps) (simp add: byte_len_rw)

lemma handleSender_bundle:
  assumes "leaves_after_break L after" and "wf_bundle M b" and m: "b_MarshalCbor L b = Inr (bs, b')"
    and len: "length bs < 2 ^ 64" and "b_CheckValid (clock k) b = Inr errs"
  shows "handleSender L M after clock k (WriteByteStringLen L (word_of_nat (length bs)) @ bs @ r) =
    (if errs = [] then Option.bind (handleSender L M after clock (Suc k) r) (\<lambda>bndls. Some (b' # bndls))
     else Some [])"
proof -
  have "bs \<noteq> []" using m by (auto simp: b_MarshalCbor_def andThen_eq_Inr)
  then have "(word_of_nat (length bs) :: u64) \<noteq> 0"
    using unat_word_small [OF len] by (metis length_0_conv unat_0)
  then show ?thesis
    using b_Unmarshal_rw [OF assms(2) m len, of "clock k" r] assms(1,5)
    by (subst handleSender.simps) (simp add: byte_len_rw leaves_after_break_def)
qed

text \<open>
  What a step writes on a connection without faults of its own, and what the server makes of it, whatever
  follows: \<open>piece\<close> carries \<open>bndls\<close>.
\<close>

definition carries :: "ebm \<Rightarrow> (bytes \<Rightarrow> bytes) \<Rightarrow> (nat \<Rightarrow> time) \<Rightarrow> bytes \<Rightarrow> dtn_bundle list \<Rightarrow> bool" where
  "carries M after clock piece bndls \<longleftrightarrow>
     (\<forall>k r. handleSender L M after clock k (piece @ r) =
       Option.bind (handleSender L M after clock (k + length bndls) r) (\<lambda>bs. Some (bndls @ bs)))"

lemma carries_Nil: "carries M after clock [] []"
  by (simp add: carries_def)

lemma carries_keepalive: "carries M after clock (WriteByteStringLen L 0) []"
  by (simp add: carries_def)

lemma carries_append:
  "carries M after clock p xs \<Longrightarrow> carries M after clock q ys \<Longrightarrow> carries M after clock (p @ q) (xs @ ys)"
  unfolding carries_def by (simp add: add.assoc split: bind_split)

lemma carries_bundle:
  assumes "leaves_after_break L after" and "wf_bundle M b" and "b_MarshalCbor L b = Inr (bs, b')"
    and "length bs < 2 ^ 64" and "\<forall>k. b_CheckValid (clock k) b = Inr []"
  shows "carries M after clock (WriteByteStringLen L (word_of_nat (length bs)) @ bs) [b']"
  using handleSender_bundle [OF assms(1-4), where clock = clock] assms(5) by (simp add: carries_def)

lemma mtcp_step_stream:
  assumes "leaves_after_break L after" and "arrives L M clock op"
    and c: "mt_conn c = Some conn" "sound_conn conn" and s: "mtcp_step L op c m = (e, c', m')"
  shows "\<exists>conn' piece. mt_conn c' = Some conn' \<and> sound_conn conn' \<and> tc_sent conn' = tc_sent conn @ piece \<and>
    carries M after clock piece (if e = None then offered L op else [])"
proof (cases op)
  case (MtcpSend b)
  then obtain bs b' where b: "b_MarshalCbor L b = Inr (bs, b')" "length bs < 2 ^ 64" "wf_bundle M b"
      "\<forall>k. b_CheckValid (clock k) b = Inr []"
    using assms(2) by (auto simp: arrives_def)
  let ?msg = "WriteByteStringLen L (word_of_nat (length bs)) @ bs"
  show ?thesis
  proof (cases "tc_fault conn")
    case None
    let ?conn = "conn\<lparr>tc_sent := (tc_sent conn @ ?msg) @ WriteByteStringLen L 0\<rparr>"
    have "mtcp_Send L b c m = (None, c\<lparr>mt_conn := Some ?conn\<rparr>, m)"
      using c(1) None by (simp add: mtcp_Send_def b(1) conn_Write_ok)
    then have r: "e = None" "mt_conn c' = Some ?conn" using s MtcpSend by auto
    have "carries M after clock (?msg @ WriteByteStringLen L 0) ([b'] @ [])"
      by (intro carries_append carries_keepalive carries_bundle [OF assms(1) b(3,1,2,4)])
    then show ?thesis
      using r None by (intro exI [of _ ?conn] exI [of _ "?msg @ WriteByteStringLen L 0"])
        (simp add: sound_conn_def offered_def MtcpSend b(1))
  next
    case (Some f)
    then obtain e0 where "tc_fault conn = Some (0, e0)" using c(2) by (auto simp: sound_conn_def)
    then have w: "conn_Write (WriteByteStringLen L n @ bs) conn = (Some e0, conn)" for n bs
      by (simp add: conn_Write_closed)
    have "e \<noteq> None \<and> mt_conn c' = Some conn"
      using s c(1) unfolding MtcpSend mtcp_step.simps mtcp_Send_def Let_def b(1) sum.case prod.case option.case w
      by (auto simp: w split: prod.splits option.splits err.splits dest!: mtcp_Close_conn)
    then show ?thesis using c(2) carries_Nil by (intro exI [of _ conn] exI [of _ "[]"]) auto
  qed
next
  case MtcpTick
  show ?thesis
  proof (cases "mt_handler c \<and> tc_fault conn = None")
    case True
    let ?conn = "conn\<lparr>tc_sent := tc_sent conn @ WriteByteStringLen L 0\<rparr>"
    have "mt_conn c' = Some ?conn"
      using s c(1) True by (auto simp: MtcpTick mtcp_tick_def conn_Write_ok)
    then show ?thesis
      using True carries_keepalive by (intro exI [of _ ?conn] exI [of _ "WriteByteStringLen L 0"])
        (simp add: sound_conn_def offered_def MtcpTick)
  next
    case False
    have w: "conn_Write (WriteByteStringLen L 0) conn = (Some e0, conn)" if "tc_fault conn = Some (0, e0)" for e0
      using that by (simp add: conn_Write_closed)
    have "mt_conn c' = Some conn"
      using s c False by (auto simp: MtcpTick mtcp_tick_def sound_conn_def w split: if_splits dest!: mtcp_Close_conn)
    then show ?thesis
      using c(2) carries_Nil by (intro exI [of _ conn] exI [of _ "[]"]) (simp add: offered_def MtcpTick)
  qed
next
  case MtcpClose
  then have "mt_conn c' = Some conn" using s c(1) by (auto dest: mtcp_Close_conn)
  then show ?thesis
    using c(2) carries_Nil by (intro exI [of _ conn] exI [of _ "[]"]) (simp add: offered_def MtcpClose)
next
  case MtcpStop
  have "\<exists>conn'. mt_conn c' = Some conn' \<and> sound_conn conn' \<and> tc_sent conn' = tc_sent conn"
    using s c by (auto simp: MtcpStop mtcp_handler_stop_def sound_conn_def conn_Close_def split: if_splits)
  then show ?thesis using carries_Nil by (auto simp: offered_def MtcpStop)
qed

lemma run_mtcp_stream:
  assumes "leaves_after_break L after" and "\<forall>op \<in> set ops. arrives L M clock op"
    and "mt_conn c = Some conn" and "sound_conn conn"
  shows "\<exists>c' m' conn' stream. run_mtcp L ops c m = (c', m') \<and> mt_conn c' = Some conn' \<and>
    tc_sent conn' = tc_sent conn @ stream \<and> carries M after clock stream (sent_bundles L ops c m)"
  using assms(2-)
proof (induction ops arbitrary: c conn m)
  case Nil
  then show ?case using carries_Nil by simp
next
  case (Cons op ops)
  obtain e c1 m1 where s: "mtcp_step L op c m = (e, c1, m1)" by (metis prod_cases3)
  obtain conn1 piece where 1: "mt_conn c1 = Some conn1" "sound_conn conn1" "tc_sent conn1 = tc_sent conn @ piece"
    "carries M after clock piece (if e = None then offered L op else [])"
    using mtcp_step_stream [OF assms(1) _ Cons.prems(2,3) s, of M clock] Cons.prems(1) by auto
  obtain c' m' conn' stream where 2: "run_mtcp L ops c1 m1 = (c', m')" "mt_conn c' = Some conn'"
    "tc_sent conn' = tc_sent conn1 @ stream" "carries M after clock stream (sent_bundles L ops c1 m1)"
    using Cons.IH [OF _ 1(1,2), of m1] Cons.prems(1) by auto
  show ?case
    using 2(1,2,3) 1(3) carries_append [OF 1(4) 2(4)]
    by (intro exI [of _ c'] exI [of _ m'] exI [of _ conn'] exI [of _ "piece @ stream"]) (simp add: s)
qed

lemma handleSender_returns:
  assumes "leaves_after_break L after"
  shows "\<exists>bs. handleSender L M after clock k i = Some bs"
proof (induction "length i" arbitrary: i k rule: less_induct)
  case less
  show ?case
  proof (cases "ReadByteStringLen L i")
    case (Inl e)
    then show ?thesis by (subst handleSender.simps) simp
  next
    case (Inr x)
    obtain n r where x: "x = (n, r)" by (cases x)
    have shorter: "length r < length i"
      using Inr x takes_frontD [OF byte_len_front] strict_suffix_length by blast
    obtain res where u: "b_UnmarshalCbor L M (clock k) r = Some res"
      using b_Unmarshal_returns by blast
    have "\<exists>bs. handleSender L M after clock (Suc k) (after r') = Some bs"
      if "res = Inr (b, errs, r')" for b errs r'
    proof (rule less)
      have "length (after r') \<le> length r'" using assms by (simp add: leaves_after_break_def)
      also have "\<dots> \<le> length r" using b_Unmarshal_suffix u that by blast
      finally show "length (after r') < length i" using shorter by simp
    qed
    then show ?thesis
      using less [OF shorter] by (subst handleSender.simps) (auto simp: Inr x u split: sum.split)
  qed
qed

end

text \<open>A client that is not closed sends everything, and the manager learns nothing.\<close>

lemma run_mtcp_open:
  assumes "\<forall>op \<in> set ops. arrives L M clock op" and "MtcpClose \<notin> set ops"
    and "mt_conn c = Some conn" and "tc_fault conn = None" and "mt_stopSyn c = Some False"
  shows "snd (run_mtcp L ops c m) = m \<and> sent_bundles L ops c m = concat (map (offered L) ops)"
  using assms
proof (induction ops arbitrary: c conn)
  case (Cons op ops)
  have "\<exists>c1 conn1. mtcp_step L op c m = (None, c1, m) \<and> mt_conn c1 = Some conn1 \<and> tc_fault conn1 = None \<and>
      mt_stopSyn c1 = Some False"
    using Cons.prems
    by (cases op) (auto simp: arrives_def mtcp_Send_def mtcp_tick_def mtcp_handler_stop_def conn_Write_ok)
  then obtain c1 conn1 where s: "mtcp_step L op c m = (None, c1, m)" "mt_conn c1 = Some conn1"
    "tc_fault conn1 = None" "mt_stopSyn c1 = Some False" by blast
  then show ?case using Cons.IH [OF _ _ s(2,3,4)] Cons.prems(1,2) by simp
qed simp

section \<open>Closing\<close>

lemma mtcp_Close_frame:
  "mtcp_Close c m = (e, c', m') \<Longrightarrow>
    mtcp_conv c' = mtcp_conv c \<and> mt_stopped c' \<and>
    m' = (if mt_stopped c then m else NotifyDisconnect (mtcp_conv c) m)"
  by (auto simp: mtcp_Close_def mtcp_conv_def Let_def split: if_splits option.splits bool.splits)

text \<open>The channel of an activated client is closed exactly when the client is stopped.\<close>

definition channel_ok :: "mtcp_client \<Rightarrow> bool" where
  "channel_ok c \<longleftrightarrow> mt_stopSyn c = Some (mt_stopped c)"

lemma channel_ok_conn [simp]: "channel_ok (c\<lparr>mt_conn := x\<rparr>) = channel_ok c"
  by (simp add: channel_ok_def)

lemma mtcp_Close_ok: "channel_ok c \<Longrightarrow> mtcp_Close c m = (e, c', m') \<Longrightarrow> e = None \<and> channel_ok c' \<and> mt_stopped c'"
  by (auto simp: channel_ok_def mtcp_Close_def Let_def split: if_splits)

text \<open>What an operation does to the manager: nothing, or what the first \<^verbatim>\<open>Close\<close> does.\<close>

definition closes_once :: "mtcp_client \<Rightarrow> cla_manager \<Rightarrow> mtcp_client \<Rightarrow> cla_manager \<Rightarrow> bool" where
  "closes_once c m c' m' \<longleftrightarrow>
     mtcp_conv c' = mtcp_conv c \<and>
     (if mt_stopped c then mt_stopped c' \<and> m' = m
      else if mt_stopped c' then m' = NotifyDisconnect (mtcp_conv c) m else m' = m)"

lemma closes_once_refl [simp]: "closes_once c m c m"
  by (simp add: closes_once_def)

lemma closes_once_trans: "closes_once c m c' m' \<Longrightarrow> closes_once c' m' c'' m'' \<Longrightarrow> closes_once c m c'' m''"
  by (auto simp: closes_once_def split: if_splits)

lemma closes_once_conn [simp]: "closes_once c m (c\<lparr>mt_conn := x\<rparr>) m"
  "closes_once (c\<lparr>mt_conn := x\<rparr>) m c' m' = closes_once c m c' m'"
  by (simp_all add: closes_once_def mtcp_conv_def)

lemma mtcp_Close_once: "mtcp_Close c m = (e, c', m') \<Longrightarrow> closes_once c m c' m'"
  by (auto simp: closes_once_def dest: mtcp_Close_frame)

lemma mtcp_step_once: "mtcp_step L op c m = (e, c', m') \<Longrightarrow> closes_once c m c' m'"
proof (cases op)
  case (MtcpSend b)
  moreover assume "mtcp_step L op c m = (e, c', m')"
  ultimately show ?thesis
    by (auto simp: mtcp_Send_def Let_def split: sum.splits option.splits prod.splits err.splits
        dest!: mtcp_Close_once)
next
  case MtcpTick
  moreover assume "mtcp_step L op c m = (e, c', m')"
  ultimately show ?thesis
    by (auto simp: mtcp_tick_def split: option.splits prod.splits if_splits dest!: mtcp_Close_once)
next
  case MtcpStop
  moreover assume "mtcp_step L op c m = (e, c', m')"
  ultimately show ?thesis
    by (auto simp: mtcp_handler_stop_def closes_once_def mtcp_conv_def split: if_splits)
qed (simp add: mtcp_Close_once)

lemma run_mtcp_once: "run_mtcp L ops c m = (c', m') \<Longrightarrow> closes_once c m c' m'"
proof (induction L ops c m rule: run_mtcp.induct)
  case (2 L op ops c m)
  then show ?case by (auto split: prod.splits dest!: mtcp_step_once intro: closes_once_trans)
qed simp

text \<open>An operation on an activated client keeps its channel; only a \<^verbatim>\<open>Send\<close> has errors.\<close>

lemma mtcp_step_channel:
  assumes "channel_ok c" and "mtcp_step L op c m = (e, c', m')"
  shows "channel_ok c' \<and> ((\<exists>b. op = MtcpSend b) \<or> e = None) \<and> (op = MtcpClose \<longrightarrow> mt_stopped c')"
proof (cases op)
  case (MtcpSend b)
  then show ?thesis using assms
    by (auto simp: mtcp_Send_def Let_def split: sum.splits option.splits prod.splits err.splits
        dest!: mtcp_Close_ok[rotated])
next
  case MtcpTick
  then show ?thesis using assms
    by (auto simp: mtcp_tick_def split: option.splits prod.splits if_splits dest!: mtcp_Close_ok[rotated])
next
  case MtcpClose
  then show ?thesis using assms mtcp_Close_ok by auto
next
  case MtcpStop
  then show ?thesis using assms by (auto simp: mtcp_handler_stop_def channel_ok_def)
qed

lemma run_mtcp_channel:
  assumes "channel_ok c" and "run_mtcp L ops c m = (c', m')"
  shows "channel_ok c' \<and> list_all2 (\<lambda>op e. (\<exists>b. op = MtcpSend b) \<or> e = None) ops (mtcp_results L ops c m) \<and>
    (MtcpClose \<in> set ops \<or> mt_stopped c \<longrightarrow> mt_stopped c')"
  using assms
proof (induction L ops c m rule: run_mtcp.induct)
  case (2 L op ops c m)
  obtain e c1 m1 where s: "mtcp_step L op c m = (e, c1, m1)" by (metis prod_cases3)
  have 1: "channel_ok c1" "(\<exists>b. op = MtcpSend b) \<or> e = None" "op = MtcpClose \<longrightarrow> mt_stopped c1"
    using mtcp_step_channel[OF 2(2) s] by blast+
  have "mt_stopped c \<longrightarrow> mt_stopped c1" using mtcp_step_once[OF s] by (auto simp: closes_once_def)
  moreover have "run_mtcp L ops c1 m1 = (c', m')" using 2(3) s by simp
  ultimately show ?case using 2(1)[OF s[symmetric] refl 1(1)] 1(2,3) s by auto
qed simp

lemma activated:
  assumes "mtcp_Activate (Inr conn) client m = (None, c, m1)"
  shows "mt_conn c = Some conn" "mt_stopSyn c = Some False" "mt_stopped c = mt_stopped client"
    "mtcp_conv c = mtcp_conv client"
  using assms by (auto simp: mtcp_Activate_def mtcp_conv_def)

lemma mtcp_received:
  assumes "cboring L" and "leaves_after_break L after"
    and "\<forall>op \<in> set ops. arrives L M clock op"
    and "mtcp_Activate (Inr \<lparr>tc_sent = [], tc_fault = None\<rparr>) client m = (None, c, m1)"
  shows "\<exists>c' m' conn. run_mtcp L ops c m1 = (c', m') \<and> mt_conn c' = Some conn \<and>
    handleSender L M after clock 0 (tc_sent conn) = Some (sent_bundles L ops c m1) \<and>
    (MtcpClose \<notin> set ops \<longrightarrow> m' = m1 \<and> sent_bundles L ops c m1 = concat (map (offered L) ops))"
proof -
  let ?conn = "\<lparr>tc_sent = [], tc_fault = None\<rparr>"
  note act = activated [OF assms(4)]
  have "sound_conn ?conn" by (simp add: sound_conn_def)
  from cboring.run_mtcp_stream [OF assms(1-3) act(1) this, of m1] obtain c' m' conn where
    run: "run_mtcp L ops c m1 = (c', m')" "mt_conn c' = Some conn"
    and received: "cboring.carries L M after clock (tc_sent conn) (sent_bundles L ops c m1)" by auto
  have "handleSender L M after clock 0 (tc_sent conn @ []) = Some (sent_bundles L ops c m1)"
    using received unfolding cboring.carries_def [OF assms(1)]
    by (simp only: cboring.handleSender_end [OF assms(1)]) simp
  moreover have "m' = m1 \<and> sent_bundles L ops c m1 = concat (map (offered L) ops)" if "MtcpClose \<notin> set ops"
    using run_mtcp_open [OF assms(3) that act(1) _ act(2), of m1] run(1) by simp
  ultimately show ?thesis using run by auto
qed

section \<open>Properties\<close>

text \<open>
  Claim C20: over a connection that does not fail by itself, whatever is done with a client, sends, keepalives, closes and
  the stop of its handler in any order, the server reads back exactly the bundles whose \<^verbatim>\<open>Send\<close> reported no error:
  the same bundles in the same order, none twice and none left out, if each is valid when it is
  checked on arrival. A client that is not closed sends all of them, and the manager is not told anything.
\<close>

theorem mtcp_in_order:
  assumes "cboring L" and "leaves_after_break L after"
    and "\<forall>op \<in> set ops. arrives L M clock op"
    and "mtcp_Activate (Inr \<lparr>tc_sent = [], tc_fault = None\<rparr>) client m = (None, c, m1)"
  shows "\<exists>c' m' conn. run_mtcp L ops c m1 = (c', m') \<and> mt_conn c' = Some conn \<and>
    handleSender L M after clock 0 (tc_sent conn) = Some (sent_bundles L ops c m1) \<and>
    (MtcpClose \<notin> set ops \<longrightarrow> m' = m1 \<and> sent_bundles L ops c m1 = concat (map (offered L) ops))"
  using mtcp_received [OF assms] .

text \<open>A library that leaves what follows the first break code it finds.\<close>

definition sample_after :: "bytes \<Rightarrow> bytes" where
  "sample_after i = tl (dropWhile (\<lambda>b. b \<noteq> 255) i)"

lemma sample_after_break: "leaves_after_break rfc_lib sample_after"
  using length_dropWhile_le by (auto simp: leaves_after_break_def sample_after_def rfc_simps intro: order.trans [OF diff_le_self])

definition sample_mtcp :: mtcp_client where
  "sample_mtcp = (NewAnonymousMTCPClient ''b:4556'')\<lparr>mt_conn := Some \<lparr>tc_sent = [], tc_fault = None\<rparr>,
     mt_stopSyn := Some False, mt_handler := True\<rparr>"

lemma sample_mtcp_run:
  "sent_bundles rfc_lib [MtcpSend sample_bundle, MtcpClose, MtcpStop, MtcpSend sample_bundle] sample_mtcp m =
    [sample_bundle]"
  by (simp add: sent_bundles_def offered_def sample_mtcp_def NewAnonymousMTCPClient_def NewMTCPClient_def
      mtcp_Send_def mtcp_Close_def mtcp_handler_stop_def conn_Write_def conn_Close_def sample_bundle_bytes
      rfc_simps rfc_head_def Let_def)

theorem mtcp_in_order_witness:
  "\<exists>c' m' conn. run_mtcp rfc_lib [MtcpSend sample_bundle, MtcpClose, MtcpStop, MtcpSend sample_bundle]
      sample_mtcp (NotifyConnect DtnNone sample_manager) = (c', m') \<and> mt_conn c' = Some conn \<and>
    handleSender rfc_lib GetExtensionBlockManager sample_after (\<lambda>_. 0) 0 (tc_sent conn) = Some [sample_bundle]"
proof -
  let ?ops = "[MtcpSend sample_bundle, MtcpClose, MtcpStop, MtcpSend sample_bundle]"
  have arr: "\<forall>op \<in> set ?ops. arrives rfc_lib GetExtensionBlockManager (\<lambda>_. 0) op"
    by (simp add: arrives_def sample_bundle_wf sample_bundle_valid sample_bundle_bytes)
  have act: "mtcp_Activate (Inr \<lparr>tc_sent = [], tc_fault = None\<rparr>) (NewAnonymousMTCPClient ''b:4556'') sample_manager =
      (None, sample_mtcp, NotifyConnect DtnNone sample_manager)"
    by (simp add: mtcp_Activate_def sample_mtcp_def NewAnonymousMTCPClient_def NewMTCPClient_def)
  show ?thesis
    using mtcp_in_order [OF cboring_rfc sample_after_break arr act] unfolding sample_mtcp_run by blast
qed

text \<open>
  Also shown: the server is done with every connection: each round takes at least a byte from the
  stream, whatever the peer sends.
\<close>

theorem mtcp_server_returns:
  assumes "cboring L" and "leaves_after_break L after"
  shows "\<exists>bundles. handleSender L M after clock k conn = Some bundles"
  using cboring.handleSender_returns [OF assms] .

theorem mtcp_server_returns_witness:
  "\<exists>bundles. handleSender rfc_lib GetExtensionBlockManager sample_after (\<lambda>_. 0) 0 [64, 65, 159] = Some bundles"
  using mtcp_server_returns [OF cboring_rfc sample_after_break] .

text \<open>
  Claim C21: whatever is done with an activated client, sends, keepalives, closes and the stop of its handler in any
  order and with any failures of the connection, it reports its disconnection to the manager once at most: when it
  was stopped, by a \<^verbatim>\<open>Close\<close> or by a failure, the manager is the one that a single disconnection leaves, and else it is
  unchanged. No \<^verbatim>\<open>Close\<close> fails or panics, whether it is called from outside or by the handler, and the stop channel is
  closed exactly when the client is stopped, so it is never closed twice.
\<close>

theorem mtcp_disconnects_once:
  assumes "mtcp_Activate (Inr conn) (NewMTCPClient address peer) m0 = (None, c, m)"
    and "run_mtcp L ops c m = (c', m')"
  shows "m' = (if mt_stopped c' then NotifyDisconnect (mtcp_conv c) m else m) \<and>
    (MtcpClose \<in> set ops \<longrightarrow> mt_stopped c') \<and>
    list_all2 (\<lambda>op e. (\<exists>b. op = MtcpSend b) \<or> e = None) ops (mtcp_results L ops c m) \<and>
    mt_stopSyn c' = Some (mt_stopped c')"
proof -
  have c: "\<not> mt_stopped c" "channel_ok c"
    using activated [OF assms(1)] by (simp_all add: channel_ok_def NewMTCPClient_def)
  show ?thesis
    using run_mtcp_once [OF assms(2)] run_mtcp_channel [OF c(2) assms(2)] c(1)
    by (auto simp: closes_once_def channel_ok_def)
qed

theorem mtcp_disconnects_once_witness:
  "snd (run_mtcp rfc_lib [MtcpTick, MtcpClose, MtcpSend sample_bundle, MtcpStop, MtcpClose]
     ((NewMTCPClient ''a'' sample_eid)\<lparr>mt_conn := Some \<lparr>tc_sent = [], tc_fault = Some (0, EOF)\<rparr>,
        mt_stopSyn := Some False, mt_handler := True\<rparr>) (NotifyConnect sample_eid sample_manager)) =
   NotifyDisconnect (mtcp_conv (NewMTCPClient ''a'' sample_eid)) (NotifyConnect sample_eid sample_manager)"
proof -
  let ?ops = "[MtcpTick, MtcpClose, MtcpSend sample_bundle, MtcpStop, MtcpClose]"
  let ?c = "(NewMTCPClient ''a'' sample_eid)\<lparr>mt_conn := Some \<lparr>tc_sent = [], tc_fault = Some (0, EOF)\<rparr>,
    mt_stopSyn := Some False, mt_handler := True\<rparr>"
  obtain c' m' where r: "run_mtcp rfc_lib ?ops ?c (NotifyConnect sample_eid sample_manager) = (c', m')" by fastforce
  have "mtcp_Activate (Inr \<lparr>tc_sent = [], tc_fault = Some (0, EOF)\<rparr>) (NewMTCPClient ''a'' sample_eid) sample_manager =
      (None, ?c, NotifyConnect sample_eid sample_manager)"
    by (simp add: mtcp_Activate_def NewMTCPClient_def)
  from mtcp_disconnects_once [OF this r] r show ?thesis by (simp add: NewMTCPClient_def mtcp_conv_def)
qed

text \<open>
  Also shown: closing a client that was never activated panics: its stop channel is nil. The manager was told of
  the disconnection before.
\<close>

lemma mtcp_inactive_close_panics:
  "mtcp_Close (NewMTCPClient address peer) m =
    (Some (Panic ''close of nil channel''), (NewMTCPClient address peer)\<lparr>mt_stopped := True\<rparr>,
     NotifyDisconnect (mtcp_conv (NewMTCPClient address peer)) m)"
  by (simp add: mtcp_Close_def NewMTCPClient_def Let_def)

text \<open>
  Also shown: a bundle that its checks reject at the server, one whose lifetime ran out on the way
  for instance, ends the connection: nothing that the client sends after it is delivered, though
  every \<^verbatim>\<open>Send\<close> succeeded.
\<close>

theorem mtcp_invalid_ends_connection:
  assumes "cboring L" and "leaves_after_break L after" and "wf_bundle M b"
    and "b_MarshalCbor L b = Inr (bs, b')" and "length bs < 2 ^ 64"
    and "b_CheckValid (clock k) b = Inr errs" and "errs \<noteq> []"
  shows "handleSender L M after clock k (WriteByteStringLen L (word_of_nat (length bs)) @ bs @ rest) = Some []"
  using cboring.handleSender_bundle [OF assms(1-5), where clock = clock and k = k and r = rest, OF assms(6)] assms(7)
  by simp

text \<open>
  Also shown: the length in front of a bundle is read and not used: a bundle is read to its end
  whatever length was announced, as long as it was not 0.
\<close>

theorem mtcp_length_ignored:
  assumes "cboring L" and "n \<noteq> 0" and "n' \<noteq> 0"
  shows "handleSender L M after clock k (WriteByteStringLen L n @ r) =
    handleSender L M after clock k (WriteByteStringLen L n' @ r)"
  using assms(2,3)
  by (subst (1 2) handleSender.simps) (simp add: cboring.byte_len_rw [OF assms(1)])

end
