(* ===== verification/Network.thy ===== *)
theory Network
  imports Validity Node Mtcp
begin

text \<open>
  Two nodes and the MTCP connection between them: a bundle that one node took into its store is forwarded, crosses
  the connection, and is stored and delivered by the other.
\<close>

section \<open>Serialising twice\<close>

lemma pb_Marshal_again: "pb_MarshalCbor L pb = Inr (bs, pb') \<Longrightarrow> pb_MarshalCbor L pb' = Inr (bs, pb')"
  by (frule pb_Marshal_cases[where thesis = "pb_MarshalCbor L pb' = pb_MarshalCbor L pb"])
    (simp_all add: pb_MarshalCbor_def pb_HasCRC_def)

lemma cb_Marshal_again: "cb_MarshalCbor L cb = Inr (bs, cb') \<Longrightarrow> cb_MarshalCbor L cb' = Inr (bs, cb')"
  by (frule cb_Marshal_cases[where thesis = "cb_MarshalCbor L cb' = cb_MarshalCbor L cb"])
    (simp_all add: cb_MarshalCbor_def TypeCode_def cb_HasCRC_def)

lemma marshal_blocks_again:
  "marshal_blocks L cbs = Inr (bs, cbs') \<Longrightarrow> marshal_blocks L cbs' = Inr (bs, cbs')"
proof (induction cbs arbitrary: bs cbs')
  case (Cons cb cbs)
  obtain bs1 cb1 bs2 cbs2 where m: "cb_MarshalCbor L cb = Inr (bs1, cb1)" "marshal_blocks L cbs = Inr (bs2, cbs2)"
    "cbs' = cb1 # cbs2" "bs = bs1 @ bs2"
    using Cons.prems by (auto simp: andThen_eq_Inr)
  then show ?case using cb_Marshal_again[OF m(1)] Cons.IH[OF m(2)] by simp
qed simp

lemma b_Marshal_again:
  assumes "b_MarshalCbor L b = Inr (bs, b')"
  shows "b_MarshalCbor L b' = Inr (bs, b')"
proof -
  obtain p es pl where m: "pb_MarshalCbor L (PrimaryBlock b) = Inr (p, PrimaryBlock b')"
    "marshal_blocks L (ExtensionBlocks b) = Inr (es, ExtensionBlocks b')"
    "cb_MarshalCbor L (b_PayloadBlock b) = Inr (pl, b_PayloadBlock b')"
    "bs = [IndefiniteArray L] @ p @ es @ pl @ [BreakCode L]"
    using assms by (auto simp: b_MarshalCbor_def andThen_eq_Inr)
  show ?thesis
    using pb_Marshal_again[OF m(1)] marshal_blocks_again[OF m(2)] cb_Marshal_again[OF m(3)] m(4)
    by (simp add: b_MarshalCbor_def)
qed

section \<open>The node that forwards\<close>

lemma start_forwarding_steps:
  assumes "a < length (heap st)"
  shows "(store_step E)\<^sup>*\<^sup>* st (snd (on_descriptor (RemoveConstraint DispatchPending) a
    (snd (on_descriptor (AddConstraint ForwardPending) a st))))"
proof -
  let ?st1 = "snd (on_descriptor (AddConstraint ForwardPending) a st)"
  have "store_step E st ?st1" unfolding op_as_run by (rule store_step.descriptor[OF assms])
  moreover have "a < length (heap ?st1)" using assms unfolding op_as_run by (simp add: on_descriptor_eq)
  then have "store_step E ?st1 (snd (on_descriptor (RemoveConstraint DispatchPending) a ?st1))"
    unfolding op_as_run by (rule store_step.descriptor)
  ultimately show ?thesis by (meson converse_rtranclp_into_rtranclp r_into_rtranclp)
qed

text \<open>What an epidemic forwarding sends is the outgoing form of the bundle as it was written to its file.\<close>

lemma forwarded_written:
  assumes world: "storage E look" and ok: "store_ok E look st" and keep: "keeps a (b_ID b) bs st"
    and live: "\<not> deleted (heap st ! a)"
    and b: "wf_bundle (env_ebm E) b" "b_MarshalCbor (env_cbor E) b = Inr (bs, b0)" "length bs < 2 ^ 64"
    and checks: "b_CheckValid now b = Inr errs"
    and f: "forwardingAsync E NewEpidemicRouting own now rnd send peers a st = Some (Inr (out, st'))"
    and out: "(p, s) \<in> set out"
  shows "outgoing own (Loaded b0) = Inr s"
proof -
  have a: "a < length (heap st)" using keep by (simp add: keeps_def)
  obtain st1 st2 where st: "on_descriptor (AddConstraint ForwardPending) a st = (None, st1)"
    "on_descriptor (RemoveConstraint DispatchPending) a st1 = (None, st2)" "\<not> deleted (heap st2 ! a)"
    by (rule start_forwarding[OF a live])
  have "store_ok E look st2 \<and> keeps a (b_ID b) bs st2"
    using storage.keeps_steps[OF world start_forwarding_steps[OF a] ok keep] st by simp
  then have load: "Load E now a st2 = Some (Inr (Loaded b0))"
    using storage.keeps_load_written[OF world _ _ st(3) b checks] by blast
  show ?thesis
  proof (cases rule: forwarding_cases[OF a live f])
    case (3 st2' st3 ps bndl l l')
    then have "bndl = None" "st3 = st2"
      using st by (auto simp: NewEpidemicRouting_def epidemic_Select_def)
    then show ?thesis using 3 load out by auto
  qed (use out in simp_all)
qed

section \<open>Taking a bundle in\<close>

text \<open>
  A node takes a bundle into its store, under the address \<open>a\<close>: its database and file system work, the
  bundle is new, and the hash of its file's name is nobody else's.
\<close>

definition takes_in :: "'kv store_env \<Rightarrow> 'kv bundle_store \<Rightarrow> disk \<Rightarrow> dtn_bundle \<Rightarrow> nat \<Rightarrow> 'kv bundle_store \<Rightarrow> bool" where
  "takes_in E st d b a st' \<longleftrightarrow> store_reach E st \<and> InsertBundle E d b st = (Inr a, st') \<and>
     create_err d = None \<and> write_err d = None \<and> b_ID b \<notin> fst ` set (bundles st) \<and>
     (\<forall>bid \<in> fst ` set (bundles st). file_name bid = file_name (b_ID b) \<longrightarrow> bid_String bid = bid_String (b_ID b))"

lemma taken_keeps:
  assumes "storage E look" and "takes_in E st d b a st1" and "storable E b bs" and "(store_step E)\<^sup>*\<^sup>* st1 st2"
  shows "store_ok E look st2 \<and> keeps a (b_ID b) bs st2"
  by (rule stored_keeps[OF assms(1), of st d b a st1 bs]) (use assms(2-4) in \<open>simp_all add: takes_in_def\<close>)

text \<open>A node that received a bundle as it was written loads exactly this bundle.\<close>

lemma received_loads:
  assumes world: "storage E look" and taken: "takes_in E st d l a st1"
    and l: "wf_bundle (env_ebm E) l" "b_MarshalCbor (env_cbor E) l = Inr (ls, l)" "length ls < 2 ^ 64"
    and valid: "b_CheckValid now l = Inr []"
  shows "Load E now a st1 = Some (Inr (Loaded l))"
proof -
  have kept: "store_ok E look st1" "keeps a (b_ID l) ls st1"
    using taken_keeps[OF world taken _ rtranclp.rtrancl_refl, of ls] l by (auto simp: storable_def)
  have "map_of (bundles st) (b_ID l) = None" using taken by (simp add: takes_in_def map_of_eq_None_iff)
  then have "\<not> deleted (heap st1 ! a)"
    using taken InsertBundle_new(4)[of E d l st a st1] by (auto simp: takes_in_def HasConstraint_def split: if_splits)
  then show ?thesis by (rule storage.keeps_load_written[OF world kept _ l valid])
qed

text \<open>What goes out of the node, and what of it the other node writes again.\<close>

lemma hop_sent:
  assumes world: "storage E look" and taken: "takes_in E st d b a st1" "storable E b bs" "(store_step E)\<^sup>*\<^sup>* st1 st2"
    and live: "\<not> Deleted (heap st2 ! a)" and valid: "\<forall>t \<in> insert now T. b_CheckValid t b = Inr []"
    and len: "length (ExtensionBlocks b) < 2 ^ 63"
    and prev: "env_ebm E BlockTypePreviousNodeBlock = Some TPreviousNode" and own: "wf_eid own"
    and fwd: "forwardingAsync E NewEpidemicRouting own now rnd send peers a st2 = Some (Inr (out, st3))"
      "(p, Loaded l) \<in> set out"
    and m: "b_MarshalCbor (env_cbor E) l = Inr (ls, l')"
  shows "wf_bundle (env_ebm E) l" "wf_bundle (env_ebm E) l'" "\<forall>t \<in> insert now T. b_CheckValid t l = Inr []"
    "\<forall>t \<in> insert now T. b_CheckValid t l' = Inr []" "b_MarshalCbor (env_cbor E) l' = Inr (ls, l')"
    "b_ID l' = b_ID b" "Destination (PrimaryBlock l') = Destination (PrimaryBlock b)"
    "payload_data (b_PayloadBlock l') = payload_data (b_PayloadBlock b)"
proof -
  obtain b0 where b: "wf_bundle (env_ebm E) b" "b_MarshalCbor (env_cbor E) b = Inr (bs, b0)" "length bs < 2 ^ 64"
    using taken(2) by (auto simp: storable_def)
  have erased: "erase b0 = erase b" by (rule b_MarshalCbor_erase[OF b(2)])
  have valid0: "\<forall>t \<in> insert now T. b_CheckValid t b0 = Inr []" using valid erase_eq_CheckValid[OF erased] by simp
  have kept: "store_ok E look st2" "keeps a (b_ID b) bs st2" using taken_keeps[OF world taken] by blast+
  have "outgoing own (Loaded b0) = Inr (Loaded l)"
    using forwarded_written[OF world kept _ b _ fwd] live valid by (auto simp: Deleted_def)
  moreover have "length (ExtensionBlocks b0) < 2 ^ 63"
    using len arg_cong[OF erased, of "\<lambda>b. length (ExtensionBlocks b)"] by (simp add: erase_def)
  ultimately have l: "wf_bundle (env_ebm E) l" "PrimaryBlock l = PrimaryBlock b0" "b_PayloadBlock l = b_PayloadBlock b0"
    "\<forall>t \<in> insert now T. b_CheckValid t l = Inr []"
    using outgoing_sent[OF marshalled_wf[OF b(1,2)] valid0 insert_not_empty prev own] by blast+
  have same: "erase l' = erase l" by (rule b_MarshalCbor_erase[OF m])
  show "wf_bundle (env_ebm E) l" "\<forall>t \<in> insert now T. b_CheckValid t l = Inr []" by (fact l(1,4))+
  show "\<forall>t \<in> insert now T. b_CheckValid t l' = Inr []" using l(4) erase_eq_CheckValid[OF same] by simp
  show "wf_bundle (env_ebm E) l'" by (rule marshalled_wf[OF l(1) m])
  show "b_MarshalCbor (env_cbor E) l' = Inr (ls, l')" by (rule b_Marshal_again[OF m])
  show "b_ID l' = b_ID b" "Destination (PrimaryBlock l') = Destination (PrimaryBlock b)"
    "payload_data (b_PayloadBlock l') = payload_data (b_PayloadBlock b)"
    using erase_fields[OF same] erase_fields[OF erased] l(2,3) by (simp_all add: b_ID_def)
qed

section \<open>Properties\<close>

text \<open>
  Claim C2: a bundle crosses a hop. A well-formed bundle that node A took into its store, and that is valid, is
  forwarded by epidemic routing to a peer, whatever A's store did in between; the MTCP client of that peer
  sends it over a connection without faults. Then the server at node B reads exactly one bundle, and when
  B takes it into its store, it is forwarded further, has reached the mailbox of its destination at every agent
  that has one, and B's store loads a bundle with the ID and the payload that A took in.
\<close>

theorem bundle_crosses_hop:
  fixes m :: node_manager
  assumes A: "reliable_db (env_db E) look" "cboring (env_cbor E)" "takes_in E st d b a st1" "storable E b bs"
      "(store_step E)\<^sup>*\<^sup>* st1 st2" "\<not> Deleted (heap st2 ! a)"
      "\<forall>t \<in> insert now (insert now' (range clock)). b_CheckValid t b = Inr []" "length (ExtensionBlocks b) < 2 ^ 63"
      "env_ebm E BlockTypePreviousNodeBlock = Some TPreviousNode" "wf_eid own"
      "forwardingAsync E NewEpidemicRouting own now rnd send peers a st2 = Some (Inr (out, st3))" "(p, Loaded l) \<in> set out"
    and link: "leaves_after_break (env_cbor E) after"
      "b_MarshalCbor (env_cbor E) l = Inr (ls, l')" "length ls < 2 ^ 64"
      "mtcp_Activate (Inr \<lparr>tc_sent = [], tc_fault = None\<rparr>) client cm = (None, c, cm1)"
    and B: "reliable_db (env_db E') look'" "env_cbor E' = env_cbor E" "env_ebm E' = env_ebm E" "routing_algorithm E' A'"
      "takes_in E' st' d' l' a' st1'" "receiveAsync E' A' node_agents d' l' False m st' = Inr (gos, m', st2')"
      "(name, agent) \<in> set (agents m)" "q < length (boxes (agent_bank agent))"
      "map_of (mailboxes (agent_bank agent)) (Destination (PrimaryBlock b)) = Some q"
  shows "\<exists>c' conn agent' b'. run_mtcp (env_cbor E) [MtcpSend l] c cm1 = (c', cm1) \<and> mt_conn c' = Some conn \<and>
    handleSender (env_cbor E) (env_ebm E) after clock 0 (tc_sent conn) = Some [l'] \<and> gos = [a'] \<and>
    (name, agent') \<in> set (agents m') \<and> map_of (boxes (agent_bank agent') ! q) (b_ID b) \<noteq> None \<and>
    Load E' now' a' st1' = Some (Inr (Loaded b')) \<and> b_ID b' = b_ID b \<and>
    payload_data (b_PayloadBlock b') = payload_data (b_PayloadBlock b)"
proof -
  have world: "storage E look" "storage E' look'" using A(1,2) B(1,2) by (simp_all add: storage_def)
  note l = hop_sent[OF world(1) A(3-12) link(2)]
  have "\<forall>op \<in> set [MtcpSend l]. arrives (env_cbor E) (env_ebm E) clock op"
    using l(1,3) link(2,3) by (auto simp: arrives_def)
  moreover have "concat (map (offered (env_cbor E)) [MtcpSend l]) = [l']" using link(2) by (simp add: offered_def)
  moreover have "MtcpClose \<notin> set [MtcpSend l]" by simp
  ultimately obtain c' conn where conn:
    "run_mtcp (env_cbor E) [MtcpSend l] c cm1 = (c', cm1)" "mt_conn c' = Some conn"
    "handleSender (env_cbor E) (env_ebm E) after clock 0 (tc_sent conn) = Some [l']"
    using mtcp_received[OF A(2) link(1) _ link(4)] by metis
  have load: "Load E' now' a' st1' = Some (Inr (Loaded l'))"
    using received_loads[OF world(2) B(5)] l(2,4,5) link(3) B(2,3) by simp
  have ins: "InsertBundle E' d' l' st' = (Inr a', st1')" "map_of (bundles st') (b_ID l') = None"
    using B(5) by (simp_all add: takes_in_def map_of_eq_None_iff)
  show ?thesis
    using conn load reception_reaches[OF B(4) ins B(6,7) _ B(8)] B(9) l(6-8) by auto
qed

section \<open>A hop, evaluated\<close>

definition sample_outgoing :: dtn_bundle where
  "sample_outgoing = sample_bundle\<lparr>ExtensionBlocks :=
     [NewCanonicalBlock 2 0 (HopCountBlock 5 1), NewCanonicalBlock 3 0 (PreviousNodeBlock sample_eid)]\<rparr>"

lemma sample_goes_out: "outgoing sample_eid (Loaded sample_bundle) = Inr (Loaded sample_outgoing)"
proof -
  have "first_free [2] 2 = 3" by (subst first_free.simps, simp, subst first_free.simps, simp)
  then show ?thesis
    by (simp add: outgoing_def replace_previous_node_def add_previous_node_def sample_bundle_def sample_outgoing_def
        ExtensionBlockByType_def ExtensionBlocksByType_def AddExtensionBlock_def TypeCode_def NewCanonicalBlock_def
        block_type_defs Let_def sortExtensionBlocks_def go_sort_def canonicalBlockNumberSort_Less_def)
qed

lemma sample_outgoing_bytes:
  "\<exists>bs. b_MarshalCbor rfc_lib sample_outgoing = Inr (bs, sample_outgoing) \<and> length bs < 100"
  by (simp add: b_MarshalCbor_def sample_outgoing_def sample_bundle_def sample_primary_bytes rfc_simps rfc_head_def
      cb_MarshalCbor_def NewCanonicalBlock_def cb_HasCRC_def TypeCode_def block_type_defs
      WriteBlock_def HopCount_MarshalCbor_def sample_eid_bytes)

lemma sample_outgoing_insert:
  "\<exists>st. InsertBundle sample_env good_disk sample_outgoing empty_store = (Inr 0, st) \<and>
    heap st = [NewBundleDescriptor (new_metadata DtnNone sample_outgoing [sample_eid])]"
proof -
  obtain bs where "b_MarshalCbor rfc_lib sample_outgoing = Inr (bs, sample_outgoing)" using sample_outgoing_bytes by blast
  moreover have "previous_node sample_outgoing = Inr [sample_eid]"
    by (simp add: previous_node_def ExtensionBlockByType_def ExtensionBlocksByType_def sample_outgoing_def
        TypeCode_def NewCanonicalBlock_def block_type_defs)
  ultimately show ?thesis
    by (simp add: InsertBundle_def insertNewBundleUnsafe_def empty_store_def sample_env_def map_db_def good_disk_def
        mapset_def Let_def new_metadata_def)
qed

lemma sample_store_taken: "takes_in sample_env empty_store good_disk sample_bundle 0 sample_store"
  by (simp add: takes_in_def empty_store_reach sample_insert(1)) (simp add: empty_store_def good_disk_def)

lemma sample_kept:
  assumes "b_MarshalCbor rfc_lib sample_bundle = Inr (bs, b0)"
  shows "store_ok sample_env map_of sample_store" "keeps 0 (b_ID sample_bundle) bs sample_store"
proof -
  have "length bs < 2 ^ 64" using assms sample_bundle_bytes by auto
  then have "storable sample_env sample_bundle bs" using assms sample_bundle_wf by (simp add: storable_def)
  then show "store_ok sample_env map_of sample_store" "keeps 0 (b_ID sample_bundle) bs sample_store"
    using taken_keeps[OF sample.storage_axioms sample_store_taken] by blast+
qed

lemma sample_forwarded:
  "\<exists>st3. forwardingAsync sample_env NewEpidemicRouting sample_eid 0 0 (\<lambda>_. None) [sample_peer] 0 sample_store =
    Some (Inr ([(sample_peer, Loaded sample_outgoing)], st3))"
proof -
  obtain bs where bs: "b_MarshalCbor rfc_lib sample_bundle = Inr (bs, sample_bundle)" "length bs < 2 ^ 64"
    using sample_bundle_bytes by auto
  note kept = sample_kept[OF bs(1)]
  have live: "\<not> Deleted (heap sample_store ! 0)" by (simp add: sample_insert Deleted_def NewBundleDescriptor_def)
  obtain out st3 where f: "forwardingAsync sample_env NewEpidemicRouting sample_eid 0 0 (\<lambda>_. None) [sample_peer] 0
      sample_store = Some (Inr (out, st3))" "map fst out = [sample_peer]"
    using storage.epidemic_completes[OF sample.storage_axioms kept(1), of "b_ID sample_bundle" 0
      sample_eid 0 0 "\<lambda>_. None" "[sample_peer]"] sample_peer_selected live
    by (auto simp: GetExtensionBlockManager_eq block_type_defs sample_insert epidemic_Select_def)
  then obtain s where s: "out = [(sample_peer, s)]" by auto
  have "outgoing sample_eid (Loaded sample_bundle) = Inr s"
    by (rule forwarded_written[OF sample.storage_axioms kept _ _ _ bs(2) sample_bundle_valid f(1)])
      (use live bs(1) in \<open>simp_all add: s Deleted_def sample_bundle_wf\<close>)
  then show ?thesis using f(1) s sample_goes_out by simp
qed

theorem bundle_crosses_hop_witness:
  "\<exists>st3 c cm1 gos m' st2' c' conn b'.
    forwardingAsync sample_env NewEpidemicRouting sample_eid 0 0 (\<lambda>_. None) [sample_peer] 0 sample_store =
      Some (Inr ([(sample_peer, Loaded sample_outgoing)], st3)) \<and>
    mtcp_Activate (Inr \<lparr>tc_sent = [], tc_fault = None\<rparr>) (NewMTCPClient ''b:4556'' sample_eid) sample_manager = (None, c, cm1) \<and>
    run_mtcp rfc_lib [MtcpSend sample_outgoing] c cm1 = (c', cm1) \<and> mt_conn c' = Some conn \<and>
    handleSender rfc_lib GetExtensionBlockManager sample_after (\<lambda>_. 0) 0 (tc_sent conn) = Some [sample_outgoing] \<and>
    receiveAsync sample_env NewEpidemicRouting node_agents good_disk sample_outgoing False
      \<lparr>agents = [(''r'', Inr sample_client)]\<rparr> empty_store = Inr (gos, m', st2') \<and>
    Load sample_env 0 0 (snd (InsertBundle sample_env good_disk sample_outgoing empty_store)) = Some (Inr (Loaded b')) \<and>
    payload_data (b_PayloadBlock b') = Inr [1, 2, 3]"
proof -
  let ?m = "\<lparr>agents = [(''r'', Inr sample_client)]\<rparr> :: node_manager"
  obtain st3 where f: "forwardingAsync sample_env NewEpidemicRouting sample_eid 0 0 (\<lambda>_. None) [sample_peer] 0
      sample_store = Some (Inr ([(sample_peer, Loaded sample_outgoing)], st3))"
    using sample_forwarded by blast
  obtain bs where bs: "storable sample_env sample_bundle bs" using sample_storable by blast
  obtain ls where ls: "b_MarshalCbor rfc_lib sample_outgoing = Inr (ls, sample_outgoing)" "length ls < 2 ^ 64"
    using sample_outgoing_bytes by fastforce
  obtain st' where ins: "InsertBundle sample_env good_disk sample_outgoing empty_store = (Inr 0, st')"
    "heap st' = [NewBundleDescriptor (new_metadata DtnNone sample_outgoing [sample_eid])]"
    using sample_outgoing_insert by blast
  obtain c cm1 where act: "mtcp_Activate (Inr \<lparr>tc_sent = [], tc_fault = None\<rparr>) (NewMTCPClient ''b:4556'' sample_eid)
      sample_manager = (None, c, cm1)" by (simp add: mtcp_Activate_def)
  obtain gos m' st2' where r: "receiveAsync sample_env NewEpidemicRouting node_agents good_disk sample_outgoing False
      ?m empty_store = Inr (gos, m', st2')"
    by (simp add: receiveAsync_def ins(1) NewEpidemicRouting_def Let_def)
  have taken: "takes_in sample_env empty_store good_disk sample_outgoing 0 st'"
    by (simp add: takes_in_def empty_store_reach ins(1)) (simp add: empty_store_def good_disk_def)
  have live: "\<not> Deleted (heap sample_store ! 0)" by (simp add: sample_insert Deleted_def NewBundleDescriptor_def)
  have box: "map_of (mailboxes (agent_bank (Inr sample_client))) (Destination (PrimaryBlock sample_bundle)) = Some 0"
    "0 < length (boxes (agent_bank (Inr sample_client)))"
    by (simp_all add: agent_bank_def sample_client_def sample_bundle_def sample_primary_def)
  have prev: "env_ebm sample_env BlockTypePreviousNodeBlock = Some TPreviousNode"
    by (simp add: GetExtensionBlockManager_eq block_type_defs)
  have valid: "\<forall>t \<in> insert 0 (insert 0 (range (\<lambda>_ :: nat. 0))). b_CheckValid t sample_bundle = Inr []"
    by (simp add: sample_bundle_valid)
  have len: "length (ExtensionBlocks sample_bundle) < 2 ^ 63" by (simp add: sample_bundle_def)
  have data: "payload_data (b_PayloadBlock sample_bundle) = Inr [1, 2, 3]"
    by (simp add: sample_bundle_def payload_data_def NewCanonicalBlock_def)
  have sent: "(sample_peer, Loaded sample_outgoing) \<in> set [(sample_peer, Loaded sample_outgoing)]"
    and lib: "b_MarshalCbor (env_cbor sample_env) sample_outgoing = Inr (ls, sample_outgoing)"
    and member: "(''r'', Inr sample_client) \<in> set (agents ?m)"
    and after: "leaves_after_break (env_cbor sample_env) sample_after"
    using ls(1) sample_after_break by simp_all
  obtain c' conn agent' b' where "run_mtcp rfc_lib [MtcpSend sample_outgoing] c cm1 = (c', cm1)" "mt_conn c' = Some conn"
    "handleSender rfc_lib GetExtensionBlockManager sample_after (\<lambda>_. 0) 0 (tc_sent conn) = Some [sample_outgoing]"
    "Load sample_env 0 0 st' = Some (Inr (Loaded b'))"
    "payload_data (b_PayloadBlock b') = payload_data (b_PayloadBlock sample_bundle)"
    using bundle_crosses_hop[OF sample_world sample_store_taken bs rtranclp.rtrancl_refl live valid len prev
        sample_eid_wf f sent after lib ls(2) act sample_world(1) refl refl epidemic.routing_algorithm_axioms taken r member
        box(2,1)]
    unfolding sample_env_simps by blast
  then show ?thesis using f act r data ins(1) by auto
qed

end
