(* ===== verification/Accepted.thy ===== *)
theory Accepted
  imports Validity
begin

text \<open>
  What the parser accepts. A bundle that \<^verbatim>\<open>ParseBundle\<close> returned without an error is well formed, up to two
  fields of its primary block that have no meaning in it, so that the theorems about well-formed bundles hold for
  everything that came over the network; and whether it can be serialised again depends on its CRC types alone.
  The entry point for the fuzzer, \<^verbatim>\<open>pkg/bpv7/bundle_parse_fuzz.go\<close>, asks for exactly this.
\<close>

section \<open>The fuzzer's entry point\<close>

definition Fuzz :: "lib \<Rightarrow> time \<Rightarrow> bytes \<Rightarrow> int res option" where
  "Fuzz L now data =
     (if length data > 0 \<and> data ! 0 \<noteq> 0x9f then Some (Inr (- 1))
      else case ParseBundle L GetExtensionBlockManager now data of
        None \<Rightarrow> None
      | Some (Inl (Panic p)) \<Rightarrow> Some (Inl (Panic p))
      | Some (Inl _) \<Rightarrow> Some (Inr 0)
      | Some (Inr (b, err # _)) \<Rightarrow> Some (Inr 0)
      | Some (Inr (b, [])) \<Rightarrow>
          (case b_MarshalCbor L b of
             Inl (Panic p) \<Rightarrow> Some (Inl (Panic p))
           | Inl err \<Rightarrow> Some (Inl (Panic ''panic(err)''))
           | Inr _ \<Rightarrow> Some (Inr 1)))"

section \<open>What was read\<close>

text \<open>
  The manager's types of blocks whose values \<^verbatim>\<open>CheckValid\<close> looks at in full. All the types that
  \<^verbatim>\<open>GetExtensionBlockManager\<close> registers are of this kind; the routing blocks with endpoints inside are not.
\<close>

definition checked_types :: "ebm \<Rightarrow> bool" where
  "checked_types M \<longleftrightarrow> ebm_ok M \<and> TDTLSR \<notin> ran M \<and> TProphet \<notin> ran M"

lemma checked_types_default: "checked_types GetExtensionBlockManager"
  unfolding checked_types_def using ebm_ok_default by (simp add: GetExtensionBlockManager_eq)

text \<open>
  The offset and the total length of a primary block that is not a fragment: they are there when the array was
  longer than its flags ask for, and have no meaning.
\<close>

definition settle_pb :: "primary_block \<Rightarrow> primary_block" where
  "settle_pb pb = (if HasFragmentation pb then pb else pb\<lparr>FragmentOffset := 0, TotalDataLength := 0\<rparr>)"

definition settle :: "dtn_bundle \<Rightarrow> dtn_bundle" where
  "settle b = b\<lparr>PrimaryBlock := settle_pb (PrimaryBlock b)\<rparr>"

definition crcs_known :: "dtn_bundle \<Rightarrow> bool" where
  "crcs_known b \<longleftrightarrow> known_crc (pb_CRCType (PrimaryBlock b)) \<and>
     (\<forall>cb \<in> set (ExtensionBlocks b). known_crc (cb_CRCType cb)) \<and> known_crc (cb_CRCType (b_PayloadBlock b))"

lemma settle_pb_simps [simp]:
  "pb_CRCType (settle_pb pb) = pb_CRCType pb" "pb_CheckValid (settle_pb pb) = pb_CheckValid pb"
  "pb_body L (settle_pb pb) = pb_body L pb" "pb_HasCRC (settle_pb pb) = pb_HasCRC pb"
  by (simp_all add: settle_pb_def pb_CheckValid_def pb_HasCRC_def pb_body_def HasFragmentation_def)

lemma settle_simps [simp]:
  "ExtensionBlocks (settle b) = ExtensionBlocks b" "b_PayloadBlock (settle b) = b_PayloadBlock b"
  "PrimaryBlock (settle b) = settle_pb (PrimaryBlock b)"
  by (simp_all add: settle_def)

lemma settle_pb_fields [simp]:
  "CreationTimestamp (settle_pb pb) = CreationTimestamp pb" "Lifetime (settle_pb pb) = Lifetime pb"
  "Destination (settle_pb pb) = Destination pb" "ReportTo (settle_pb pb) = ReportTo pb"
  "SourceNode (settle_pb pb) = SourceNode pb" "BundleControlFlags (settle_pb pb) = BundleControlFlags pb"
  by (simp_all add: settle_pb_def)

lemma settle_ID_String: "bid_String (b_ID (settle b)) = bid_String (b_ID b)"
  by (simp add: bid_String_def b_ID_def) (simp add: settle_pb_def HasFragmentation_def)

lemma settle_by_type: "ExtensionBlockByType (settle b) = ExtensionBlockByType b"
  by (intro ext) (simp add: ExtensionBlockByType_def ExtensionBlocksByType_def)

lemma settle_CheckValid: "b_CheckValid now (settle b) = b_CheckValid now b"
proof -
  have ctx: "CheckContextValid (settle b) = CheckContextValid b"
    by (intro ext, rename_tac i v, case_tac v) (simp_all add: CheckContextValid_def unique_of_type_def settle_by_type)
  have "check_blocks (settle b) seen i cbs = check_blocks b seen i cbs" for seen i cbs
    by (induction cbs arbitrary: seen i) (simp_all add: ctx cong: option.case_cong)
  moreover have "IsLifetimeExceeded now (settle b) = IsLifetimeExceeded now b"
    unfolding IsLifetimeExceeded_def Let_def settle_simps settle_pb_fields settle_by_type ..
  ultimately show ?thesis
    by (simp add: b_CheckValid_def HasExtensionBlock_def ExtensionBlocksByType_def)
qed

lemma settle_pb_Marshal:
  "pb_MarshalCbor L (settle_pb pb) = andThen (pb_MarshalCbor L pb) (\<lambda>(bs, pb'). Inr (bs, settle_pb pb'))"
proof -
  have "settle_pb (pb\<lparr>pb_CRC := c\<rparr>) = (settle_pb pb)\<lparr>pb_CRC := c\<rparr>" for c
    by (simp add: settle_pb_def HasFragmentation_def)
  then show ?thesis by (cases "pb_HasCRC pb") (simp_all add: pb_MarshalCbor_def andThen_assoc)
qed

lemma settle_Marshal:
  "b_MarshalCbor L (settle b) = andThen (b_MarshalCbor L b) (\<lambda>(bs, b'). Inr (bs, settle b'))"
proof (cases "pb_MarshalCbor L (PrimaryBlock b)")
  case (Inl e)
  then show ?thesis by (simp add: b_MarshalCbor_def settle_pb_Marshal)
next
  case (Inr r)
  then show ?thesis
    by (cases r) (simp add: b_MarshalCbor_def settle_pb_Marshal andThen_assoc case_prod_unfold settle_def)
qed

section \<open>Accepted blocks are well formed\<close>

context cboring
begin

lemma dtn_read:
  assumes "dtn_UnmarshalCbor L i = Inr (et, r)" and "length i < 2 ^ 63"
  shows "wf_endpoint et \<and> length (et_String et) < 2 ^ 64"
proof -
  obtain m n r1 where maj: "ReadMajors L i = Inr ((m, n), r1)"
    using assms(1) by (auto simp: dtn_UnmarshalCbor_def andThen_eq_Inr)
  have r1: "length r1 < length i" using majors_front maj by (auto dest: takes_frontD strict_suffix_length)
  show ?thesis
  proof (cases "m = UIntMajor L")
    case True
    then show ?thesis using assms(1) maj
      by (auto simp: dtn_UnmarshalCbor_def wf_endpoint_def wf_dtn_def et_String_def dtn_String_def)
  next
    case False
    then obtain ssp nodeName demux where raw: "ReadRawBytes L n r1 = Inr (ssp, r)"
      and p: "parseDtnSsp (string_of_bytes ssp) = Inr (nodeName, demux, False)"
      and et: "et = DtnEndpoint \<lparr>NodeName = nodeName, Demux = demux, IsDtnNone = False\<rparr>"
      using assms(1) maj by (auto simp: dtn_UnmarshalCbor_def andThen_eq_Inr split: if_splits)
    have len: "length ssp < 2 ^ 63" using raw_exact[OF raw] r1 assms(2) by simp
    note s = parseDtnSsp_InrD[OF p]
    have "length (et_String et) = 4 + length ssp"
      using arg_cong[of _ _ length, OF conjunct1[OF s[simplified]]]
      by (simp add: et et_String_def dtn_String_def string_of_bytes_def)
    then show ?thesis using s len by (simp add: et wf_endpoint_def wf_dtn_def)
  qed
qed

lemma eid_read:
  assumes "eid_UnmarshalCbor L i = Inr (e, r)" and "eid_CheckValid e = []" and "length i < 2 ^ 63"
  shows "wf_eid e"
proof -
  obtain l r1 scheme r2 f et where rd: "ReadArrayLength L i = Inr (l, r1)" "ReadUInt L r1 = Inr (scheme, r2)"
    "typeMap L scheme = Some f" "f r2 = Inr (et, r)" and e: "e = Some et"
    using assms(1) by (auto simp: eid_UnmarshalCbor_def andThen_eq_Inr split: if_splits option.splits)
  have "length r2 < length i"
    using rd(1,2) array_front uint_front by (meson dual_order.strict_trans takes_frontD strict_suffix_length)
  then consider "f = dtn_UnmarshalCbor L" | n s where "et = IpnEndpoint n s"
    using rd(3,4) by (auto simp: typeMap_def ipn_UnmarshalCbor_def andThen_eq_Inr split: if_splits)
  then show ?thesis
  proof cases
    case 1
    then show ?thesis using dtn_read[of r2 et r] rd(4) \<open>length r2 < length i\<close> assms(3) by (simp add: e wf_eid_def)
  next
    case 2
    then have "n \<noteq> 0 \<and> s \<noteq> 0" using assms(2) by (auto simp: e eid_CheckValid_def et_CheckValid_def ipn_CheckValid_def)
    moreover have "length (ipn_String n s) < 2 ^ 64"
      using show_u64_length[of n] show_u64_length[of s] by (simp add: ipn_String_def)
    ultimately show ?thesis by (simp add: e 2 wf_eid_def wf_endpoint_def et_String_def)
  qed
qed

lemma ext_read:
  assumes M: "checked_types M" and read: "ReadBlock L M t i = Inr (v, r)" and ok: "ext_CheckValid v = []"
    and len: "length i < 2 ^ 63"
  shows "wf_ext v \<and> registered M v \<and> BlockTypeCode v = t"
proof -
  obtain data where data: "ReadByteString L i = Inr (data, r)" "ext_Unmarshal L (createBlock M t) t data = Inr v"
    using read by (auto simp: ReadBlock_def andThen_eq_Inr)
  have code: "BlockTypeCode v = t" by (rule ReadBlock_code[OF _ read]) (use M in \<open>simp add: checked_types_def\<close>)
  have type: "type_of v = createBlock M t"
    using data(2) by (auto simp: ext_Unmarshal_def andThen_eq_Inr HopCount_UnmarshalCbor_def
        DTLSR_UnmarshalCbor_def Prophet_UnmarshalCbor_def split: ext_type.splits if_splits)
  have "createBlock M t \<noteq> TDTLSR \<and> createBlock M t \<noteq> TProphet"
    using M by (auto simp: checked_types_def createBlock_def ran_def split: option.splits)
  moreover have "wf_eid e" if "v = PreviousNodeBlock e" for e
  proof -
    have "\<exists>r'. eid_UnmarshalCbor L data = Inr (e, r')"
      using data(2) type that by (auto simp: ext_Unmarshal_def andThen_eq_Inr)
    then show ?thesis using eid_read[of data e] byte_string_exact[OF data(1)] ok len that by auto
  qed
  ultimately have "wf_ext v" using type by (cases v) auto
  then show ?thesis using code type by (simp add: registered_def)
qed

lemma cb_read:
  assumes M: "checked_types M" and read: "cb_UnmarshalCbor L M i = Inr (cb, r)" and ok: "cb_CheckValid cb = Inr []"
    and len: "length i < 2 ^ 63"
  shows "wf_cb M cb"
proof -
  obtain n r0 t cb0 r1 v where f: "cb_fields L i = Inr ((n, r0, t, cb0), r1)"
    and "\<exists>r2. ReadBlock L M t r1 = Inr (v, r2) \<and> cb_checkCRC L n r0 (cb0\<lparr>Value := Some v\<rparr>) r2 = Inr (cb, r)"
    using read by (auto simp: cb_UnmarshalCbor_def andThen_eq_Inr)
  then obtain r2 where v: "ReadBlock L M t r1 = Inr (v, r2)" "cb_checkCRC L n r0 (cb0\<lparr>Value := Some v\<rparr>) r2 = Inr (cb, r)"
    by blast
  have cb: "Value cb = Some v" "\<not> cb_HasCRC cb \<longrightarrow> cb_CRC cb = []"
    using v(2) cb_fields_Value[OF f]
    by (auto simp: cb_checkCRC_def Let_def andThen_eq_Inr cb_HasCRC_def calculateCRCBuff_def emptyCRC_def split: if_splits)
  have "length r1 < length i"
    using f by (auto simp: cb_fields_def andThen_eq_Inr split: if_splits dest!: takes_frontD[OF array_front]
        takes_frontD[OF uint_front] strict_suffix_length)
  then have "wf_ext v \<and> registered M v"
    using ext_read[OF M v(1)] ok cb(1) len by (simp add: cb_CheckValid_def)
  then show ?thesis using cb by (simp add: wf_cb_def)
qed

lemma pb_fields_read:
  assumes "pb_fields L i = Inr ((n, pb), r)"
  shows "Version pb = dtnVersion \<and> (\<forall>e \<in> {Destination pb, SourceNode pb, ReportTo pb}.
    \<exists>j r'. length j < length i \<and> eid_UnmarshalCbor L j = Inr (e, r'))"
proof -
  obtain l r1 v r2 f r3 c r4 r5 r6 r7 where rd: "ReadArrayLength L i = Inr (l, r1)" "ReadUInt L r1 = Inr (v, r2)"
    "ReadUInt L r2 = Inr (f, r3)" "ReadUInt L r3 = Inr (c, r4)"
    and e: "eid_UnmarshalCbor L r4 = Inr (Destination pb, r5)" "eid_UnmarshalCbor L r5 = Inr (SourceNode pb, r6)"
      "eid_UnmarshalCbor L r6 = Inr (ReportTo pb, r7)" and "Version pb = dtnVersion"
    using assms by (auto simp: pb_fields_def andThen_eq_Inr split: if_splits)
  moreover have "length r4 < length i"
    using rd by (auto dest!: takes_frontD[OF array_front] takes_frontD[OF uint_front] strict_suffix_length)
  moreover have "length r5 < length r4" "length r6 < length r5"
    using e by (auto dest!: takes_frontD[OF eid_front] strict_suffix_length)
  ultimately have "length r5 < length i" "length r6 < length i" by simp_all
  then show ?thesis using e \<open>length r4 < length i\<close> \<open>Version pb = dtnVersion\<close> by blast
qed

lemma pb_read:
  assumes read: "pb_UnmarshalCbor L i = Inr (pb, r)" and ok: "pb_CheckValid pb = []" and len: "length i < 2 ^ 63"
  shows "wf_pb (settle_pb pb)"
proof -
  obtain n pb0 r0 where f: "pb_fields L i = Inr ((n, pb0), r0)"
    and u: "(if n = 9 \<or> n = 11
       then andThen (calculateCRCBuff L (consumed i r0) (pb_CRCType pb0)) (\<lambda>crcCalc.
            andThen (ReadByteString L r0) (\<lambda>(crcVal, r).
              if crcCalc \<noteq> crcVal then Inl (Errorf ''invalid CRC value'')
              else Inr (pb0\<lparr>pb_CRC := crcVal\<rparr>, r)))
       else Inr (pb0, r0)) = Inr (pb, r)"
    using read unfolding pb_UnmarshalCbor_def by (auto simp: andThen_eq_Inr)
  obtain c where pb: "pb = pb0\<lparr>pb_CRC := c\<rparr>" and c: "pb_CRCType pb0 = CRCNo \<longrightarrow> c = []"
  proof (cases "n = 9 \<or> n = 11")
    case True
    then show ?thesis using u by (auto simp: andThen_eq_Inr calculateCRCBuff_def emptyCRC_def split: if_splits intro: that)
  next
    case False
    moreover have "pb_CRC pb0 = []" using f by (auto simp: pb_fields_def andThen_eq_Inr split: if_splits)
    ultimately show ?thesis using u by (intro that[of "pb_CRC pb0"]) simp_all
  qed
  have eids: "wf_eid (Destination pb) \<and> wf_eid (SourceNode pb) \<and> wf_eid (ReportTo pb) \<and> Version pb = dtnVersion"
    using pb_fields_read[OF f] eid_read ok len pb by (fastforce simp: pb_CheckValid_def)
  then show ?thesis using pb c
    by (auto simp: wf_pb_def settle_pb_def pb_HasCRC_def HasFragmentation_def)
qed

text \<open>The blocks that the loop collects were all read from a shorter input.\<close>

definition was_read :: "ebm \<Rightarrow> nat \<Rightarrow> canonical_block \<Rightarrow> bool" where
  "was_read M n cb \<longleftrightarrow> (\<exists>i r. length i \<le> n \<and> cb_UnmarshalCbor L M i = Inr (cb, r))"

lemma read_blocks_read:
  assumes "read_blocks L M exts payload i = Some (Inr (exts', payload', r))" and "length i \<le> n"
    and "\<forall>cb \<in> set exts. was_read M n cb \<and> TypeCode cb \<noteq> Inr BlockTypePayloadBlock"
    and "payload = empty_canonical \<or> was_read M n payload \<and> TypeCode payload = Inr BlockTypePayloadBlock"
  shows "(\<forall>cb \<in> set exts'. was_read M n cb \<and> TypeCode cb \<noteq> Inr BlockTypePayloadBlock) \<and>
    (payload' = empty_canonical \<or> was_read M n payload' \<and> TypeCode payload' = Inr BlockTypePayloadBlock)"
  using assms
proof (induction "length i" arbitrary: i exts payload rule: less_induct)
  case less
  show ?case
  proof (cases "cb_UnmarshalCbor L M i")
    case (Inl e)
    then show ?thesis using less.prems by (subst (asm) read_blocks.simps) (auto split: if_splits)
  next
    case (Inr x)
    obtain cb r1 where x: "x = (cb, r1)" by (cases x)
    have r1: "length r1 < length i" using Inr x takes_frontD [OF cb_front] strict_suffix_length by blast
    have le: "length r1 \<le> n" using r1 less.prems(2) by simp
    have cb: "was_read M n cb" using Inr x less.prems(2) by (auto simp: was_read_def)
    obtain v where "Value cb = Some v" using Inr x cb_UnmarshalCbor_Value by blast
    then have t: "TypeCode cb = Inr (BlockTypeCode v)" by (simp add: TypeCode_def)
    have step: "(if BlockTypeCode v = BlockTypePayloadBlock then read_blocks L M exts cb r1
        else read_blocks L M (exts @ [cb]) payload r1) = Some (Inr (exts', payload', r))"
      using less.prems(1) Inr x t by (subst (asm) read_blocks.simps) simp
    show ?thesis
    proof (cases "BlockTypeCode v = BlockTypePayloadBlock")
      case True
      then show ?thesis using less.hyps[OF r1, of exts cb] step cb t le less.prems by simp
    next
      case False
      then show ?thesis using less.hyps[OF r1, of "exts @ [cb]" payload] step cb t le less.prems by simp
    qed
  qed
qed

lemma checked_blocks: "b_CheckValid now b = Inr [] \<Longrightarrow>
  pb_CheckValid (PrimaryBlock b) = [] \<and> cb_CheckValid (b_PayloadBlock b) = Inr [] \<and>
  (\<forall>cb \<in> set (ExtensionBlocks b). cb_CheckValid cb = Inr [])"
proof -
  assume "b_CheckValid now b = Inr []"
  then obtain exts where e: "map_res cb_CheckValid (ExtensionBlocks b) = Inr exts" "concat exts = []"
    and "pb_CheckValid (PrimaryBlock b) = []" "cb_CheckValid (b_PayloadBlock b) = Inr []"
    by (auto simp: b_CheckValid_def andThen_eq_Inr)
  moreover have "cb_CheckValid cb = Inr []" if mem: "cb \<in> set (ExtensionBlocks b)" for cb
  proof -
    obtain i where i: "i < length (ExtensionBlocks b)" "ExtensionBlocks b ! i = cb"
      using mem unfolding in_set_conv_nth by blast
    have "cb_CheckValid cb = Inr (exts ! i)" using map_res_nth[OF e(1) i(1)] unfolding i(2) .
    moreover have "exts ! i \<in> set exts" using i(1) map_res_Inr_length[OF e(1)] by simp
    moreover have "exts ! i = []" if "exts ! i \<in> set exts" using that e(2) by simp
    ultimately show ?thesis by simp
  qed
  ultimately show ?thesis by blast
qed

lemma accepted_wf:
  assumes M: "checked_types M" and read: "ParseBundle L M now i = Some (Inr (b, []))" and len: "length i < 2 ^ 63"
  shows "wf_bundle M (settle b) \<and> b_CheckValid now b = Inr []"
proof -
  obtain pb r1 r2 exts payload r3 where m: "ReadExpect L (IndefiniteArray L) i = Inr ((), r1)"
    "pb_UnmarshalCbor L r1 = Inr (pb, r2)" "read_blocks L M [] empty_canonical r2 = Some (Inr (exts, payload, r3))"
    "b = \<lparr>PrimaryBlock = pb, ExtensionBlocks = exts, b_PayloadBlock = payload\<rparr>" "b_CheckValid now b = Inr []"
    using read by (auto simp: ParseBundle_def b_UnmarshalCbor_def andThen_eq_Inr Let_def split: sum.splits option.splits prod.splits)
  have lens: "length r1 < 2 ^ 63" "length r2 < 2 ^ 63"
    using len takes_frontD[OF expect_front m(1)] takes_frontD[OF pb_front m(2)] by (auto dest!: strict_suffix_length)
  note ok = checked_blocks[OF m(5)]
  have bl: "(\<forall>cb \<in> set exts. was_read M (length r2) cb \<and> TypeCode cb \<noteq> Inr BlockTypePayloadBlock) \<and>
    (payload = empty_canonical \<or> was_read M (length r2) payload \<and> TypeCode payload = Inr BlockTypePayloadBlock)"
    using read_blocks_read[OF m(3), of "length r2"] by simp
  have wf: "wf_cb M cb" if "was_read M (length r2) cb" "cb_CheckValid cb = Inr []" for cb
    using that cb_read[OF M] lens(2) by (auto simp: was_read_def)
  have "payload \<noteq> empty_canonical" using ok m(4) by (auto simp: cb_CheckValid_def empty_canonical_def nil_deref_def)
  then show ?thesis
    using bl wf ok m(4,5) pb_read[OF m(2) _ lens(1)] by (auto simp: wf_bundle_def)
qed

section \<open>And can be serialised again\<close>

lemma write_entries_total:
  "\<forall>(k, v) \<in> set es. wf_eid k \<Longrightarrow> \<exists>bs. write_entries L w es = Inr bs"
  by (induction es) (fastforce dest: eid_marshals)+

lemma ext_marshals:
  assumes "wf_ext v"
  shows "\<exists>data. ext_Marshal L v = Inr data"
proof (cases v)
  case (PreviousNodeBlock e)
  then show ?thesis using assms eid_marshals by simp
next
  case (DTLSRBlock d)
  then obtain k es where "eid_MarshalCbor L (pd_ID d) = Inr k" "write_entries L (WriteUInt L) (pd_Peers d) = Inr es"
    using assms eid_marshals[of "pd_ID d"] write_entries_total[of "pd_Peers d" "WriteUInt L"] by auto
  then show ?thesis using DTLSRBlock by (simp add: DTLSR_MarshalCbor_def)
next
  case (ProphetBlock ps)
  then obtain es where "write_entries L (WriteFloat64 L) ps = Inr es"
    using assms write_entries_total[of ps "WriteFloat64 L"] by auto
  then show ?thesis using ProphetBlock by (simp add: Prophet_MarshalCbor_def)
qed simp_all

lemma cb_marshals:
  assumes "wf_cb M cb"
  shows "(\<exists>r. cb_MarshalCbor L cb = Inr r) \<longleftrightarrow> known_crc (cb_CRCType cb)"
proof -
  obtain v where v: "Value cb = Some v" "wf_ext v" using assms by (auto simp: wf_cb_def split: option.splits)
  obtain data where "ext_Marshal L v = Inr data" using ext_marshals[OF v(2)] by blast
  then have "WriteBlock L v = Inr (WriteByteString L data)" by (cases v) (simp_all add: WriteBlock_def)
  moreover have "(\<exists>c. calculateCRCBuff L buff (cb_CRCType cb) = Inr c) \<longleftrightarrow> known_crc (cb_CRCType cb)" for buff
    by (rule calculateCRCBuff_ok_iff)
  ultimately show ?thesis using v(1)
    by (cases "cb_HasCRC cb") (auto simp: cb_MarshalCbor_def TypeCode_def Let_def andThen_eq_Inr cb_HasCRC_def known_crc_def)
qed

lemma pb_settled_marshals:
  assumes "wf_pb (settle_pb pb)"
  shows "(\<exists>r. pb_MarshalCbor L pb = Inr r) \<longleftrightarrow> known_crc (pb_CRCType pb)"
proof -
  obtain d s r where "eid_MarshalCbor L (Destination pb) = Inr d" "eid_MarshalCbor L (SourceNode pb) = Inr s"
    "eid_MarshalCbor L (ReportTo pb) = Inr r"
    using assms eid_marshals unfolding wf_pb_def settle_pb_fields by blast
  then obtain body where "pb_body L pb = Inr body" by (simp add: pb_body_def Let_def)
  moreover have "(\<exists>c. calculateCRCBuff L body (pb_CRCType pb) = Inr c) \<longleftrightarrow> known_crc (pb_CRCType pb)"
    by (rule calculateCRCBuff_ok_iff)
  ultimately show ?thesis
    by (cases "pb_HasCRC pb") (auto simp: pb_MarshalCbor_def andThen_eq_Inr pb_HasCRC_def known_crc_def)
qed

lemma blocks_marshal:
  assumes "\<forall>cb \<in> set cbs. wf_cb M cb"
  shows "(\<exists>r. marshal_blocks L cbs = Inr r) \<longleftrightarrow> (\<forall>cb \<in> set cbs. known_crc (cb_CRCType cb))"
  using assms
proof (induction cbs)
  case (Cons cb cbs)
  then have "(\<exists>r. cb_MarshalCbor L cb = Inr r) \<longleftrightarrow> known_crc (cb_CRCType cb)"
    "(\<exists>r. marshal_blocks L cbs = Inr r) \<longleftrightarrow> (\<forall>cb \<in> set cbs. known_crc (cb_CRCType cb))"
    using cb_marshals[of M cb] by simp_all
  then show ?case by (simp add: andThen_eq_Inr flip: ex_simps) (auto simp: andThen_eq_Inr)
qed simp

lemma settled_marshals:
  assumes "wf_bundle M (settle b)"
  shows "(\<exists>r. b_MarshalCbor L b = Inr r) \<longleftrightarrow> crcs_known b"
proof -
  have wf: "wf_pb (settle_pb (PrimaryBlock b))" "\<forall>cb \<in> set (ExtensionBlocks b). wf_cb M cb"
    "wf_cb M (b_PayloadBlock b)" using assms by (simp_all add: wf_bundle_def)
  have "(\<exists>r. pb_MarshalCbor L (PrimaryBlock b) = Inr r) \<longleftrightarrow> known_crc (pb_CRCType (PrimaryBlock b))"
    "(\<exists>r. marshal_blocks L (ExtensionBlocks b) = Inr r) \<longleftrightarrow> (\<forall>cb \<in> set (ExtensionBlocks b). known_crc (cb_CRCType cb))"
    "(\<exists>r. cb_MarshalCbor L (b_PayloadBlock b) = Inr r) \<longleftrightarrow> known_crc (cb_CRCType (b_PayloadBlock b))"
    by (rule pb_settled_marshals[OF wf(1)], rule blocks_marshal[OF wf(2)], rule cb_marshals[OF wf(3)])
  then show ?thesis
    by (auto simp: b_MarshalCbor_def crcs_known_def andThen_eq_Inr)
qed

lemma accepted_again:
  assumes M: "checked_types M" and read: "ParseBundle L M now i = Some (Inr (b, []))" and len: "length i < 2 ^ 63"
    and m: "b_MarshalCbor L b = Inr (bs, b')" "length bs < 2 ^ 64"
  shows "ParseBundle L M now bs = Some (Inr (settle b', [])) \<and> erase (settle b') = erase (settle b)"
proof -
  note wf = accepted_wf[OF M read len]
  have m': "b_MarshalCbor L (settle b) = Inr (bs, settle b')" using m(1) by (simp add: settle_Marshal)
  show ?thesis
    using bundle_rw[OF conjunct1[OF wf] m' m(2), of now] wf b_MarshalCbor_erase[OF m'] by (simp add: settle_CheckValid)
qed

end

section \<open>Messages that are read as they should not be\<close>

context cboring
begin

text \<open>Two fields more than the flags ask for, and a CRC type without a CRC.\<close>

lemma stray_pb_rw:
  assumes "wf_eid dst" "wf_eid src" "wf_eid rpt"
    and "eid_MarshalCbor L dst = Inr d" "eid_MarshalCbor L src = Inr s" "eid_MarshalCbor L rpt = Inr t"
  shows "pb_UnmarshalCbor L (WriteArrayLength L 10 @ WriteUInt L dtnVersion @ WriteUInt L bcf @ WriteUInt L CRCNo @
      d @ s @ t @ ct_MarshalCbor L ct @ WriteUInt L lt @ WriteUInt L off @ WriteUInt L tot @ r) =
    Inr (\<lparr>Version = dtnVersion, BundleControlFlags = bcf, pb_CRCType = CRCNo, Destination = dst, SourceNode = src,
      ReportTo = rpt, CreationTimestamp = ct, Lifetime = lt, FragmentOffset = off, TotalDataLength = tot,
      pb_CRC = []\<rparr>, r)"
  using assms by (simp add: pb_UnmarshalCbor_def pb_fields_def read_back eid_rw ct_rw)

lemma any_crc_rw:
  assumes "wf_ext v" "registered M v" "WriteBlock L v = Inr val" "length val < 2 ^ 64"
  shows "cb_UnmarshalCbor L M (WriteArrayLength L 5 @ WriteUInt L (BlockTypeCode v) @ WriteUInt L bn @ WriteUInt L f @
      WriteUInt L c @ val @ r) =
    Inr (\<lparr>BlockNumber = bn, BlockControlFlags = f, cb_CRCType = c, cb_CRC = [], Value = Some v\<rparr>, r)"
  by (simp add: cb_UnmarshalCbor_def cb_fields_rw block_rw[OF assms] cb_checkCRC_def)

lemma read_payload:
  assumes "cb_UnmarshalCbor L M (bs @ [BreakCode L]) = Inr (cb, [BreakCode L])" "TypeCode cb = Inr BlockTypePayloadBlock"
  shows "read_blocks L M exts payload (bs @ [BreakCode L]) = Some (Inr (exts, cb, [BreakCode L]))"
  using assms read_blocks_break[of M exts cb "[]"] by (subst read_blocks.simps) simp

end

section \<open>Samples\<close>

text \<open>
  The sample bundle as a peer may write it: with offset and length behind the fields of a primary block that
  is not a fragment, and with a payload block of the CRC type 3 that has no CRC.
\<close>

definition stray_bytes :: bytes where
  "stray_bytes = [159, 138, 7, 0, 0, 130, 1, 100, 47, 47, 97, 47, 130, 1, 100, 47, 47, 97, 47, 130, 1, 100,
     47, 47, 97, 47, 130, 1, 0, 9, 5, 6, 133, 1, 1, 0, 0, 67, 1, 2, 3, 255]"

definition unknown_crc_bytes :: bytes where
  "unknown_crc_bytes = [159, 136, 7, 0, 0, 130, 1, 100, 47, 47, 97, 47, 130, 1, 100, 47, 47, 97, 47, 130, 1, 100,
     47, 47, 97, 47, 130, 1, 0, 9, 133, 1, 1, 0, 3, 67, 1, 2, 3, 255]"

definition stray_sample :: dtn_bundle where
  "stray_sample =
     \<lparr>PrimaryBlock = sample_primary\<lparr>FragmentOffset := 5, TotalDataLength := 6\<rparr>, ExtensionBlocks = [],
      b_PayloadBlock = NewCanonicalBlock 1 0 (PayloadBlock [1, 2, 3])\<rparr>"

definition unknown_crc_sample :: dtn_bundle where
  "unknown_crc_sample =
     \<lparr>PrimaryBlock = sample_primary, ExtensionBlocks = [],
      b_PayloadBlock = (NewCanonicalBlock 1 0 (PayloadBlock [1, 2, 3]))\<lparr>cb_CRCType := 3\<rparr>\<rparr>"

lemma plain_checks:
  "b_CheckValid 0 \<lparr>PrimaryBlock = sample_primary\<lparr>FragmentOffset := off, TotalDataLength := tot\<rparr>, ExtensionBlocks = [],
     b_PayloadBlock = (NewCanonicalBlock 1 0 (PayloadBlock d))\<lparr>cb_CRCType := c\<rparr>\<rparr> = Inr []"
  by (simp add: b_CheckValid_def sample_primary_def NewCanonicalBlock_def
      cb_CheckValid_def blockcf_CheckValid_def block_type_defs
      pb_CheckValid_def bcf_CheckValid_def Has_def dtnVersion_def
      wf_eidD [OF sample_eid_wf] IsZeroTime_def ct_DtnTime_def IsLifetimeExceeded_def Time_small
      milliseconds1970To2k_def duration_small)
    (simp add: sample_eid_def DtnNone_def)

lemma sample_payload_read:
  "cb_UnmarshalCbor rfc_lib GetExtensionBlockManager ([133, 1, 1, 0] @ WriteUInt rfc_lib c @ [67, 1, 2, 3] @ r) =
    Inr ((NewCanonicalBlock 1 0 (PayloadBlock [1, 2, 3]))\<lparr>cb_CRCType := c\<rparr>, r)"
proof -
  have "WriteBlock rfc_lib (PayloadBlock [1, 2, 3]) = Inr [67, 1, 2, 3]"
    by (simp add: WriteBlock_def rfc_simps rfc_head_def)
  moreover have "registered GetExtensionBlockManager (PayloadBlock [1, 2, 3])"
    by (simp add: registered_def createBlock_def GetExtensionBlockManager_eq block_type_defs)
  ultimately show ?thesis
    using cboring.any_crc_rw[OF cboring_rfc, of "PayloadBlock [1, 2, 3]" GetExtensionBlockManager _ 1 0 c r]
    by (simp add: rfc_simps rfc_head_def block_type_defs NewCanonicalBlock_def)
qed

lemma sample_parse:
  assumes "pb_UnmarshalCbor rfc_lib (p @ [133, 1, 1, 0] @ WriteUInt rfc_lib c @ [67, 1, 2, 3] @ [255]) =
      Inr (sample_primary\<lparr>FragmentOffset := off, TotalDataLength := tot\<rparr>,
        [133, 1, 1, 0] @ WriteUInt rfc_lib c @ [67, 1, 2, 3] @ [255])"
  shows "ParseBundle rfc_lib GetExtensionBlockManager 0
      (159 # p @ [133, 1, 1, 0] @ WriteUInt rfc_lib c @ [67, 1, 2, 3] @ [255]) =
    Some (Inr (\<lparr>PrimaryBlock = sample_primary\<lparr>FragmentOffset := off, TotalDataLength := tot\<rparr>, ExtensionBlocks = [],
      b_PayloadBlock = (NewCanonicalBlock 1 0 (PayloadBlock [1, 2, 3]))\<lparr>cb_CRCType := c\<rparr>\<rparr>, []))"
proof -
  let ?bs = "[133, 1, 1, 0] @ WriteUInt rfc_lib c @ [67, 1, 2, 3]"
  let ?cb = "(NewCanonicalBlock 1 0 (PayloadBlock [1, 2, 3]))\<lparr>cb_CRCType := c\<rparr>"
  have break: "BreakCode rfc_lib = 255" "IndefiniteArray rfc_lib = 159" by (simp_all add: rfc_simps)
  have "read_blocks rfc_lib GetExtensionBlockManager [] empty_canonical (?bs @ [BreakCode rfc_lib]) =
      Some (Inr ([], ?cb, [BreakCode rfc_lib]))"
    by (rule cboring.read_payload[OF cboring_rfc])
      (use sample_payload_read[of c "[BreakCode rfc_lib]"] in \<open>simp_all add: TypeCode_def NewCanonicalBlock_def\<close>)
  then have "read_blocks rfc_lib GetExtensionBlockManager [] empty_canonical (?bs @ [255]) = Some (Inr ([], ?cb, [255]))"
    unfolding break .
  moreover have "ReadExpect rfc_lib (IndefiniteArray rfc_lib) (159 # r) = Inr ((), r)" for r
    using cboring.expect_hit[OF cboring_rfc, of 159 r] by (simp add: break)
  ultimately show ?thesis
    using assms by (simp add: ParseBundle_def b_UnmarshalCbor_def plain_checks)
qed

lemma stray_parses: "ParseBundle rfc_lib GetExtensionBlockManager 0 stray_bytes = Some (Inr (stray_sample, []))"
proof -
  have "pb_UnmarshalCbor rfc_lib ([138, 7, 0, 0, 130, 1, 100, 47, 47, 97, 47, 130, 1, 100, 47, 47, 97, 47, 130, 1, 100,
       47, 47, 97, 47, 130, 1, 0, 9, 5, 6] @ r) = Inr (sample_primary\<lparr>FragmentOffset := 5, TotalDataLength := 6\<rparr>, r)" for r
    using cboring.stray_pb_rw[OF cboring_rfc sample_eid_wf sample_eid_wf sample_eid_wf sample_eid_bytes sample_eid_bytes
        sample_eid_bytes, of 0 "(1, 0)" 9 5 6 r]
    by (simp add: rfc_simps rfc_head_def sample_primary_def ct_MarshalCbor_def dtnVersion_def)
  from sample_parse[OF this, of 0] show ?thesis
    by (simp add: stray_bytes_def stray_sample_def rfc_simps rfc_head_def NewCanonicalBlock_def)
qed

lemma unknown_crc_parses:
  "ParseBundle rfc_lib GetExtensionBlockManager 0 unknown_crc_bytes = Some (Inr (unknown_crc_sample, []))"
proof -
  have "pb_UnmarshalCbor rfc_lib ([136, 7, 0, 0, 130, 1, 100, 47, 47, 97, 47, 130, 1, 100, 47, 47, 97, 47, 130, 1, 100,
       47, 47, 97, 47, 130, 1, 0, 9] @ r) = Inr (sample_primary\<lparr>FragmentOffset := 0, TotalDataLength := 0\<rparr>, r)" for r
    using cboring.pb_rw[OF cboring_rfc sample_primary_wf sample_primary_bytes, of r] by (simp add: sample_primary_def)
  from sample_parse[OF this, of 3] show ?thesis
    by (simp add: unknown_crc_bytes_def unknown_crc_sample_def rfc_simps rfc_head_def)
      (simp add: sample_primary_def)
qed

section \<open>Properties\<close>

text \<open>
  Claim C4: whatever the parser accepts is well formed, up to an offset and a length that a bundle has without being a
  fragment; it can be serialised exactly if its CRC types are known, and what is written is accepted and reads back as
  the same bundle.
\<close>

theorem accepted_reparses:
  assumes "cboring L" and "checked_types M" and "ParseBundle L M now i = Some (Inr (b, []))" and "length i < 2 ^ 63"
  shows "wf_bundle M (settle b) \<and> ((\<exists>r. b_MarshalCbor L b = Inr r) \<longleftrightarrow> crcs_known b) \<and>
    (\<forall>bs b'. b_MarshalCbor L b = Inr (bs, b') \<and> length bs < 2 ^ 64 \<longrightarrow>
      ParseBundle L M now bs = Some (Inr (settle b', [])) \<and> erase (settle b') = erase (settle b))"
  using cboring.accepted_wf[OF assms] cboring.settled_marshals[OF assms(1)] cboring.accepted_again[OF assms] by blast

theorem accepted_reparses_witness:
  "wf_bundle GetExtensionBlockManager (settle stray_sample) \<and> (\<exists>r. b_MarshalCbor rfc_lib stray_sample = Inr r) \<and>
   (\<nexists>r. b_MarshalCbor rfc_lib unknown_crc_sample = Inr r)"
  using accepted_reparses[OF cboring_rfc checked_types_default stray_parses]
    accepted_reparses[OF cboring_rfc checked_types_default unknown_crc_parses]
  by (simp add: stray_bytes_def unknown_crc_bytes_def)
    (simp add: crcs_known_def stray_sample_def unknown_crc_sample_def sample_primary_def NewCanonicalBlock_def known_crc_def)

text \<open>
  Claim C40: the fuzzer's entry point returns on every input. For an input with the right start it panics exactly
  if the parser does, or if the parser accepts a bundle with a CRC type that it cannot write; it counts exactly the
  bundles that are accepted and written.
\<close>

theorem fuzz_outcome:
  assumes "cboring L" and "length data < 2 ^ 63" and "data = [] \<or> data ! 0 = 0x9f"
  shows "\<exists>res. Fuzz L now data = Some res \<and>
    ((\<exists>e. res = Inl e) \<longleftrightarrow> (\<exists>p. ParseBundle L GetExtensionBlockManager now data = Some (Inl (Panic p))) \<or>
       (\<exists>b. ParseBundle L GetExtensionBlockManager now data = Some (Inr (b, [])) \<and> \<not> crcs_known b)) \<and>
    (res = Inr 1 \<longleftrightarrow> (\<exists>b. ParseBundle L GetExtensionBlockManager now data = Some (Inr (b, [])) \<and> crcs_known b))"
proof -
  obtain r where r: "ParseBundle L GetExtensionBlockManager now data = Some r"
    using cboring.ParseBundle_returns[OF assms(1)] by blast
  have m: "(\<exists>x. b_MarshalCbor L b = Inr x) \<longleftrightarrow> crcs_known b" if "r = Inr (b, [])" for b
    using cboring.accepted_wf[OF assms(1) checked_types_default _ assms(2), of now b] that r
      cboring.settled_marshals[OF assms(1), of GetExtensionBlockManager b] by simp
  have start: "\<not> (length data > 0 \<and> data ! 0 \<noteq> 0x9f)" using assms(3) by auto
  show ?thesis
    unfolding Fuzz_def if_not_P[OF start] r
    using m by (auto split: sum.splits err.splits list.splits prod.splits)
qed

theorem fuzz_outcome_witness: "\<exists>e. Fuzz rfc_lib 0 unknown_crc_bytes = Some (Inl e)"
  using fuzz_outcome[OF cboring_rfc, of unknown_crc_bytes 0] unknown_crc_parses
  by (simp add: unknown_crc_bytes_def)
    (auto simp: crcs_known_def unknown_crc_sample_def NewCanonicalBlock_def known_crc_def)

text \<open>
  Also shown: a bundle that carries an offset or a length without being a fragment is accepted under an ID with these
  fields, and loses them as soon as it is written: the bundle that is read back has another ID, although the textual
  forms of the two IDs, and with them the key in the database and the name of the file, are the same.
\<close>

theorem stray_fields_change_ID:
  assumes "cboring L" and "checked_types M" and "ParseBundle L M now i = Some (Inr (b, []))" and "length i < 2 ^ 63"
    and "\<not> HasFragmentation (PrimaryBlock b)" and "FragmentOffset (PrimaryBlock b) \<noteq> 0"
    and "b_MarshalCbor L b = Inr (bs, b')" and "length bs < 2 ^ 64"
  shows "\<exists>b''. ParseBundle L M now bs = Some (Inr (b'', [])) \<and> b_ID b'' \<noteq> b_ID b \<and>
    bid_String (b_ID b'') = bid_String (b_ID b)"
proof (intro exI conjI)
  have again: "ParseBundle L M now bs = Some (Inr (settle b', []))" "erase (settle b') = erase (settle b)"
    using cboring.accepted_again[OF assms(1-4,7,8)] by blast+
  have same: "b_ID (settle b') = b_ID (settle b)" by (rule erase_fields(1)[OF again(2)])
  show "ParseBundle L M now bs = Some (Inr (settle b', []))" by (fact again(1))
  show "bid_String (b_ID (settle b')) = bid_String (b_ID b)" unfolding same by (rule settle_ID_String)
  have "FragmentOffset (settle_pb (PrimaryBlock b)) = 0" using assms(5) by (simp add: settle_pb_def)
  then show "b_ID (settle b') \<noteq> b_ID b" unfolding same using assms(6) by (simp add: b_ID_def)
qed

theorem stray_fields_change_ID_witness:
  "\<exists>bs b''. ParseBundle rfc_lib GetExtensionBlockManager 0 bs = Some (Inr (b'', [])) \<and> b_ID b'' \<noteq> b_ID stray_sample"
proof -
  have "b_MarshalCbor rfc_lib stray_sample = Inr ([159, 136, 7, 0, 0, 130, 1, 100, 47, 47, 97, 47, 130, 1, 100, 47, 47,
      97, 47, 130, 1, 100, 47, 47, 97, 47, 130, 1, 0, 9, 133, 1, 1, 0, 0, 67, 1, 2, 3, 255], stray_sample)"
    by (simp add: b_MarshalCbor_def stray_sample_def sample_primary_def pb_MarshalCbor_def pb_body_def Let_def
        HasFragmentation_def pb_HasCRC_def Has_def rfc_simps rfc_head_def sample_eid_bytes ct_MarshalCbor_def
        dtnVersion_def cb_MarshalCbor_def NewCanonicalBlock_def cb_HasCRC_def TypeCode_def block_type_defs WriteBlock_def)
  moreover have "\<not> HasFragmentation (PrimaryBlock stray_sample)" "FragmentOffset (PrimaryBlock stray_sample) \<noteq> 0"
    by (simp_all add: stray_sample_def sample_primary_def HasFragmentation_def Has_def)
  ultimately show ?thesis
    using stray_fields_change_ID[OF cboring_rfc checked_types_default stray_parses _ \<open>\<not> HasFragmentation _\<close>]
    by (fastforce simp: stray_bytes_def)
qed

end
