(* ===== verification/Journey.thy ===== *)
theory Journey
  imports Network Accepted
begin

text \<open>
  A bundle on its way over any number of nodes that run this program, each with its own store, over transports that
  deliver the bytes they were given. What a node hands on is what its forwarding makes of the bundle it took in; what
  the next one takes in is what its parser makes of these bytes.
\<close>


section \<open>The blocks of a bundle without its CRC values\<close>






section \<open>Hops and journeys\<close>




section \<open>Properties\<close>




end
