(* ===== verification/Unix_Listener.thy ===== *)
theory Unix_Listener
  imports Go_Std
begin

text \<open>
  The life of the UNIX agent's socket in \<^verbatim>\<open>pkg/application_agent/unix_agent/unix_agent.go\<close>: the goroutine of
  \<^verbatim>\<open>listen\<close>, which also calls \<^verbatim>\<open>Shutdown\<close> when it cannot set a deadline, and the \<^verbatim>\<open>Shutdown\<close> that the agent
  manager calls. The two run concurrently: a step is one operation on the stop channel or the socket.
\<close>

section \<open>The two goroutines\<close>

text \<open>Where \<^verbatim>\<open>listen\<close> is: at the select, in its default case, accepting, in its own shutdown, or done.\<close>

datatype listen_pc = At_Select | At_Deadline | At_Accept | At_Stop | At_Close | Listen_Done

text \<open>Where the manager's call of \<^verbatim>\<open>Shutdown\<close> is.\<close>

datatype shutdown_pc = Not_Called | Stop_Closed | Shutdown_Done

record unix_socket =
  us_listen :: listen_pc
  us_shutdown :: shutdown_pc
  stop_closed :: bool
  socket_closed :: bool
  us_panic :: bool
  us_conns :: nat

definition unix_Start :: "err option \<Rightarrow> unix_socket res" where
  "unix_Start listen_err =
     (case listen_err of
        Some e \<Rightarrow> Inl e
      | None \<Rightarrow> Inr \<lparr>us_listen = At_Select, us_shutdown = Not_Called, stop_closed = False, socket_closed = False,
          us_panic = False, us_conns = 0\<rparr>)"

text \<open>\<^verbatim>\<open>close(agent.stopChan)\<close>: closing a closed channel panics.\<close>

definition close_stop :: "unix_socket \<Rightarrow> unix_socket" where
  "close_stop s = (if stop_closed s then s\<lparr>us_panic := True\<rparr> else s\<lparr>stop_closed := True\<rparr>)"

text \<open>
  \<open>calm\<close> says that deadlines can be set as long as the socket is open and that the manager does not
  call \<^verbatim>\<open>Shutdown\<close> while \<^verbatim>\<open>listen\<close> is between its select and its deadline.
\<close>

inductive listen_step :: "bool \<Rightarrow> unix_socket \<Rightarrow> unix_socket \<Rightarrow> bool" for calm where
  select_stop: "\<lbrakk>\<not> us_panic s; us_listen s = At_Select; stop_closed s\<rbrakk> \<Longrightarrow>
    listen_step calm s (s\<lparr>us_listen := Listen_Done\<rparr>)"
| select_default: "\<lbrakk>\<not> us_panic s; us_listen s = At_Select; \<not> stop_closed s\<rbrakk> \<Longrightarrow>
    listen_step calm s (s\<lparr>us_listen := At_Deadline\<rparr>)"
| deadline_set: "\<lbrakk>\<not> us_panic s; us_listen s = At_Deadline; \<not> socket_closed s\<rbrakk> \<Longrightarrow>
    listen_step calm s (s\<lparr>us_listen := At_Accept\<rparr>)"
| deadline_failed: "\<lbrakk>\<not> us_panic s; us_listen s = At_Deadline; calm \<Longrightarrow> socket_closed s\<rbrakk> \<Longrightarrow>
    listen_step calm s (s\<lparr>us_listen := At_Stop\<rparr>)"
| accepted: "\<lbrakk>\<not> us_panic s; us_listen s = At_Accept; \<not> socket_closed s\<rbrakk> \<Longrightarrow>
    listen_step calm s (s\<lparr>us_listen := At_Select, us_conns := us_conns s + 1\<rparr>)"
| not_accepted: "\<lbrakk>\<not> us_panic s; us_listen s = At_Accept\<rbrakk> \<Longrightarrow>
    listen_step calm s (s\<lparr>us_listen := At_Select\<rparr>)"
| own_stop: "\<lbrakk>\<not> us_panic s; us_listen s = At_Stop\<rbrakk> \<Longrightarrow>
    listen_step calm s (close_stop (s\<lparr>us_listen := At_Close\<rparr>))"
| own_close: "\<lbrakk>\<not> us_panic s; us_listen s = At_Close\<rbrakk> \<Longrightarrow>
    listen_step calm s (s\<lparr>us_listen := At_Select, socket_closed := True\<rparr>)"

inductive shutdown_step :: "bool \<Rightarrow> unix_socket \<Rightarrow> unix_socket \<Rightarrow> bool" for calm where
  stop: "\<lbrakk>\<not> us_panic s; us_shutdown s = Not_Called; calm \<Longrightarrow> us_listen s \<noteq> At_Deadline\<rbrakk> \<Longrightarrow>
    shutdown_step calm s (close_stop (s\<lparr>us_shutdown := Stop_Closed\<rparr>))"
| close: "\<lbrakk>\<not> us_panic s; us_shutdown s = Stop_Closed\<rbrakk> \<Longrightarrow>
    shutdown_step calm s (s\<lparr>us_shutdown := Shutdown_Done, socket_closed := True\<rparr>)"

inductive socket_reach :: "bool \<Rightarrow> unix_socket \<Rightarrow> bool" for calm where
  started: "unix_Start None = Inr s \<Longrightarrow> socket_reach calm s"
| listens: "\<lbrakk>socket_reach calm s; listen_step calm s s'\<rbrakk> \<Longrightarrow> socket_reach calm s'"
| shuts_down: "\<lbrakk>socket_reach calm s; shutdown_step calm s s'\<rbrakk> \<Longrightarrow> socket_reach calm s'"

inductive_cases listen_stepE: "listen_step calm s s'"
inductive_cases shutdown_stepE: "shutdown_step calm s s'"

section \<open>Calm runs\<close>

text \<open>In a calm run only the manager stops the agent, so that the channel is closed once.\<close>

definition calm_inv :: "unix_socket \<Rightarrow> bool" where
  "calm_inv s \<longleftrightarrow> \<not> us_panic s \<and> us_listen s \<notin> {At_Stop, At_Close} \<and>
     (stop_closed s \<longleftrightarrow> us_shutdown s \<noteq> Not_Called) \<and> (socket_closed s \<longleftrightarrow> us_shutdown s = Shutdown_Done) \<and>
     (us_listen s = At_Deadline \<longrightarrow> \<not> stop_closed s) \<and> (us_listen s = Listen_Done \<longrightarrow> stop_closed s)"

lemma calm_listen: "listen_step True s s' \<Longrightarrow> calm_inv s \<Longrightarrow> calm_inv s'"
  by (erule listen_stepE) (auto simp: calm_inv_def)

lemma calm_shutdown: "shutdown_step True s s' \<Longrightarrow> calm_inv s \<Longrightarrow> calm_inv s'"
  by (erule shutdown_stepE) (auto simp: calm_inv_def close_stop_def)

lemma calm_reach: "socket_reach True s \<Longrightarrow> calm_inv s"
  by (induction rule: socket_reach.induct)
    (auto simp: unix_Start_def calm_inv_def[of "\<lparr>us_listen = _, us_shutdown = _, stop_closed = _, socket_closed = _,
        us_panic = _, us_conns = _\<rparr>"] intro: calm_listen calm_shutdown)

text \<open>How many steps \<^verbatim>\<open>listen\<close> can still take once the channel is closed.\<close>

fun steps_left :: "listen_pc \<Rightarrow> nat" where
  "steps_left Listen_Done = 0"
| "steps_left At_Select = 1"
| "steps_left At_Accept = 2"
| "steps_left At_Close = 2"
| "steps_left At_Stop = 3"
| "steps_left At_Deadline = 4"

lemma stopped_steps: "listen_step calm s s' \<Longrightarrow> stop_closed s \<Longrightarrow>
  us_panic s' \<or> stop_closed s' \<and> steps_left (us_listen s') < steps_left (us_listen s)"
  by (erule listen_stepE) (auto simp: close_stop_def)

lemma listen_goes_on: "\<not> us_panic s \<Longrightarrow> us_listen s \<noteq> Listen_Done \<Longrightarrow> \<exists>s'. listen_step calm s s'"
  by (cases "us_listen s"; cases "stop_closed s"; cases "socket_closed s") (blast intro: listen_step.intros)+

section \<open>Properties\<close>

text \<open>
  Also shown: in a calm run the agent never panics, \<^verbatim>\<open>listen\<close> is left only after the stop, and once the stop channel
  is closed every run of \<^verbatim>\<open>listen\<close> ends, after two steps at most.
\<close>

theorem unix_agent_stops:
  assumes "socket_reach True s"
  shows "\<not> us_panic s \<and> (us_listen s = Listen_Done \<longrightarrow> stop_closed s) \<and>
    (stop_closed s \<longrightarrow> steps_left (us_listen s) \<le> 2 \<and>
      (us_listen s \<noteq> Listen_Done \<longrightarrow> (\<exists>s'. listen_step True s s')) \<and>
      (\<forall>s'. listen_step True s s' \<longrightarrow> stop_closed s' \<and> steps_left (us_listen s') < steps_left (us_listen s)))"
proof -
  have inv: "calm_inv s" by (rule calm_reach[OF assms])
  have "steps_left (us_listen s) \<le> 2" if "stop_closed s"
    using inv that by (cases "us_listen s") (auto simp: calm_inv_def)
  moreover have "stop_closed s' \<and> steps_left (us_listen s') < steps_left (us_listen s)"
    if "stop_closed s" "listen_step True s s'" for s'
    using stopped_steps[OF that(2,1)] calm_listen[OF that(2) inv] by (simp add: calm_inv_def)
  ultimately show ?thesis using inv listen_goes_on[of s True] by (auto simp: calm_inv_def)
qed

theorem unix_agent_stops_witness:
  "\<exists>s. socket_reach True s \<and> stop_closed s \<and> us_listen s = At_Select \<and> \<not> us_panic s"
proof -
  let ?s = "\<lparr>us_listen = At_Select, us_shutdown = Not_Called, stop_closed = False, socket_closed = False,
    us_panic = False, us_conns = 0\<rparr>"
  have "socket_reach True ?s" by (rule socket_reach.started) (simp add: unix_Start_def)
  moreover have "shutdown_step True ?s (close_stop (?s\<lparr>us_shutdown := Stop_Closed\<rparr>))"
    by (rule shutdown_step.stop) simp_all
  ultimately have "socket_reach True (close_stop (?s\<lparr>us_shutdown := Stop_Closed\<rparr>))" by (rule socket_reach.shuts_down)
  then show ?thesis using unix_agent_stops by (intro exI[of _ "close_stop (?s\<lparr>us_shutdown := Stop_Closed\<rparr>)"])
    (simp add: close_stop_def)
qed

text \<open>
  Also shown: a shutdown of the manager that comes while \<^verbatim>\<open>listen\<close> is about to set its deadline closes the socket under
  it; \<^verbatim>\<open>listen\<close> then shuts the agent down a second time, and closing the closed channel panics.
\<close>

theorem unix_shutdown_race_panics: "\<exists>s. socket_reach False s \<and> us_panic s"
proof -
  let ?s = "\<lparr>us_listen = At_Select, us_shutdown = Not_Called, stop_closed = False, socket_closed = False,
    us_panic = False, us_conns = 0\<rparr>"
  have "socket_reach False ?s" by (rule socket_reach.started) (simp add: unix_Start_def)
  moreover have "listen_step False ?s (?s\<lparr>us_listen := At_Deadline\<rparr>)" by (rule listen_step.select_default) simp_all
  ultimately have 1: "socket_reach False (?s\<lparr>us_listen := At_Deadline\<rparr>)" by (rule socket_reach.listens)
  let ?t = "?s\<lparr>us_listen := At_Deadline, us_shutdown := Stop_Closed, stop_closed := True\<rparr>"
  have "shutdown_step False (?s\<lparr>us_listen := At_Deadline\<rparr>) ?t"
    using shutdown_step.stop[of "?s\<lparr>us_listen := At_Deadline\<rparr>" False] by (simp add: close_stop_def)
  then have 2: "socket_reach False ?t" by (rule socket_reach.shuts_down[OF 1])
  let ?u = "?t\<lparr>us_shutdown := Shutdown_Done, socket_closed := True\<rparr>"
  have "shutdown_step False ?t ?u" by (rule shutdown_step.close) simp_all
  then have 3: "socket_reach False ?u" by (rule socket_reach.shuts_down[OF 2])
  have "listen_step False ?u (?u\<lparr>us_listen := At_Stop\<rparr>)" by (rule listen_step.deadline_failed) simp_all
  then have 4: "socket_reach False (?u\<lparr>us_listen := At_Stop\<rparr>)" by (rule socket_reach.listens[OF 3])
  have "listen_step False (?u\<lparr>us_listen := At_Stop\<rparr>) (close_stop (?u\<lparr>us_listen := At_Close\<rparr>))"
    using listen_step.own_stop[of "?u\<lparr>us_listen := At_Stop\<rparr>" False] by simp
  then have "socket_reach False (close_stop (?u\<lparr>us_listen := At_Close\<rparr>))" by (rule socket_reach.listens[OF 4])
  then show ?thesis by (intro exI[of _ "close_stop (?u\<lparr>us_listen := At_Close\<rparr>)"]) (simp add: close_stop_def)
qed

end
