(* ===== verification/Json.thy ===== *)
theory Json
  imports Accepted Agents
begin

text \<open>
  The JSON forms in which the REST agent hands out bundles: the \<^verbatim>\<open>MarshalJSON\<close> methods of \<^verbatim>\<open>pkg/bpv7\<close> and the
  messages of \<^verbatim>\<open>pkg/application_agent/rest_agent/messages.go\<close>. A result is the tree that \<^verbatim>\<open>encoding/json\<close> prints;
  a nil slice is printed as null, and bytes in base64, which is the leaf \<open>JBytes\<close> here.
\<close>

datatype json =
    JNull
  | JString string
  | JNumber nat
  | JBytes bytes
  | JArray "json list"
  | JObject "(string \<times> json) list"

section \<open>Dates\<close>

text \<open>
  The proleptic Gregorian calendar, as \<^verbatim>\<open>time.Time\<close> has it: the number of days since 1970 is split into cycles of
  400, 100 and 4 years, single years and the day in the year.
\<close>

definition is_leap :: "int \<Rightarrow> bool" where
  "is_leap year \<longleftrightarrow> year mod 4 = 0 \<and> (year mod 100 \<noteq> 0 \<or> year mod 400 = 0)"

definition month_lengths :: "bool \<Rightarrow> nat list" where
  "month_lengths leap = [31, if leap then 29 else 28, 31, 30, 31, 30, 31, 31, 30, 31, 30, 31]"

fun find_month :: "nat list \<Rightarrow> nat \<Rightarrow> nat \<Rightarrow> nat \<times> nat" where
  "find_month [] k d = (k, d + 1)"
| "find_month (m # ms) k d = (if d < m then (k, d + 1) else find_month ms (k + 1) (d - m))"

definition year_yday :: "int \<Rightarrow> int \<times> nat" where
  "year_yday days =
     (let d = days + 719162;
          n400 = d div 146097; d = d mod 146097;
          n100 = min 3 (d div 36524); d = d - 36524 * n100;
          n4 = d div 1461; d = d - 1461 * n4;
          n = min 3 (d div 365)
      in (400 * n400 + 100 * n100 + 4 * n4 + n + 1, nat (d - 365 * n)))"

definition calendar_date :: "int \<Rightarrow> int \<times> nat \<times> nat" where
  "calendar_date days = (case year_yday days of (year, yday) \<Rightarrow> (year, find_month (month_lengths (is_leap year)) 1 yday))"

definition padded :: "nat \<Rightarrow> nat \<Rightarrow> string" where
  "padded w n = replicate (w - length (show_nat n)) CHR ''0'' @ show_nat n"

definition padded_int :: "nat \<Rightarrow> int \<Rightarrow> string" where
  "padded_int w n = (if n < 0 then ''-'' @ padded w (nat (- n)) else padded w (nat n))"

text \<open>\<^verbatim>\<open>Format("2006-01-02 15:04:05.000")\<close> of a time in UTC.\<close>

definition format_time :: "time \<Rightarrow> string" where
  "format_time t =
     (let secs = t div 1000000000; sod = nat (secs mod 86400)
      in case calendar_date (secs div 86400) of (year, month, day) \<Rightarrow>
        padded_int 4 year @ ''-'' @ padded 2 month @ ''-'' @ padded 2 day @ '' '' @
        padded 2 (sod div 3600) @ '':'' @ padded 2 (sod div 60 mod 60) @ '':'' @ padded 2 (sod mod 60) @ ''.'' @
        padded 3 (nat (t mod 1000000000 div 1000000)))"

definition DtnTime_String :: "dtn_time \<Rightarrow> string" where
  "DtnTime_String t = format_time (Time t)"

lemma find_month_sum:
  assumes "find_month ms k d = (k', x)"
  shows "k \<le> k' \<and> k' \<le> k + length ms \<and> 0 < x \<and> d = sum_list (take (k' - k) ms) + x - 1"
  using assms
proof (induction ms arbitrary: k d)
  case (Cons m ms)
  show ?case
  proof (cases "d < m")
    case False
    then have "k + 1 \<le> k' \<and> k' \<le> k + 1 + length ms \<and> 0 < x \<and> d - m = sum_list (take (k' - (k + 1)) ms) + x - 1"
      using Cons.IH[of "k + 1" "d - m"] Cons.prems False by simp
    moreover from this have "take (k' - k) (m # ms) = m # take (k' - (k + 1)) ms" by (simp add: take_Cons')
    ultimately show ?thesis using False by auto
  qed (use Cons.prems in auto)
qed auto

lemma find_month_inj: "find_month ms k d = find_month ms k d' \<Longrightarrow> d = d'"
  using find_month_sum by (metis surj_pair)

lemma year_yday_parts:
  obtains n400 n100 n4 n r where "days + 719162 = 146097 * n400 + 36524 * n100 + 1461 * n4 + 365 * n + r"
    "year_yday days = (400 * n400 + 100 * n100 + 4 * n4 + n + 1, nat r)"
    "0 \<le> n100" "n100 \<le> 3" "0 \<le> n4" "n4 \<le> 24" "0 \<le> n" "n \<le> 3" "0 \<le> r" "r \<le> 365"
proof -
  define d0 where "d0 = (days + 719162) mod 146097"
  define n100 where "n100 = min 3 (d0 div 36524)"
  define d1 where "d1 = d0 - 36524 * n100"
  define n4 where "n4 = d1 div 1461"
  define d2 where "d2 = d1 - 1461 * n4"
  define n where "n = min 3 (d2 div 365)"
  have d0: "0 \<le> d0" "d0 \<le> 146096" by (simp_all add: d0_def zle_diff1_eq[symmetric])
  have b: "0 \<le> n100" "n100 \<le> 3" "0 \<le> d1" "d1 \<le> 36524"
    using d0 by (auto simp: n100_def d1_def min_def)
  have c: "0 \<le> n4" "n4 \<le> 24" "0 \<le> d2" "d2 \<le> 1460"
    using b by (auto simp: n4_def d2_def)
  have e: "0 \<le> n" "n \<le> 3" "0 \<le> d2 - 365 * n" "d2 - 365 * n \<le> 365"
    using c by (auto simp: n_def min_def)
  have "days + 719162 = 146097 * ((days + 719162) div 146097) + d0" by (simp add: d0_def)
  then have "days + 719162 = 146097 * ((days + 719162) div 146097) + 36524 * n100 + 1461 * n4 + 365 * n + (d2 - 365 * n)"
    by (simp add: d2_def d1_def)
  moreover have "year_yday days =
      (400 * ((days + 719162) div 146097) + 100 * n100 + 4 * n4 + n + 1, nat (d2 - 365 * n))"
    unfolding year_yday_def Let_def n_def d2_def n4_def d1_def n100_def d0_def ..
  ultimately show thesis using that b(1,2) c(1,2) e by blast
qed

lemma mixed_radix:
  fixes k :: int
  assumes "k * a + b = k * a' + b'" and "0 \<le> b" "b < k" "0 \<le> b'" "b' < k"
  shows "a = a'" "b = b'"
proof -
  have "a = (k * a + b) div k" "a' = (k * a' + b') div k" using assms(2-5) by simp_all
  then show "a = a'" using assms(1) by simp
  then show "b = b'" using assms(1) by simp
qed

lemma year_yday_inj:
  assumes "year_yday a = year_yday b"
  shows "a = b"
proof -
  obtain n400 n100 n4 n r where A: "a + 719162 = 146097 * n400 + 36524 * n100 + 1461 * n4 + 365 * n + r"
    "year_yday a = (400 * n400 + 100 * n100 + 4 * n4 + n + 1, nat r)"
    "0 \<le> n100" "n100 \<le> 3" "0 \<le> n4" "n4 \<le> 24" "0 \<le> n" "n \<le> 3" "0 \<le> r" "r \<le> 365" by (rule year_yday_parts)
  obtain m400 m100 m4 m s where B: "b + 719162 = 146097 * m400 + 36524 * m100 + 1461 * m4 + 365 * m + s"
    "year_yday b = (400 * m400 + 100 * m100 + 4 * m4 + m + 1, nat s)"
    "0 \<le> m100" "m100 \<le> 3" "0 \<le> m4" "m4 \<le> 24" "0 \<le> m" "m \<le> 3" "0 \<le> s" "s \<le> 365" by (rule year_yday_parts)
  have "400 * n400 + (100 * n100 + 4 * n4 + n) = 400 * m400 + (100 * m100 + 4 * m4 + m)" and r: "r = s"
    using assms A(2,9) B(2,9) by auto
  from mixed_radix[OF this(1)] have "n400 = m400" "100 * n100 + (4 * n4 + n) = 100 * m100 + (4 * m4 + m)"
    using A(3-8) B(3-8) by linarith+
  moreover from mixed_radix[OF this(2)] have "n100 = m100" "4 * n4 + n = 4 * m4 + m"
    using A(3-8) B(3-8) by linarith+
  moreover from mixed_radix[OF this(2)] have "n4 = m4" "n = m" using A(7,8) B(7,8) by linarith+
  ultimately show ?thesis using A(1) B(1) r by simp
qed

lemma calendar_date_inj: "calendar_date a = calendar_date b \<Longrightarrow> a = b"
  by (auto simp: calendar_date_def split: prod.splits dest!: find_month_inj intro!: year_yday_inj)

lemma find_month_day:
  "find_month ms k d = (k', x) \<Longrightarrow> \<forall>m \<in> set ms. m \<le> 31 \<Longrightarrow> d < sum_list ms + 31 \<Longrightarrow> x \<le> 31"
  by (induction ms arbitrary: k d) (fastforce split: if_splits)+

lemma calendar_date_bounds: "calendar_date days = (year, month, day) \<Longrightarrow> month < 100 \<and> day < 100"
proof -
  assume date: "calendar_date days = (year, month, day)"
  obtain y d where yd: "year_yday days = (y, d)" by fastforce
  have "d \<le> 365" by (rule year_yday_parts[of days]) (use yd in auto)
  moreover have f: "find_month (month_lengths (is_leap y)) 1 d = (month, day)" using date yd by (auto simp: calendar_date_def)
  ultimately have "day \<le> 31" by (intro find_month_day[OF f]) (auto simp: month_lengths_def)
  moreover have "month \<le> 1 + length (month_lengths (is_leap y))" using find_month_sum[OF f] by blast
  ultimately show ?thesis by (simp add: month_lengths_def)
qed

definition decimal_value :: "string \<Rightarrow> nat" where
  "decimal_value s = foldl (\<lambda>n c. 10 * n + digit_value c) 0 s"

lemma decimal_show: "decimal_value (show_nat n) = n"
  by (induction n rule: show_nat.induct) (subst show_nat.simps, simp add: decimal_value_def digit_char_props)

lemma decimal_padded: "decimal_value (padded w n) = n"
proof -
  have "foldl (\<lambda>n c. 10 * n + digit_value c) 0 (replicate k CHR ''0'') = 0" for k
    by (induction k) (simp_all add: digit_value_def)
  then show ?thesis using decimal_show[of n] by (simp add: padded_def decimal_value_def)
qed

lemma padded_inj [simp]: "padded w n = padded w n' \<longleftrightarrow> n = n'"
  by (metis decimal_padded)

lemma padded_length: "n < 10 ^ w \<Longrightarrow> 0 < w \<Longrightarrow> length (padded w n) = w"
  using show_nat_length[of n w] by (simp add: padded_def)

lemma padded_int_inj [simp]: "padded_int w n = padded_int w n' \<longleftrightarrow> n = n'"
proof -
  have "padded w a \<noteq> ''-'' @ s" for a s
  proof
    assume "padded w a = ''-'' @ s"
    then have "CHR ''-'' \<in> set (padded w a)" by simp
    then have "is_digit CHR ''-''" using show_nat_digits by (auto simp: padded_def)
    then show False by (simp add: is_digit_def)
  qed
  then show ?thesis by (auto simp: padded_int_def dest: sym)
qed

lemma date_string_inj:
  assumes "padded_int 4 y @ ''-'' @ padded 2 mo @ ''-'' @ padded 2 d @ '' '' @ padded 2 h @ '':'' @ padded 2 mi @ '':'' @
      padded 2 s @ ''.'' @ padded 3 ms =
    padded_int 4 y' @ ''-'' @ padded 2 mo' @ ''-'' @ padded 2 d' @ '' '' @ padded 2 h' @ '':'' @ padded 2 mi' @ '':'' @
      padded 2 s' @ ''.'' @ padded 3 ms'"
    and "mo < 100" "d < 100" "h < 100" "mi < 100" "s < 100" "ms < 1000"
    and "mo' < 100" "d' < 100" "h' < 100" "mi' < 100" "s' < 100" "ms' < 1000"
  shows "y = y' \<and> mo = mo' \<and> d = d' \<and> h = h' \<and> mi = mi' \<and> s = s' \<and> ms = ms'"
proof -
  have "length (padded 2 n) = 2" if "n < 100" for n using padded_length[of n 2] that by simp
  moreover have "length (padded 3 n) = 3" if "n < 1000" for n using padded_length[of n 3] that by simp
  ultimately show ?thesis using assms by simp
qed

text \<open>The date tells the millisecond.\<close>

lemma format_time_inj:
  assumes "format_time (m * 1000000) = format_time (m' * 1000000)"
  shows "m = m'"
proof -
  have parts: "\<exists>year month day. calendar_date (m div 1000 div 86400) = (year, month, day) \<and> month < 100 \<and> day < 100 \<and>
      format_time (m * 1000000) = padded_int 4 year @ ''-'' @ padded 2 month @ ''-'' @ padded 2 day @ '' '' @
        padded 2 (nat (m div 1000 mod 86400) div 3600) @ '':'' @ padded 2 (nat (m div 1000 mod 86400) div 60 mod 60) @ '':'' @
        padded 2 (nat (m div 1000 mod 86400) mod 60) @ ''.'' @ padded 3 (nat (m mod 1000))" for m
  proof -
    obtain year month day where d: "calendar_date (m div 1000 div 86400) = (year, month, day)" by (metis surj_pair)
    have "m * 1000000 div (1000 * 1000000) = m div 1000" "m * 1000000 mod (1000 * 1000000) = m mod 1000 * 1000000"
      by (simp only: div_mult_mult2[of "1000000::int"] zero_neq_numeral not_False_eq_True simp_thms) (rule mod_mult_mult2)
    then have e: "m * 1000000 div 1000000000 = m div 1000" "m * 1000000 mod 1000000000 div 1000000 = m mod 1000" by simp_all
    show ?thesis
      unfolding format_time_def Let_def e d prod.case
      by (intro exI conjI, rule refl) (use calendar_date_bounds[OF d] in simp_all)
  qed
  obtain y mo d where A: "calendar_date (m div 1000 div 86400) = (y, mo, d)" "mo < 100" "d < 100" and
    A': "format_time (m * 1000000) = padded_int 4 y @ ''-'' @ padded 2 mo @ ''-'' @ padded 2 d @ '' '' @
        padded 2 (nat (m div 1000 mod 86400) div 3600) @ '':'' @ padded 2 (nat (m div 1000 mod 86400) div 60 mod 60) @ '':'' @
        padded 2 (nat (m div 1000 mod 86400) mod 60) @ ''.'' @ padded 3 (nat (m mod 1000))" using parts by blast
  obtain y' mo' d' where B: "calendar_date (m' div 1000 div 86400) = (y', mo', d')" "mo' < 100" "d' < 100" and
    B': "format_time (m' * 1000000) = padded_int 4 y' @ ''-'' @ padded 2 mo' @ ''-'' @ padded 2 d' @ '' '' @
        padded 2 (nat (m' div 1000 mod 86400) div 3600) @ '':'' @ padded 2 (nat (m' div 1000 mod 86400) div 60 mod 60) @ '':'' @
        padded 2 (nat (m' div 1000 mod 86400) mod 60) @ ''.'' @ padded 3 (nat (m' mod 1000))" using parts by blast
  let ?s = "nat (m div 1000 mod 86400)" and ?s' = "nat (m' div 1000 mod 86400)"
  have s: "s div 3600 < 100" "s div 60 mod 60 < 100" "s mod 60 < 100" if "s < 86400" for s :: nat
    using that by (auto intro: order_less_trans[OF mod_less_divisor])
  have day: "?s < 86400" "?s' < 86400" "nat (m mod 1000) < 1000" "nat (m' mod 1000) < 1000"
    by (simp_all add: nat_less_iff)
  have eq: "y = y'" "mo = mo'" "d = d'" "?s div 3600 = ?s' div 3600" "?s div 60 mod 60 = ?s' div 60 mod 60"
    "?s mod 60 = ?s' mod 60" "nat (m mod 1000) = nat (m' mod 1000)"
    using date_string_inj[OF assms[unfolded A' B'] A(2,3) s[OF day(1)] day(3) B(2,3) s[OF day(2)] day(4)] by blast+
  have split: "s = 60 * (60 * (s div 3600) + s div 60 mod 60) + s mod 60" for s :: nat
    using div_mult_mod_eq[of "s div 60" 60] div_mult_mod_eq[of s 60] div_mult2_eq[of s 60 60] by simp
  have "?s = ?s'" using split[of ?s] split[of ?s'] unfolding eq(4-6) by (rule trans[OF _ sym])
  moreover have "m div 1000 div 86400 = m' div 1000 div 86400" using A(1) B(1) eq(1-3) by (intro calendar_date_inj) simp
  ultimately have "m div 1000 = m' div 1000"
    by (metis div_mult_mod_eq int_nat_eq pos_mod_sign zero_less_numeral)
  moreover have "m mod 1000 = m' mod 1000" using eq(7) by simp
  ultimately show ?thesis by (metis div_mult_mod_eq)
qed

text \<open>\<^verbatim>\<open>Time\<close> is exact for every DTN time.\<close>

lemma Time_exact: "Time t = unixMilliseconds t * 1000000"
proof -
  let ?m = "unixMilliseconds t"
  define q where "q = go_div ?m 1000"
  have m: "- (2 ^ 63) \<le> ?m" "?m < 2 ^ 63"
    using sint_greater_eq[of "word_of_int (sint t + milliseconds1970To2k) :: u64"]
      sint_less[of "word_of_int (sint t + milliseconds1970To2k) :: u64"]
    by (simp_all add: unixMilliseconds_def int64_def)
  have q: "0 \<le> ?m \<Longrightarrow> q * 1000 \<le> ?m \<and> ?m < q * 1000 + 1000 \<and> 0 \<le> q"
    "?m < 0 \<Longrightarrow> ?m \<le> q * 1000 \<and> q * 1000 - 1000 < ?m \<and> q \<le> 0"
    by (auto simp: q_def go_div_def signed_divide_int_def sgn_if)
  have "int64 (q * 1000) = q * 1000" by (rule int64_small) (use m q in linarith)+
  moreover have "int64 ((?m - q * 1000) * 1000000) = (?m - q * 1000) * 1000000"
    using q by (intro int64_small) (cases "0 \<le> ?m"; simp)+
  ultimately show ?thesis by (simp add: Time_def Let_def milliToSec_def nanoToMilli_def flip: q_def)
qed

lemma DtnTime_String_inj [simp]: "DtnTime_String t = DtnTime_String t' \<longleftrightarrow> t = t'"
proof
  assume "DtnTime_String t = DtnTime_String t'"
  then have "unixMilliseconds t = unixMilliseconds t'"
    by (intro format_time_inj) (simp add: DtnTime_String_def Time_exact)
  then have "sint (t + 946684800000) = sint (t' + 946684800000)"
    by (simp add: unixMilliseconds_def int64_def milliseconds1970To2k_def flip: wi_hom_add)
  then show "t = t'" by (metis add_right_cancel signed_word_eqI)
qed simp

section \<open>The forms of the parts of a bundle\<close>

definition strings_json :: "string list \<Rightarrow> json" where
  "strings_json texts = (if texts = [] then JNull else JArray (map JString texts))"

definition bcf_MarshalJSON :: "bundle_control_flags \<Rightarrow> json" where
  "bcf_MarshalJSON bcf = strings_json (bcf_Strings bcf)"

definition blockcf_MarshalJSON :: "block_control_flags \<Rightarrow> json" where
  "blockcf_MarshalJSON bcf = strings_json (blockcf_Strings bcf)"

definition eid_MarshalJSON :: "endpoint_id \<Rightarrow> json" where
  "eid_MarshalJSON eid = JString (eid_String eid)"

definition ct_MarshalJSON :: "creation_timestamp \<Rightarrow> json" where
  "ct_MarshalJSON ct =
     JObject [(''date'', JString (DtnTime_String (ct_DtnTime ct))), (''sequenceNo'', JNumber (unat (SequenceNumber ct)))]"

definition BundleAge_MarshalJSON :: "u64 \<Rightarrow> json" where
  "BundleAge_MarshalJSON bab = JString (show_u64 bab @ '' ms'')"

definition PreviousNode_MarshalJSON :: "endpoint_id \<Rightarrow> json" where
  "PreviousNode_MarshalJSON pnb = eid_MarshalJSON pnb"

definition HopCount_MarshalJSON :: "u8 \<Rightarrow> u8 \<Rightarrow> json" where
  "HopCount_MarshalJSON limit cnt = JObject [(''limit'', JNumber (unat limit)), (''count'', JNumber (unat cnt))]"

definition Payload_MarshalJSON :: "bytes \<Rightarrow> json" where
  "Payload_MarshalJSON data = JBytes data"

text \<open>The blocks that are a \<^verbatim>\<open>json.Marshaler\<close>, and those that are not.\<close>

fun value_MarshalJSON :: "ext_block \<Rightarrow> json option" where
  "value_MarshalJSON (PayloadBlock data) = Some (Payload_MarshalJSON data)"
| "value_MarshalJSON (PreviousNodeBlock eid) = Some (PreviousNode_MarshalJSON eid)"
| "value_MarshalJSON (BundleAgeBlock ms) = Some (BundleAge_MarshalJSON ms)"
| "value_MarshalJSON (HopCountBlock limit cnt) = Some (HopCount_MarshalJSON limit cnt)"
| "value_MarshalJSON (GenericExtensionBlock _ _) = None"
| "value_MarshalJSON (BinarySprayBlock _) = None"
| "value_MarshalJSON (DTLSRBlock _) = None"
| "value_MarshalJSON (ProphetBlock _) = None"

fun BlockTypeName :: "ext_block \<Rightarrow> string" where
  "BlockTypeName (PayloadBlock _) = ''Payload Block''"
| "BlockTypeName (PreviousNodeBlock _) = ''Previous Node Block''"
| "BlockTypeName (BundleAgeBlock _) = ''Bundle Age Block''"
| "BlockTypeName (HopCountBlock _ _) = ''Hop Count Block''"
| "BlockTypeName (GenericExtensionBlock _ _) = ''N/A''"
| "BlockTypeName (BinarySprayBlock _) = ''Binary Spray Routing Block''"
| "BlockTypeName (DTLSRBlock _) = ''DTLSR Block''"
| "BlockTypeName (ProphetBlock _) = ''Prophet Routing Block''"

definition json_dataField :: "lib \<Rightarrow> ext_block \<Rightarrow> json res" where
  "json_dataField L v =
     (case value_MarshalJSON v of
        Some j \<Rightarrow> Inr j
      | None \<Rightarrow> andThen (WriteBlock L v) (\<lambda>buff. Inr (JBytes buff)))"

text \<open>A block without a value is not a \<^verbatim>\<open>json.Marshaler\<close> and has no form that \<^verbatim>\<open>WriteBlock\<close> knows.\<close>

definition cb_MarshalJSON :: "lib \<Rightarrow> canonical_block \<Rightarrow> json res" where
  "cb_MarshalJSON L cb =
     (case Value cb of
        None \<Rightarrow> Inl (Errorf ''ExtensionBlockByType does not implement any expected types'')
      | Some v \<Rightarrow>
          andThen (json_dataField L v) (\<lambda>dataField.
            Inr (JObject
              [(''blockNumber'', JNumber (unat (BlockNumber cb))),
               (''blockTypeCode'', JNumber (unat (BlockTypeCode v))),
               (''blockType'', JString (BlockTypeName v)),
               (''blockControlFlags'', blockcf_MarshalJSON (BlockControlFlags cb)),
               (''data'', dataField)])))"

definition pb_MarshalJSON :: "primary_block \<Rightarrow> json" where
  "pb_MarshalJSON pb =
     JObject
       [(''bundleControlFlags'', bcf_MarshalJSON (BundleControlFlags pb)),
        (''destination'', JString (eid_String (Destination pb))),
        (''source'', JString (eid_String (SourceNode pb))),
        (''reportTo'', JString (eid_String (ReportTo pb))),
        (''creationTimestamp'', ct_MarshalJSON (CreationTimestamp pb)),
        (''lifetime'', JNumber (unat (Lifetime pb)))]"

definition b_MarshalJSON :: "lib \<Rightarrow> dtn_bundle \<Rightarrow> json res" where
  "b_MarshalJSON L b =
     andThen (map_res (\<lambda>cb. wrapping ''json: error calling MarshalJSON'' (cb_MarshalJSON L cb)) (ExtensionBlocks b))
       (\<lambda>extensions.
     andThen (wrapping ''json: error calling MarshalJSON'' (cb_MarshalJSON L (b_PayloadBlock b))) (\<lambda>pl.
       Inr (JObject
         [(''primaryBlock'', pb_MarshalJSON (PrimaryBlock b)),
          (''canonicalBlocks'', JArray extensions),
          (''payloadBlock'', pl)])))"

section \<open>The replies of the REST agent\<close>

text \<open>
  The messages by their fields. The text of an error is an argument: \<open>msg\<close> stands for \<^verbatim>\<open>Error()\<close>. A request that could not be
  served leaves the slice of bundles nil, and one bundle without a JSON form leaves the whole reply unwritten.
\<close>

definition register_response :: "(err \<Rightarrow> string) \<Rightarrow> string res \<Rightarrow> json" where
  "register_response msg r =
     JObject [(''error'', JString (case r of Inl e \<Rightarrow> msg e | Inr _ \<Rightarrow> [])),
              (''uuid'', JString (case r of Inl _ \<Rightarrow> [] | Inr uuid \<Rightarrow> uuid))]"

definition error_response :: "(aa_err \<Rightarrow> string) \<Rightarrow> aa_err option \<Rightarrow> json" where
  "error_response msg e = JObject [(''error'', JString (case e of None \<Rightarrow> [] | Some e \<Rightarrow> msg e))]"

definition fetch_response :: "(aa_err \<Rightarrow> string) \<Rightarrow> lib \<Rightarrow> aa_err option \<Rightarrow> dtn_bundle list \<Rightarrow> json res" where
  "fetch_response msg L e bndls =
     andThen (map_res (\<lambda>b. wrapping ''json: error calling MarshalJSON'' (b_MarshalJSON L b)) bndls) (\<lambda>js.
       Inr (JObject
         [(''error'', JString (case e of None \<Rightarrow> [] | Some e \<Rightarrow> msg e)),
          (''bundles'', if e = None then JArray js else JNull)]))"

lemma calendar_samples:
  "calendar_date 0 = (1970, 1, 1)" "calendar_date 11016 = (2000, 2, 29)" "calendar_date 20454 = (2026, 1, 1)"
  "calendar_date 47540 = (2100, 2, 28)" "calendar_date 47541 = (2100, 3, 1)"
  by code_simp+

lemma date_sample: "DtnTime_String 640188126042 = ''2020-04-14 14:02:06.042''"
proof -
  have "calendar_date 18366 = (2020, 4, 14)" by code_simp
  moreover have "padded_int 4 2020 = ''2020''" "padded 2 4 = ''04''" "padded 2 14 = ''14''" "padded 2 2 = ''02''" "padded 2 6 = ''06''"
    "padded 3 42 = ''042''" by (simp_all add: padded_int_def padded_def show_nat.simps)
  ultimately have "format_time 1586872926042000000 = ''2020-04-14 14:02:06.042''"
    by (simp add: format_time_def Let_def)
  then show ?thesis by (simp add: DtnTime_String_def Time_small milliseconds1970To2k_def)
qed

section \<open>What the form tells\<close>

lemma eid_String_inj: "wf_eid e \<Longrightarrow> wf_eid e' \<Longrightarrow> eid_String e = eid_String e' \<longleftrightarrow> e = e'"
  by (auto simp: wf_eid_def eid_String_def split: option.splits) (metis endpoint_uri_rw sum.inject(2) option.inject)

lemma strings_json_inj [simp]: "strings_json a = strings_json b \<longleftrightarrow> a = b"
proof -
  have "map JString a = map JString b \<Longrightarrow> a = b" by (rule map_injective[of JString]) (auto intro: injI)
  then show ?thesis by (auto simp: strings_json_def)
qed

text \<open>The flags that have a name.\<close>

definition named_flags :: "bundle_control_flags set" where
  "named_flags = {StatusRequestDeletion, StatusRequestDelivery, StatusRequestForward, StatusRequestReception,
     RequestStatusTime, RequestUserApplicationAck, MustNotFragmented, AdministrativeRecordPayload, IsFragment}"

lemma bcf_Strings_inj:
  assumes "bcf_Strings f = bcf_Strings g" and "flag \<in> named_flags"
  shows "Has f flag \<longleftrightarrow> Has g flag"
proof -
  have named: "''REQUESTED_DELETION_STATUS_REPORT'' \<in> set (bcf_Strings f) \<longleftrightarrow> Has f StatusRequestDeletion"
    "''REQUESTED_DELIVERY_STATUS_REPORT'' \<in> set (bcf_Strings f) \<longleftrightarrow> Has f StatusRequestDelivery"
    "''REQUESTED_FORWARD_STATUS_REPORT'' \<in> set (bcf_Strings f) \<longleftrightarrow> Has f StatusRequestForward"
    "''REQUESTED_RECEPTION_STATUS_REPORT'' \<in> set (bcf_Strings f) \<longleftrightarrow> Has f StatusRequestReception"
    "''REQUESTED_TIME_IN_STATUS_REPORT'' \<in> set (bcf_Strings f) \<longleftrightarrow> Has f RequestStatusTime"
    "''REQUESTED_APPLICATION_ACK'' \<in> set (bcf_Strings f) \<longleftrightarrow> Has f RequestUserApplicationAck"
    "''MUST_NOT_BE_FRAGMENTED'' \<in> set (bcf_Strings f) \<longleftrightarrow> Has f MustNotFragmented"
    "''ADMINISTRATIVE_PAYLOAD'' \<in> set (bcf_Strings f) \<longleftrightarrow> Has f AdministrativeRecordPayload"
    "''IS_FRAGMENT'' \<in> set (bcf_Strings f) \<longleftrightarrow> Has f IsFragment" for f
    unfolding bcf_Strings_def by (simp_all split: if_splits)
  from assms(2) show ?thesis
    unfolding named_flags_def insert_iff empty_iff
    by (elim disjE FalseE; simp only: named[symmetric] assms(1))
qed

text \<open>The data of a block is a byte string that can be read back.\<close>

definition fits :: "lib \<Rightarrow> canonical_block \<Rightarrow> bool" where
  "fits L cb \<longleftrightarrow> (\<forall>v val. Value cb = Some v \<and> WriteBlock L v = Inr val \<longrightarrow> length val < 2 ^ 64)"

lemma unat_same [simp]: "unat a = unat b \<longleftrightarrow> a = b"
  by (simp add: word_unat_eq_iff)

context cboring
begin

lemma value_json:
  assumes "wf_ext v"
  shows "\<exists>j. json_dataField L v = Inr j"
proof -
  obtain data where "ext_Marshal L v = Inr data" using ext_marshals[OF assms] by blast
  then show ?thesis by (cases v) (simp_all add: json_dataField_def WriteBlock_def)
qed

lemma cb_json_total: "wf_cb M cb \<Longrightarrow> \<exists>j. cb_MarshalJSON L cb = Inr j"
  using value_json by (fastforce simp: wf_cb_def cb_MarshalJSON_def split: option.splits)

lemma value_json_inj:
  assumes "wf_ext v" "wf_ext v'" "registered M v" "registered M v'" "BlockTypeCode v = BlockTypeCode v'"
    and "\<And>val. WriteBlock L v = Inr val \<Longrightarrow> length val < 2 ^ 64"
    and "json_dataField L v = Inr j"
    and "json_dataField L v' = Inr j"
  shows "v = v'"
proof (cases "value_MarshalJSON v")
  case None
  have type: "type_of v = type_of v'" using assms(3-5) by (simp add: registered_def)
  then have None': "value_MarshalJSON v' = None" using None by (cases v; cases v') simp_all
  obtain buff where w: "WriteBlock L v = Inr buff" "WriteBlock L v' = Inr buff"
    using assms(7,8) None None' by (auto simp: json_dataField_def andThen_eq_Inr)
  have len: "length buff < 2 ^ 64" by (rule assms(6)[OF w(1)])
  have "Inr (v, []) = (Inr (v', []) :: (ext_block \<times> bytes) res)"
    using block_rw[OF assms(1,3) w(1) len, of "[]"] block_rw[OF assms(2,4) w(2) len, of "[]"] assms(5) by simp
  then show ?thesis by simp
next
  case (Some k)
  have type: "type_of v = type_of v'" using assms(3-5) by (simp add: registered_def)
  then obtain k' where "value_MarshalJSON v' = Some k'" using Some by (cases v; cases v') simp_all
  then have "value_MarshalJSON v = value_MarshalJSON v'" using assms(7,8) Some by (simp add: json_dataField_def)
  then show ?thesis
    using type assms(1,2) Some
    by (cases v; cases v') (auto simp: Payload_MarshalJSON_def PreviousNode_MarshalJSON_def eid_MarshalJSON_def
        BundleAge_MarshalJSON_def HopCount_MarshalJSON_def eid_String_inj)
qed

lemma cb_json_inj:
  assumes "wf_cb M cb" "wf_cb M cb'" "fits L cb" "cb_MarshalJSON L cb = Inr j" "cb_MarshalJSON L cb' = Inr j"
  shows "BlockNumber cb = BlockNumber cb' \<and> Value cb = Value cb'"
proof -
  obtain v v' where v: "Value cb = Some v" "wf_ext v" "registered M v" "Value cb' = Some v'" "wf_ext v'" "registered M v'"
    using assms(1,2) by (auto simp: wf_cb_def split: option.splits)
  obtain d where d: "json_dataField L v = Inr d" and j: "j = JObject
      [(''blockNumber'', JNumber (unat (BlockNumber cb))), (''blockTypeCode'', JNumber (unat (BlockTypeCode v))),
       (''blockType'', JString (BlockTypeName v)), (''blockControlFlags'', blockcf_MarshalJSON (BlockControlFlags cb)),
       (''data'', d)]"
    using assms(4) by (auto simp: cb_MarshalJSON_def v(1) andThen_eq_Inr)
  obtain d' where d': "json_dataField L v' = Inr d'" and j': "j = JObject
      [(''blockNumber'', JNumber (unat (BlockNumber cb'))), (''blockTypeCode'', JNumber (unat (BlockTypeCode v'))),
       (''blockType'', JString (BlockTypeName v')), (''blockControlFlags'', blockcf_MarshalJSON (BlockControlFlags cb')),
       (''data'', d')]"
    using assms(5) by (auto simp: cb_MarshalJSON_def v(4) andThen_eq_Inr)
  have same: "BlockNumber cb = BlockNumber cb'" "BlockTypeCode v = BlockTypeCode v'" "d = d'" using j j' by simp_all
  have "length val < 2 ^ 64" if "WriteBlock L v = Inr val" for val using assms(3) v(1) that unfolding fits_def by blast
  then have "v = v'" using value_json_inj[OF v(2,5,3,6) same(2) _ d] d' same(3) by blast
  then show ?thesis using same(1) v(1,4) by simp
qed

lemma blocks_json_total:
  "\<forall>cb \<in> set cbs. wf_cb M cb \<Longrightarrow> \<exists>js. map_res (\<lambda>cb. wrapping m (cb_MarshalJSON L cb)) cbs = Inr js"
  by (induction cbs) (auto dest!: cb_json_total)

lemma blocks_json_inj:
  assumes "\<forall>cb \<in> set cbs. wf_cb M cb \<and> fits L cb" "\<forall>cb \<in> set cbs'. wf_cb M cb"
    and "map_res (\<lambda>cb. wrapping m (cb_MarshalJSON L cb)) cbs = Inr js"
    and "map_res (\<lambda>cb. wrapping m (cb_MarshalJSON L cb)) cbs' = Inr js"
  shows "map (\<lambda>cb. (BlockNumber cb, Value cb)) cbs = map (\<lambda>cb. (BlockNumber cb, Value cb)) cbs'"
  using assms
proof (induction cbs arbitrary: cbs' js)
  case Nil
  then show ?case by (cases cbs') (auto simp: andThen_eq_Inr)
next
  case (Cons cb cbs)
  obtain j js0 where j: "js = j # js0" "cb_MarshalJSON L cb = Inr j"
    "map_res (\<lambda>cb. wrapping m (cb_MarshalJSON L cb)) cbs = Inr js0"
    using Cons.prems(3) by (auto simp: andThen_eq_Inr)
  then obtain cb' cbs0 where c: "cbs' = cb' # cbs0" "cb_MarshalJSON L cb' = Inr j"
    "map_res (\<lambda>cb. wrapping m (cb_MarshalJSON L cb)) cbs0 = Inr js0"
    using Cons.prems(4) by (cases cbs') (auto simp: andThen_eq_Inr)
  have "BlockNumber cb = BlockNumber cb' \<and> Value cb = Value cb'"
    by (rule cb_json_inj[where M = M, OF _ _ _ j(2) c(2)]) (use Cons.prems(1,2) c(1) in simp_all)
  moreover have "map (\<lambda>cb. (BlockNumber cb, Value cb)) cbs = map (\<lambda>cb. (BlockNumber cb, Value cb)) cbs0"
    by (rule Cons.IH[OF _ _ j(3) c(3)]) (use Cons.prems(1,2) c(1) in simp_all)
  ultimately show ?case using c(1) by simp
qed

lemma b_json_total:
  assumes "wf_bundle M b"
  shows "\<exists>j. b_MarshalJSON L b = Inr j"
proof -
  obtain js where "map_res (\<lambda>cb. wrapping ''json: error calling MarshalJSON'' (cb_MarshalJSON L cb)) (ExtensionBlocks b) = Inr js"
    using blocks_json_total[of "ExtensionBlocks b" M] assms by (auto simp: wf_bundle_def)
  moreover obtain j where "cb_MarshalJSON L (b_PayloadBlock b) = Inr j"
    using cb_json_total[of M] assms by (auto simp: wf_bundle_def)
  ultimately show ?thesis by (simp add: b_MarshalJSON_def)
qed

lemma primary_json_inj:
  assumes "wf_pb p" "wf_pb p'" "pb_MarshalJSON p = pb_MarshalJSON p'" "\<not> HasFragmentation p"
  shows "p' = p\<lparr>BundleControlFlags := BundleControlFlags p', pb_CRCType := pb_CRCType p', pb_CRC := pb_CRC p'\<rparr>"
    "\<forall>flag \<in> named_flags. Has (BundleControlFlags p) flag \<longleftrightarrow> Has (BundleControlFlags p') flag"
proof -
  have s: "bcf_Strings (BundleControlFlags p) = bcf_Strings (BundleControlFlags p')"
    "eid_String (Destination p) = eid_String (Destination p')" "eid_String (SourceNode p) = eid_String (SourceNode p')"
    "eid_String (ReportTo p) = eid_String (ReportTo p')" "CreationTimestamp p = CreationTimestamp p'" "Lifetime p = Lifetime p'"
    using assms(3) by (simp_all add: pb_MarshalJSON_def bcf_MarshalJSON_def ct_MarshalJSON_def ct_DtnTime_def
        SequenceNumber_def prod_eq_iff)
  show flags: "\<forall>flag \<in> named_flags. Has (BundleControlFlags p) flag \<longleftrightarrow> Has (BundleControlFlags p') flag"
    using bcf_Strings_inj[OF s(1)] by blast
  then have "\<not> HasFragmentation p'" using assms(4) by (simp add: HasFragmentation_def named_flags_def)
  then show "p' = p\<lparr>BundleControlFlags := BundleControlFlags p', pb_CRCType := pb_CRCType p', pb_CRC := pb_CRC p'\<rparr>"
    using assms(1,2,4) s by (cases p; cases p') (simp add: wf_pb_def eid_String_inj)
qed

end

section \<open>Properties\<close>



text \<open>
  Also shown: of a fragment the form tells neither the offset nor the total length: fragments of one bundle with
  payloads that are the same at different offsets cannot be told apart, and no client can reassemble them.
\<close>

theorem json_forgets_offset:
  assumes "FragmentOffset (PrimaryBlock b) \<noteq> off"
  shows "\<exists>b'. b_ID b' \<noteq> b_ID b \<and> FragmentOffset (PrimaryBlock b') = off \<and> b_MarshalJSON L b' = b_MarshalJSON L b"
proof -
  let ?b' = "b\<lparr>PrimaryBlock := (PrimaryBlock b)\<lparr>FragmentOffset := off\<rparr>\<rparr>"
  have "b_MarshalJSON L ?b' = b_MarshalJSON L b" by (simp add: b_MarshalJSON_def pb_MarshalJSON_def)
  then show ?thesis using assms by (intro exI[of _ ?b']) (simp add: b_ID_def)
qed

theorem json_forgets_offset_witness:
  "\<exists>b'. b_ID b' \<noteq> b_ID sample_bundle \<and> b_MarshalJSON rfc_lib b' = b_MarshalJSON rfc_lib sample_bundle"
  using json_forgets_offset[of sample_bundle 7] by (auto simp: sample_bundle_def sample_primary_def)

text \<open>Also shown: a reply to a fetch is written whenever the bundles are well formed, and lists them in their order.\<close>

theorem fetch_reply_written:
  assumes "cboring L" and "\<forall>b \<in> set bndls. wf_bundle M b"
  shows "\<exists>js. fetch_response msg L None bndls = Inr (JObject [(''error'', JString []), (''bundles'', JArray js)]) \<and>
    list_all2 (\<lambda>b j. b_MarshalJSON L b = Inr j) bndls js"
proof -
  have "\<exists>js. map_res (\<lambda>b. wrapping ''json: error calling MarshalJSON'' (b_MarshalJSON L b)) bndls = Inr js \<and>
      list_all2 (\<lambda>b j. b_MarshalJSON L b = Inr j) bndls js"
    using assms(2)
  proof (induction bndls)
    case (Cons b bndls)
    then show ?case using cboring.b_json_total[OF assms(1), of M b] by fastforce
  qed simp
  then show ?thesis by (auto simp: fetch_response_def)
qed

theorem fetch_reply_written_witness:
  "\<exists>js. fetch_response (\<lambda>_. []) rfc_lib None [sample_bundle, sample_bundle] =
    Inr (JObject [(''error'', JString []), (''bundles'', JArray js)]) \<and> length js = 2"
  using fetch_reply_written[OF cboring_rfc, of "[sample_bundle, sample_bundle]" GetExtensionBlockManager "\<lambda>_. []"]
    sample_bundle_wf by (fastforce dest: list_all2_lengthD)

end
