(* ===== verification/Signature.thy ===== *)
theory Signature
  imports Bundle
begin

text \<open>
  \<^verbatim>\<open>pkg/bpv7/extension_block_signature.go\<close>: a block that signs the primary and the payload block of a
  bundle. Nothing in the repository registers or attaches it, so that it stands beside the blocks of
  \<open>ext_block\<close>. Signing and verifying are those of \<^verbatim>\<open>crypto/ed25519\<close>, a parameter: what is relied on
  is that a signature with a key made from a seed verifies with the public half of that key.
\<close>

section \<open>Keys and signatures\<close>

record ed25519 =
  ed_NewKeyFromSeed :: "bytes \<Rightarrow> bytes"
  ed_sign :: "bytes \<Rightarrow> bytes \<Rightarrow> bytes"
  ed_Verify :: "bytes \<Rightarrow> bytes \<Rightarrow> bytes \<Rightarrow> bool"

definition ed25519_laws :: "ed25519 \<Rightarrow> bool" where
  "ed25519_laws E \<longleftrightarrow>
     (\<forall>seed. length seed = 32 \<longrightarrow>
        (let key = ed_NewKeyFromSeed E seed
         in length key = 64 \<and>
            (\<forall>m. length (ed_sign E key m) = 64 \<and> ed_Verify E (drop 32 key) m (ed_sign E key m))))"

text \<open>A private key is the seed followed by the public key; \<^verbatim>\<open>Sign\<close> panics for any other length.\<close>

definition ed_Public :: "bytes \<Rightarrow> bytes res" where
  "ed_Public priv =
     (if length priv < 32 then Inl (Panic ''slice bounds out of range'')
      else Inr (take 32 (drop 32 priv @ replicate 32 0)))"

definition ed_Sign :: "ed25519 \<Rightarrow> bytes \<Rightarrow> bytes \<Rightarrow> bytes res" where
  "ed_Sign E priv m =
     (if length priv \<noteq> 64 then Inl (Panic ''ed25519: bad private key length'') else Inr (ed_sign E priv m))"

section \<open>The block\<close>

record signature_block =
  PublicKey :: bytes
  Signature :: bytes

definition BlockTypeSignatureBlock :: u64 where "BlockTypeSignatureBlock = 195"

text \<open>The message, and the bundle, whose CRC values serialising its blocks sets.\<close>

definition signatureBundleData :: "lib \<Rightarrow> dtn_bundle \<Rightarrow> (bytes \<times> dtn_bundle) res" where
  "signatureBundleData L b =
     andThen (pb_MarshalCbor L (PrimaryBlock b)) (\<lambda>(p, pb).
     andThen (cb_MarshalCbor L (b_PayloadBlock b)) (\<lambda>(pl, cb).
       Inr (p @ pl, b\<lparr>PrimaryBlock := pb, b_PayloadBlock := cb\<rparr>)))"

text \<open>Panics of the library become errors, those of the serialisation before do not.\<close>

definition recovered :: "'a res \<Rightarrow> 'a res" where
  "recovered m = (case m of Inl (Panic p) \<Rightarrow> Inl (Errorf (''recovered from '' @ p)) | _ \<Rightarrow> m)"

definition NewSignatureBlock ::
  "ed25519 \<Rightarrow> lib \<Rightarrow> dtn_bundle \<Rightarrow> bytes \<Rightarrow> (signature_block \<times> dtn_bundle) res" where
  "NewSignatureBlock E L b priv =
     (if Has (BundleControlFlags (PrimaryBlock b)) IsFragment
      then Inl (Errorf ''fragmented Bundles cannot be signed'')
      else andThen (signatureBundleData L b) (\<lambda>(data, b).
           recovered (andThen (ed_Public priv) (\<lambda>pub.
             andThen (ed_Sign E priv data) (\<lambda>sig. Inr (\<lparr>PublicKey = pub, Signature = sig\<rparr>, b))))))"

definition sig_CheckValid :: "signature_block \<Rightarrow> err list" where
  "sig_CheckValid s =
     (if length (PublicKey s) \<noteq> 32 then [Errorf ''SignatureBlock: wrong length of the public key''] else []) @
     (if length (Signature s) \<noteq> 64 then [Errorf ''SignatureBlock: wrong length of the signature''] else [])"

definition Verify :: "ed25519 \<Rightarrow> lib \<Rightarrow> signature_block \<Rightarrow> dtn_bundle \<Rightarrow> bool res" where
  "Verify E L s b =
     (if sig_CheckValid s \<noteq> [] then Inr False
      else if Has (BundleControlFlags (PrimaryBlock b)) IsFragment then Inr False
      else case signatureBundleData L b of
             Inl (Panic p) \<Rightarrow> Inl (Panic p)
           | Inl e \<Rightarrow> Inr False
           | Inr (data, _) \<Rightarrow> Inr (ed_Verify E (PublicKey s) data (Signature s)))"

definition sig_CheckContextValid :: "ed25519 \<Rightarrow> lib \<Rightarrow> signature_block \<Rightarrow> dtn_bundle \<Rightarrow> err list res" where
  "sig_CheckContextValid E L s b =
     (if Has (BundleControlFlags (PrimaryBlock b)) IsFragment then Inr []
      else andThen (Verify E L s b) (\<lambda>valid.
        Inr (if valid then [] else [Errorf ''block verification failed''])))"

definition sig_MarshalCbor :: "lib \<Rightarrow> signature_block \<Rightarrow> bytes" where
  "sig_MarshalCbor L s =
     WriteArrayLength L 2 @ WriteByteString L (PublicKey s) @ WriteByteString L (Signature s)"

definition sig_UnmarshalCbor :: "lib \<Rightarrow> signature_block reader" where
  "sig_UnmarshalCbor L i =
     andThen (ReadArrayLength L i) (\<lambda>(n, r).
       if n \<noteq> 2 then Inl (Errorf ''SignatureBlock: array has not 2 elements'')
       else andThen (ReadByteString L r) (\<lambda>(pub, r).
            andThen (ReadByteString L r) (\<lambda>(sig, r). Inr (\<lparr>PublicKey = pub, Signature = sig\<rparr>, r))))"

section \<open>The message does not depend on the CRC values\<close>

lemma pb_bytes_erase:
  "andThen (pb_MarshalCbor L (pb\<lparr>pb_CRC := x\<rparr>)) (\<lambda>(p, _). Inr p) =
   andThen (pb_MarshalCbor L pb) (\<lambda>(p, _). Inr p)"
proof -
  have "pb_body L (pb\<lparr>pb_CRC := x\<rparr>) = pb_body L pb"
    by (simp add: pb_body_def HasFragmentation_def pb_HasCRC_def)
  then show ?thesis
    by (cases "pb_HasCRC pb") (simp_all add: pb_MarshalCbor_def pb_HasCRC_def andThen_assoc)
qed

lemma cb_bytes_erase:
  "andThen (cb_MarshalCbor L (erase_cb cb)) (\<lambda>(p, _). Inr p) =
   andThen (cb_MarshalCbor L cb) (\<lambda>(p, _). Inr p)"
  by (simp add: cb_MarshalCbor_def erase_cb_def cb_HasCRC_def TypeCode_def andThen_assoc Let_def if_distrib
      cong: if_cong option.case_cong)

definition signed_bytes :: "lib \<Rightarrow> dtn_bundle \<Rightarrow> bytes res" where
  "signed_bytes L b = andThen (signatureBundleData L b) (\<lambda>(d, _). Inr d)"

lemma signed_bytes_parts:
  "signed_bytes L b =
    andThen (andThen (pb_MarshalCbor L (PrimaryBlock b)) (\<lambda>(p, _). Inr p)) (\<lambda>p.
    andThen (andThen (cb_MarshalCbor L (b_PayloadBlock b)) (\<lambda>(p, _). Inr p)) (\<lambda>pl. Inr (p @ pl)))"
  by (simp add: signed_bytes_def signatureBundleData_def andThen_assoc split_def)

lemma signed_bytes_erase:
  assumes "(PrimaryBlock b')\<lparr>pb_CRC := []\<rparr> = (PrimaryBlock b)\<lparr>pb_CRC := []\<rparr>"
    and "erase_cb (b_PayloadBlock b') = erase_cb (b_PayloadBlock b)"
  shows "signed_bytes L b' = signed_bytes L b"
  using pb_bytes_erase [where pb = "PrimaryBlock b'" and x = "[]"]
    pb_bytes_erase [where pb = "PrimaryBlock b" and x = "[]"]
    cb_bytes_erase [of L "b_PayloadBlock b'"] cb_bytes_erase [of L "b_PayloadBlock b"] assms
  by (simp add: signed_bytes_parts)

lemma signatureBundleData_erase:
  assumes "signatureBundleData L b = Inr (d, b')"
  shows "(PrimaryBlock b')\<lparr>pb_CRC := []\<rparr> = (PrimaryBlock b)\<lparr>pb_CRC := []\<rparr> \<and>
    erase_cb (b_PayloadBlock b') = erase_cb (b_PayloadBlock b)"
  using assms
  by (auto simp: signatureBundleData_def andThen_eq_Inr dest: pb_MarshalCbor_CRC cb_MarshalCbor_erase)

section \<open>Properties\<close>

lemma signed_bytes_verify:
  assumes "signed_bytes L b = Inr d" and "sig_CheckValid s = []"
    and "\<not> Has (BundleControlFlags (PrimaryBlock b)) IsFragment"
  shows "Verify E L s b = Inr (ed_Verify E (PublicKey s) d (Signature s))"
  using assms by (auto simp: Verify_def signed_bytes_def andThen_eq_Inr)

text \<open>What \<^verbatim>\<open>NewSignatureBlock\<close> returns for a key made from a seed.\<close>

lemma NewSignatureBlock_InrD:
  assumes laws: "ed25519_laws E" and seed: "length seed = 32"
    and n: "NewSignatureBlock E L b (ed_NewKeyFromSeed E seed) = Inr (s, b')"
  obtains d where "signatureBundleData L b = Inr (d, b')" "sig_CheckValid s = []"
    "ed_Verify E (PublicKey s) d (Signature s)" "\<not> Has (BundleControlFlags (PrimaryBlock b)) IsFragment"
proof -
  let ?key = "ed_NewKeyFromSeed E seed"
  have len: "length ?key = 64" using laws seed by (simp add: ed25519_laws_def Let_def)
  obtain d where d: "signatureBundleData L b = Inr (d, b')"
    and s: "s = \<lparr>PublicKey = take 32 (drop 32 ?key), Signature = ed_sign E ?key d\<rparr>"
    and nofrag: "\<not> Has (BundleControlFlags (PrimaryBlock b)) IsFragment"
    using n len
    by (auto simp: NewSignatureBlock_def recovered_def ed_Public_def ed_Sign_def andThen_eq_Inr
        split: if_splits sum.splits err.splits)
  moreover have "take 32 (drop 32 ?key) = drop 32 ?key" using len by simp
  ultimately show ?thesis
    using that [OF d] laws seed len by (simp add: sig_CheckValid_def ed25519_laws_def Let_def)
qed

text \<open>
  Claim C23: the signature of a bundle verifies at its destination, also when nodes on the way have
  changed the other extension blocks, say counted its hops, and whatever CRC values its blocks were
  serialised with.
\<close>

theorem signature_verifies:
  assumes "cboring L" and "ed25519_laws E" and "length seed = 32"
    and "NewSignatureBlock E L b (ed_NewKeyFromSeed E seed) = Inr (s, b1)"
    and "wf_bundle M (b1\<lparr>ExtensionBlocks := exts\<rparr>)"
    and "b_MarshalCbor L (b1\<lparr>ExtensionBlocks := exts\<rparr>) = Inr (bs, b2)" and "length bs < 2 ^ 64"
    and "ParseBundle L M now bs = Some (Inr (p, errs))"
  shows "Verify E L s p = Inr True \<and> sig_CheckContextValid E L s p = Inr []"
proof -
  obtain d where d: "signatureBundleData L b = Inr (d, b1)" "sig_CheckValid s = []"
      "ed_Verify E (PublicKey s) d (Signature s)" "\<not> Has (BundleControlFlags (PrimaryBlock b)) IsFragment"
    using NewSignatureBlock_InrD [OF assms(2-4)] .
  note e1 = signatureBundleData_erase [OF d(1)]
  have p: "p = b2"
    using cboring.bundle_rw [OF assms(1,5-7), of now] assms(8)
    by (cases "b_CheckValid now (b1\<lparr>ExtensionBlocks := exts\<rparr>)") auto
  have "erase p = erase (b1\<lparr>ExtensionBlocks := exts\<rparr>)"
    unfolding p using b_MarshalCbor_erase [OF assms(6)] .
  then have e2: "(PrimaryBlock p)\<lparr>pb_CRC := []\<rparr> = (PrimaryBlock b1)\<lparr>pb_CRC := []\<rparr>"
      "erase_cb (b_PayloadBlock p) = erase_cb (b_PayloadBlock b1)"
    by (simp_all add: erase_def)
  have "signed_bytes L p = signed_bytes L b" using e1 e2 by (intro signed_bytes_erase) simp_all
  then have "signed_bytes L p = Inr d" by (simp add: signed_bytes_def d(1))
  moreover have "BundleControlFlags ((PrimaryBlock p)\<lparr>pb_CRC := []\<rparr>) =
      BundleControlFlags ((PrimaryBlock b)\<lparr>pb_CRC := []\<rparr>)"
    using e1 e2(1) by simp
  then have "\<not> Has (BundleControlFlags (PrimaryBlock p)) IsFragment" using d(4) by simp
  ultimately have "Verify E L s p = Inr True"
    using signed_bytes_verify [of L p d s E] d(2,3) by simp
  then show ?thesis by (simp add: sig_CheckContextValid_def)
qed

text \<open>A scheme with the law that is relied on, to evaluate the definitions with.\<close>

definition sample_ed25519 :: ed25519 where
  "sample_ed25519 = \<lparr>ed_NewKeyFromSeed = (\<lambda>seed. seed @ seed), ed_sign = (\<lambda>k m. take 64 (k @ k)),
     ed_Verify = (\<lambda>p m s. s = p @ p)\<rparr>"

lemma sample_ed25519_laws: "ed25519_laws sample_ed25519"
  by (auto simp: ed25519_laws_def sample_ed25519_def Let_def)

lemma marshal_parts:
  assumes "b_MarshalCbor L b = Inr (bs, b')"
  shows "\<exists>p pl. pb_MarshalCbor L (PrimaryBlock b) = Inr (p, PrimaryBlock b') \<and>
    cb_MarshalCbor L (b_PayloadBlock b) = Inr (pl, b_PayloadBlock b')"
  using assms by (auto simp: b_MarshalCbor_def andThen_eq_Inr)

theorem signature_verifies_witness:
  "\<exists>s b1. NewSignatureBlock sample_ed25519 rfc_lib sample_bundle (replicate 64 7) = Inr (s, b1) \<and>
    Verify sample_ed25519 rfc_lib s sample_bundle = Inr True"
proof -
  let ?key = "ed_NewKeyFromSeed sample_ed25519 (replicate 32 7)"
  have key: "?key = replicate 64 7"
    by (simp add: sample_ed25519_def flip: replicate_add)
  obtain d where data: "signatureBundleData rfc_lib sample_bundle = Inr (d, sample_bundle)"
    using marshal_parts [OF sample_bundle_bytes] by (auto simp: signatureBundleData_def)
  have nofrag: "\<not> Has (BundleControlFlags (PrimaryBlock sample_bundle)) IsFragment"
    by (simp add: sample_bundle_def sample_primary_def Has_def)
  obtain s where s: "NewSignatureBlock sample_ed25519 rfc_lib sample_bundle ?key = Inr (s, sample_bundle)"
    using nofrag data key by (simp add: NewSignatureBlock_def recovered_def ed_Public_def ed_Sign_def)
  have parsed: "ParseBundle rfc_lib GetExtensionBlockManager 0
      [159, 136, 7, 0, 0, 130, 1, 100, 47, 47, 97, 47, 130, 1, 100, 47, 47, 97, 47, 130, 1, 100,
       47, 47, 97, 47, 130, 1, 0, 9, 133, 10, 2, 0, 0, 67, 130, 5, 1, 133, 1, 1, 0, 0, 67, 1, 2, 3,
       255] = Some (Inr (sample_bundle, []))"
    using cboring.bundle_rw [OF cboring_rfc sample_bundle_wf sample_bundle_bytes, of 0]
    by (simp add: sample_bundle_valid)
  have "Verify sample_ed25519 rfc_lib s sample_bundle = Inr True"
    using signature_verifies [OF cboring_rfc sample_ed25519_laws _ s, of GetExtensionBlockManager
        "ExtensionBlocks sample_bundle"] sample_bundle_wf sample_bundle_bytes parsed by simp
  then show ?thesis using s key by auto
qed

text \<open>
  Also shown: a signature block is read back as it was written.
\<close>

lemma signature_block_rw:
  assumes "cboring L" and "length (PublicKey s) < 2 ^ 64" and "length (Signature s) < 2 ^ 64"
  shows "sig_UnmarshalCbor L (sig_MarshalCbor L s @ r) = Inr (s, r)"
  using assms(2,3)
  by (simp add: sig_UnmarshalCbor_def sig_MarshalCbor_def cboring.array_rw [OF assms(1)]
      cboring.byte_string_rw [OF assms(1)])

text \<open>
  Also shown: a fragment can neither be signed nor verified, and a block of the wrong lengths, like
  one whose key or signature was cut, never verifies.
\<close>

lemma signature_refusals:
  "Has (BundleControlFlags (PrimaryBlock b)) IsFragment \<Longrightarrow>
    (\<exists>e. NewSignatureBlock E L b priv = Inl e) \<and> Verify E L s b = Inr False"
  "length (PublicKey s) \<noteq> 32 \<or> length (Signature s) \<noteq> 64 \<Longrightarrow> Verify E L s b = Inr False"
  by (auto simp: NewSignatureBlock_def Verify_def sig_CheckValid_def)

end
