(* ===== verification/Client.thy ===== *)
theory Client
  imports Agents
begin

text \<open>
  \<^verbatim>\<open>cmd/dtnclient/main.go\<close>: the command line client of the unix agent. Each command sends one message on
  the agent's socket, reads one reply and ends the program. The world of a run is \<open>client_env\<close>: what the
  agent answers to the bytes that were written, the standard input, and the file system. What a run leaves
  is \<open>client_end\<close>: its exit code, what it printed and the files it wrote; \<open>Inl\<close> is a panic. The
  parser of the command line is not code of the repository: its result is a \<open>client_command\<close>.
\<close>

section \<open>Messages\<close>

datatype client_message =
    RegisterUnregisterMessage u8 string
  | BundleCreateMessage u8 "(string \<times> go_val) list"
  | ListBundles u8 string bool
  | FetchBundle u8 string string bool
  | FetchAllBundles u8 string bool bool

text \<open>The client's side of the coding: of a message, and of each kind of reply with its error.\<close>

record client_pack =
  cp_Marshal :: "client_message \<Rightarrow> bytes res"
  cp_GeneralResponse :: "bytes \<Rightarrow> aa_err option res"
  cp_BundleCreateResponse :: "bytes \<Rightarrow> (aa_err option \<times> string) res"
  cp_ListResponse :: "bytes \<Rightarrow> (aa_err option \<times> string list) res"
  cp_FetchBundleResponse :: "bytes \<Rightarrow> (aa_err option \<times> bundle_content) res"
  cp_FetchAllBundlesResponse :: "bytes \<Rightarrow> (aa_err option \<times> bundle_content list) res"

section \<open>A run of the client\<close>

text \<open>
  \<open>ce_exchange\<close> gives the bytes that can be read once the message is flushed, \<open>ce_Write\<close> what of
  a file's contents arrives.
\<close>

record client_env =
  ce_exchange :: "bytes \<Rightarrow> bytes res"
  ce_Stdin :: bytes
  ce_ReadFile :: "string \<Rightarrow> bytes res"
  ce_Create :: "string \<Rightarrow> err option"
  ce_Write :: "string \<Rightarrow> bytes \<Rightarrow> err option \<times> bytes"

record client_end =
  exit_code :: nat
  stdout :: bytes
  stderr :: "aa_err option"
  ce_files :: "(string \<times> bytes) list"

definition succeeded :: "bytes \<Rightarrow> client_end" where
  "succeeded s = \<lparr>exit_code = 0, stdout = s, stderr = None, ce_files = []\<rparr>"

definition failed :: "aa_err \<Rightarrow> client_end" where
  "failed e = \<lparr>exit_code = 1, stdout = [], stderr = Some e, ce_files = []\<rparr>"

text \<open>The check that follows every call: an error is printed and ends the program.\<close>

definition or_exit :: "'a res \<Rightarrow> ('a \<Rightarrow> client_end res) \<Rightarrow> client_end res" where
  "or_exit r k =
     (case r of Inl (Panic p) \<Rightarrow> Inl (Panic p) | Inl e \<Rightarrow> Inr (failed (AgentError e)) | Inr x \<Rightarrow> k x)"

lemma or_exit_Inr [simp]: "or_exit (Inr x) k = k x"
  by (simp add: or_exit_def)

text \<open>
  The message and its length go out; the reply's length comes back and a buffer of that length is filled. The
  error of the last read is dropped: what is missing of a reply stays zero.
\<close>

definition exchange :: "client_pack \<Rightarrow> client_env \<Rightarrow> client_message \<Rightarrow> bytes res" where
  "exchange CP W msg =
     andThen (cp_Marshal CP msg) (\<lambda>msgBytes.
     andThen (ce_exchange W (PutUint64 (word_of_nat (length msgBytes)) @ msgBytes)) (\<lambda>input.
       if length input < 8 then Inl EOF
       else let msgLen = unat (Uint64 (take 8 input)); rest = drop 8 input
            in if \<not> make_slice_ok 1 msgLen then Inl (Panic ''makeslice: len out of range'')
               else Inr (take msgLen rest @ replicate (msgLen - length rest) 0)))"

text \<open>What follows a reply: its error ends the program.\<close>

definition unless_refused :: "(aa_err option \<times> 'a) \<Rightarrow> ('a \<Rightarrow> client_end res) \<Rightarrow> client_end res" where
  "unless_refused reply k = (case reply of (Some e, _) \<Rightarrow> Inr (failed e) | (None, x) \<Rightarrow> k x)"

lemma unless_refused_simps [simp]:
  "unless_refused (Some e, x) k = Inr (failed e)" "unless_refused (None, x) k = k x"
  by (simp_all add: unless_refused_def)

definition Println :: "string \<Rightarrow> bytes" where
  "Println s = bytes_of_string s @ [10]"

section \<open>The commands\<close>

definition client_RegisterUnregister :: "client_pack \<Rightarrow> client_env \<Rightarrow> string \<Rightarrow> bool \<Rightarrow> client_end res" where
  "client_RegisterUnregister CP W eid register =
     (let msg = RegisterUnregisterMessage (if register then MsgTypeRegisterEID else MsgTypeUnregisterEID) eid
      in or_exit (exchange CP W msg) (\<lambda>msgBytes.
         or_exit (cp_GeneralResponse CP msgBytes) (\<lambda>e.
         unless_refused (e, ()) (\<lambda>_. Inr (succeeded (Println ''Success''))))))"

text \<open>The map of a new bundle, but for the payload.\<close>

definition create_args :: "string \<Rightarrow> string \<Rightarrow> string \<Rightarrow> string \<Rightarrow> string \<Rightarrow> (string \<times> go_val) list" where
  "create_args sourceID destinationID reportTo creationTimestamp lifetime =
     [(''source'', V_string sourceID), (''destination'', V_string destinationID)] @
     (if reportTo \<noteq> [] then [(''report_to'', V_string reportTo)] else []) @
     [if creationTimestamp = ''now'' then (''creation_timestamp_now'', V_bool True)
      else if creationTimestamp = ''epoch'' then (''creation_timestamp_epoch'', V_bool True)
      else (''creation_timestamp_time'', V_string creationTimestamp),
      (''lifetime'', V_string lifetime)]"

text \<open>\<^verbatim>\<open>ReadString('\n')\<close>: all up to the first line feed, an error where there is none.\<close>

definition read_line :: "bytes \<Rightarrow> bytes res" where
  "read_line input =
     (if 10 \<in> set input then Inr (takeWhile (\<lambda>c. c \<noteq> 10) input @ [10]) else Inl EOF)"

definition create_payload :: "client_env \<Rightarrow> string \<Rightarrow> bytes res" where
  "create_payload W input = (if input = ''stdin'' then read_line (ce_Stdin W) else ce_ReadFile W input)"

definition client_Create ::
  "client_pack \<Rightarrow> client_env \<Rightarrow> string \<Rightarrow> string \<Rightarrow> string \<Rightarrow> string \<Rightarrow> string \<Rightarrow> string \<Rightarrow> client_end res" where
  "client_Create CP W sourceID destinationID reportTo creationTimestamp lifetime input =
     (let args = create_args sourceID destinationID reportTo creationTimestamp lifetime
      in or_exit (create_payload W input) (\<lambda>payloadBytes.
         let msg = BundleCreateMessage MsgTypeBundleCreate (args @ [(''payload_block'', V_bytes payloadBytes)])
         in or_exit (exchange CP W msg) (\<lambda>msgBytes.
            or_exit (cp_BundleCreateResponse CP msgBytes) (\<lambda>reply.
            unless_refused reply (\<lambda>bundleID. Inr (succeeded (Println bundleID)))))))"

text \<open>A slice of strings is printed between brackets, with blanks between its elements.\<close>

definition print_list :: "string list \<Rightarrow> string" where
  "print_list ss = ''['' @ concat (case ss of [] \<Rightarrow> [] | s # ss \<Rightarrow> s # map (\<lambda>s. '' '' @ s) ss) @ '']''"

definition client_List :: "client_pack \<Rightarrow> client_env \<Rightarrow> string \<Rightarrow> bool \<Rightarrow> client_end res" where
  "client_List CP W mailboxID new =
     or_exit (exchange CP W (ListBundles MsgTypeListBundles mailboxID new)) (\<lambda>msgBytes.
     or_exit (cp_ListResponse CP msgBytes) (\<lambda>reply.
     unless_refused reply (\<lambda>bids. Inr (succeeded (Println (print_list bids))))))"

text \<open>A file is created, or emptied, and then written; an error stops at what the file has by then.\<close>

definition save :: "client_env \<Rightarrow> string \<Rightarrow> bytes \<Rightarrow> (string \<times> bytes) list \<Rightarrow> err option \<times> (string \<times> bytes) list" where
  "save W filename data fs =
     (case ce_Create W filename of
        Some e \<Rightarrow> (Some e, fs)
      | None \<Rightarrow> (case ce_Write W filename data of (e, arrived) \<Rightarrow> (e, mapset filename arrived fs)))"

definition left_files :: "err option \<times> (string \<times> bytes) list \<Rightarrow> client_end" where
  "left_files r =
     (case r of
        (Some e, fs) \<Rightarrow> (failed (AgentError e))\<lparr>ce_files := fs\<rparr>
      | (None, fs) \<Rightarrow> (succeeded [])\<lparr>ce_files := fs\<rparr>)"

definition client_GetBundle ::
  "client_pack \<Rightarrow> client_env \<Rightarrow> string \<Rightarrow> string \<Rightarrow> string \<Rightarrow> bool \<Rightarrow> client_end res" where
  "client_GetBundle CP W mailboxID bundleID output remove =
     or_exit (exchange CP W (FetchBundle MsgTypeFetchBundle mailboxID bundleID remove)) (\<lambda>msgBytes.
     or_exit (cp_FetchBundleResponse CP msgBytes) (\<lambda>reply.
     unless_refused reply (\<lambda>content.
       if output = ''stdout'' then Inr (succeeded (bc_Payload content))
       else Inr (left_files (save W output (bc_Payload content) [])))))"

definition saved_name :: "string \<Rightarrow> string" where
  "saved_name bundleID = filter (\<lambda>c. c \<noteq> CHR '':'') (filter (\<lambda>c. c \<noteq> CHR ''/'') bundleID)"

fun save_all :: "client_env \<Rightarrow> bundle_content list \<Rightarrow> (string \<times> bytes) list \<Rightarrow> err option \<times> (string \<times> bytes) list" where
  "save_all W [] fs = (None, fs)"
| "save_all W (content # contents) fs =
     (case save W (saved_name (bc_BundleID content)) (bc_Payload content) fs of
        (Some e, fs) \<Rightarrow> (Some e, fs)
      | (None, fs) \<Rightarrow> save_all W contents fs)"

definition client_GetAllBundles :: "client_pack \<Rightarrow> client_env \<Rightarrow> string \<Rightarrow> bool \<Rightarrow> bool \<Rightarrow> client_end res" where
  "client_GetAllBundles CP W mailboxID new remove =
     or_exit (exchange CP W (FetchAllBundles MsgTypeFetchAllBundles mailboxID new remove)) (\<lambda>msgBytes.
     or_exit (cp_FetchAllBundlesResponse CP msgBytes) (\<lambda>reply.
     unless_refused reply (\<lambda>contents. Inr (left_files (save_all W contents [])))))"

text \<open>
  \<^verbatim>\<open>main\<close> after the connection is there; \<open>dialled\<close> is the error of resolving the address or dialling.
  \<^verbatim>\<open>get\<close> without a command of its own does nothing.
\<close>

datatype client_command =
    C_register string
  | C_unregister string
  | C_create string string string string string string
  | C_list string bool
  | C_get_bundle string string string bool
  | C_get_all string bool bool
  | C_get

definition client_main :: "client_pack \<Rightarrow> client_env \<Rightarrow> err option \<Rightarrow> client_command \<Rightarrow> client_end res" where
  "client_main CP W dialled cmd =
     (case dialled of
        Some e \<Rightarrow> Inr (failed (AgentError e))
      | None \<Rightarrow>
          (case cmd of
             C_register eid \<Rightarrow> client_RegisterUnregister CP W eid True
           | C_unregister eid \<Rightarrow> client_RegisterUnregister CP W eid False
           | C_create src dst rep ts lt input \<Rightarrow> client_Create CP W src dst rep ts lt input
           | C_list mailboxID new \<Rightarrow> client_List CP W mailboxID new
           | C_get_bundle mailboxID bundleID output remove \<Rightarrow>
               client_GetBundle CP W mailboxID bundleID output remove
           | C_get_all mailboxID new remove \<Rightarrow> client_GetAllBundles CP W mailboxID new remove
           | C_get \<Rightarrow> Inr (succeeded [])))"

section \<open>What the builder makes of the client's map\<close>

lemma map_methods_append:
  "map_methods F now (m1 @ m2) b = andThen (map_methods F now m1 b) (map_methods F now m2)"
  by (induction F now m1 b rule: map_methods.induct)
    (auto simp: andThen_def split: sum.splits option.splits)

lemma canonical_primary [simp]:
  "primary (put_block code cb b) = primary b" "primary (bldr_fail e b) = primary b"
  by (simp_all add: put_block_def bldr_fail_def)

lemma bldr_Canonical_primary: "bldr_Canonical vs b = Inr c \<Longrightarrow> primary c = primary b"
  by (auto simp: bldr_Canonical_def andThen_eq_Inr split: if_splits list.splits go_val.splits)

lemma typed_block_primary: "typed_block parse zero mk vs b = Inr c \<Longrightarrow> primary c = primary b"
  by (auto simp: typed_block_def canonicalParseFlags_def Let_def split: if_splits list.splits sum.splits go_val.splits
      dest!: bldr_Canonical_primary)

lemma PayloadBlock_primary: "bldr_PayloadBlock vs b = Inr c \<Longrightarrow> primary c = primary b"
  by (auto simp: bldr_PayloadBlock_def split: list.splits sum.splits err.splits dest!: bldr_Canonical_primary)

text \<open>Each method sets its own field of the primary block.\<close>

lemma map_method_keeps:
  assumes "map_method F now name v b = Inr c"
  shows "name \<noteq> ''destination'' \<Longrightarrow> Destination (primary c) = Destination (primary b)"
    "name \<noteq> ''source'' \<Longrightarrow> SourceNode (primary c) = SourceNode (primary b)"
    "name \<noteq> ''report_to'' \<Longrightarrow> ReportTo (primary c) = ReportTo (primary b)"
    "name \<notin> {''creation_timestamp_epoch'', ''creation_timestamp_now'', ''creation_timestamp_time''} \<Longrightarrow>
      CreationTimestamp (primary c) = CreationTimestamp (primary b)"
  using assms
  by (auto simp: map_method_def bldr_Destination_def bldr_Source_def bldr_ReportTo_def bldr_Lifetime_def
      CreationTimestampEpoch_def CreationTimestampNow_def CreationTimestampTime_def bldr_creationTimestamp_def
      bldr_BundleAgeBlock_def bldr_HopCountBlock_def bldr_PreviousNodeBlock_def unless_err_def set_parsed_def
      split: if_splits sum.splits go_val.splits dest!: typed_block_primary PayloadBlock_primary)

lemma map_methods_keeps:
  assumes "map_methods F now m b = Inr c"
    and "\<And>n v b c. (n, v) \<in> set m \<Longrightarrow> map_method F now n v b = Inr c \<Longrightarrow> g c = g b"
  shows "g c = g b"
  using assms
proof (induction F now m b rule: map_methods.induct)
  case (2 F now n v m b)
  then obtain d where d: "map_method F now n v b = Inr d" "bldr_err d = None" "map_methods F now m d = Inr c"
    by (auto simp: andThen_eq_Inr split: option.splits)
  have "g c = g d" by (rule "2.IH"[OF d]) (rule "2.prems"(2), auto)
  moreover have "g d = g b" by (rule "2.prems"(2)[OF _ d(1)]) simp
  ultimately show ?case by simp
qed simp

text \<open>What a field is at the end is what the one entry that sets it made it.\<close>

lemma map_methods_field:
  assumes "map_methods F now m b = Inr c" and "bldr_err b = None" and "(name, v) \<in> set m" and "distinct (map fst m)"
    and keeps: "\<And>n v b c. n \<noteq> name \<Longrightarrow> n \<in> fst ` set m \<Longrightarrow> map_method F now n v b = Inr c \<Longrightarrow> g c = g b"
  obtains b1 c1 where "map_method F now name v b1 = Inr c1" "bldr_err b1 = None" "bldr_err c1 = None" "g c = g c1"
proof -
  obtain m1 m2 where m: "m = m1 @ (name, v) # m2" using assms(3) by (meson split_list)
  then obtain b1 c1 where b1: "map_methods F now m1 b = Inr b1" "map_method F now name v b1 = Inr c1"
    and c1: "bldr_err c1 = None" "map_methods F now m2 c1 = Inr c"
    using assms(1) by (auto simp: map_methods_append andThen_eq_Inr split: option.splits)
  have "g c = g c1"
    by (rule map_methods_keeps[OF c1(2)], rule keeps) (use assms(4) m in \<open>auto intro: rev_image_eqI\<close>)
  then show thesis using that[OF b1(2) map_methods_no_err[OF b1(1) assms(2)] c1(1)] by simp
qed

lemma Build_parts:
  assumes "Build L now bldr = Inr b"
  shows "SourceNode (PrimaryBlock b) = SourceNode (primary bldr)"
    "Destination (PrimaryBlock b) = Destination (primary bldr)"
    "ReportTo (PrimaryBlock b) = (if ReportTo (primary bldr) = None then SourceNode else ReportTo) (primary bldr)"
    "CreationTimestamp (PrimaryBlock b) = CreationTimestamp (primary bldr)"
    "payload_data (b_PayloadBlock b) = payload_data (payload bldr)"
proof -
  let ?pb = "if ReportTo (primary bldr) = None then (primary bldr)\<lparr>ReportTo := SourceNode (primary bldr)\<rparr> else primary bldr"
  have b: "b = b_SetCRCType L (crcType bldr) (MustNewBundle ?pb (canonicals bldr) (payload bldr))"
    using assms by (auto simp: Build_def NewBundle_def Let_def andThen_eq_Inr split: option.splits if_splits)
  obtain t x where x: "pb_SetCRCType L (crcType bldr) ?pb = ?pb\<lparr>pb_CRCType := t, pb_CRC := x\<rparr>"
    using SetCRCType_primary[of L "crcType bldr" ?pb] by blast
  show "SourceNode (PrimaryBlock b) = SourceNode (primary bldr)"
    "Destination (PrimaryBlock b) = Destination (primary bldr)"
    "ReportTo (PrimaryBlock b) = (if ReportTo (primary bldr) = None then SourceNode else ReportTo) (primary bldr)"
    "CreationTimestamp (PrimaryBlock b) = CreationTimestamp (primary bldr)"
    by (simp_all add: b b_SetCRCType_def MustNewBundle_def sortExtensionBlocks_def x)
  show "payload_data (b_PayloadBlock b) = payload_data (payload bldr)"
    by (simp add: b b_SetCRCType_def MustNewBundle_def sortExtensionBlocks_def payload_data_def cb_SetCRCType_def)
qed

text \<open>A bundle without a creation time needs a bundle age block.\<close>

lemma Build_aged:
  assumes "Build L now bldr = Inr b" and "canonicals bldr = []"
  shows "\<not> IsZeroTime (CreationTimestamp (primary bldr))"
proof
  assume zero: "IsZeroTime (CreationTimestamp (primary bldr))"
  define pb where "pb = (if ReportTo (primary bldr) = None
    then (primary bldr)\<lparr>ReportTo := SourceNode (primary bldr)\<rparr> else primary bldr)"
  have "b_CheckValid now (MustNewBundle pb [] (payload bldr)) = Inr []"
    using assms by (auto simp: Build_def NewBundle_def pb_def Let_def andThen_eq_Inr split: option.splits if_splits)
  moreover have "IsZeroTime (CreationTimestamp pb)" using zero by (simp add: pb_def)
  ultimately show False
    by (auto simp: b_CheckValid_def MustNewBundle_def sortExtensionBlocks_def go_sort_def andThen_eq_Inr
        HasExtensionBlock_def ExtensionBlockByType_def ExtensionBlocksByType_def split: if_splits)
qed

lemma setter_canonicals [simp]:
  "canonicals (bldr_Destination v b) = canonicals b" "canonicals (bldr_Source v b) = canonicals b"
  "canonicals (bldr_ReportTo v b) = canonicals b" "canonicals (bldr_Lifetime F v b) = canonicals b"
  "canonicals (bldr_creationTimestamp t b) = canonicals b"
  by (auto simp: bldr_Destination_def bldr_Source_def bldr_ReportTo_def bldr_Lifetime_def bldr_fail_def
      bldr_creationTimestamp_def unless_err_def set_parsed_def split: sum.split)

lemma bytes_payload_canonicals: "bldr_PayloadBlock [V_bytes data] b = Inr c \<Longrightarrow> canonicals c = canonicals b"
  by (auto simp: bldr_PayloadBlock_def bldr_Canonical_def put_block_def block_type_defs split: if_splits)

text \<open>A map that \<^verbatim>\<open>create\<close> sends, in any order.\<close>

lemma created_fields:
  assumes args: "mset m = mset (create_args src dst rep ts lt @ [(''payload_block'', V_bytes data)])"
    and built: "BuildFromMap L F now now' m = Inr b"
  shows "NewEndpointID src = Inr (SourceNode (PrimaryBlock b))" "NewEndpointID dst = Inr (Destination (PrimaryBlock b))"
    "if rep = [] then ReportTo (PrimaryBlock b) = SourceNode (PrimaryBlock b)
      else NewEndpointID rep = Inr (ReportTo (PrimaryBlock b))"
    "payload_data (b_PayloadBlock b) = Inr data" "ts = ''now''"
    "CreationTimestamp (PrimaryBlock b) = (DtnTimeNow now, 0)"
proof -
  obtain bldr where m: "map_methods F now m NewBuilder = Inr bldr" and b: "Build L now' bldr = Inr b"
    using built by (auto simp: BuildFromMap_def andThen_eq_Inr)
  have mem: "set m = set (create_args src dst rep ts lt @ [(''payload_block'', V_bytes data)])"
    by (rule mset_eq_setD[OF args])
  have keys: "mset (map fst m) = mset (map fst (create_args src dst rep ts lt @ [(''payload_block'', V_bytes data)]))"
    using args by simp
  have dist: "distinct (map fst m)"
    unfolding mset_eq_imp_distinct_iff[OF keys] by (simp add: create_args_def)
  have none: "bldr_err NewBuilder = None" by (simp add: NewBuilder_def)
  note field = map_methods_field[OF m none _ dist] and parts = Build_parts[OF b]
  show "NewEndpointID src = Inr (SourceNode (PrimaryBlock b))"
  proof (rule field[of "''source''" "V_string src" "\<lambda>b. SourceNode (primary b)"])
    fix b1 c1 assume "map_method F now ''source'' (V_string src) b1 = Inr c1" "bldr_err b1 = None"
      "bldr_err c1 = None" "SourceNode (primary bldr) = SourceNode (primary c1)"
    then show ?thesis
      by (auto simp: parts map_method_def bldr_Source_def unless_err_def set_parsed_def bldr_fail_def split: sum.splits)
  qed (auto simp: mem create_args_def map_method_keeps(2))
  show "NewEndpointID dst = Inr (Destination (PrimaryBlock b))"
  proof (rule field[of "''destination''" "V_string dst" "\<lambda>b. Destination (primary b)"])
    fix b1 c1 assume "map_method F now ''destination'' (V_string dst) b1 = Inr c1" "bldr_err b1 = None"
      "bldr_err c1 = None" "Destination (primary bldr) = Destination (primary c1)"
    then show ?thesis
      by (auto simp: parts map_method_def bldr_Destination_def unless_err_def set_parsed_def bldr_fail_def
          split: sum.splits)
  qed (auto simp: mem create_args_def map_method_keeps(1))
  show "payload_data (b_PayloadBlock b) = Inr data"
  proof (rule field[of "''payload_block''" "V_bytes data" payload])
    fix b1 c1 assume "map_method F now ''payload_block'' (V_bytes data) b1 = Inr c1" "bldr_err b1 = None"
      "bldr_err c1 = None" "payload bldr = payload c1"
    then show ?thesis
      unfolding parts
      by (auto simp: map_method_def bldr_PayloadBlock_def bldr_Canonical_def put_block_def payload_data_def
          NewCanonicalBlock_def block_type_defs)
  qed (auto simp: mem create_args_def intro: map_method_payload)
  have time: "ts = ''now'' \<or> ts = ''epoch''"
  proof (rule ccontr)
    assume "\<not> ?thesis"
    then have "(''creation_timestamp_time'', V_string ts) \<in> set m" by (simp add: mem create_args_def)
    then show False by (rule field[of _ _ "\<lambda>_. ()"]) (simp_all add: map_method_def)
  qed
  define name where "name = (if ts = ''now'' then ''creation_timestamp_now'' else ''creation_timestamp_epoch'')"
  have only: "n \<notin> {''creation_timestamp_epoch'', ''creation_timestamp_now'', ''creation_timestamp_time''}"
    if "n \<noteq> name" "n \<in> fst ` set m" for n
    using that time by (cases "rep = []"; cases "ts = ''now''") (auto simp: mem create_args_def name_def)
  have stamp: "CreationTimestamp (primary bldr) = (if ts = ''now'' then DtnTimeNow now else DtnTimeEpoch, 0)"
  proof (rule field[of name "V_bool True" "\<lambda>b. CreationTimestamp (primary b)"])
    show "(name, V_bool True) \<in> set m" using time by (auto simp: mem create_args_def name_def)
    show "CreationTimestamp (primary c) = CreationTimestamp (primary b)"
      if "n \<noteq> name" "n \<in> fst ` set m" "map_method F now n v b = Inr c" for n v b c
      by (rule map_method_keeps(4)[OF that(3) only[OF that(1,2)]])
    fix b1 c1 assume "map_method F now name (V_bool True) b1 = Inr c1" "bldr_err b1 = None"
      "bldr_err c1 = None" "CreationTimestamp (primary bldr) = CreationTimestamp (primary c1)"
    then show ?thesis
      by (cases "ts = ''now''") (auto simp: name_def map_method_def CreationTimestampNow_def
          CreationTimestampEpoch_def bldr_creationTimestamp_def unless_err_def NewCreationTimestamp_def)
  qed
  have "canonicals bldr = canonicals NewBuilder"
  proof (rule map_methods_keeps[OF m])
    fix n v b c assume nv: "(n, v) \<in> set m" and s: "map_method F now n v b = Inr c"
    have "n \<in> {''source'', ''destination'', ''report_to'', ''creation_timestamp_now'', ''creation_timestamp_epoch'',
        ''lifetime''} \<or> n = ''payload_block'' \<and> v = V_bytes data"
      using nv time by (auto simp: mem create_args_def split: if_splits)
    then show "canonicals c = canonicals b"
      using s by (auto simp: map_method_def CreationTimestampNow_def CreationTimestampEpoch_def
          dest: bytes_payload_canonicals)
  qed
  then have "\<not> IsZeroTime (CreationTimestamp (primary bldr))"
    using Build_aged[OF b] by (simp add: NewBuilder_def)
  then show now: "ts = ''now''" using time stamp by (auto simp: IsZeroTime_def ct_DtnTime_def)
  show "CreationTimestamp (PrimaryBlock b) = (DtnTimeNow now, 0)" using stamp by (simp add: parts now)
  show "if rep = [] then ReportTo (PrimaryBlock b) = SourceNode (PrimaryBlock b)
      else NewEndpointID rep = Inr (ReportTo (PrimaryBlock b))"
  proof (cases "rep = []")
    case True
    have "ReportTo (primary bldr) = ReportTo (primary NewBuilder)"
      by (rule map_methods_keeps[OF m]) (auto simp: mem create_args_def True split: if_splits intro!: map_method_keeps(3))
    then show ?thesis using True by (simp add: parts NewBuilder_def empty_primary_def)
  next
    case False
    then have "(''report_to'', V_string rep) \<in> set m" by (simp add: mem create_args_def)
    then obtain b1 c1 where "map_method F now ''report_to'' (V_string rep) b1 = Inr c1" "bldr_err b1 = None"
      "bldr_err c1 = None" "ReportTo (primary bldr) = ReportTo (primary c1)"
      by (rule field[of _ _ "\<lambda>b. ReportTo (primary b)"]) (auto intro!: map_method_keeps(3))
    moreover have "NewEndpointID s \<noteq> Inr None" for s
      by (auto simp: NewEndpointID_def andThen_eq_Inr split: option.splits)
    ultimately show ?thesis
      using False by (auto simp: parts map_method_def bldr_ReportTo_def unless_err_def set_parsed_def
          bldr_fail_def split: sum.splits)
  qed
qed


section \<open>The client and the agent\<close>

text \<open>
  The two sides decode what the other encodes. A map comes out in some order; its values are those the client
  sends. What is encoded is a slice, which has a length below the bound of the allocator.
\<close>

fun plain :: "go_val \<Rightarrow> bool" where
  "plain (V_string s) \<longleftrightarrow> True"
| "plain (V_bool b) \<longleftrightarrow> True"
| "plain (V_bytes bs) \<longleftrightarrow> True"
| "plain _ \<longleftrightarrow> False"

fun understood :: "msgpack \<Rightarrow> client_message \<Rightarrow> bytes \<Rightarrow> bool" where
  "understood MP (RegisterUnregisterMessage t eid) bs \<longleftrightarrow>
     mp_Message MP bs = Inr t \<and> mp_RegisterUnregister MP bs = Inr (t, eid)"
| "understood MP (BundleCreateMessage t args) bs \<longleftrightarrow> mp_Message MP bs = Inr t \<and>
     ((\<forall>(name, v) \<in> set args. plain v) \<longrightarrow> (\<exists>args'. mp_BundleCreate MP bs = Inr args' \<and> mset args' = mset args))"
| "understood MP (ListBundles t uri new) bs \<longleftrightarrow> mp_Message MP bs = Inr t \<and> mp_ListBundles MP bs = Inr (uri, new)"
| "understood MP (FetchBundle t uri bid remove) bs \<longleftrightarrow>
     mp_Message MP bs = Inr t \<and> mp_FetchBundle MP bs = Inr (uri, bid, remove)"
| "understood MP (FetchAllBundles t uri new remove) bs \<longleftrightarrow>
     mp_Message MP bs = Inr t \<and> mp_FetchAllBundles MP bs = Inr (uri, new, remove)"

fun reply_read :: "client_pack \<Rightarrow> unix_reply \<Rightarrow> bytes \<Rightarrow> bool" where
  "reply_read CP (GeneralResponse e) bs \<longleftrightarrow> cp_GeneralResponse CP bs = Inr e"
| "reply_read CP (BundleCreateResponse e bid) bs \<longleftrightarrow> cp_BundleCreateResponse CP bs = Inr (e, bid)"
| "reply_read CP (ListResponse e bids) bs \<longleftrightarrow> cp_ListResponse CP bs = Inr (e, bids)"
| "reply_read CP (FetchBundleResponse e content) bs \<longleftrightarrow>
     (\<exists>c. cp_FetchBundleResponse CP bs = Inr (e, c) \<and> (\<forall>c'. content = Some c' \<longrightarrow> c = c'))"
| "reply_read CP (FetchAllBundlesResponse e contents) bs \<longleftrightarrow> cp_FetchAllBundlesResponse CP bs = Inr (e, contents)"

definition speaks :: "client_pack \<Rightarrow> msgpack \<Rightarrow> bool" where
  "speaks CP MP \<longleftrightarrow>
     (\<forall>msg bs. cp_Marshal CP msg = Inr bs \<longrightarrow> length bs \<le> 2 ^ 48 \<and> understood MP msg bs) \<and>
     (\<forall>reply bs. mp_Marshal MP reply = Inr bs \<longrightarrow> length bs \<le> 2 ^ 48 \<and> reply_read CP reply bs)"

lemma speaksD:
  assumes "speaks CP MP"
  shows "cp_Marshal CP msg = Inr bs \<Longrightarrow> length bs \<le> 2 ^ 48"
    "cp_Marshal CP msg = Inr bs \<Longrightarrow> understood MP msg bs"
    "mp_Marshal MP reply = Inr rs \<Longrightarrow> length rs \<le> 2 ^ 48"
    "mp_Marshal MP reply = Inr rs \<Longrightarrow> reply_read CP reply rs"
  using assms unfolding speaks_def by blast+

text \<open>The socket between them: the agent answers what its handler of the connection writes.\<close>

definition served ::
  "msgpack \<Rightarrow> 'kv store_env \<Rightarrow> float_ops \<Rightarrow> time \<Rightarrow> time \<Rightarrow> 'kv bundle_store \<Rightarrow> mailbox_bank \<Rightarrow> id_keeper \<Rightarrow>
   bytes \<Rightarrow> bytes res" where
  "served MP E F now now' st bank idk input =
     (case handleConnection MP E F now now' st input bank idk of Some (Inr (out, _)) \<Rightarrow> Inr out | _ \<Rightarrow> Inl EOF)"

definition sent_frame :: "bytes \<Rightarrow> bytes" where
  "sent_frame msgBytes = PutUint64 (word_of_nat (length msgBytes)) @ msgBytes"

lemma frame_parts:
  assumes "length bs \<le> 2 ^ 48"
  shows "take 8 (sent_frame bs) = PutUint64 (word_of_nat (length bs))" "drop 8 (sent_frame bs) = bs"
    "unat (word_of_nat (length bs) :: u64) = length bs" "8 \<le> length (sent_frame bs)"
    "make_slice_ok 1 (length bs)"
  using assms unat_word_small[of "length bs"] by (simp_all add: sent_frame_def make_slice_ok_def)

lemma handleConnection_frame:
  assumes "length bs \<le> 2 ^ 48"
  shows "handleConnection MP E F now now' st (sent_frame bs) bank idk =
    dispatch_message MP E F now now' st bs bank idk"
  using frame_parts[OF assms] by (simp add: handleConnection_def Let_def)

lemma exchange_served:
  assumes "speaks CP MP" and "cp_Marshal CP msg = Inr bs" and "mp_Marshal MP reply = Inr rs"
    and "dispatch_message MP E F now now' st bs bank idk = Some (Inr (unix_reply_bytes MP reply, rest))"
    and "ce_exchange W = served MP E F now now' st bank idk"
  shows "exchange CP W msg = Inr rs"
proof -
  note l = speaksD(1)[OF assms(1,2)] speaksD(3)[OF assms(1,3)]
  have reply: "unix_reply_bytes MP reply = sent_frame rs"
    using assms(3) by (simp add: unix_reply_bytes_def sent_frame_def)
  have "ce_exchange W (sent_frame bs) = Inr (sent_frame rs)"
    using handleConnection_frame[OF l(1), of MP E F now now' st bank idk]
    by (simp add: assms(4,5) served_def reply split_beta)
  then show ?thesis
    using frame_parts[OF l(2)] assms(2) by (simp add: exchange_def sent_frame_def[symmetric] Let_def)
qed

lemma exchange_answered:
  assumes "speaks CP MP" and "ce_exchange W = served MP E F now now' st bank idk" and "exchange CP W msg = Inr rs"
  shows "\<exists>bs out rest. cp_Marshal CP msg = Inr bs \<and>
    dispatch_message MP E F now now' st bs bank idk = Some (Inr (out, rest)) \<and> out \<noteq> []"
proof -
  obtain bs where bs: "cp_Marshal CP msg = Inr bs" using assms(3) by (auto simp: exchange_def andThen_eq_Inr)
  obtain out where out: "served MP E F now now' st bank idk (sent_frame bs) = Inr out" "\<not> length out < 8"
    using assms(3) bs by (auto simp: exchange_def andThen_eq_Inr sent_frame_def[symmetric] assms(2) split: if_splits)
  then have "\<exists>rest. dispatch_message MP E F now now' st bs bank idk = Some (Inr (out, rest))"
    using handleConnection_frame[OF speaksD(1)[OF assms(1) bs], of MP E F now now' st bank idk]
    by (auto simp: served_def split: option.splits sum.splits)
  then show ?thesis using bs out(2) by force
qed

text \<open>A coding of one message and one reply.\<close>

definition sample_cp :: "client_message \<Rightarrow> unix_reply \<Rightarrow> client_pack" where
  "sample_cp msg reply =
     \<lparr>cp_Marshal = (\<lambda>m. if m = msg then Inr [1] else Inl (LibErr [])),
      cp_GeneralResponse = (\<lambda>_. case reply of GeneralResponse e \<Rightarrow> Inr e | _ \<Rightarrow> Inl EOF),
      cp_BundleCreateResponse = (\<lambda>_. case reply of BundleCreateResponse e bid \<Rightarrow> Inr (e, bid) | _ \<Rightarrow> Inl EOF),
      cp_ListResponse = (\<lambda>_. case reply of ListResponse e bids \<Rightarrow> Inr (e, bids) | _ \<Rightarrow> Inl EOF),
      cp_FetchBundleResponse = (\<lambda>_. case reply of
        FetchBundleResponse e (Some c) \<Rightarrow> Inr (e, c)
      | FetchBundleResponse e None \<Rightarrow> Inr (e, \<lparr>bc_BundleID = [], bc_SourceID = [], bc_DestinationID = [], bc_Payload = []\<rparr>)
      | _ \<Rightarrow> Inl EOF),
      cp_FetchAllBundlesResponse = (\<lambda>_. case reply of FetchAllBundlesResponse e cs \<Rightarrow> Inr (e, cs) | _ \<Rightarrow> Inl EOF)\<rparr>"

definition sample_mp :: "client_message \<Rightarrow> unix_reply \<Rightarrow> msgpack" where
  "sample_mp msg reply =
     \<lparr>mp_Message = (\<lambda>_. case msg of RegisterUnregisterMessage t _ \<Rightarrow> Inr t | BundleCreateMessage t _ \<Rightarrow> Inr t
        | ListBundles t _ _ \<Rightarrow> Inr t | FetchBundle t _ _ _ \<Rightarrow> Inr t | FetchAllBundles t _ _ _ \<Rightarrow> Inr t),
      mp_RegisterUnregister = (\<lambda>_. case msg of RegisterUnregisterMessage t eid \<Rightarrow> Inr (t, eid) | _ \<Rightarrow> Inl EOF),
      mp_BundleCreate = (\<lambda>_. case msg of BundleCreateMessage t args \<Rightarrow> Inr args | _ \<Rightarrow> Inl EOF),
      mp_ListBundles = (\<lambda>_. case msg of ListBundles t uri new \<Rightarrow> Inr (uri, new) | _ \<Rightarrow> Inl EOF),
      mp_FetchBundle = (\<lambda>_. case msg of FetchBundle t uri bid remove \<Rightarrow> Inr (uri, bid, remove) | _ \<Rightarrow> Inl EOF),
      mp_FetchAllBundles = (\<lambda>_. case msg of FetchAllBundles t uri new remove \<Rightarrow> Inr (uri, new, remove)
        | _ \<Rightarrow> Inl EOF),
      mp_Marshal = (\<lambda>r. if r = reply then Inr [2] else Inl (LibErr []))\<rparr>"

lemma sample_speaks: "speaks (sample_cp msg reply) (sample_mp msg reply)"
proof -
  have "understood (sample_mp msg reply) msg bs" for bs
    by (cases msg) (auto simp: sample_mp_def)
  moreover have "reply_read (sample_cp msg reply) reply bs" for bs
    by (cases reply) (auto simp: sample_cp_def split: option.split)
  ultimately show ?thesis by (auto simp: speaks_def sample_cp_def sample_mp_def split: if_splits)
qed

lemma sample_marshals [simp]:
  "cp_Marshal (sample_cp msg reply) msg = Inr [1]" "mp_Marshal (sample_mp msg reply) reply = Inr [2]"
  by (simp_all add: sample_cp_def sample_mp_def)

definition sample_client_env :: "(bytes \<Rightarrow> bytes res) \<Rightarrow> bytes \<Rightarrow> client_env" where
  "sample_client_env x input =
     \<lparr>ce_exchange = x, ce_Stdin = input, ce_ReadFile = (\<lambda>_. Inl EOF), ce_Create = (\<lambda>_. None),
      ce_Write = (\<lambda>_ bs. (None, bs))\<rparr>"

lemma sample_client_env_sel [simp]:
  "ce_exchange (sample_client_env x input) = x" "ce_Stdin (sample_client_env x input) = input"
  "ce_Create (sample_client_env x input) f = None" "ce_Write (sample_client_env x input) f bs = (None, bs)"
  by (simp_all add: sample_client_env_def)

section \<open>Properties\<close>

text \<open>
  Also shown: registering and unregistering from the command line. Client and agent together end with success exactly
  when the endpoint is legal and was not yet registered, or was registered, and then the agent's mailboxes have it,
  or have lost it; otherwise the client exits with code one and the mailboxes are as they were.
\<close>

theorem client_registers:
  assumes "speaks CP MP" and "ce_exchange W = served MP E F now now' st bank idk"
    and "cp_Marshal CP (RegisterUnregisterMessage
      (if register then MsgTypeRegisterEID else MsgTypeUnregisterEID) uri) = Inr bs"
    and "mp_Marshal MP (fst (handleRegisterUnregister uri register bank)) = Inr rs"
  shows "\<exists>fin out bank'. client_RegisterUnregister CP W uri register = Inr fin \<and>
    handleConnection MP E F now now' st (sent_frame bs) bank idk = Some (Inr (out, bank', [], idk)) \<and>
    (exit_code fin = 0 \<longleftrightarrow> (\<exists>eid. NewEndpointID uri = Inr eid \<and> (map_of (mailboxes bank) eid \<noteq> None) = (\<not> register))) \<and>
    (exit_code fin = 0 \<longrightarrow> (\<forall>eid. NewEndpointID uri = Inr eid \<longrightarrow> (map_of (mailboxes bank') eid \<noteq> None) = register)) \<and>
    (exit_code fin \<noteq> 0 \<longrightarrow> exit_code fin = 1 \<and> stderr fin \<noteq> None \<and> bank' = bank)"
proof -
  obtain reply bank' where h: "handleRegisterUnregister uri register bank = (reply, bank')" by fastforce
  then obtain e where e: "reply = GeneralResponse e"
    by (auto simp: handleRegisterUnregister_def split: sum.splits prod.splits)
  note b = speaksD(1)[OF assms(1,3)] and u = speaksD(2)[OF assms(1,3)]
  have r: "reply_read CP reply rs" using speaksD(4)[OF assms(1,4)] by (simp add: h)
  have d: "dispatch_message MP E F now now' st bs bank idk = Some (Inr (unix_reply_bytes MP reply, bank', [], idk))"
    using u h by (auto simp: dispatch_message_def msg_type_defs Let_def split: if_splits)
  have x: "exchange CP W (RegisterUnregisterMessage
      (if register then MsgTypeRegisterEID else MsgTypeUnregisterEID) uri) = Inr rs"
    using exchange_served[OF assms(1,3) _ d assms(2)] assms(4) by (simp add: h)
  have "client_RegisterUnregister CP W uri register =
      Inr (case e of None \<Rightarrow> succeeded (Println ''Success'') | Some e \<Rightarrow> failed e)"
    using r by (simp add: client_RegisterUnregister_def x e Let_def split: option.split)
  moreover have "e = None \<longleftrightarrow> (\<exists>eid. NewEndpointID uri = Inr eid \<and> (map_of (mailboxes bank) eid \<noteq> None) = (\<not> register))"
    "e = None \<longrightarrow> (\<forall>eid. NewEndpointID uri = Inr eid \<longrightarrow> (map_of (mailboxes bank') eid \<noteq> None) = register)"
    "e \<noteq> None \<longrightarrow> bank' = bank"
    using h by (auto simp: e handleRegisterUnregister_def bank_Register_def bank_Unregister_def map_of_mapset
        map_of_mapdel split: sum.splits if_splits)
  moreover note handleConnection_frame[OF b, of MP E F now now' st bank idk, unfolded d]
  ultimately show ?thesis
    by (intro exI conjI) (assumption | auto simp: succeeded_def failed_def split: option.splits)+
qed

theorem client_registers_witness:
  "let msg = RegisterUnregisterMessage MsgTypeRegisterEID ''dtn://a/''; reply = GeneralResponse None;
       W = sample_client_env (served (sample_mp msg reply) sample_env sample_floats 0 0 sample_store NewMailboxBank Map.empty) []
   in \<exists>fin. client_RegisterUnregister (sample_cp msg reply) W ''dtn://a/'' True = Inr fin \<and> exit_code fin = 0"
proof -
  let ?msg = "RegisterUnregisterMessage MsgTypeRegisterEID ''dtn://a/''"
  let ?reply = "GeneralResponse None"
  let ?x = "served (sample_mp ?msg ?reply) sample_env sample_floats 0 0 sample_store NewMailboxBank Map.empty"
  have "fst (handleRegisterUnregister ''dtn://a/'' True NewMailboxBank) = ?reply"
    by (simp add: handleRegisterUnregister_def sample_uri bank_Register_def NewMailboxBank_def)
  then show ?thesis
    using client_registers[OF sample_speaks[of ?msg ?reply], of "sample_client_env ?x []" sample_env
      sample_floats 0 0 sample_store NewMailboxBank Map.empty True "''dtn://a/''" "[1]" "[2]"]
    by (auto simp: sample_uri NewMailboxBank_def)
qed

text \<open>
  Claim C24: creating a bundle from the command line. When the client ends with success, the agent has handed one
  bundle to the manager: its source, destination and report-to endpoint are those of the command line, its
  payload is the first line of the standard input or the whole file, its creation time is the agent's clock, and the ID the
  client prints is its ID. No other choice of the creation time ever ends with success: the builder refuses a
  string, which is not a \<^verbatim>\<open>time.Time\<close>, and a bundle without a creation time that has no bundle
  age block, which the client cannot ask for.
\<close>

theorem client_creates:
  assumes "speaks CP MP" and "ce_exchange W = served MP E F now now' st bank idk"
    and "client_Create CP W src dst rep ts lt input = Inr fin" and "exit_code fin = 0"
  shows "\<exists>data bs out b idk'. create_payload W input = Inr data \<and>
    cp_Marshal CP (BundleCreateMessage MsgTypeBundleCreate
      (create_args src dst rep ts lt @ [(''payload_block'', V_bytes data)])) = Inr bs \<and>
    handleConnection MP E F now now' st (sent_frame bs) bank idk = Some (Inr (out, bank, [b], idk')) \<and>
    stdout fin = Println (bid_String (b_ID b)) \<and>
    NewEndpointID src = Inr (SourceNode (PrimaryBlock b)) \<and> NewEndpointID dst = Inr (Destination (PrimaryBlock b)) \<and>
    (if rep = [] then ReportTo (PrimaryBlock b) = SourceNode (PrimaryBlock b)
     else NewEndpointID rep = Inr (ReportTo (PrimaryBlock b))) \<and>
    payload_data (b_PayloadBlock b) = Inr data \<and>
    fst (CreationTimestamp (PrimaryBlock b)) = DtnTimeNow now \<and> ts = ''now''"
proof -
  obtain data where data: "create_payload W input = Inr data"
    using assms(3,4) by (auto simp: client_Create_def or_exit_def failed_def split: sum.splits err.splits)
  define msg where "msg = BundleCreateMessage MsgTypeBundleCreate
      (create_args src dst rep ts lt @ [(''payload_block'', V_bytes data)])"
  obtain rs where rs: "exchange CP W msg = Inr rs"
    using assms(3,4) data
    by (auto simp: client_Create_def msg_def or_exit_def failed_def Let_def split: sum.splits err.splits)
  then obtain bs out rest where bs: "cp_Marshal CP msg = Inr bs"
    and out: "dispatch_message MP E F now now' st bs bank idk = Some (Inr (out, rest))" "out \<noteq> []"
    using exchange_answered[OF assms(1,2)] by blast
  note b = speaksD(1)[OF assms(1) bs] and u = speaksD(2)[OF assms(1) bs, unfolded msg_def]
  have plain: "\<forall>(name, v) \<in> set (create_args src dst rep ts lt @ [(''payload_block'', V_bytes data)]). plain v"
    by (simp add: create_args_def)
  obtain args where args: "mp_Message MP bs = Inr MsgTypeBundleCreate" "mp_BundleCreate MP bs = Inr args"
    "mset args = mset (create_args src dst rep ts lt @ [(''payload_block'', V_bytes data)])"
    using u plain by auto
  from out args(1,2) obtain reply sent idk' where
    made: "handleBundleCreate (env_cbor E) F now now' args idk = Inr (reply, sent, idk')"
    and d: "dispatch_message MP E F now now' st bs bank idk =
      Some (Inr (unix_reply_bytes MP reply, bank, sent, idk'))"
    by (auto simp: dispatch_message_def msg_type_defs Let_def andThen_eq_Inr)
  obtain rs' where rs': "mp_Marshal MP reply = Inr rs'"
    using d out by (auto simp: unix_reply_bytes_def split: sum.splits)
  have "rs' = rs" using exchange_served[OF assms(1) bs rs' d assms(2)] rs by simp
  then have read: "reply_read CP reply rs" using speaksD(4)[OF assms(1) rs'] by simp
  have ok: "or_exit (cp_BundleCreateResponse CP rs) (\<lambda>reply.
      unless_refused reply (\<lambda>bundleID. Inr (succeeded (Println bundleID)))) = Inr fin"
    using assms(3) data rs by (simp add: client_Create_def msg_def)
  obtain b0 where b0: "BuildFromMap (env_cbor E) F now now' args = Inr b0"
    using made read ok assms(4)
    by (auto simp: handleBundleCreate_def failed_def split: sum.splits err.splits)
  obtain b1 where b1: "idk_Update b0 idk = (b1, idk')" "sent = [b1]" "reply = BundleCreateResponse None (bid_String (b_ID b1))"
    using made by (auto simp: handleBundleCreate_def b0 Send_def split: prod.splits)
  have same: "SourceNode (PrimaryBlock b1) = SourceNode (PrimaryBlock b0)"
    "Destination (PrimaryBlock b1) = Destination (PrimaryBlock b0)" "ReportTo (PrimaryBlock b1) = ReportTo (PrimaryBlock b0)"
    "b_PayloadBlock b1 = b_PayloadBlock b0"
    "fst (CreationTimestamp (PrimaryBlock b1)) = fst (CreationTimestamp (PrimaryBlock b0))"
    using arg_cong[OF b1(1), of fst] by (auto simp: idk_Update_def Let_def)
  note fields = created_fields[OF args(3) b0]
  have "stdout fin = Println (bid_String (b_ID b1))"
    using ok read b1(3) by (auto simp: succeeded_def)
  then show ?thesis
    using data bs fields same handleConnection_frame[OF b, of MP E F now now' st bank idk, unfolded d] b1(2)
    unfolding msg_def by - (rule exI[of _ data], rule exI[of _ bs], rule exI, rule exI[of _ b1], rule exI, auto)
qed

definition sample_now :: time where "sample_now = 946684800005000000"

definition sample_args :: "(string \<times> go_val) list" where
  "sample_args = create_args ''dtn://a/'' ''dtn://a/'' [] ''now'' ''1s'' @ [(''payload_block'', V_bytes [104, 105, 10])]"

definition sample_created :: dtn_bundle where
  "sample_created =
     \<lparr>PrimaryBlock = empty_primary\<lparr>Destination := sample_eid, SourceNode := sample_eid,
        ReportTo := sample_eid, CreationTimestamp := (5, 0), Lifetime := 1000\<rparr>,
      ExtensionBlocks = [], b_PayloadBlock = NewCanonicalBlock 1 0 (PayloadBlock [104, 105, 10])\<rparr>"

lemma sample_clock: "DtnTimeNow sample_now = 5"
  using DtnTimeFromTime_small[of 5 0] by (simp add: DtnTimeNow_def sample_now_def milliseconds1970To2k_def)

lemma sample_alive: "\<not> Time 5 + duration_of_ms 1000 < sample_now"
  using Time_small[of 5] duration_small[of 1000] by (simp add: sample_now_def milliseconds1970To2k_def)

lemma sample_args_methods:
  "map_methods sample_floats sample_now sample_args NewBuilder =
     Inr \<lparr>bldr_err = None, primary = (PrimaryBlock sample_created)\<lparr>ReportTo := None\<rparr>, canonicals = [],
       canonicalCounter = 2, payload = b_PayloadBlock sample_created, crcType = CRCNo\<rparr>"
  by (simp add: sample_args_def create_args_def map_method_def NewBuilder_def bldr_Destination_def bldr_Source_def
      unless_err_def set_parsed_def sample_uri CreationTimestampNow_def bldr_creationTimestamp_def sample_clock
      bldr_Lifetime_def bldrParseLifetime_def sample_second go_div_def bldr_Canonical_def put_block_def
      block_type_defs NewCanonicalBlock_def bldr_PayloadBlock_def empty_primary_def NewCreationTimestamp_def
      sample_created_def)

lemma sample_created_valid: "b_CheckValid sample_now sample_created = Inr []"
  by (simp add: b_CheckValid_def sample_created_def empty_primary_def NewCanonicalBlock_def
      cb_CheckValid_def blockcf_CheckValid_def block_type_defs ReplicateBlock_def StatusReportBlock_def
      TypeCode_def pb_CheckValid_def bcf_CheckValid_def Has_def dtnVersion_def
      wf_eidD [OF sample_eid_wf] IsZeroTime_def ct_DtnTime_def IsLifetimeExceeded_def sample_alive)
    (simp add: sample_eid_def DtnNone_def)

lemma sample_created_builds:
  "BuildFromMap L sample_floats sample_now sample_now sample_args = Inr (b_SetCRCType L CRCNo sample_created)"
proof -
  have "MustNewBundle (PrimaryBlock sample_created) [] (b_PayloadBlock sample_created) = sample_created"
    by (simp add: MustNewBundle_def sample_created_def sortExtensionBlocks_def go_sort_def)
  moreover have "(PrimaryBlock sample_created)\<lparr>ReportTo := sample_eid\<rparr> = PrimaryBlock sample_created"
    "SourceNode (PrimaryBlock sample_created) = sample_eid" "Destination (PrimaryBlock sample_created) = sample_eid"
    "sample_eid \<noteq> None"
    by (simp_all add: sample_created_def empty_primary_def sample_eid_def)
  ultimately show ?thesis
    by (simp add: BuildFromMap_def sample_args_methods Build_def NewBundle_def sample_created_valid Let_def)
qed

definition sample_sent :: dtn_bundle where
  "sample_sent = fst (idk_Update (b_SetCRCType rfc_lib CRCNo sample_created) Map.empty)"

definition sample_create_msg :: client_message where
  "sample_create_msg = BundleCreateMessage MsgTypeBundleCreate sample_args"

definition sample_create_reply :: unix_reply where
  "sample_create_reply = BundleCreateResponse None (bid_String (b_ID sample_sent))"

definition sample_create_env :: client_env where
  "sample_create_env = sample_client_env (served (sample_mp sample_create_msg sample_create_reply) sample_env
     sample_floats sample_now sample_now sample_store NewMailboxBank Map.empty) [104, 105, 10, 111]"

lemma sample_create_run:
  "client_Create (sample_cp sample_create_msg sample_create_reply) sample_create_env ''dtn://a/'' ''dtn://a/'' []
     ''now'' ''1s'' ''stdin'' = Inr (succeeded (Println (bid_String (b_ID sample_sent))))"
proof -
  let ?MP = "sample_mp sample_create_msg sample_create_reply" and ?CP = "sample_cp sample_create_msg sample_create_reply"
  obtain idk' where idk: "idk_Update (b_SetCRCType rfc_lib CRCNo sample_created) Map.empty = (sample_sent, idk')"
    unfolding sample_sent_def by (metis prod.collapse)
  have "handleBundleCreate rfc_lib sample_floats sample_now sample_now sample_args Map.empty =
      Inr (sample_create_reply, [sample_sent], idk')"
    using idk by (simp add: handleBundleCreate_def sample_created_builds Send_def sample_create_reply_def)
  then have d: "dispatch_message ?MP sample_env sample_floats sample_now sample_now sample_store [1] NewMailboxBank
      Map.empty = Some (Inr (unix_reply_bytes ?MP sample_create_reply, NewMailboxBank, [sample_sent], idk'))"
    by (simp add: dispatch_message_def sample_mp_def sample_create_msg_def msg_type_defs)
  have "exchange ?CP sample_create_env sample_create_msg = Inr [2]"
    by (rule exchange_served[OF sample_speaks sample_marshals d]) (simp add: sample_create_env_def)
  moreover have "create_payload sample_create_env ''stdin'' = Inr [104, 105, 10]"
    by (simp add: create_payload_def read_line_def sample_create_env_def)
  moreover have "cp_BundleCreateResponse ?CP [2] = Inr (None, bid_String (b_ID sample_sent))"
    by (simp add: sample_cp_def sample_create_reply_def)
  ultimately show ?thesis
    by (simp add: client_Create_def sample_create_msg_def[symmetric] sample_args_def[symmetric]
        flip: sample_create_msg_def sample_args_def)
qed

theorem client_creates_witness:
  "\<exists>b out idk'. handleConnection (sample_mp sample_create_msg sample_create_reply) sample_env sample_floats
      sample_now sample_now sample_store (sent_frame [1]) NewMailboxBank Map.empty =
      Some (Inr (out, NewMailboxBank, [b], idk')) \<and>
    payload_data (b_PayloadBlock b) = Inr [104, 105, 10] \<and> NewEndpointID ''dtn://a/'' = Inr (Destination (PrimaryBlock b))"
proof -
  have x: "ce_exchange sample_create_env = served (sample_mp sample_create_msg sample_create_reply) sample_env
      sample_floats sample_now sample_now sample_store NewMailboxBank Map.empty"
    by (simp add: sample_create_env_def)
  have p: "create_payload sample_create_env ''stdin'' = Inr [104, 105, 10]"
    by (simp add: create_payload_def read_line_def sample_create_env_def)
  have bs: "cp_Marshal (sample_cp sample_create_msg sample_create_reply) msg = Inr bs \<Longrightarrow> bs = [1]" for msg bs
    by (simp add: sample_cp_def split: if_splits)
  show ?thesis
    using client_creates[OF sample_speaks x sample_create_run] p bs by (force simp: succeeded_def)
qed

lemma save_ok:
  assumes "\<forall>f. ce_Create W f = None" and "\<forall>f bs. ce_Write W f bs = (None, bs)"
  shows "save_all W contents fs =
    (None, fold (\<lambda>c. mapset (saved_name (bc_BundleID c)) (bc_Payload c)) contents fs)"
  using assms by (induction contents arbitrary: fs) (simp_all add: save_def)

lemma fold_mapset_new:
  "distinct (map fst fs @ map k cs) \<Longrightarrow> fold (\<lambda>c. mapset (k c) (v c)) cs fs = fs @ map (\<lambda>c. (k c, v c)) cs"
  by (induction cs arbitrary: fs) (auto simp: mapset_new)

lemma find_append:
  "find P (xs @ ys) = (case find P xs of None \<Rightarrow> find P ys | Some y \<Rightarrow> Some y)"
  by (induction xs) simp_all

lemma map_of_fold_mapset:
  "map_of (fold (\<lambda>c. mapset (k c) (v c)) cs fs) f =
    (case find (\<lambda>c. k c = f) (rev cs) of None \<Rightarrow> map_of fs f | Some c \<Rightarrow> Some (v c))"
  by (induction cs arbitrary: fs) (auto simp: map_of_mapset find_append split: option.split)

text \<open>What \<^verbatim>\<open>get all\<close> leaves when the agent has answered with \<open>contents\<close>.\<close>

lemma client_got_all:
  assumes "speaks CP MP" and "ce_exchange W = served MP E F now now' st bank idk"
    and "cp_Marshal CP (FetchAllBundles MsgTypeFetchAllBundles uri new remove) = Inr bs"
    and "handleGetAllBundles E now st uri new remove bank = Some (Inr (FetchAllBundlesResponse None contents, bank'))"
    and "mp_Marshal MP (FetchAllBundlesResponse None contents) = Inr rs"
    and "\<forall>f. ce_Create W f = None" and "\<forall>f bs. ce_Write W f bs = (None, bs)"
  shows "client_GetAllBundles CP W uri new remove = Inr ((succeeded [])\<lparr>ce_files :=
      fold (\<lambda>c. mapset (saved_name (bc_BundleID c)) (bc_Payload c)) contents []\<rparr>)"
    "handleConnection MP E F now now' st (sent_frame bs) bank idk = Some (Inr (sent_frame rs, bank', [], idk))"
proof -
  have d: "dispatch_message MP E F now now' st bs bank idk =
      Some (Inr (unix_reply_bytes MP (FetchAllBundlesResponse None contents), bank', [], idk))"
    using speaksD(2)[OF assms(1,3)] assms(4) by (simp add: dispatch_message_def msg_type_defs)
  have x: "exchange CP W (FetchAllBundles MsgTypeFetchAllBundles uri new remove) = Inr rs"
    by (rule exchange_served[OF assms(1,3,5) d assms(2)])
  show "client_GetAllBundles CP W uri new remove = Inr ((succeeded [])\<lparr>ce_files :=
      fold (\<lambda>c. mapset (saved_name (bc_BundleID c)) (bc_Payload c)) contents []\<rparr>)"
    using speaksD(4)[OF assms(1,5)]
    by (simp add: client_GetAllBundles_def x left_files_def save_ok[OF assms(6,7)])
  show "handleConnection MP E F now now' st (sent_frame bs) bank idk = Some (Inr (sent_frame rs, bank', [], idk))"
    using handleConnection_frame[OF speaksD(1)[OF assms(1,3)], of MP E F now now' st bank idk] assms(5)
    by (simp add: d unix_reply_bytes_def sent_frame_def)
qed

text \<open>
  Also shown: \<^verbatim>\<open>get all\<close> saves what the agent answers: with a file system that takes everything, the run
  ends with code zero, and a file has the payload of the last bundle whose ID, without slashes and colons, is
  the file's name. When these names are distinct, every bundle has its file.
\<close>

theorem client_saves:
  assumes "speaks CP MP" and "ce_exchange W = served MP E F now now' st bank idk"
    and "cp_Marshal CP (FetchAllBundles MsgTypeFetchAllBundles uri new remove) = Inr bs"
    and "handleGetAllBundles E now st uri new remove bank = Some (Inr (FetchAllBundlesResponse None contents, bank'))"
    and "mp_Marshal MP (FetchAllBundlesResponse None contents) = Inr rs"
    and "\<forall>f. ce_Create W f = None" and "\<forall>f bs. ce_Write W f bs = (None, bs)"
  shows "\<exists>fin. client_GetAllBundles CP W uri new remove = Inr fin \<and> exit_code fin = 0 \<and>
    (\<forall>f. map_of (ce_files fin) f =
      map_option bc_Payload (find (\<lambda>c. saved_name (bc_BundleID c) = f) (rev contents))) \<and>
    (distinct (map (\<lambda>c. saved_name (bc_BundleID c)) contents) \<longrightarrow>
      ce_files fin = map (\<lambda>c. (saved_name (bc_BundleID c), bc_Payload c)) contents)"
proof -
  define fin where "fin = (succeeded [])\<lparr>ce_files :=
      fold (\<lambda>c. mapset (saved_name (bc_BundleID c)) (bc_Payload c)) contents []\<rparr>"
  have "client_GetAllBundles CP W uri new remove = Inr fin"
    unfolding fin_def by (rule client_got_all(1)[OF assms])
  moreover have "exit_code fin = 0" by (simp add: fin_def succeeded_def)
  moreover have "map_of (ce_files fin) f =
      map_option bc_Payload (find (\<lambda>c. saved_name (bc_BundleID c) = f) (rev contents))" for f
    by (simp add: fin_def map_of_fold_mapset split: option.split)
  moreover have "distinct (map (\<lambda>c. saved_name (bc_BundleID c)) contents) \<longrightarrow>
      ce_files fin = map (\<lambda>c. (saved_name (bc_BundleID c), bc_Payload c)) contents"
    using fold_mapset_new[of "[]" "\<lambda>c. saved_name (bc_BundleID c)" contents bc_Payload] by (simp add: fin_def)
  ultimately show ?thesis by blast
qed

definition sample_bank :: mailbox_bank where
  "sample_bank = \<lparr>registeredIDs = [sample_eid], mailboxes = [(sample_eid, 0)],
     boxes = [[(b_ID sample_bundle, False)]]\<rparr>"

lemma sample_get_all:
  "\<exists>c bank'. handleGetAllBundles sample_env 0 sample_store ''dtn://a/'' False True sample_bank =
      Some (Inr (FetchAllBundlesResponse None [c], bank')) \<and> bc_Payload c = [1, 2, 3]"
proof -
  obtain bs where bs: "storable sample_env sample_bundle bs" using sample_storable by blast
  have ok: "store_ok sample_env map_of sample_store" by (rule sample.store_reach_ok[OF sample_store_reach])
  have "keeps 0 (b_ID sample_bundle) bs sample_store"
    by (rule sample.inserted_keeps[OF sample.store_reach_ok[OF empty_store_reach] sample_insert(1) _ _ bs])
      (simp_all add: good_disk_def empty_store_def)
  from sample.keeps_load[OF ok this _ bs sample_bundle_valid] obtain b where
    b: "Load sample_env 0 0 sample_store = Some (Inr (Loaded b))" "erase b = erase sample_bundle"
    by (auto simp: sample_insert(3) NewBundleDescriptor_def)
  have "payload_data (b_PayloadBlock b) = payload_data (b_PayloadBlock (erase b))"
    by (simp add: payload_data_def erase_def)
  also have "\<dots> = Inr [1, 2, 3]"
    unfolding b(2) by (simp add: payload_data_def erase_def sample_bundle_def NewCanonicalBlock_def)
  finally have p: "payload_data (b_PayloadBlock b) = Inr [1, 2, 3]" .
  have "named_mailbox ''dtn://a/'' sample_bank = Inr 0"
    by (simp add: named_mailbox_def sample_uri GetMailbox_def sample_bank_def)
  moreover have "mbox_GetAll sample_env 0 sample_store True [(b_ID sample_bundle, False)] = Some (None, [Loaded b], [])"
    by (simp add: mbox_GetAll_def mbox_List_def sample_known b(1) fetch_end_def)
  ultimately show ?thesis
    by (simp add: handleGetAllBundles_def sample_bank_def p)
qed

theorem client_saves_witness:
  "\<exists>msg reply fin f. client_GetAllBundles (sample_cp msg reply) (sample_client_env
      (served (sample_mp msg reply) sample_env sample_floats 0 0 sample_store sample_bank Map.empty) [])
      ''dtn://a/'' False True = Inr fin \<and> exit_code fin = 0 \<and> ce_files fin = [(f, [1, 2, 3])]"
proof -
  obtain c bank' where c: "handleGetAllBundles sample_env 0 sample_store ''dtn://a/'' False True sample_bank =
      Some (Inr (FetchAllBundlesResponse None [c], bank'))" "bc_Payload c = [1, 2, 3]"
    using sample_get_all by blast
  let ?msg = "FetchAllBundles MsgTypeFetchAllBundles ''dtn://a/'' False True"
  let ?reply = "FetchAllBundlesResponse None [c]"
  have "\<exists>fin. client_GetAllBundles (sample_cp ?msg ?reply) (sample_client_env
      (served (sample_mp ?msg ?reply) sample_env sample_floats 0 0 sample_store sample_bank Map.empty) [])
      ''dtn://a/'' False True = Inr fin \<and> exit_code fin = 0 \<and>
      ce_files fin = [(saved_name (bc_BundleID c), [1, 2, 3])]"
    using client_saves[OF sample_speaks sample_client_env_sel(1) sample_marshals(1) c(1) sample_marshals(2)] c(2)
    by force
  then show ?thesis by blast
qed

text \<open>
  Also shown: two bundles may share a file name: what \<^verbatim>\<open>dtn://a/b\<close> and \<^verbatim>\<open>dtn://ab/\<close> sent at the same time,
  under the same number. When the agent answers with both, the first one's payload is in no file at the end, the
  run ends with code zero, and with \<^verbatim>\<open>--remove\<close> the agent's mailbox is empty.
\<close>

lemma saved_name_collides:
  fixes ts :: creation_timestamp
  defines "bid \<equiv> \<lambda>node demux. \<lparr>bid_SourceNode = Some (DtnEndpoint \<lparr>NodeName = node, Demux = demux, IsDtnNone = False\<rparr>),
    bid_Timestamp = ts, bid_IsFragment = False, bid_FragmentOffset = 0, bid_TotalDataLength = 0\<rparr>"
  shows "bid ''a'' ''b'' \<noteq> bid ''ab'' []" "bid_String (bid ''a'' ''b'') \<noteq> bid_String (bid ''ab'' [])"
    "saved_name (bid_String (bid ''a'' ''b'')) = saved_name (bid_String (bid ''ab'' []))"
  by (simp_all add: bid_def bid_String_def saved_name_def eid_String_def et_String_def dtn_String_def)

theorem client_overwrites:
  assumes "speaks CP MP" and "ce_exchange W = served MP E F now now' st bank idk"
    and "cp_Marshal CP (FetchAllBundles MsgTypeFetchAllBundles uri False True) = Inr bs"
    and "handleGetAllBundles E now st uri False True bank = Some (Inr (FetchAllBundlesResponse None [c1, c2], bank'))"
    and "mp_Marshal MP (FetchAllBundlesResponse None [c1, c2]) = Inr rs"
    and "\<forall>f. ce_Create W f = None" and "\<forall>f bs. ce_Write W f bs = (None, bs)"
    and "saved_name (bc_BundleID c1) = saved_name (bc_BundleID c2)"
    and "named_mailbox uri bank = Inr p" and "p < length (boxes bank)"
  shows "\<exists>fin. client_GetAllBundles CP W uri False True = Inr fin \<and> exit_code fin = 0 \<and>
    ce_files fin = [(saved_name (bc_BundleID c2), bc_Payload c2)] \<and>
    handleConnection MP E F now now' st (sent_frame bs) bank idk = Some (Inr (sent_frame rs, bank', [], idk)) \<and>
    boxes bank' ! p = []"
proof -
  have "boxes bank' ! p = []"
    using assms(4,9,10)
    by (auto simp: handleGetAllBundles_def mbox_GetAll_def fetch_end_def set_box_def andThen_eq_Inr
        split: option.splits if_splits)
  then show ?thesis
    using client_got_all[OF assms(1-7)] assms(8) by (auto simp: succeeded_def mapset_def)
qed

text \<open>
  Also shown: of the standard input only the first line becomes the payload, its line feed included; an input without a line
  feed is refused, and nothing is sent.
\<close>

theorem stdin_first_line:
  "10 \<notin> set line \<Longrightarrow> ce_Stdin W = line @ 10 # lines \<Longrightarrow> create_payload W ''stdin'' = Inr (line @ [10])"
  "10 \<notin> set (ce_Stdin W) \<Longrightarrow> client_Create CP W src dst rep ts lt ''stdin'' = Inr (failed (AgentError EOF))"
  by (simp_all add: create_payload_def read_line_def client_Create_def or_exit_def takeWhile_append)

text \<open>
  Also shown: what an agent does not send of the reply it announced, the client takes for zeros: the error of the read is
  dropped.
\<close>

theorem short_reply_padded:
  assumes "cp_Marshal CP msg = Inr bs" and "n \<le> 2 ^ 48" and "length part < n"
    and "ce_exchange W (sent_frame bs) = Inr (PutUint64 (word_of_nat n) @ part)"
  shows "exchange CP W msg = Inr (part @ replicate (n - length part) 0)"
proof -
  have "unat (word_of_nat n :: u64) = n" using assms(2) by (intro unat_word_small) simp
  then show ?thesis
    using assms by (simp add: exchange_def sent_frame_def make_slice_ok_def Let_def)
qed

end
