(* ===== verification/Quicl.thy ===== *)
theory Quicl
  imports Mtcp
begin

text \<open>
  \<^verbatim>\<open>pkg/cla/quicl\<close>: the convergence layer over QUIC. Two endpoints first exchange their endpoint IDs
  on one stream; then every bundle has a stream of its own. The connection is the library's: what
  opening and accepting a stream returns, and whether an error is a timeout, are arguments.
\<close>

section \<open>Errors\<close>

type_synonym quic_code = u64

definition UnknownError :: quic_code where [simp]: "UnknownError = 1"
definition ApplicationShutdown :: quic_code where [simp]: "ApplicationShutdown = 2"
definition LocalError :: quic_code where [simp]: "LocalError = 3"
definition PeerError :: quic_code where [simp]: "PeerError = 4"
definition ConnectionError :: quic_code where [simp]: "ConnectionError = 5"

text \<open>\<open>EndpointPanic\<close> is a panic in the goroutine of the endpoint: no caller handles it.\<close>

datatype quic_err =
    HandshakeError string quic_code err
  | InitialisationError string
  | TransportError err
  | EndpointPanic string

definition handshake_failure :: "string \<Rightarrow> quic_code \<Rightarrow> err \<Rightarrow> quic_err" where
  "handshake_failure msg code e =
     (case e of Panic p \<Rightarrow> EndpointPanic p | _ \<Rightarrow> HandshakeError msg code e)"

section \<open>Endpoints\<close>

text \<open>The two directions of a stream: what is written, and what the peer writes until it ends.\<close>

record quic_stream =
  qs_out :: tcp_conn
  qs_in :: bytes

record quic_endpoint =
  qe_id :: endpoint_id
  qe_peerId :: endpoint_id
  qe_peerAddress :: string
  qe_dialer :: bool
  qe_active :: bool
  qe_handshake :: bool

definition NewListenerEndpoint :: "endpoint_id \<Rightarrow> string \<Rightarrow> quic_endpoint" where
  "NewListenerEndpoint eid remote =
     \<lparr>qe_id = eid, qe_peerId = None, qe_peerAddress = remote, qe_dialer = False, qe_active = False,
      qe_handshake = False\<rparr>"

definition NewDialerEndpoint :: "string \<Rightarrow> endpoint_id \<Rightarrow> quic_endpoint" where
  "NewDialerEndpoint peerAddress eid =
     \<lparr>qe_id = eid, qe_peerId = None, qe_peerAddress = peerAddress, qe_dialer = True, qe_active = False,
      qe_handshake = False\<rparr>"

definition quic_conv :: "quic_endpoint \<Rightarrow> convergence" where
  "quic_conv ep =
     \<lparr>cla_Address = qe_peerAddress ep, cla_receives = True, cla_sends = True, cla_peer = qe_peerId ep\<rparr>"

section \<open>The handshake\<close>

text \<open>
  A write that fails is one error here: the code words it by the step of the buffered writer that
  met it. An endpoint without an ID panics when it is serialised.
\<close>

definition sendEndpointID :: "lib \<Rightarrow> quic_endpoint \<Rightarrow> quic_stream \<Rightarrow> quic_err option \<times> quic_stream" where
  "sendEndpointID L ep s =
     (case eid_MarshalCbor L (qe_id ep) of
        Inl e \<Rightarrow> (Some (handshake_failure ''error marshaling endpoint-id'' LocalError e), s)
      | Inr buff \<Rightarrow>
          (case conn_Write (WriteByteStringLen L (word_of_nat (length buff)) @ buff) (qs_out s) of
             (None, out) \<Rightarrow> (None, s\<lparr>qs_out := out\<rparr>)
           | (Some e, out) \<Rightarrow>
               (Some (HandshakeError ''error sending id'' ConnectionError e), s\<lparr>qs_out := out\<rparr>)))"

text \<open>The end of the stream reads as a length of 0, and a length of 0 is refused.\<close>

definition receiveEndpointID :: "lib \<Rightarrow> quic_endpoint \<Rightarrow> quic_stream \<Rightarrow> quic_err option \<times> quic_endpoint" where
  "receiveEndpointID L ep s =
     (let zero = Some (HandshakeError ''error reading id length'' ConnectionError (Errorf ''length is 0''))
      in case ReadByteStringLen L (qs_in s) of
           Inl e \<Rightarrow>
             if e = EOF then (zero, ep)
             else (Some (handshake_failure ''error reading id length'' ConnectionError e), ep)
         | Inr (n, r) \<Rightarrow>
             if n = 0 then (zero, ep)
             else (case eid_UnmarshalCbor L r of
                     Inl e \<Rightarrow> (Some (handshake_failure ''error reading id'' ConnectionError e), ep)
                   | Inr (eid, _) \<Rightarrow> (None, ep\<lparr>qe_peerId := eid\<rparr>)))"

text \<open>
  The listener waits for a stream, which the dialer opens; \<open>deadline\<close> says whether an error is that
  of the handshake's timeout. The listener reads first, the dialer writes first.
\<close>

definition handshakeListener ::
  "lib \<Rightarrow> (err \<Rightarrow> bool) \<Rightarrow> quic_stream res \<Rightarrow> err option \<Rightarrow> quic_endpoint \<Rightarrow>
   quic_err option \<times> quic_endpoint \<times> quic_stream option" where
  "handshakeListener L deadline accepted closed ep =
     (case accepted of
        Inl e \<Rightarrow>
          (Some (if deadline e
             then HandshakeError ''dialer took too long to initiate handshake'' PeerError e
             else HandshakeError ''unanticipated error happened'' UnknownError e), ep, None)
      | Inr s \<Rightarrow>
          (case receiveEndpointID L ep s of
             (Some e, ep) \<Rightarrow> (Some e, ep, Some s)
           | (None, ep) \<Rightarrow>
               (case sendEndpointID L ep s of
                  (Some e, s) \<Rightarrow> (Some e, ep, Some s)
                | (None, s) \<Rightarrow>
                    (case closed of
                       Some e \<Rightarrow>
                         (Some (HandshakeError ''error closing handshake stream'' ConnectionError e), ep, Some s)
                     | None \<Rightarrow> (None, ep\<lparr>qe_handshake := True\<rparr>, Some s)))))"

definition handshakeDialer ::
  "lib \<Rightarrow> quic_stream res \<Rightarrow> quic_endpoint \<Rightarrow> quic_err option \<times> quic_endpoint \<times> quic_stream option" where
  "handshakeDialer L opened ep =
     (case opened of
        Inl e \<Rightarrow> (Some (HandshakeError ''Error during stream initiation'' ConnectionError e), ep, None)
      | Inr s \<Rightarrow>
          (case sendEndpointID L ep s of
             (Some e, s) \<Rightarrow> (Some e, ep, Some s)
           | (None, s) \<Rightarrow>
               (case receiveEndpointID L ep s of
                  (Some e, ep) \<Rightarrow> (Some e, ep, Some s)
                | (None, ep) \<Rightarrow> (None, ep\<lparr>qe_handshake := True\<rparr>, Some s))))"

text \<open>
  \<^verbatim>\<open>Activate\<close>: \<open>dialled\<close> is the outcome of dialling, which only a dialer does, \<open>hs\<close> the handshake
  of the endpoint's side. The second component is the code with which the connection is closed
  after a failed handshake.
\<close>

definition quic_Activate ::
  "err option \<Rightarrow> (quic_endpoint \<Rightarrow> quic_err option \<times> quic_endpoint \<times> quic_stream option) \<Rightarrow>
   quic_endpoint \<Rightarrow> cla_manager \<Rightarrow> quic_err option \<times> quic_code option \<times> quic_endpoint \<times> cla_manager" where
  "quic_Activate dialled hs ep m =
     (case (if qe_dialer ep then dialled else None) of
        Some e \<Rightarrow> (Some (TransportError e), None, ep, m)
      | None \<Rightarrow>
          (case hs ep of
             (Some (EndpointPanic p), ep, _) \<Rightarrow> (Some (EndpointPanic p), None, ep, m)
           | (Some (HandshakeError msg code e), ep, _) \<Rightarrow> (Some (HandshakeError msg code e), Some code, ep, m)
           | (Some e, ep, _) \<Rightarrow> (Some e, Some LocalError, ep, m)
           | (None, ep, _) \<Rightarrow>
               let ep = ep\<lparr>qe_active := True\<rparr> in (None, None, ep, NotifyConnect (qe_peerId ep) m)))"

section \<open>Bundles\<close>

text \<open>
  \<open>acquired\<close> and \<open>opened\<close> are the outcomes of the rate limiter and of opening a stream, \<open>timeout\<close>
  says which errors are timeouts of the network. An error of closing the stream is only logged.
\<close>

definition quic_Send ::
  "lib \<Rightarrow> (err \<Rightarrow> bool) \<Rightarrow> err option \<Rightarrow> tcp_conn res \<Rightarrow> dtn_bundle \<Rightarrow> quic_endpoint \<Rightarrow> cla_manager \<Rightarrow>
   (quic_err option \<times> tcp_conn option \<times> cla_manager) res" where
  "quic_Send L timeout acquired opened b ep m =
     (let gone = (\<lambda>e. if timeout e then NotifyDisconnect (quic_conv ep) m else m)
      in if \<not> qe_handshake ep
         then Inr (Some (InitialisationError ''Handshake not yet completed''), None, m)
         else case b_MarshalCbor L b of
           Inl (Panic p) \<Rightarrow> Inl (Panic p)
         | Inl e \<Rightarrow> Inr (Some (TransportError e), None, m)
         | Inr (buff, _) \<Rightarrow>
             (case acquired of
                Some e \<Rightarrow> Inr (Some (TransportError e), None, m)
              | None \<Rightarrow>
                  (case opened of
                     Inl e \<Rightarrow> Inr (Some (TransportError e), None, gone e)
                   | Inr out \<Rightarrow>
                       (case conn_Write buff out of
                          (Some e, out) \<Rightarrow> Inr (Some (TransportError e), Some out, gone e)
                        | (None, out) \<Rightarrow> Inr (None, Some out, m)))))"

text \<open>The bundle that a stream brings, if it is one: nothing recovers from a panic here.\<close>

definition handleStream ::
  "lib \<Rightarrow> ebm \<Rightarrow> (err \<Rightarrow> bool) \<Rightarrow> time \<Rightarrow> quic_endpoint \<Rightarrow> bytes \<Rightarrow> cla_manager \<Rightarrow>
   (dtn_bundle option \<times> cla_manager) res option" where
  "handleStream L M timeout now ep stream m =
     (let gone = (\<lambda>e. if timeout e then NotifyDisconnect (quic_conv ep) m else m)
      in case b_UnmarshalCbor L M now stream of
           None \<Rightarrow> None
         | Some (Inl (Panic p)) \<Rightarrow> Some (Inl (Panic p))
         | Some (Inl e) \<Rightarrow> Some (Inr (None, gone e))
         | Some (Inr (b, errs, _)) \<Rightarrow>
             Some (Inr (if errs = [] then (Some b, m) else (None, gone (MultiErr errs)))))"

text \<open>What accepting a stream returns, as the loop of \<^verbatim>\<open>handleConnection\<close> tells it apart.\<close>

datatype accept_event =
    StreamAccepted bytes
  | ApplicationError bool
  | NetworkTimeout
  | NetworkError
  | UnexpectedError

text \<open>
  The streams for which a handler is started, the manager, and whether the loop has ended. Network
  errors other than timeouts are skipped.
\<close>

fun quic_handleConnection :: "quic_endpoint \<Rightarrow> accept_event list \<Rightarrow> cla_manager \<Rightarrow> bytes list \<times> cla_manager \<times> bool" where
  "quic_handleConnection ep [] m = ([], m, False)"
| "quic_handleConnection ep (StreamAccepted s # es) m =
     (case quic_handleConnection ep es m of (ss, m, ended) \<Rightarrow> (s # ss, m, ended))"
| "quic_handleConnection ep (ApplicationError remote # es) m =
     ([], if remote then NotifyDisconnect (quic_conv ep) m else m, True)"
| "quic_handleConnection ep (NetworkTimeout # es) m = ([], NotifyDisconnect (quic_conv ep) m, True)"
| "quic_handleConnection ep (NetworkError # es) m = quic_handleConnection ep es m"
| "quic_handleConnection ep (UnexpectedError # es) m = quic_handleConnection ep es m"

section \<open>The listener\<close>

record quic_listener =
  ql_listenAddress :: string
  ql_endpointID :: endpoint_id
  ql_started :: bool
  ql_running :: bool

definition NewQUICListener :: "string \<Rightarrow> endpoint_id \<Rightarrow> quic_listener" where
  "NewQUICListener address eid =
     \<lparr>ql_listenAddress = address, ql_endpointID = eid, ql_started = False, ql_running = False\<rparr>"

definition ql_Start :: "err option \<Rightarrow> quic_listener \<Rightarrow> err option \<times> quic_listener" where
  "ql_Start listening l =
     (case listening of
        Some e \<Rightarrow> (Some e, l) | None \<Rightarrow> (None, l\<lparr>ql_started := True, ql_running := True\<rparr>))"

definition ql_Close :: "quic_listener \<Rightarrow> quic_listener res" where
  "ql_Close l = (if ql_started l then Inr (l\<lparr>ql_running := False\<rparr>) else nil_deref)"

text \<open>
  The loop that accepts connections: each is registered with the manager under the address of the
  peer. Only the closing of the listener ends it.
\<close>

datatype listen_event = Connected string | ListenError | ServerClosed

fun ql_handle :: "quic_listener \<Rightarrow> listen_event list \<Rightarrow> cla_manager \<Rightarrow> quic_endpoint list \<times> cla_manager" where
  "ql_handle l [] m = ([], m)"
| "ql_handle l (Connected remote # es) m =
     (let ep = NewListenerEndpoint (ql_endpointID l) remote
      in case ql_handle l es (registerAsync (quic_conv ep) m) of (eps, m) \<Rightarrow> (ep # eps, m))"
| "ql_handle l (ListenError # es) m = ql_handle l es m"
| "ql_handle l (ServerClosed # es) m = ([], m)"

section \<open>Properties\<close>

context cboring
begin

lemma sendEndpointID_ok:
  assumes "eid_MarshalCbor L (qe_id ep) = Inr bs" and "tc_fault (qs_out s) = None"
  shows "sendEndpointID L ep s = (None, s\<lparr>qs_out := (qs_out s)\<lparr>tc_sent :=
    tc_sent (qs_out s) @ WriteByteStringLen L (word_of_nat (length bs)) @ bs\<rparr>\<rparr>)"
  using assms by (simp add: sendEndpointID_def conn_Write_ok)

lemma receiveEndpointID_ok:
  assumes "wf_eid eid" and m: "eid_MarshalCbor L eid = Inr bs" and len: "length bs < 2 ^ 64"
    and "qs_in s = WriteByteStringLen L (word_of_nat (length bs)) @ bs @ r"
  shows "receiveEndpointID L ep s = (None, ep\<lparr>qe_peerId := eid\<rparr>)"
proof -
  have "bs \<noteq> []"
    using takes_frontD [OF eid_front, of bs eid "[]"] eid_rw [OF assms(1) m, of "[]"]
    by (auto simp: strict_suffix_def)
  then have "(word_of_nat (length bs) :: u64) \<noteq> 0"
    using unat_word_small [OF len] by (metis length_0_conv unat_0)
  then show ?thesis
    using assms(4) eid_rw [OF assms(1) m] by (simp add: receiveEndpointID_def byte_len_rw)
qed

end

text \<open>What an endpoint writes in a handshake, and what reading a part of it can give.\<close>

definition id_message :: "lib \<Rightarrow> bytes \<Rightarrow> bytes" where
  "id_message L bs = WriteByteStringLen L (word_of_nat (length bs)) @ bs"

lemma conn_Write_part: "conn_Write bs c = (e, c') \<Longrightarrow> \<exists>x. tc_sent c' @ x = tc_sent c @ bs"
proof (cases "tc_fault c")
  case None
  moreover assume "conn_Write bs c = (e, c')"
  ultimately show ?thesis by (auto simp: conn_Write_def)
next
  case (Some f)
  moreover assume "conn_Write bs c = (e, c')"
  ultimately have "tc_sent c' = tc_sent c @ bs \<or> tc_sent c' = tc_sent c @ take (fst f) bs"
    by (auto simp: conn_Write_def split: if_splits prod.splits)
  then show ?thesis
  proof
    assume "tc_sent c' = tc_sent c @ take (fst f) bs"
    then have "tc_sent c' @ drop (fst f) bs = tc_sent c @ bs" by simp
    then show ?thesis ..
  qed auto
qed

lemma sendEndpointID_writes:
  assumes "eid_MarshalCbor L (qe_id ep) = Inr bs" and "sendEndpointID L ep s = (e, s')"
  shows "qs_in s' = qs_in s \<and> (\<exists>x. tc_sent (qs_out s') @ x = tc_sent (qs_out s) @ id_message L bs)"
proof -
  obtain e1 c where w: "conn_Write (id_message L bs) (qs_out s) = (e1, c)" by fastforce
  then have "s' = s\<lparr>qs_out := c\<rparr>"
    using assms by (auto simp: sendEndpointID_def id_message_def split: option.splits)
  then show ?thesis using conn_Write_part [OF w] by simp
qed

context cboring_stream
begin

lemma receiveEndpointID_part:
  assumes eid: "wf_eid eid" "eid_MarshalCbor L eid = Inr bs"
    and part: "qs_in s @ x = id_message L bs" and r: "receiveEndpointID L ep s = (e, ep')"
  shows "ep' = (if e = None then ep\<lparr>qe_peerId := eid\<rparr> else ep)"
proof (cases "e = None")
  case True
  then obtain n t eid' u where n: "ReadByteStringLen L (qs_in s) = Inr (n, t)"
    and t: "eid_UnmarshalCbor L t = Inr (eid', u)" and ep': "ep' = ep\<lparr>qe_peerId := eid'\<rparr>"
    using r by (auto simp: receiveEndpointID_def Let_def split: sum.splits if_splits prod.splits)
  have "t @ x = bs"
    using reads_onD [OF byte_len_on n, of x] part byte_len_rw by (simp add: id_message_def)
  then have "eid' = eid" using reads_onD [OF eid_on t, of x] eid_rw [OF eid, of "[]"] by simp
  then show ?thesis using True ep' by simp
next
  case False
  then show ?thesis
    using r by (auto simp: receiveEndpointID_def Let_def split: sum.splits if_splits prod.splits)
qed

end

text \<open>Both sides of a handshake, each with its endpoint, its stream and what the step before left.\<close>

lemma handshakeDialer_parts:
  assumes "handshakeDialer L (Inr s) d = (e, d', Some s')"
  obtains e1 e2 d2 where "sendEndpointID L d s = (e1, s')" "receiveEndpointID L d s' = (e2, d2)"
    "e = None \<longleftrightarrow> e1 = None \<and> e2 = None"
    "d' = (if e = None then d2\<lparr>qe_handshake := True\<rparr> else if e1 = None then d2 else d)"
proof -
  obtain e1 s1 where 1: "sendEndpointID L d s = (e1, s1)" by fastforce
  obtain e2 d2 where 2: "receiveEndpointID L d s1 = (e2, d2)" by fastforce
  have "s1 = s'" using assms 1 2 by (auto simp: handshakeDialer_def split: option.splits)
  then show thesis using that[of e1 e2 d2] assms 1 2 by (auto simp: handshakeDialer_def split: option.splits)
qed

lemma handshakeListener_parts:
  assumes "handshakeListener L deadline (Inr s) closed l = (e, l', Some s')"
  obtains e1 l1 e2 s2 where "receiveEndpointID L l s = (e1, l1)" "sendEndpointID L l1 s = (e2, s2)"
    "s' = (if e1 = None then s2 else s)" "e = None \<longleftrightarrow> e1 = None \<and> e2 = None \<and> closed = None"
    "l' = (if e = None then l1\<lparr>qe_handshake := True\<rparr> else l1)"
proof -
  obtain e1 l1 where 1: "receiveEndpointID L l s = (e1, l1)" by fastforce
  obtain e2 s2 where 2: "sendEndpointID L l1 s = (e2, s2)" by fastforce
  show thesis using that[OF 1 2] assms 1 2 by (auto simp: handshakeListener_def split: option.splits)
qed

text \<open>
  Claim C22: a dialer and a listener shake hands over a stream that may break at any point in either direction: each
  receives some part, from the front, of what the other wrote, and its own writes may fail. Whichever side
  reports success then has the other's endpoint ID as its peer and its handshake done; a side that fails has not. Over
  a stream that does not break, and is closed without an error, both succeed.
\<close>

theorem quicl_handshake_agrees:
  assumes "cboring_stream L" and "wf_eid (qe_id d)" and "wf_eid (qe_id l)"
    and "eid_MarshalCbor L (qe_id d) = Inr bd" and "length bd < 2 ^ 64"
    and "eid_MarshalCbor L (qe_id l) = Inr bl" and "length bl < 2 ^ 64"
    and "handshakeDialer L (Inr \<lparr>qs_out = \<lparr>tc_sent = [], tc_fault = fd\<rparr>, qs_in = toDialer\<rparr>) d = (ed, d', Some sd)"
    and "handshakeListener L deadline (Inr \<lparr>qs_out = \<lparr>tc_sent = [], tc_fault = fl\<rparr>, qs_in = toListener\<rparr>) closed l =
      (el, l', Some sl)"
    and "toDialer @ lostD = tc_sent (qs_out sl)" and "toListener @ lostL = tc_sent (qs_out sd)"
  shows "(ed = None \<longrightarrow> d' = d\<lparr>qe_peerId := qe_id l, qe_handshake := True\<rparr>) \<and>
    (el = None \<longrightarrow> l' = l\<lparr>qe_peerId := qe_id d, qe_handshake := True\<rparr>) \<and>
    (ed \<noteq> None \<longrightarrow> qe_handshake d' = qe_handshake d) \<and> (el \<noteq> None \<longrightarrow> qe_handshake l' = qe_handshake l) \<and>
    (fd = None \<and> fl = None \<and> closed = None \<and> lostD = [] \<and> lostL = [] \<longrightarrow> ed = None \<and> el = None)"
proof -
  note stream = assms(1)
  have c: "cboring L" using stream by (rule cboring_stream.axioms)
  let ?sd = "\<lparr>qs_out = \<lparr>tc_sent = [], tc_fault = fd\<rparr>, qs_in = toDialer\<rparr>"
  let ?sl = "\<lparr>qs_out = \<lparr>tc_sent = [], tc_fault = fl\<rparr>, qs_in = toListener\<rparr>"
  obtain e1 e2 d2 where D: "sendEndpointID L d ?sd = (e1, sd)" "receiveEndpointID L d sd = (e2, d2)"
    "ed = None \<longleftrightarrow> e1 = None \<and> e2 = None"
    "d' = (if ed = None then d2\<lparr>qe_handshake := True\<rparr> else if e1 = None then d2 else d)"
    by (rule handshakeDialer_parts [OF assms(8)])
  obtain f1 l1 f2 s2 where R: "receiveEndpointID L l ?sl = (f1, l1)" "sendEndpointID L l1 ?sl = (f2, s2)"
    "sl = (if f1 = None then s2 else ?sl)" "el = None \<longleftrightarrow> f1 = None \<and> f2 = None \<and> closed = None"
    "l' = (if el = None then l1\<lparr>qe_handshake := True\<rparr> else l1)"
    by (rule handshakeListener_parts [OF assms(9)])
  obtain x where x: "tc_sent (qs_out sd) @ x = id_message L bd" and sd_in: "qs_in sd = toDialer"
    using sendEndpointID_writes [OF assms(4) D(1)] by auto
  have "toListener @ lostL @ x = id_message L bd"
    using x unfolding assms(11) [symmetric] by simp
  then have l1: "l1 = (if f1 = None then l\<lparr>qe_peerId := qe_id d\<rparr> else l)"
    using cboring_stream.receiveEndpointID_part [OF stream assms(2,4) _ R(1), of "lostL @ x"] by simp
  then have "qe_id l1 = qe_id l" by simp
  then have bl: "eid_MarshalCbor L (qe_id l1) = Inr bl" using assms(6) by simp
  obtain y where "tc_sent (qs_out s2) @ y = id_message L bl"
    using sendEndpointID_writes [OF bl R(2)] by auto
  then have "\<exists>y. toDialer @ y = id_message L bl"
    using assms(10) R(3) by (cases "f1 = None") (auto, metis append_assoc)
  then have d2: "d2 = (if e2 = None then d\<lparr>qe_peerId := qe_id l\<rparr> else d)"
    using cboring_stream.receiveEndpointID_part [OF stream assms(3,6) _ D(2)] sd_in by auto
  have "ed = None \<and> el = None"
    if "fd = None" "fl = None" "closed = None" "lostD = []" "lostL = []"
  proof -
    have 1: "e1 = None" "tc_sent (qs_out sd) = id_message L bd"
      using cboring.sendEndpointID_ok [OF c assms(4), of ?sd] D(1) that(1) by (auto simp: id_message_def)
    have 2: "f1 = None"
      using cboring.receiveEndpointID_ok [OF c assms(2,4,5), of ?sl "[]"] R(1) assms(11) 1(2) that(5)
      by (simp add: id_message_def)
    have 3: "f2 = None" "tc_sent (qs_out sl) = id_message L bl"
      using cboring.sendEndpointID_ok [OF c bl, of ?sl] R(2,3) that(2) 2 by (auto simp: id_message_def)
    have "e2 = None"
      using cboring.receiveEndpointID_ok [OF c assms(3,6,7), of sd "[]"] D(2) assms(10) 3(2) that(4) sd_in
      by (simp add: id_message_def)
    then show ?thesis using 1 2 3 that D(3) R(4) by simp
  qed
  then show ?thesis using D(3,4) R(4,5) l1 d2 by auto
qed

definition sample_id_message :: bytes where
  "sample_id_message = [71, 130, 1, 100, 47, 47, 97, 47]"

theorem quicl_handshake_agrees_witness:
  "fst (snd (handshakeDialer rfc_lib
     (Inr \<lparr>qs_out = \<lparr>tc_sent = [], tc_fault = None\<rparr>, qs_in = sample_id_message\<rparr>)
     (NewDialerEndpoint ''b:35037'' sample_eid))) =
   (NewDialerEndpoint ''b:35037'' sample_eid)\<lparr>qe_peerId := sample_eid, qe_handshake := True\<rparr>"
proof -
  let ?d = "NewDialerEndpoint ''b:35037'' sample_eid" and ?l = "NewListenerEndpoint sample_eid ''a:1''"
  let ?s = "\<lparr>qs_out = \<lparr>tc_sent = [], tc_fault = None\<rparr>, qs_in = sample_id_message\<rparr>"
  let ?t = "\<lparr>qs_out = \<lparr>tc_sent = sample_id_message, tc_fault = None\<rparr>, qs_in = sample_id_message\<rparr>"
  have ids: "qe_id ?d = sample_eid" "qe_id ?l = sample_eid"
    by (simp_all add: NewDialerEndpoint_def NewListenerEndpoint_def)
  have msg: "WriteByteStringLen rfc_lib 7 @ [130, 1, 100, 47, 47, 97, 47] = sample_id_message"
    by (simp add: sample_id_message_def rfc_simps rfc_head_def)
  have send: "sendEndpointID rfc_lib ep ?s = (None, ?t)" if "qe_id ep = sample_eid" for ep
    using cboring.sendEndpointID_ok [OF cboring_rfc, of ep _ ?s] sample_eid_bytes that msg by simp
  have receive: "receiveEndpointID rfc_lib ep u = (None, ep\<lparr>qe_peerId := sample_eid\<rparr>)"
    if "qs_in u = sample_id_message" for ep u
    using cboring.receiveEndpointID_ok [OF cboring_rfc sample_eid_wf sample_eid_bytes, of u "[]" ep] that msg
    by simp
  have hd: "handshakeDialer rfc_lib (Inr ?s) ?d =
      (None, ?d\<lparr>qe_peerId := sample_eid, qe_handshake := True\<rparr>, Some ?t)"
    by (simp add: handshakeDialer_def send receive ids)
  have hl: "handshakeListener rfc_lib (\<lambda>_. False) (Inr ?s) None ?l =
      (None, ?l\<lparr>qe_peerId := sample_eid, qe_handshake := True\<rparr>, Some ?t)"
    by (simp add: handshakeListener_def send receive ids)
  show ?thesis
    using quicl_handshake_agrees [OF cboring_stream_rfc _ _ _ _ _ _ hd hl, of "[]" "[]"] sample_eid_wf sample_eid_bytes
    by (simp add: ids hd)
qed

text \<open>
  Also shown: after the handshake a well-formed, valid bundle that is sent over a stream without faults
  is the bundle that the peer's handler hands to the callback; before it nothing is sent.
\<close>

theorem quicl_delivers:
  assumes "cboring L" and "wf_bundle M b" and "b_MarshalCbor L b = Inr (bs, b')" and "length bs < 2 ^ 64"
    and "b_CheckValid now b = Inr []"
  shows "quic_Send L timeout None (Inr \<lparr>tc_sent = [], tc_fault = None\<rparr>) b ep m =
      (if qe_handshake ep then Inr (None, Some \<lparr>tc_sent = bs, tc_fault = None\<rparr>, m)
       else Inr (Some (InitialisationError ''Handshake not yet completed''), None, m)) \<and>
    handleStream L M timeout now ep' bs m' = Some (Inr (Some b', m'))"
  using cboring.b_Unmarshal_rw [OF assms(1-4), of now "[]"] assms(3,5)
  by (simp add: quic_Send_def conn_Write_ok handleStream_def)

theorem quicl_delivers_witness:
  "\<exists>bs. quic_Send rfc_lib (\<lambda>_. False) None (Inr \<lparr>tc_sent = [], tc_fault = None\<rparr>) sample_bundle
      ((NewDialerEndpoint ''b'' sample_eid)\<lparr>qe_handshake := True\<rparr>) sample_manager =
      Inr (None, Some \<lparr>tc_sent = bs, tc_fault = None\<rparr>, sample_manager) \<and>
    handleStream rfc_lib GetExtensionBlockManager (\<lambda>_. False) 0 (NewListenerEndpoint sample_eid ''a'') bs
      sample_manager = Some (Inr (Some sample_bundle, sample_manager))"
  using quicl_delivers [OF cboring_rfc sample_bundle_wf sample_bundle_bytes, of 0 "\<lambda>_. False"
      "(NewDialerEndpoint ''b'' sample_eid)\<lparr>qe_handshake := True\<rparr>" sample_manager
      "NewListenerEndpoint sample_eid ''a''" sample_manager]
  by (auto simp: sample_bundle_valid)

text \<open>
  Also shown: the loop over the incoming streams starts a handler for each one until the connection
  is lost, and tells the manager once if the peer closed it or timed out.
\<close>

fun ends_connection :: "accept_event \<Rightarrow> bool" where
  "ends_connection (ApplicationError _) = True"
| "ends_connection NetworkTimeout = True"
| "ends_connection _ = False"

lemma quic_handleConnection_exact:
  "quic_handleConnection ep es m =
    (concat (map (\<lambda>e. case e of StreamAccepted s \<Rightarrow> [s] | _ \<Rightarrow> []) (takeWhile (\<lambda>e. \<not> ends_connection e) es)),
     (case find ends_connection es of
        None \<Rightarrow> m | Some e \<Rightarrow> if e = ApplicationError False then m else NotifyDisconnect (quic_conv ep) m),
     find ends_connection es \<noteq> None)"
  by (induction ep es m rule: quic_handleConnection.induct) simp_all

text \<open>
  Also shown: a stream that carries a bundle without a payload block ends the daemon of the peer: the
  check of the bundle panics in the stream's goroutine, and nothing recovers from it, unlike in MTCP.
\<close>

lemma panic_in_stream:
  "ParseBundle L M now stream = Some (Inl (Panic p)) \<Longrightarrow>
    handleStream L M timeout now ep stream m = Some (Inl (Panic p))"
  by (auto simp: ParseBundle_def handleStream_def andThen_eq_Inl Let_def)

theorem quicl_payloadless_panics:
  assumes "cboring L" and "wf_pb pb" and "pb_MarshalCbor L pb = Inr (p, pb')"
  shows "\<exists>msg. handleStream L M timeout now ep ([IndefiniteArray L] @ p @ [BreakCode L]) m = Some (Inl (Panic msg))"
  using parse_without_payload_panics [OF assms, of "[]" M "[]" "[]" now] panic_in_stream by fastforce

theorem quicl_payloadless_panics_witness:
  "\<exists>msg. handleStream rfc_lib GetExtensionBlockManager (\<lambda>_. False) 0 (NewListenerEndpoint sample_eid ''a'')
     [159, 136, 7, 0, 0, 130, 1, 100, 47, 47, 97, 47, 130, 1, 100, 47, 47, 97, 47, 130, 1, 100, 47,
      47, 97, 47, 130, 1, 0, 9, 255] sample_manager = Some (Inl (Panic msg))"
  using quicl_payloadless_panics [OF cboring_rfc sample_primary_wf sample_primary_bytes,
      of GetExtensionBlockManager "\<lambda>_. False" 0 "NewListenerEndpoint sample_eid ''a''" sample_manager]
  by (simp add: rfc_simps)

text \<open>
  Also shown: a listener that could not be started panics when it is closed, and starting it again
  after an error is possible.
\<close>

lemma ql_lifecycle:
  "ql_Start None (NewQUICListener a eid) = (None, l) \<Longrightarrow> ql_running l \<and> (\<exists>l'. ql_Close l = Inr l' \<and> \<not> ql_running l')"
  "ql_Start (Some e) (NewQUICListener a eid) = (r, l) \<Longrightarrow> ql_Close l = nil_deref"
  by (auto simp: ql_Start_def ql_Close_def NewQUICListener_def)

end
