(* ===== verification/Discovery.thy ===== *)
theory Discovery
  imports Quicl
begin

text \<open>
  \<^verbatim>\<open>pkg/discovery\<close>: announcements of a node's convergence layers, their serialisation, and the manager
  that receives them over UDP multicast and registers a convergence for each at the manager of the
  convergence layers. The peer discovery itself is a library: what it reports is an argument.
\<close>

section \<open>Announcements\<close>

record announcement =
  an_Type :: cla_type
  an_Endpoint :: endpoint_id
  an_Port :: u64

definition an_MarshalCbor :: "lib \<Rightarrow> announcement \<Rightarrow> bytes res" where
  "an_MarshalCbor L a =
     andThen (wrapping ''marshalling endpoint failed'' (eid_MarshalCbor L (an_Endpoint a))) (\<lambda>eid.
       Inr (WriteArrayLength L 3 @ WriteUInt L (an_Type a) @ eid @ WriteUInt L (an_Port a)))"

definition an_UnmarshalCbor :: "lib \<Rightarrow> announcement reader" where
  "an_UnmarshalCbor L i =
     andThen (ReadArrayLength L i) (\<lambda>(l, r).
       if l \<noteq> 3 then Inl (Errorf ''wrong array length instead of 3'')
       else andThen (ReadUInt L r) (\<lambda>(n, r).
         case CLAType_CheckValid n of
           Some e \<Rightarrow> Inl e
         | None \<Rightarrow>
             andThen (wrapping ''unmarshalling endpoint failed'' (eid_UnmarshalCbor L r)) (\<lambda>(eid, r).
             andThen (ReadUInt L r) (\<lambda>(port, r).
               Inr (\<lparr>an_Type = n, an_Endpoint = eid, an_Port = port\<rparr>, r)))))"

definition MarshalAnnouncements :: "lib \<Rightarrow> announcement list \<Rightarrow> bytes res" where
  "MarshalAnnouncements L as =
     andThen (map_res (\<lambda>a. wrapping ''marshalling Announcement failed'' (an_MarshalCbor L a)) as) (\<lambda>bs.
       Inr (WriteArrayLength L (word_of_nat (length as)) @ concat bs))"

fun read_announcements :: "lib \<Rightarrow> nat \<Rightarrow> bytes \<Rightarrow> announcement list res" where
  "read_announcements L 0 i = Inr []"
| "read_announcements L (Suc n) i =
     andThen (wrapping ''unmarshalling Announcement failed'' (an_UnmarshalCbor L i)) (\<lambda>(a, r).
     andThen (read_announcements L n r) (\<lambda>as. Inr (a # as)))"

text \<open>The slice for the announced number of announcements, 32 bytes each, is made first.\<close>

definition UnmarshalAnnouncements :: "lib \<Rightarrow> bytes \<Rightarrow> announcement list res" where
  "UnmarshalAnnouncements L data =
     andThen (ReadArrayLength L data) (\<lambda>(l, r).
       if make_slice_ok 32 (unat l) then read_announcements L (unat l) r
       else Inl (Panic ''makeslice: len out of range''))"

section \<open>The manager\<close>

text \<open>\<open>dm_stops\<close>: whether the multicast of IPv4 and that of IPv6 were started and can be stopped.\<close>

record disc_manager =
  dm_NodeId :: endpoint_id
  dm_stop4 :: bool
  dm_stop6 :: bool

text \<open>
  \<open>found4\<close> and \<open>found6\<close> are what the discovery of each IP version reports within its first second,
  if it reports anything.
\<close>

definition disc_InitialiseManager ::
  "lib \<Rightarrow> disc_manager option \<Rightarrow> endpoint_id \<Rightarrow> announcement list \<Rightarrow> bool \<Rightarrow> bool \<Rightarrow>
   err option \<Rightarrow> err option \<Rightarrow> disc_manager option res" where
  "disc_InitialiseManager L singleton nodeId announcements ipv4 ipv6 found4 found6 =
     (if singleton \<noteq> None
      then Inl (Panic ''Attempting to access an uninitialised discovery manager. This must never happen!'')
      else andThen (MarshalAnnouncements L announcements) (\<lambda>msg.
        case (if ipv4 then found4 else None) of
          Some e \<Rightarrow> Inl e
        | None \<Rightarrow>
            (case (if ipv6 then found6 else None) of
               Some e \<Rightarrow> Inl e
             | None \<Rightarrow> Inr (Some \<lparr>dm_NodeId = nodeId, dm_stop4 = ipv4, dm_stop6 = ipv6\<rparr>))))"

definition disc_GetManagerSingleton :: "disc_manager option \<Rightarrow> disc_manager res" where
  "disc_GetManagerSingleton singleton =
     (case singleton of
        None \<Rightarrow> Inl (Panic ''Attempting to access an uninitialised discovery manager. This must never happen!'')
      | Some m \<Rightarrow> Inr m)"

text \<open>The singleton that is left, and which of the two discoveries are told to stop.\<close>

definition ShutdownDiscoveryManager :: "disc_manager option \<Rightarrow> disc_manager option \<times> bool \<times> bool" where
  "ShutdownDiscoveryManager singleton =
     (case singleton of None \<Rightarrow> (None, False, False) | Some m \<Rightarrow> (None, dm_stop4 m, dm_stop6 m))"

definition host_port :: "string \<Rightarrow> u64 \<Rightarrow> string" where
  "host_port addr port = addr @ '':'' @ show_u64 port"

text \<open>The convergence for an announcement; of this node's own and of other types there is none.\<close>

definition discovered_conv :: "endpoint_id \<Rightarrow> announcement \<Rightarrow> string \<Rightarrow> convergence option" where
  "discovered_conv nodeId a addr =
     (if SameNode nodeId (an_Endpoint a) then None
      else if an_Type a = MTCP
      then Some (mtcp_conv (NewMTCPClient (host_port addr (an_Port a)) (an_Endpoint a)))
      else if an_Type a = QUICL
      then Some (quic_conv (NewDialerEndpoint (host_port addr (an_Port a)) nodeId))
      else None)"

definition handleDiscovery :: "endpoint_id \<Rightarrow> announcement \<Rightarrow> string \<Rightarrow> cla_manager \<Rightarrow> cla_manager" where
  "handleDiscovery nodeId a addr m =
     (case discovered_conv nodeId a addr of
        None \<Rightarrow> m
      | Some conv \<Rightarrow> if checkPresent conv m then m else registerAsync conv m)"

text \<open>
  A received packet: its announcements are handled in goroutines, here one after the other. A packet
  that does not parse is logged.
\<close>

definition notify :: "lib \<Rightarrow> endpoint_id \<Rightarrow> string \<Rightarrow> bytes \<Rightarrow> cla_manager \<Rightarrow> cla_manager res" where
  "notify L nodeId addr payload m =
     (case UnmarshalAnnouncements L payload of
        Inl (Panic p) \<Rightarrow> Inl (Panic p)
      | Inl e \<Rightarrow> Inr m
      | Inr as \<Rightarrow> Inr (fold (\<lambda>a m. handleDiscovery nodeId a addr m) as m))"

definition notify6 :: "lib \<Rightarrow> endpoint_id \<Rightarrow> string \<Rightarrow> bytes \<Rightarrow> cla_manager \<Rightarrow> cla_manager res" where
  "notify6 L nodeId addr = notify L nodeId (''['' @ addr @ '']'')"

section \<open>Properties\<close>

definition wf_announcement :: "announcement \<Rightarrow> bool" where
  "wf_announcement a \<longleftrightarrow> wf_eid (an_Endpoint a) \<and> CLAType_CheckValid (an_Type a) = None"

context cboring
begin

lemma announcement_rw:
  assumes "wf_announcement a" and "an_MarshalCbor L a = Inr bs"
  shows "an_UnmarshalCbor L (bs @ r) = Inr (a, r)"
proof -
  obtain eb where eb: "eid_MarshalCbor L (an_Endpoint a) = Inr eb"
    and bs: "bs = WriteArrayLength L 3 @ WriteUInt L (an_Type a) @ eb @ WriteUInt L (an_Port a)"
    using assms(2) by (auto simp: an_MarshalCbor_def andThen_eq_Inr)
  have "eid_UnmarshalCbor L (eb @ WriteUInt L (an_Port a) @ r) = Inr (an_Endpoint a, WriteUInt L (an_Port a) @ r)"
    using assms(1) eb by (intro eid_rw) (simp_all add: wf_announcement_def)
  then show ?thesis
    using assms(1) by (simp add: an_UnmarshalCbor_def bs read_back wf_announcement_def)
qed

lemma read_announcements_rw:
  assumes "\<forall>a \<in> set as. wf_announcement a"
    and "map_res (\<lambda>a. wrapping s (an_MarshalCbor L a)) as = Inr bs"
  shows "read_announcements L (length as) (concat bs @ r) = Inr as"
  using assms
proof (induction as arbitrary: bs)
  case (Cons a as)
  then obtain b bs' where "an_MarshalCbor L a = Inr b" "bs = b # bs'"
      "map_res (\<lambda>a. wrapping s (an_MarshalCbor L a)) as = Inr bs'"
    by (auto simp: andThen_eq_Inr)
  then show ?case using Cons announcement_rw [of a b "concat bs' @ r"] by simp
qed simp

end

lemma announcements_rw:
  assumes "cboring L" and "\<forall>a \<in> set as. wf_announcement a" and "length as < 2 ^ 43"
    and "MarshalAnnouncements L as = Inr bs"
  shows "UnmarshalAnnouncements L bs = Inr as"
proof -
  obtain es where es: "map_res (\<lambda>a. wrapping ''marshalling Announcement failed'' (an_MarshalCbor L a)) as = Inr es"
    and bs: "bs = WriteArrayLength L (word_of_nat (length as)) @ concat es"
    using assms(4) by (auto simp: MarshalAnnouncements_def andThen_eq_Inr)
  have "unat (word_of_nat (length as) :: u64) = length as" using assms(3) by (simp add: unat_word_small)
  moreover have "make_slice_ok 32 (length as)" using assms(3) by (simp add: make_slice_ok_def)
  ultimately show ?thesis
    using cboring.read_announcements_rw [OF assms(1,2) es, of "[]"]
    by (simp add: UnmarshalAnnouncements_def bs cboring.array_rw [OF assms(1)])
qed

text \<open>
  Also shown: a node reads from a packet the announcements that the other node put into it.
\<close>

theorem announcements_roundtrip:
  assumes "cboring L" and "\<forall>a \<in> set as. wf_announcement a" and "length as < 2 ^ 43"
    and "MarshalAnnouncements L as = Inr bs"
  shows "UnmarshalAnnouncements L bs = Inr as"
  using announcements_rw [OF assms] .

definition sample_announcement :: announcement where
  "sample_announcement = \<lparr>an_Type = MTCP, an_Endpoint = sample_eid, an_Port = 4556\<rparr>"

lemma sample_announcement_wf: "wf_announcement sample_announcement"
  by (simp add: sample_announcement_def wf_announcement_def sample_eid_wf CLAType_CheckValid_def CLAType_String_def)

lemma sample_packet:
  "MarshalAnnouncements rfc_lib [sample_announcement] =
    Inr [129, 131, 10, 130, 1, 100, 47, 47, 97, 47, 25, 17, 204]"
proof -
  have e: "(2::nat) = Suc (Suc 0)" by simp
  have "be_bytes 2 4556 = [17, 204]" unfolding e be_bytes.simps by simp
  then show ?thesis
    by (simp add: MarshalAnnouncements_def an_MarshalCbor_def sample_announcement_def sample_eid_bytes
        rfc_simps rfc_head_def)
qed

theorem announcements_roundtrip_witness:
  "UnmarshalAnnouncements rfc_lib [129, 131, 10, 130, 1, 100, 47, 47, 97, 47, 25, 17, 204] = Inr [sample_announcement]"
  using announcements_roundtrip [OF cboring_rfc _ _ sample_packet] sample_announcement_wf by simp







text \<open>
  Also shown: the number of announcements in a packet is allocated before any is read. A packet of a
  few bytes to the multicast group ends every daemon that receives it.
\<close>

theorem announced_count_panics:
  assumes "ReadArrayLength L payload = Inr (l, r)" and "2 ^ 48 < 32 * unat l"
  shows "notify L nodeId addr payload m = Inl (Panic ''makeslice: len out of range'')"
  using assms by (simp add: notify_def UnmarshalAnnouncements_def make_slice_ok_def)

theorem announced_count_panics_witness:
  "notify rfc_lib DtnNone ''10.0.0.2'' [155, 16, 0, 0, 0, 0, 0, 0, 0] sample_manager =
    Inl (Panic ''makeslice: len out of range'')"
proof (rule announced_count_panics)
  show "ReadArrayLength rfc_lib [155, 16, 0, 0, 0, 0, 0, 0, 0] = Inr (0x1000000000000000, [])"
    using cboring.array_rw [OF cboring_rfc, of "0x1000000000000000" "[]"]
    by (simp add: rfc_simps rfc_head_def eight_bytes)
qed simp

end
