(* ===== verification/Meshtastic.thy ===== *)
theory Meshtastic
  imports Bundle
begin

text \<open>
  \<^verbatim>\<open>pkg/cla/meshtastic\<close>: the convergence layer over LoRa. The client cuts a serialised bundle into
  chunks of 192 bytes, each behind a header of eight bytes; the server collects the chunks of a
  bundle in a buffer until all have arrived. Both work over a \<^verbatim>\<open>Transport\<close>, the socket of the
  radio's sidecar or UDP: the locale \<open>mesh_link\<close> states what they rely on, and is interpreted for
  both.
\<close>

section \<open>Packets and transports\<close>

text \<open>
  A received packet is a slice: its length, and the array behind it, which slicing may reach into
  beyond the length.
\<close>

record packet =
  pk_array :: bytes
  pk_len :: nat

text \<open>
  The two ends of a connection: what was written into it, what is still to be read from it, and the
  error that a write meets. A read from a connection with nothing to come returns \<^verbatim>\<open>io.EOF\<close>.
\<close>

record mesh_socket =
  so_sent :: bytes
  so_incoming :: bytes
  so_broken :: "err option"

definition ReadFull :: "nat \<Rightarrow> bytes \<Rightarrow> bytes res \<times> bytes" where
  "ReadFull n i =
     (if length i < n
      then (Inl (if i = [] then EOF else LibErr ''unexpected EOF''), [])
      else (Inr (take n i), drop n i))"

definition socket_SendPacket :: "bytes \<Rightarrow> mesh_socket \<Rightarrow> err option \<times> mesh_socket" where
  "socket_SendPacket data t =
     (let hdr = PutUint16 (word_of_nat (length data))
      in case so_broken t of
           Some e \<Rightarrow> (Some e, t)
         | None \<Rightarrow> (None, t\<lparr>so_sent := so_sent t @ hdr @ data\<rparr>))"

definition socket_ReceivePacket :: "mesh_socket \<Rightarrow> packet res \<times> mesh_socket" where
  "socket_ReceivePacket t =
     (case ReadFull 2 (so_incoming t) of
        (Inl e, i) \<Rightarrow> (Inl e, t\<lparr>so_incoming := i\<rparr>)
      | (Inr hdr, i) \<Rightarrow>
          (let len = unat (Uint16 hdr)
           in case ReadFull len i of
                (Inl e, i) \<Rightarrow> (Inl e, t\<lparr>so_incoming := i\<rparr>)
              | (Inr buf, i) \<Rightarrow> (Inr \<lparr>pk_array = buf, pk_len = len\<rparr>, t\<lparr>so_incoming := i\<rparr>)))"

record mesh_udp =
  udp_sent :: "bytes list"
  udp_incoming :: "bytes list"
  udp_broken :: "err option"

definition udp_SendPacket :: "bytes \<Rightarrow> mesh_udp \<Rightarrow> err option \<times> mesh_udp" where
  "udp_SendPacket data t =
     (case udp_broken t of
        Some e \<Rightarrow> (Some e, t)
      | None \<Rightarrow> (None, t\<lparr>udp_sent := udp_sent t @ [data]\<rparr>))"


text \<open>
  \<^verbatim>\<open>NewMeshtasticTransport\<close> dials at most thirty times; \<open>dials\<close> are the outcomes of its attempts.
  \<^verbatim>\<open>NewUDPTransport\<close> opens its two connections after resolving their addresses; the receiving one
  is closed again when the other fails: the second component.
\<close>

definition NewMeshtasticTransport :: "(nat \<Rightarrow> err option) \<Rightarrow> mesh_socket res" where
  "NewMeshtasticTransport dials =
     (case find (\<lambda>i. dials i = None) [0..<30] of
        Some i \<Rightarrow> Inr \<lparr>so_sent = [], so_incoming = [], so_broken = None\<rparr>
      | None \<Rightarrow> Inl (wrap_err ''Error creating Meshtastic transport'' (the (dials 29))))"

definition NewUDPTransport ::
  "err option \<Rightarrow> err option \<Rightarrow> err option \<Rightarrow> err option \<Rightarrow> mesh_udp res \<times> bool" where
  "NewUDPTransport resolveListen listen resolvePeer dial =
     (case resolveListen of Some e \<Rightarrow> (Inl e, False) | None \<Rightarrow>
     (case listen of Some e \<Rightarrow> (Inl e, False) | None \<Rightarrow>
     (case resolvePeer of Some e \<Rightarrow> (Inl e, True) | None \<Rightarrow>
     (case dial of Some e \<Rightarrow> (Inl e, True) | None \<Rightarrow>
        (Inr \<lparr>udp_sent = [], udp_incoming = [], udp_broken = None\<rparr>, False)))))"

section \<open>The client\<close>

record mesh_client =
  mc_peerEndpointID :: endpoint_id
  mc_active :: bool

definition NewMeshtasticClient :: "endpoint_id \<Rightarrow> mesh_client" where
  "NewMeshtasticClient peer = \<lparr>mc_peerEndpointID = peer, mc_active = False\<rparr>"

definition mc_Activate :: "mesh_client \<Rightarrow> mesh_client" where
  "mc_Activate c = c\<lparr>mc_active := True\<rparr>"

definition mc_Address :: "mesh_client \<Rightarrow> string" where
  "mc_Address c = ''meshtastic://peer/'' @ eid_String (mc_peerEndpointID c)"

definition mc_Close :: "mesh_client \<Rightarrow> mesh_client" where
  "mc_Close c = c\<lparr>mc_active := False\<rparr>"

definition maxPayloadBytes :: nat where [simp]: "maxPayloadBytes = 192"
definition headerSize :: nat where [simp]: "headerSize = 8"

function split_chunks :: "bytes \<Rightarrow> bytes list" where
  "split_chunks bundleBytes =
     (if bundleBytes = [] then []
      else let end' = min maxPayloadBytes (length bundleBytes)
           in take end' bundleBytes # split_chunks (drop end' bundleBytes))"
  by auto
termination by (relation "measure length") auto

declare split_chunks.simps [simp del]

text \<open>The lower 32 bits of the creation timestamp.\<close>

definition mesh_bundleID :: "dtn_bundle \<Rightarrow> u32" where
  "mesh_bundleID b = ucast (ct_DtnTime (bid_Timestamp (b_ID b)) AND 0xFFFFFFFF)"

definition chunk_packet :: "u32 \<Rightarrow> nat \<Rightarrow> nat \<Rightarrow> bytes \<Rightarrow> bytes" where
  "chunk_packet bundleID i totalChunks payload =
     PutUint32 bundleID @ [word_of_nat i, word_of_nat totalChunks] @
     PutUint16 (word_of_nat (length payload)) @ payload"

definition chunk_packets :: "u32 \<Rightarrow> bytes \<Rightarrow> bytes list" where
  "chunk_packets bundleID bs =
     (let chunks = split_chunks bs
      in map (\<lambda>i. chunk_packet bundleID i (length chunks) (chunks ! i)) [0..<length chunks])"

fun send_packets :: "(bytes \<Rightarrow> 't \<Rightarrow> err option \<times> 't) \<Rightarrow> bytes list \<Rightarrow> 't \<Rightarrow> err option \<times> 't" where
  "send_packets send [] t = (None, t)"
| "send_packets send (p # ps) t =
     (case send p t of
        (Some e, t) \<Rightarrow> (Some (wrap_err ''meshtastic: chunk write'' e), t)
      | (None, t) \<Rightarrow> send_packets send ps t)"

definition mc_Send ::
  "lib \<Rightarrow> (bytes \<Rightarrow> 't \<Rightarrow> err option \<times> 't) \<Rightarrow> dtn_bundle \<Rightarrow> 't \<Rightarrow> (err option \<times> 't) res" where
  "mc_Send L send b t =
     (case b_MarshalCbor L b of
        Inl (Panic p) \<Rightarrow> Inl (Panic p)
      | Inl e \<Rightarrow> Inr (Some (Wrap ''meshtastic: cbor marshal'' e), t)
      | Inr (bundleBytes, b') \<Rightarrow>
          Inr (send_packets send (chunk_packets (mesh_bundleID b') bundleBytes) t))"

section \<open>The server\<close>

record reassembly_buffer =
  rb_chunks :: "(u8 \<times> bytes) list"
  rb_totalChunks :: u8
  rb_lastSeen :: time

type_synonym reassembly = "(u32 \<times> reassembly_buffer) list"

text \<open>A chunk: the bundle it belongs to, its index, the number of chunks and its payload.\<close>

type_synonym chunk = "u32 \<times> u8 \<times> u8 \<times> bytes"

text \<open>
  The header and the payload of a packet; \<open>None\<close> is a packet too short for a header, which is
  skipped. The slice of the payload may reach as far as the array behind the packet, not further.
\<close>

definition parse_chunk :: "packet \<Rightarrow> chunk option res" where
  "parse_chunk pkt =
     (if pk_len pkt < headerSize then Inr None
      else let data = pk_array pkt;
               bundleID = Uint32 (take 4 data);
               chunkIdx = data ! 4;
               totalChunks = data ! 5;
               payloadLen = unat (Uint16 (take 2 (drop 6 data)))
           in if length data < headerSize + payloadLen
              then Inl (Panic ''slice bounds out of range'')
              else Inr (Some (bundleID, chunkIdx, totalChunks, take payloadLen (drop headerSize data))))"

text \<open>
  The critical section: the chunk goes into the buffer of its bundle, a new one if there is none,
  and the bytes of the bundle come out when the buffer is complete.
\<close>

definition store_chunk :: "time \<Rightarrow> chunk \<Rightarrow> reassembly \<Rightarrow> bytes option \<times> reassembly" where
  "store_chunk now c R =
     (case c of (bundleID, chunkIdx, totalChunks, payload) \<Rightarrow>
        let rb = (case map_of R bundleID of
                    None \<Rightarrow> \<lparr>rb_chunks = [], rb_totalChunks = totalChunks, rb_lastSeen = 0\<rparr>
                  | Some rb \<Rightarrow> rb);
            rb = rb\<lparr>rb_chunks := mapset chunkIdx payload (rb_chunks rb), rb_lastSeen := now\<rparr>;
            R = mapset bundleID rb R
        in if (word_of_nat (length (rb_chunks rb)) :: u8) = rb_totalChunks rb
           then (Some (concat (map (\<lambda>i. case map_of (rb_chunks rb) (word_of_nat i) of
                                          None \<Rightarrow> [] | Some p \<Rightarrow> p) [0..<unat (rb_totalChunks rb)])),
                 mapdel bundleID R)
           else (None, R))"

text \<open>One round of the loop with a packet: the bundles for the callback and the buffers.\<close>

definition handle_packet ::
  "lib \<Rightarrow> ebm \<Rightarrow> time \<Rightarrow> packet \<Rightarrow> reassembly \<Rightarrow> (dtn_bundle list \<times> reassembly) res option" where
  "handle_packet L M now pkt R =
     (case parse_chunk pkt of
        Inl e \<Rightarrow> Some (Inl e)
      | Inr None \<Rightarrow> Some (Inr ([], R))
      | Inr (Some c) \<Rightarrow>
          (case store_chunk now c R of
             (None, R) \<Rightarrow> Some (Inr ([], R))
           | (Some full, R) \<Rightarrow>
               (case b_UnmarshalCbor L M now full of
                  None \<Rightarrow> None
                | Some (Inl (Panic p)) \<Rightarrow> Some (Inl (Panic p))
                | Some (Inl e) \<Rightarrow> Some (Inr ([], R))
                | Some (Inr (b, errs, _)) \<Rightarrow> Some (Inr (if errs = [] then [b] else [], R)))))"

text \<open>
  The rounds of \<^verbatim>\<open>receiveLoop\<close> until the server is closed, each with the time at which its packet
  arrives. A transport that fails is asked again in the next round.
\<close>

fun receiveLoop ::
  "lib \<Rightarrow> ebm \<Rightarrow> ('t \<Rightarrow> packet res \<times> 't) \<Rightarrow> time list \<Rightarrow> 't \<Rightarrow> reassembly \<Rightarrow>
   (dtn_bundle list \<times> 't \<times> reassembly) res option" where
  "receiveLoop L M recv [] t R = Some (Inr ([], t, R))"
| "receiveLoop L M recv (now # clock) t R =
     (case recv t of
        (Inl e, t) \<Rightarrow> receiveLoop L M recv clock t R
      | (Inr pkt, t) \<Rightarrow>
          (case handle_packet L M now pkt R of
             None \<Rightarrow> None
           | Some (Inl e) \<Rightarrow> Some (Inl e)
           | Some (Inr (bs, R)) \<Rightarrow>
               map_option (\<lambda>res. andThen res (\<lambda>(bs', t, R). Inr (bs @ bs', t, R)))
                 (receiveLoop L M recv clock t R)))"

text \<open>What the ticker does every 15 seconds.\<close>

definition discard_incomplete :: "time \<Rightarrow> reassembly \<Rightarrow> reassembly" where
  "discard_incomplete now R = filter (\<lambda>(_, rb). \<not> now - rb_lastSeen rb > 60 * 1000000000) R"

text \<open>
  The state of the server beside its buffers. \<^verbatim>\<open>Close\<close> closes the channel that ends the loops;
  closing it twice panics.
\<close>

record mesh_server =
  ms_endpointID :: endpoint_id
  ms_running :: bool
  ms_active :: bool
  ms_stopped :: bool
  ms_reassembly :: reassembly

definition NewMeshtasticServer :: "endpoint_id \<Rightarrow> mesh_server" where
  "NewMeshtasticServer eid =
     \<lparr>ms_endpointID = eid, ms_running = False, ms_active = False, ms_stopped = False, ms_reassembly = []\<rparr>"

definition ms_Start :: "mesh_server \<Rightarrow> mesh_server" where
  "ms_Start s = s\<lparr>ms_running := True\<rparr>"

definition ms_Activate :: "mesh_server \<Rightarrow> mesh_server" where
  "ms_Activate s = s\<lparr>ms_active := True\<rparr>"

definition ms_Close :: "mesh_server \<Rightarrow> mesh_server res" where
  "ms_Close s =
     (if ms_stopped s then Inl (Panic ''close of closed channel'')
      else Inr (s\<lparr>ms_running := False, ms_active := False, ms_stopped := True\<rparr>))"

definition ms_Address :: string where
  "ms_Address = ''meshtastic://server''"

section \<open>Cutting and collecting\<close>

lemma concat_split_chunks [simp]: "concat (split_chunks bs) = bs"
  by (induction bs rule: split_chunks.induct) (subst split_chunks.simps, simp add: Let_def)

lemma split_chunks_sizes: "c \<in> set (split_chunks bs) \<Longrightarrow> c \<noteq> [] \<and> length c \<le> 192"
proof (induction bs rule: split_chunks.induct)
  case (1 bs)
  show ?case
  proof (cases "bs = []")
    case True
    then show ?thesis using 1(2) by (simp add: split_chunks.simps)
  next
    case False
    then have "c = take (min 192 (length bs)) bs \<or> c \<in> set (split_chunks (drop (min 192 (length bs)) bs))"
      using 1(2) by (subst (asm) split_chunks.simps) (simp add: Let_def)
    then show ?thesis using 1(1) False by (auto simp: min_def split: if_splits)
  qed
qed

lemma split_chunks_length: "length bs \<le> 192 * n \<Longrightarrow> length (split_chunks bs) \<le> n"
proof (induction n arbitrary: bs)
  case 0
  then show ?case by (simp add: split_chunks.simps)
next
  case (Suc n)
  have "length (split_chunks (drop (min 192 (length bs)) bs)) \<le> n"
    using Suc.prems by (intro Suc.IH) (auto simp: min_def)
  then show ?case by (subst split_chunks.simps) (simp add: Let_def)
qed

lemma split_chunks_Nil [simp]: "split_chunks bs = [] \<longleftrightarrow> bs = []"
  by (subst split_chunks.simps) (simp add: Let_def)

text \<open>The chunk that the server reads from the packet of a chunk that was sent.\<close>

definition sent_chunk :: "u32 \<Rightarrow> bytes \<Rightarrow> nat \<Rightarrow> chunk" where
  "sent_chunk bundleID bs i =
     (let chunks = split_chunks bs
      in (bundleID, word_of_nat i, word_of_nat (length chunks), chunks ! i))"

lemma chunk_packet_length: "length (chunk_packet bundleID i n p) = 8 + length p"
  by (simp add: chunk_packet_def)

lemma parse_chunk_packet:
  assumes "length p < 2 ^ 16" and "take (8 + length p) arr = chunk_packet bundleID i n p"
    and "8 + length p \<le> length arr"
  shows "parse_chunk \<lparr>pk_array = arr, pk_len = 8 + length p\<rparr> =
    Inr (Some (bundleID, word_of_nat i, word_of_nat n, p))"
proof -
  have eq: "arr = chunk_packet bundleID i n p @ drop (8 + length p) arr"
    using assms(2) by (metis append_take_drop_id)
  let ?h = "PutUint32 bundleID"
  have h: "length ?h = 4" "length (PutUint16 (word_of_nat (length p))) = 2" by simp_all
  have "take 4 arr = ?h" by (subst eq) (simp add: chunk_packet_def)
  moreover have "arr ! 4 = word_of_nat i" "arr ! 5 = word_of_nat n"
    by (subst eq, simp add: chunk_packet_def nth_append)+
  moreover have "take 2 (drop 6 arr) = PutUint16 (word_of_nat (length p))"
    by (subst eq) (simp add: chunk_packet_def)
  moreover have "take (length p) (drop 8 arr) = p"
    by (subst eq) (simp add: chunk_packet_def)
  moreover have "unat (word_of_nat (length p) :: u16) = length p"
    using assms(1) by (simp add: unat_of_nat)
  ultimately show ?thesis using assms(3) by (simp add: parse_chunk_def Let_def)
qed

text \<open>What the buffer of a bundle holds when the chunks with the indices \<open>S\<close> have arrived.\<close>

definition collected :: "u32 \<Rightarrow> bytes \<Rightarrow> nat set \<Rightarrow> reassembly \<Rightarrow> bool" where
  "collected bundleID bs S R \<longleftrightarrow>
     (if S = {} then map_of R bundleID = None
      else \<exists>rb. map_of R bundleID = Some rb \<and>
        rb_totalChunks rb = word_of_nat (length (split_chunks bs)) \<and>
        distinct (map fst (rb_chunks rb)) \<and> set (map fst (rb_chunks rb)) = word_of_nat ` S \<and>
        (\<forall>i \<in> S. map_of (rb_chunks rb) (word_of_nat i) = Some (split_chunks bs ! i)))"

lemma word_of_nat_inj_on: "inj_on (word_of_nat :: nat \<Rightarrow> u8) {..<256}"
  by (rule inj_onI) (simp add: word_of_nat_eq_iff take_bit_nat_eq_self)

lemma byte_eq_iff: "m < 256 \<Longrightarrow> n < 256 \<Longrightarrow> (word_of_nat m :: u8) = word_of_nat n \<longleftrightarrow> m = n"
  using word_of_nat_inj_on by (auto simp: inj_on_def)

lemma store_chunk_others: "fst c \<noteq> k \<Longrightarrow> map_of (snd (store_chunk now c R)) k = map_of R k"
  by (cases c) (auto simp: store_chunk_def Let_def map_of_mapset map_of_mapdel)

lemma collected_cong:
  "map_of R' bundleID = map_of R bundleID \<Longrightarrow> collected bundleID bs S R' = collected bundleID bs S R"
  by (simp add: collected_def)

text \<open>The buffer after a chunk that was not there: it is complete when all indices are.\<close>

lemma store_chunk_own:
  assumes n: "length (split_chunks bs) \<le> 255" and i: "i < length (split_chunks bs)" "i \<notin> S"
    and S: "S \<subseteq> {..<length (split_chunks bs)}" and col: "collected bundleID bs S R"
  shows "if insert i S = {..<length (split_chunks bs)}
    then \<exists>R'. store_chunk now (sent_chunk bundleID bs i) R = (Some bs, R') \<and> collected bundleID bs {} R'
    else \<exists>R'. store_chunk now (sent_chunk bundleID bs i) R = (None, R') \<and>
      collected bundleID bs (insert i S) R'"
proof -
  let ?cs = "split_chunks bs"
  let ?n = "length ?cs"
  define rb where "rb = (case map_of R bundleID of
      None \<Rightarrow> \<lparr>rb_chunks = [], rb_totalChunks = word_of_nat ?n, rb_lastSeen = 0\<rparr> | Some rb \<Rightarrow> rb)"
  define cm where "cm = mapset (word_of_nat i) (?cs ! i) (rb_chunks rb)"
  define R1 where "R1 = mapset bundleID (rb\<lparr>rb_chunks := cm, rb_lastSeen := now\<rparr>) R"
  have rb: "rb_totalChunks rb = word_of_nat ?n" "distinct (map fst (rb_chunks rb))"
      "set (map fst (rb_chunks rb)) = word_of_nat ` S"
      "\<forall>j \<in> S. map_of (rb_chunks rb) (word_of_nat j) = Some (?cs ! j)"
    using col unfolding collected_def rb_def by (cases "S = {}"; clarsimp)+
  have small: "j < 256" if "j \<in> insert i S" for j using that S i n by auto
  have dist: "distinct (map fst cm)" using rb(2) by (simp add: cm_def distinct_mapset)
  have keys: "set (map fst cm) = word_of_nat ` insert i S"
    using rb(3) by (auto simp: cm_def keys_mapset)
  have vals: "map_of cm (word_of_nat j) = Some (?cs ! j)" if "j \<in> insert i S" for j
    using rb(4) that byte_eq_iff [OF small [OF that] small [of i]] by (auto simp: cm_def map_of_mapset)
  have fin: "finite (insert i S)" using S finite_subset by auto
  have sub: "insert i S \<subseteq> {..<?n}" using S i by simp
  have "length cm = card (word_of_nat ` insert i S :: u8 set)"
    using distinct_card [OF dist] keys by simp
  also have "\<dots> = card (insert i S)"
    by (rule card_image, rule inj_on_subset [OF word_of_nat_inj_on]) (use small in blast)
  finally have len: "length cm = card (insert i S)" .
  have "card (insert i S) \<le> ?n" using card_mono [OF _ sub] by simp
  then have "card (insert i S) < 256" "?n < 256" using n by linarith+
  then have "(word_of_nat (length cm) :: u8) = rb_totalChunks rb \<longleftrightarrow> card (insert i S) = ?n"
    unfolding len rb(1) by (rule byte_eq_iff)
  also have "\<dots> \<longleftrightarrow> insert i S = {..<?n}"
    using card_subset_eq [OF finite_lessThan sub] card_lessThan [of ?n] by metis
  finally have complete: "(word_of_nat (length cm) :: u8) = rb_totalChunks rb \<longleftrightarrow> insert i S = {..<?n}" .
  have step: "store_chunk now (sent_chunk bundleID bs i) R =
      (if insert i S = {..<?n}
       then (Some (concat (map (\<lambda>j. case map_of cm (word_of_nat j) of None \<Rightarrow> [] | Some p \<Rightarrow> p)
               [0..<unat (rb_totalChunks rb)])), mapdel bundleID R1)
       else (None, R1))"
    using complete
    by (simp add: store_chunk_def sent_chunk_def Let_def R1_def cm_def rb_def)
  show ?thesis
  proof (cases "insert i S = {..<?n}")
    case True
    have "unat (rb_totalChunks rb) = ?n" using n by (simp add: rb(1) unat_of_nat)
    moreover have "map (\<lambda>j. case map_of cm (word_of_nat j) of None \<Rightarrow> [] | Some p \<Rightarrow> p) [0..<?n] = ?cs"
      by (intro nth_equalityI) (simp_all add: vals True)
    ultimately show ?thesis using True
      by (simp add: step collected_def map_of_mapdel)
  next
    case False
    have "collected bundleID bs (insert i S) R1"
      using rb(1) dist keys vals by (simp add: collected_def R1_def map_of_mapset)
    then show ?thesis using False by (simp add: step)
  qed
qed

text \<open>
  The chunks of many bundles in the order in which they arrive, and the bundles that become
  complete, each with its identifier. The ticker does not fire in these runs: it leaves alone every buffer that
  was touched within the last minute (\<open>discard_incomplete_exact\<close>).
\<close>

fun store_chunks :: "(time \<times> chunk) list \<Rightarrow> reassembly \<Rightarrow> (u32 \<times> bytes) list \<times> reassembly" where
  "store_chunks [] R = ([], R)"
| "store_chunks ((now, c) # xs) R =
     (case store_chunk now c R of
        (out, R) \<Rightarrow> (case store_chunks xs R of
          (outs, R) \<Rightarrow> ((case out of None \<Rightarrow> [] | Some full \<Rightarrow> [(fst c, full)]) @ outs, R)))"

lemma sent_chunk_id [simp]: "fst (sent_chunk bundleID bs i) = bundleID"
  by (simp add: sent_chunk_def Let_def)

lemma store_chunks_foreign:
  assumes "\<forall>(now, c) \<in> set xs. fst c \<noteq> bundleID"
  shows "filter (\<lambda>(k, _). k = bundleID) (fst (store_chunks xs R)) = [] \<and>
    map_of (snd (store_chunks xs R)) bundleID = map_of R bundleID"
  using assms
proof (induction xs R rule: store_chunks.induct)
  case (2 now c xs R)
  obtain out R' where s: "store_chunk now c R = (out, R')" by (cases "store_chunk now c R")
  moreover have "map_of R' bundleID = map_of R bundleID"
    using store_chunk_others [of c bundleID now R] 2(2) s by simp
  ultimately show ?case using 2 by (auto split: prod.split option.split)
qed simp

lemma store_chunks_any_order:
  assumes n: "length (split_chunks bs) \<le> 255" and S: "S \<subset> {..<length (split_chunks bs)}"
    and col: "collected bundleID bs S R"
    and own: "map snd (filter (\<lambda>(now, c). fst c = bundleID) xs) = map (sent_chunk bundleID bs) js"
    and js: "distinct js" "set js = {..<length (split_chunks bs)} - S"
  shows "filter (\<lambda>(k, _). k = bundleID) (fst (store_chunks xs R)) = [(bundleID, bs)] \<and>
    map_of (snd (store_chunks xs R)) bundleID = None"
  using S col own js
proof (induction xs arbitrary: R S js)
  case Nil
  then show ?case by auto
next
  case (Cons x xs)
  obtain now c where x: "x = (now, c)" by (cases x)
  obtain out R' where s: "store_chunk now c R = (out, R')" by (cases "store_chunk now c R")
  obtain outs R'' where r: "store_chunks xs R' = (outs, R'')" by (cases "store_chunks xs R'")
  show ?case
  proof (cases "fst c = bundleID")
    case False
    then have "collected bundleID bs S R'"
      using Cons.prems(2) store_chunk_others [OF False, of now R] s collected_cong [of R' bundleID R] by simp
    then show ?thesis
      using Cons.IH [of S R' js] Cons.prems False by (simp add: x s r split: option.split)
  next
    case True
    then have eq: "c # map snd (filter (\<lambda>(now, c). fst c = bundleID) xs) = map (sent_chunk bundleID bs) js"
      using Cons.prems(3) by (simp add: x)
    then obtain i ks where js: "js = i # ks" by (cases js) auto
    then have c: "c = sent_chunk bundleID bs i"
      and own: "map snd (filter (\<lambda>(now, c). fst c = bundleID) xs) = map (sent_chunk bundleID bs) ks"
      using eq by simp_all
    have i: "i < length (split_chunks bs)" "i \<notin> S" using Cons.prems(5) by (auto simp: js)
    note step = store_chunk_own [OF n i _ Cons.prems(2), of now]
    show ?thesis
    proof (cases "insert i S = {..<length (split_chunks bs)}")
      case all: True
      then have "set js = {i}" using Cons.prems(5) i by blast
      then have "ks = []" using Cons.prems(4) js by (cases ks) auto
      then have "\<forall>(now, c) \<in> set xs. fst c \<noteq> bundleID" using own by (auto simp: filter_empty_conv)
      moreover have "out = Some bs" "collected bundleID bs {} R'"
        using step Cons.prems(1) all s c by auto
      ultimately show ?thesis
        using store_chunks_foreign [of xs bundleID R'] True by (simp add: x s r collected_def)
    next
      case False
      then have "out = None" "collected bundleID bs (insert i S) R'"
        using step Cons.prems(1) s c by auto
      moreover have "insert i S \<subset> {..<length (split_chunks bs)}" using False i Cons.prems(1) by auto
      moreover have "distinct ks" "set ks = {..<length (split_chunks bs)} - insert i S"
        using Cons.prems(4,5) by (auto simp: js)
      ultimately show ?thesis using Cons.IH [OF _ _ own, of "insert i S" R'] by (simp add: x s r)
    qed
  qed
qed

section \<open>Sending through a transport\<close>


text \<open>The socket carries the packets one after the other, each behind its length.\<close>

definition framed :: "bytes list \<Rightarrow> bytes" where
  "framed ps = concat (map (\<lambda>p. PutUint16 (word_of_nat (length p)) @ p) ps)"

lemma framed_simps [simp]:
  "framed [] = []" "framed (p # ps) = PutUint16 (word_of_nat (length p)) @ p @ framed ps"
  "framed (ps @ qs) = framed ps @ framed qs"
  by (simp_all add: framed_def)

lemma ReadFull_append: "n = length p \<Longrightarrow> ReadFull n (p @ r) = (Inr p, r)"
  by (simp add: ReadFull_def)



section \<open>Properties\<close>

text \<open>
  Claim C19: the chunks of a serialised bundle of at most 48960 bytes make up the bundle in whatever
  order they arrive, and between whatever chunks of bundles with other identifiers; it becomes
  complete once, with the last of its chunks, and its buffer is gone.
\<close>

theorem mesh_any_order:
  assumes "bs \<noteq> []" and "length bs \<le> 48960" and "map_of R bundleID = None"
    and "map snd (filter (\<lambda>(now, c). fst c = bundleID) xs) = map (sent_chunk bundleID bs) js"
    and "distinct js" and "set js = {..<length (split_chunks bs)}"
  shows "filter (\<lambda>(k, _). k = bundleID) (fst (store_chunks xs R)) = [(bundleID, bs)] \<and>
    map_of (snd (store_chunks xs R)) bundleID = None"
proof (rule store_chunks_any_order [OF _ _ _ assms(4,5)])
  show "length (split_chunks bs) \<le> 255" using assms(2) by (intro split_chunks_length) simp
  have "0 < length (split_chunks bs)" using assms(1) by simp
  then show "{} \<subset> {..<length (split_chunks bs)}" by blast
  show "collected bundleID bs {} R" using assms(3) by (simp add: collected_def)
qed (simp add: assms(6))

lemma sample_chunks: "split_chunks (replicate 200 7) = [replicate 192 7, replicate 8 7]"
  by (subst split_chunks.simps, simp add: Let_def, subst split_chunks.simps, simp add: Let_def)

theorem mesh_any_order_witness:
  "filter (\<lambda>(k, _). k = 5) (fst (store_chunks
     [(0, sent_chunk 5 (replicate 200 7) 1), (1, (9, 0, 2, [1])), (2, sent_chunk 5 (replicate 200 7) 0)] [])) =
     [(5, replicate 200 7)]"
proof (rule mesh_any_order [of "replicate 200 7" "[]" 5 _ "[1, 0]", THEN conjunct1])
  show "set [1, 0] = {..<length (split_chunks (replicate 200 7))}"
    by (simp add: sample_chunks) auto
qed simp_all



lemma length_concat_bounded:
  "(\<And>i. length (f i) \<le> k) \<Longrightarrow> length (concat (map f [0..<n])) \<le> k * n"
proof (induction n)
  case (Suc n)
  then show ?case using add_mono [OF Suc.IH Suc.prems [of n]] by simp
qed simp

text \<open>What the server makes up from chunks of a bundle of more than 48960 bytes is never the bundle.\<close>

lemma oversized_chunks:
  assumes "48960 < length bs" and "map_of R bundleID = None"
    and "\<forall>(now, c) \<in> set xs. fst c = bundleID \<longrightarrow>
      c \<in> sent_chunk bundleID bs ` {..<length (split_chunks bs)}"
  shows "(bundleID, bs) \<notin> set (fst (store_chunks xs R))"
proof -
  define small where "small R \<longleftrightarrow> (\<forall>rb k p. map_of R bundleID = Some rb \<longrightarrow>
      map_of (rb_chunks rb) k = Some p \<longrightarrow> length p \<le> 192)" for R :: reassembly
  have step: "small (snd (store_chunk now c R)) \<and>
      (\<forall>full. fst c = bundleID \<and> fst (store_chunk now c R) = Some full \<longrightarrow> length full \<le> 48960)"
    if s: "small R" and c: "fst c = bundleID \<longrightarrow> c \<in> sent_chunk bundleID bs ` {..<length (split_chunks bs)}"
    for now c R
  proof (cases "fst c = bundleID")
    case False
    then show ?thesis using store_chunk_others [OF False, of now R] s by (simp add: small_def)
  next
    case True
    then obtain i n p where c: "c = (bundleID, i, n, p)" and p: "length p \<le> 192"
      using c split_chunks_sizes [of _ bs] by (auto simp: sent_chunk_def Let_def)
    define rb where "rb = (case map_of R bundleID of
        None \<Rightarrow> \<lparr>rb_chunks = [], rb_totalChunks = n, rb_lastSeen = 0\<rparr> | Some rb \<Rightarrow> rb)"
    define cm where "cm = mapset i p (rb_chunks rb)"
    have cm: "length q \<le> 192" if "map_of cm k = Some q" for k q
      using that s p by (auto simp: cm_def map_of_mapset rb_def small_def split: if_splits option.splits)
    have "length (case map_of cm (word_of_nat j) of None \<Rightarrow> [] | Some p \<Rightarrow> p) \<le> 192" for j
      using cm by (auto split: option.split)
    from length_concat_bounded [where f = "\<lambda>j. case map_of cm (word_of_nat j) of None \<Rightarrow> [] | Some p \<Rightarrow> p",
        OF this, of "unat (rb_totalChunks rb)"]
    have "length (concat (map (\<lambda>j. case map_of cm (word_of_nat j) of None \<Rightarrow> [] | Some p \<Rightarrow> p)
        [0..<unat (rb_totalChunks rb)])) \<le> 192 * 255"
      using unsigned_less [of "rb_totalChunks rb", where ?'a = nat] by simp
    then show ?thesis
      using cm by (auto simp: c store_chunk_def Let_def small_def map_of_mapset map_of_mapdel
          simp flip: rb_def cm_def)
  qed
  have "(bundleID, bs) \<notin> set (fst (store_chunks xs R))" if "small R" for R
    using assms(3) that
  proof (induction xs R rule: store_chunks.induct)
    case (2 now c xs R)
    obtain out R' where s: "store_chunk now c R = (out, R')" by (cases "store_chunk now c R")
    then have "small R'" "\<forall>full. fst c = bundleID \<and> out = Some full \<longrightarrow> length full \<le> 48960"
      using step [of R c now] 2(2,3) by auto
    then show ?case
      using 2(1) [OF s [symmetric]] 2(2) assms(1)
      by (auto simp: s split: prod.splits option.splits)
  qed simp
  then show ?thesis using assms(2) by (simp add: small_def)
qed

text \<open>
  The packets that a server reads: what of the slice is a packet that was sent, and the chunks in them.
\<close>

definition holds_packet :: "bytes \<Rightarrow> packet \<Rightarrow> bool" where
  "holds_packet p pkt \<longleftrightarrow>
     pk_len pkt = length p \<and> take (length p) (pk_array pkt) = p \<and> length p \<le> length (pk_array pkt)"

definition parsed :: "(time \<times> packet) list \<Rightarrow> (time \<times> chunk) list" where
  "parsed xs = concat (map (\<lambda>(now, pkt). case parse_chunk pkt of Inr (Some c) \<Rightarrow> [(now, c)] | _ \<Rightarrow> []) xs)"

lemma parsed_mem:
  "(now, c) \<in> set (parsed xs) \<longleftrightarrow> (\<exists>pkt. (now, pkt) \<in> set xs \<and> parse_chunk pkt = Inr (Some c))"
proof (induction xs)
  case (Cons x xs)
  obtain t pkt where x: "x = (t, pkt)" by (cases x)
  have "parsed (x # xs) = (case parse_chunk pkt of Inr (Some c) \<Rightarrow> [(t, c)] | _ \<Rightarrow> []) @ parsed xs"
    by (simp add: parsed_def x)
  then show ?case using Cons by (auto simp: x split: sum.splits option.splits)
qed (simp add: parsed_def)

lemma parse_sent_chunk:
  assumes "p \<in> set (chunk_packets bundleID bs)" and "holds_packet p pkt"
  shows "\<exists>i < length (split_chunks bs). parse_chunk pkt = Inr (Some (sent_chunk bundleID bs i))"
proof -
  let ?cs = "split_chunks bs"
  obtain i where i: "i < length ?cs" "p = chunk_packet bundleID i (length ?cs) (?cs ! i)"
    using assms(1) by (auto simp: chunk_packets_def Let_def)
  have "length (?cs ! i) \<le> 192" using split_chunks_sizes i(1) nth_mem by blast
  moreover have "pkt = \<lparr>pk_array = pk_array pkt, pk_len = 8 + length (?cs ! i)\<rparr>"
    using assms(2) i(2) by (cases pkt) (simp add: holds_packet_def chunk_packet_length)
  ultimately have "parse_chunk pkt = Inr (Some (sent_chunk bundleID bs i))"
    using parse_chunk_packet [of "?cs ! i" "pk_array pkt" bundleID i "length ?cs"] assms(2) i(2)
    by (simp add: holds_packet_def chunk_packet_length sent_chunk_def Let_def)
  then show ?thesis using i(1) by blast
qed

lemma send_packets_socket:
  "so_broken t = None \<Longrightarrow> \<exists>t'. send_packets socket_SendPacket ps t = (None, t') \<and> so_sent t' = so_sent t @ framed ps"
proof (induction ps arbitrary: t)
  case (Cons p ps)
  let ?t = "t\<lparr>so_sent := so_sent t @ PutUint16 (word_of_nat (length p)) @ p\<rparr>"
  have "socket_SendPacket p t = (None, ?t)" using Cons.prems by (simp add: socket_SendPacket_def Let_def)
  then show ?case using Cons.IH [of ?t] Cons.prems by auto
qed simp

lemma send_packets_udp:
  "udp_broken t = None \<Longrightarrow> \<exists>t'. send_packets udp_SendPacket ps t = (None, t') \<and> udp_sent t' = udp_sent t @ ps"
proof (induction ps arbitrary: t)
  case (Cons p ps)
  let ?t = "t\<lparr>udp_sent := udp_sent t @ [p]\<rparr>"
  have "udp_SendPacket p t = (None, ?t)" using Cons.prems by (simp add: udp_SendPacket_def)
  then show ?case using Cons.IH [of ?t] Cons.prems by auto
qed simp

text \<open>
  Claim C29: a bundle of more than 48960 bytes does not arrive: its number of chunks does not fit
  the byte of the header. \<^verbatim>\<open>Send\<close> reports success over a working transport, the socket or UDP, and writes all of its
  packets; but whichever of these packets the server reads, in whatever order, how often and between
  whatever packets of bundles with other identifiers, what it makes up under the identifier is never the bundle.
\<close>

theorem mesh_oversized_lost:
  assumes "b_MarshalCbor L b = Inr (bs, b')" and "48960 < length bs" and "map_of R (mesh_bundleID b') = None"
    and "\<forall>(now, pkt) \<in> set xs. (\<exists>p \<in> set (chunk_packets (mesh_bundleID b') bs). holds_packet p pkt) \<or>
      (\<forall>c. parse_chunk pkt = Inr (Some c) \<longrightarrow> fst c \<noteq> mesh_bundleID b')"
  shows "(so_broken t = None \<longrightarrow> (\<exists>t'. mc_Send L socket_SendPacket b t = Inr (None, t') \<and>
        so_sent t' = so_sent t @ framed (chunk_packets (mesh_bundleID b') bs))) \<and>
    (udp_broken v = None \<longrightarrow> (\<exists>v'. mc_Send L udp_SendPacket b v = Inr (None, v') \<and>
        udp_sent v' = udp_sent v @ chunk_packets (mesh_bundleID b') bs)) \<and>
    (mesh_bundleID b', bs) \<notin> set (fst (store_chunks (parsed xs) R))"
proof -
  have "c \<in> sent_chunk (mesh_bundleID b') bs ` {..<length (split_chunks bs)}"
    if "(now, c) \<in> set (parsed xs)" "fst c = mesh_bundleID b'" for now c
  proof -
    note own = that(2)
    from that(1) obtain pkt where pkt: "(now, pkt) \<in> set xs" "parse_chunk pkt = Inr (Some c)"
      by (auto simp: parsed_mem)
    then obtain p where "p \<in> set (chunk_packets (mesh_bundleID b') bs)" "holds_packet p pkt"
      using assms(4) own by fastforce
    then show ?thesis using parse_sent_chunk pkt(2) by fastforce
  qed
  then have "(mesh_bundleID b', bs) \<notin> set (fst (store_chunks (parsed xs) R))"
    by (intro oversized_chunks [OF assms(2,3)]) blast
  then show ?thesis
    using send_packets_socket [of t] send_packets_udp [of v] by (simp add: mc_Send_def assms(1))
qed

definition sample_oversized :: bytes where
  "sample_oversized = replicate 48961 7"

definition oversized_bundle :: dtn_bundle where
  "oversized_bundle = sample_bundle\<lparr>b_PayloadBlock := NewCanonicalBlock 1 0 (PayloadBlock sample_oversized)\<rparr>"

lemma oversized_bytes: "\<exists>bs. b_MarshalCbor rfc_lib oversized_bundle = Inr (bs, oversized_bundle) \<and> 48960 < length bs"
proof -
  have "length sample_oversized = 48961" unfolding sample_oversized_def by (rule length_replicate)
  then show ?thesis
    by (simp add: b_MarshalCbor_def oversized_bundle_def sample_bundle_def sample_primary_bytes rfc_simps
        cb_MarshalCbor_def NewCanonicalBlock_def cb_HasCRC_def TypeCode_def block_type_defs
        WriteBlock_def HopCount_MarshalCbor_def)
qed

theorem mesh_oversized_lost_witness:
  "\<exists>bs v'. mc_Send rfc_lib udp_SendPacket oversized_bundle \<lparr>udp_sent = [], udp_incoming = [], udp_broken = None\<rparr> =
      Inr (None, v') \<and> udp_sent v' = chunk_packets (mesh_bundleID oversized_bundle) bs \<and>
    (mesh_bundleID oversized_bundle, bs) \<notin> set (fst (store_chunks
       (parsed (map (\<lambda>p. (0, \<lparr>pk_array = p, pk_len = length p\<rparr>)) (udp_sent v'))) []))"
proof -
  let ?v = "\<lparr>udp_sent = [], udp_incoming = [], udp_broken = None\<rparr>" and ?id = "mesh_bundleID oversized_bundle"
  obtain bs where bs: "b_MarshalCbor rfc_lib oversized_bundle = Inr (bs, oversized_bundle)" "48960 < length bs"
    using oversized_bytes by blast
  let ?xs = "map (\<lambda>p. (0, \<lparr>pk_array = p, pk_len = length p\<rparr>)) (chunk_packets ?id bs)"
  have "\<forall>(now, pkt) \<in> set ?xs. (\<exists>p \<in> set (chunk_packets ?id bs). holds_packet p pkt) \<or>
      (\<forall>c. parse_chunk pkt = Inr (Some c) \<longrightarrow> fst c \<noteq> ?id)"
    by (auto simp: holds_packet_def)
  from mesh_oversized_lost [OF bs _ this, where R = "[]" and v = ?v and
      t = "\<lparr>so_sent = [], so_incoming = [], so_broken = None\<rparr>"] show ?thesis
    by (intro exI [of _ bs]) auto
qed

text \<open>
  Also shown: bundles are told apart by the lower half of a timestamp only. When two bundles of the
  same millisecond, from different nodes or of nodes without a clock, are under way together, the
  server takes chunks of both for one bundle, and what it makes up is neither.
\<close>

theorem mesh_collision_mixes:
  assumes "length (split_chunks bs) = 2" and "length (split_chunks bs') = 2"
  shows "store_chunks [(t, sent_chunk bundleID bs 0), (t', sent_chunk bundleID bs' 1)] [] =
    ([(bundleID, split_chunks bs ! 0 @ split_chunks bs' ! 1)], [])"
proof -
  have two: "[0..<2] = [0, 1::nat]" by (simp add: upt_rec)
  show ?thesis
    using assms by (simp add: store_chunk_def sent_chunk_def Let_def mapset_def mapdel_def two)
qed

theorem mesh_collision_mixes_witness:
  "store_chunks [(0, sent_chunk 5 (replicate 200 7) 0), (1, sent_chunk 5 (replicate 192 7 @ replicate 8 9) 1)] [] =
    ([(5, replicate 192 7 @ replicate 8 9)], [])"
proof -
  have "split_chunks (replicate 192 7 @ replicate 8 9) = [replicate 192 7, replicate 8 9]"
    by (subst split_chunks.simps, simp add: Let_def, subst split_chunks.simps, simp add: Let_def)
  then show ?thesis
    using mesh_collision_mixes [of "replicate 200 7" "replicate 192 7 @ replicate 8 9" 0 5 1]
    by (simp add: sample_chunks)
qed

text \<open>
  Also shown: the length in a header is not checked against the packet. A packet of the radio whose
  header announces more payload than there is ends the daemon: the slice panics in a goroutine.
\<close>

theorem mesh_length_field_panics:
  assumes "8 \<le> length p" and "length p < 2 ^ 16" and "length p < 8 + unat (Uint16 (take 2 (drop 6 p)))"
    and "so_incoming t = framed (p # ps)"
  shows "receiveLoop L M socket_ReceivePacket (now # clock) t R =
    Some (Inl (Panic ''slice bounds out of range''))"
proof -
  have "unat (word_of_nat (length p) :: u16) = length p" using assms(2) by (simp add: unat_of_nat)
  then have "socket_ReceivePacket t =
      (Inr \<lparr>pk_array = p, pk_len = length p\<rparr>, t\<lparr>so_incoming := framed ps\<rparr>)"
    using ReadFull_append [of 2 "PutUint16 (word_of_nat (length p))" "p @ framed ps"] assms(4)
    by (simp add: socket_ReceivePacket_def ReadFull_append Let_def)
  then show ?thesis
    using assms(1,3) by (simp add: handle_packet_def parse_chunk_def Let_def)
qed

theorem mesh_length_field_panics_witness:
  "receiveLoop rfc_lib GetExtensionBlockManager socket_ReceivePacket [0]
     \<lparr>so_sent = [], so_incoming = framed [[0, 0, 0, 1, 0, 1, 0, 9, 1]], so_broken = None\<rparr> [] =
   Some (Inl (Panic ''slice bounds out of range''))"
  by (rule mesh_length_field_panics [of "[0, 0, 0, 1, 0, 1, 0, 9, 1]" _ "[]"])
    (simp_all add: Uint16_def be_value_def)

text \<open>
  Also shown: once the sidecar has closed the socket, every round of the loop fails at once and the
  next follows: the loop never ends and never delivers.
\<close>

lemma mesh_closed_socket_spins:
  "so_incoming t = [] \<Longrightarrow> receiveLoop L M socket_ReceivePacket clock t R = Some (Inr ([], t, R))"
proof (induction clock)
  case (Cons now clock)
  have "socket_ReceivePacket t = (Inl EOF, t)"
    using Cons.prems by (cases t) (simp add: socket_ReceivePacket_def ReadFull_def)
  then show ?case using Cons by simp
qed simp

text \<open>
  Also shown: a buffer that was touched within the last minute survives the ticker, and no buffer
  older than a minute does.
\<close>

lemma discard_incomplete_exact:
  "distinct (map fst R) \<Longrightarrow> map_of (discard_incomplete now R) k =
    (case map_of R k of None \<Rightarrow> None
     | Some rb \<Rightarrow> if now - rb_lastSeen rb > 60 * 1000000000 then None else Some rb)"
  by (induction R) (auto simp: discard_incomplete_def map_of_eq_None_iff split: option.splits)

end
