(* ===== verification/Daemon.thy ===== *)
theory Daemon
  imports Discovery Mtcp Meshtastic Node
begin

text \<open>
  \<^verbatim>\<open>cmd/dtnd\<close>: the configuration of the daemon (\<^verbatim>\<open>config.go\<close>), its start and its stop (\<^verbatim>\<open>main.go\<close>). The file
  is decoded by a library: what it gives is an argument, as are the levels of the logger. A run of \<^verbatim>\<open>startDtnd\<close>
  goes through the singletons of all components; \<open>daemon\<close> holds them, and the outcomes of the calls that leave the
  program are in \<open>startup\<close>. \<open>Inl\<close> is a panic or a fatal log entry.
\<close>

section \<open>Addresses\<close>

text \<open>\<^verbatim>\<open>net.SplitHostPort\<close> and \<^verbatim>\<open>strconv.Atoi\<close>.\<close>

definition IndexByte :: "string \<Rightarrow> char \<Rightarrow> nat option" where
  "IndexByte s c = find (\<lambda>i. s ! i = c) [0..<length s]"

definition LastIndexByte :: "string \<Rightarrow> char \<Rightarrow> nat option" where
  "LastIndexByte s c = find (\<lambda>i. s ! i = c) (rev [0..<length s])"

definition SplitHostPort :: "string \<Rightarrow> (string \<times> string) res" where
  "SplitHostPort hostport =
     (let missingPort = Inl (LibErr ''missing port in address'');
          tooManyColons = Inl (LibErr ''too many colons in address'');
          ends = (\<lambda>i host j k.
            if CHR ''['' \<in> set (drop j hostport) then Inl (LibErr ''unexpected [ in address'')
            else if CHR '']'' \<in> set (drop k hostport) then Inl (LibErr ''unexpected ] in address'')
            else Inr (host, drop (i + 1) hostport))
      in case LastIndexByte hostport CHR '':'' of
           None \<Rightarrow> missingPort
         | Some i \<Rightarrow>
             if hd hostport = CHR ''['' then
               (case IndexByte hostport CHR '']'' of
                  None \<Rightarrow> Inl (LibErr ''missing ] in address'')
                | Some e \<Rightarrow>
                    if e + 1 = length hostport then missingPort
                    else if e + 1 = i then ends i (drop 1 (take e hostport)) 1 (e + 1)
                    else if hostport ! (e + 1) = CHR '':'' then tooManyColons
                    else missingPort)
             else if CHR '':'' \<in> set (take i hostport) then tooManyColons
             else ends i (take i hostport) 0 0)"

definition Atoi :: "string \<Rightarrow> int res" where
  "Atoi s =
     (let signed = s \<noteq> [] \<and> hd s \<in> {CHR ''-'', CHR ''+''};
          neg = signed \<and> hd s = CHR ''-''
      in andThen (ParseUint (if signed then tl s else s)) (\<lambda>u.
           if neg then if unat u > 2 ^ 63 then Inl (LibErr ''value out of range'') else Inr (- int (unat u))
           else if unat u \<ge> 2 ^ 63 then Inl (LibErr ''value out of range'') else Inr (int (unat u))))"

section \<open>The configuration\<close>

record RoutingSprayConfig =
  Spray_Binary :: bool
  Spray_Copies :: u64

record listenerTomlConfig =
  lt_Type :: string
  lt_Address :: string
  lt_Peer :: string
  lt_PeerID :: string

record tomlConfig =
  t_NodeID :: string
  t_LogLevel :: string
  t_Store :: string
  t_Algorithm :: string
  t_Spray :: RoutingSprayConfig
  t_Listener :: "listenerTomlConfig list"
  t_REST :: string
  t_UNIX :: string
  t_Dispatch :: string
  t_GC :: string

record ListenerConfig =
  lc_Type :: cla_type
  lc_Address :: string
  lc_EndpointId :: endpoint_id
  lc_Peer :: string
  lc_PeerID :: string

record config =
  c_NodeID :: endpoint_id
  c_LogLevel :: u32
  c_Store :: string
  c_Algorithm :: algorithm_enum
  c_Spray :: RoutingSprayConfig
  c_Listener :: "ListenerConfig list"
  c_REST :: string
  c_UNIX :: string
  c_Discovery :: "announcement list"
  c_Dispatch :: int
  c_GC :: int

definition parseListenPort :: "string \<Rightarrow> int res" where
  "parseListenPort endpoint = andThen (SplitHostPort endpoint) (\<lambda>(_, portStr). Atoi portStr)"

text \<open>The loop over the listeners: what it appends to the listeners and to the announcements.\<close>

fun parse_listeners ::
  "endpoint_id \<Rightarrow> listenerTomlConfig list \<Rightarrow> (ListenerConfig list \<times> announcement list) res" where
  "parse_listeners nid [] = Inr ([], [])"
| "parse_listeners nid (listener # rest) =
     andThen (wrapping ''Error parsing Listener Type'' (TypeFromString (lt_Type listener))) (\<lambda>claType.
     andThen (if claType \<noteq> Meshtastic_cla
         then andThen (wrapping ''Error parsing listener port'' (parseListenPort (lt_Address listener)))
           (\<lambda>port. Inr [\<lparr>an_Type = claType, an_Endpoint = nid, an_Port = word_of_int port\<rparr>])
         else Inr []) (\<lambda>announced.
     andThen (parse_listeners nid rest) (\<lambda>(listeners, announcements).
       Inr (\<lparr>lc_Type = claType, lc_Address = lt_Address listener, lc_EndpointId = nid,
              lc_Peer = lt_Peer listener, lc_PeerID = lt_PeerID listener\<rparr> # listeners,
            announced @ announcements))))"

definition parse_config :: "float_ops \<Rightarrow> (string \<Rightarrow> u32 res) \<Rightarrow> tomlConfig res \<Rightarrow> config res" where
  "parse_config F ParseLevel tomlFile =
     andThen (wrapping ''Error parsing toml'' tomlFile) (\<lambda>tomlConf.
     andThen (wrapping ''Error parsing NodeID'' (NewEndpointID (t_NodeID tomlConf))) (\<lambda>nid.
     andThen (wrapping ''Error parsing log level'' (ParseLevel (t_LogLevel tomlConf))) (\<lambda>logLevel.
     andThen (wrapping ''Error parsing routing Algorithm'' (AlgorithmEnumFromString (t_Algorithm tomlConf)))
       (\<lambda>algorithm.
     andThen (parse_listeners nid (t_Listener tomlConf)) (\<lambda>(listeners, announcements).
     andThen (wrapping ''Error parsing dispatch period'' (ParseDuration F (t_Dispatch tomlConf))) (\<lambda>dispatchTime.
     andThen (wrapping ''Error parsing gc period'' (ParseDuration F (t_GC tomlConf))) (\<lambda>gcTime.
       Inr \<lparr>c_NodeID = nid, c_LogLevel = logLevel, c_Store = t_Store tomlConf, c_Algorithm = algorithm,
            c_Spray = t_Spray tomlConf, c_Listener = listeners, c_REST = t_REST tomlConf, c_UNIX = t_UNIX tomlConf,
            c_Discovery = announcements, c_Dispatch = dispatchTime, c_GC = gcTime\<rparr>)))))))"

section \<open>The daemon\<close>

text \<open>\<^verbatim>\<open>StartupError\<close> with its message and its cause; joined errors are a list.\<close>

datatype startup_error = StartupError string "aa_err option"

text \<open>
  The singletons; the registrations that \<^verbatim>\<open>Register\<close> started, each a goroutine that will call
  \<open>registerAsync\<close>; and the jobs of the scheduler with their periods.
\<close>

datatype cron_job = DispatchJob | GcJob

record 'kv daemon =
  ownNodeID :: endpoint_id
  d_store :: "'kv bundle_store option"
  d_idk :: "id_keeper option"
  d_algorithm :: "'kv algorithm option"
  d_agents :: "(unix_agent + rest_agent) agent_manager option"
  d_clas :: "cla_manager option"
  d_discovery :: "disc_manager option"
  d_registering :: "convergence list"
  d_jobs :: "(int \<times> cron_job) list"

record 'kv startup =
  su_dirs :: "unit res"
  su_db :: "'kv res"
  su_files :: "string \<rightharpoonup> bytes"
  su_rest :: "err option"
  su_unix_address :: "err option"
  su_unix :: "err option"
  su_transport :: "nat \<Rightarrow> err option"
  su_listen :: "nat \<Rightarrow> err option"
  su_multicast :: "err option"
  su_scheduler :: "err option"
  su_job :: "int \<Rightarrow> err option"

type_synonym 'kv start = "(startup_error list \<times> 'kv daemon) res"

definition cause :: "string \<Rightarrow> err option \<Rightarrow> startup_error list" where
  "cause msg outcome = (case outcome of None \<Rightarrow> [] | Some e \<Rightarrow> [StartupError msg (Some (AgentError e))])"

definition aa_cause :: "string \<Rightarrow> aa_err option \<Rightarrow> startup_error list" where
  "aa_cause msg outcome = (case outcome of None \<Rightarrow> [] | Some e \<Rightarrow> [StartupError msg (Some e)])"

section \<open>Starting\<close>

definition start_store :: "'kv store_env \<Rightarrow> 'kv startup \<Rightarrow> config \<Rightarrow> 'kv daemon \<Rightarrow> 'kv start" where
  "start_store E W conf d =
     (case InitialiseStore (env_db E) (c_NodeID conf) (su_dirs W) (su_db W) (su_files W) (d_store d) of
        Inl (Panic p) \<Rightarrow> Inl (Panic p)
      | Inl e \<Rightarrow> Inr (cause ''Error initialising store'' (Some e), d)
      | Inr st \<Rightarrow> Inr ([], d\<lparr>d_store := Some st\<rparr>))"

definition start_idk :: "'kv daemon \<Rightarrow> 'kv start" where
  "start_idk d = andThen (InitializeIdKeeper (d_idk d)) (\<lambda>idk. Inr ([], d\<lparr>d_idk := Some idk\<rparr>))"

definition start_routing :: "'kv store_env \<Rightarrow> config \<Rightarrow> 'kv daemon \<Rightarrow> 'kv start" where
  "start_routing E conf d =
     (let (errs, routingAlgorithm) =
        (if c_Algorithm conf = AlgorithmEpidemic then ([], Some NewEpidemicRouting)
         else if c_Algorithm conf = AlgorithmSprayAndWait
         then ([], Some (NewSprayAndWait E (Spray_Copies (c_Spray conf)) (Spray_Binary (c_Spray conf))))
         else ([StartupError ''not valid routing algorithm'' None], None))
      in andThen (InitialiseAlgorithm routingAlgorithm (d_algorithm d)) (\<lambda>alg. Inr (errs, d\<lparr>d_algorithm := alg\<rparr>)))"

definition register_agent ::
  "string \<Rightarrow> unix_agent + rest_agent \<Rightarrow> err option \<Rightarrow> 'kv daemon \<Rightarrow> 'kv start" where
  "register_agent msg agent started d =
     andThen (aa_GetManagerSingleton (d_agents d)) (\<lambda>m.
       case RegisterAgent (node_agents :: ('kv, unix_agent + rest_agent) application_agent) agent started m of
         (e, m) \<Rightarrow> Inr (aa_cause msg e, d\<lparr>d_agents := Some m\<rparr>))"

definition start_rest :: "'kv startup \<Rightarrow> config \<Rightarrow> 'kv daemon \<Rightarrow> 'kv start" where
  "start_rest W conf d =
     (if c_REST conf = [] then Inr ([], d)
      else register_agent ''Error registering REST application agent'' (Inr (NewRestAgent (c_REST conf))) (su_rest W) d)"

text \<open>An agent that could not be created is registered all the same: its name is read from a nil pointer.\<close>

definition start_unix :: "'kv startup \<Rightarrow> config \<Rightarrow> 'kv daemon \<Rightarrow> 'kv start" where
  "start_unix W conf d =
     (if c_UNIX conf = [] then Inr ([], d)
      else if su_unix_address W \<noteq> None then nil_deref
      else register_agent ''Error registering UNIX application agent'' (Inl (NewUNIXAgent (c_UNIX conf))) (su_unix W) d)"

text \<open>What the manager sees of a server that is registered as a convergence.\<close>

definition mtcp_server_conv :: "mtcp_server \<Rightarrow> convergence" where
  "mtcp_server_conv s = \<lparr>cla_Address = mtcp_server_Address s, cla_receives = True, cla_sends = False, cla_peer = None\<rparr>"

definition mesh_server_conv :: convergence where
  "mesh_server_conv = \<lparr>cla_Address = ms_Address, cla_receives = True, cla_sends = False, cla_peer = None\<rparr>"

definition mesh_client_conv :: "mesh_client \<Rightarrow> convergence" where
  "mesh_client_conv c =
     \<lparr>cla_Address = mc_Address c, cla_receives = False, cla_sends = True, cla_peer = mc_peerEndpointID c\<rparr>"

text \<open>
  The \<open>i\<close>-th listener: the convergences that are registered and the address under which it listens, or the error
  that skips it. The error of parsing a Meshtastic peer is dropped, and leaves no endpoint.
\<close>

definition make_listener ::
  "'kv startup \<Rightarrow> nat \<Rightarrow> ListenerConfig \<Rightarrow> startup_error + convergence list \<times> string" where
  "make_listener W i lst =
     (if lc_Type lst = Dummy_cla then Inr ([], lc_Address lst)
      else if lc_Type lst = MTCP then
        let srv = NewMTCPServer (lc_Address lst) (lc_EndpointId lst)
        in Inr ([mtcp_server_conv srv], mtcp_server_Address srv)
      else if lc_Type lst = QUICL then Inr ([], ql_listenAddress (NewQUICListener (lc_Address lst) (lc_EndpointId lst)))
      else if lc_Type lst = Meshtastic_cla then
        (case su_transport W i of
           Some e \<Rightarrow> Inl (StartupError ''Error creating Meshtastic transport'' (Some (AgentError e)))
         | None \<Rightarrow>
             let peerEID = (case NewEndpointID (lc_PeerID lst) of Inl _ \<Rightarrow> None | Inr eid \<Rightarrow> eid)
             in Inr ([mesh_server_conv, mesh_client_conv (NewMeshtasticClient peerEID)], ms_Address))
      else Inl (StartupError ''not valid convergence listener type'' None))"

definition start_listener :: "'kv startup \<Rightarrow> nat \<Rightarrow> ListenerConfig \<Rightarrow> 'kv daemon \<Rightarrow> 'kv start" where
  "start_listener W i lst d =
     (case make_listener W i lst of
        Inl e \<Rightarrow> Inr ([e], d)
      | Inr (convs, address) \<Rightarrow>
          andThen (cla_GetManagerSingleton (d_clas d)) (\<lambda>m.
            case RegisterListener address (su_listen W i) m of
              (e, m) \<Rightarrow> Inr (cause ''Error starting convergence listener'' e,
                d\<lparr>d_clas := Some m, d_registering := d_registering d @ convs\<rparr>)))"

definition andAlso :: "'kv start \<Rightarrow> ('kv daemon \<Rightarrow> 'kv start) \<Rightarrow> 'kv start" where
  "andAlso s k = andThen s (\<lambda>(errs, d). andThen (k d) (\<lambda>(errs', d). Inr (errs @ errs', d)))"

fun start_listeners :: "'kv startup \<Rightarrow> nat \<Rightarrow> ListenerConfig list \<Rightarrow> 'kv daemon \<Rightarrow> 'kv start" where
  "start_listeners W i [] d = Inr ([], d)"
| "start_listeners W i (lst # lsts) d = andAlso (start_listener W i lst d) (start_listeners W (i + 1) lsts)"

definition start_clas :: "'kv startup \<Rightarrow> config \<Rightarrow> 'kv daemon \<Rightarrow> 'kv start" where
  "start_clas W conf d =
     andThen (GetAlgorithmSingleton (d_algorithm d)) (\<lambda>_.
     andThen (InitialiseCLAManager (d_clas d)) (\<lambda>m.
       start_listeners W 0 (c_Listener conf) (d\<lparr>d_clas := Some m\<rparr>)))"

definition start_discovery :: "'kv store_env \<Rightarrow> 'kv startup \<Rightarrow> config \<Rightarrow> 'kv daemon \<Rightarrow> 'kv start" where
  "start_discovery E W conf d =
     (case disc_InitialiseManager (env_cbor E) (d_discovery d) (c_NodeID conf) (c_Discovery conf) True False
        (su_multicast W) None of
        Inl (Panic p) \<Rightarrow> Inl (Panic p)
      | Inl e \<Rightarrow> Inr (cause ''Error starting discovery manager'' (Some e), d)
      | Inr m \<Rightarrow> Inr ([], d\<lparr>d_discovery := m\<rparr>))"

definition start_job :: "'kv startup \<Rightarrow> string \<Rightarrow> int \<Rightarrow> cron_job \<Rightarrow> 'kv daemon \<Rightarrow> 'kv start" where
  "start_job W msg period job d =
     Inr (cause msg (su_job W period), if su_job W period = None then d\<lparr>d_jobs := d_jobs d @ [(period, job)]\<rparr> else d)"

definition start_cron :: "'kv startup \<Rightarrow> config \<Rightarrow> 'kv daemon \<Rightarrow> 'kv start" where
  "start_cron W conf d =
     (case su_scheduler W of
        Some e \<Rightarrow> Inr (cause ''Error initializing cron scheduler'' (Some e), d)
      | None \<Rightarrow>
          andAlso (start_job W ''Error initializing dispatching cronjob'' (c_Dispatch conf) DispatchJob d)
            (start_job W ''Error initializing garbage collection cronjob'' (c_GC conf) GcJob))"

definition startDtnd :: "'kv store_env \<Rightarrow> 'kv startup \<Rightarrow> config \<Rightarrow> 'kv daemon \<Rightarrow> 'kv start" where
  "startDtnd E W conf d =
     foldl andAlso (Inr ([], d\<lparr>ownNodeID := c_NodeID conf\<rparr>))
       [start_store E W conf, start_idk, start_routing E conf,
        (\<lambda>d. Inr ([], d\<lparr>d_agents := Some InitialiseApplicationAgentManager\<rparr>)), start_rest W conf, start_unix W conf,
        start_clas W conf, start_discovery E W conf, start_cron W conf]"

section \<open>Stopping\<close>

text \<open>
  The scheduler is not stopped. \<open>stopped\<close> says what else is told to stop, each in a goroutine of its own: the
  agents, the adapters and the listeners.
\<close>

record stopped =
  st_agents :: "(unix_agent + rest_agent) list"
  st_clas :: "convergence list"
  st_listeners :: "string list"

definition stopDtnd :: "err option \<Rightarrow> 'kv daemon \<Rightarrow> stopped \<times> err option \<times> 'kv daemon" where
  "stopDtnd closed d =
     (let disc = fst (ShutdownDiscoveryManager (d_discovery d));
          (cs, ls) = (case d_clas d of None \<Rightarrow> ([], []) | Some m \<Rightarrow> (case cla_shutdown m of (cs, ls, _) \<Rightarrow> (cs, ls)));
          (as, aa) = ShutdownAAManager (d_agents d);
          (e, st) = ShutdownStore closed (d_store d)
      in (\<lparr>st_agents = as, st_clas = cs, st_listeners = ls\<rparr>, e,
          d\<lparr>d_discovery := disc, d_clas := None, d_agents := aa, d_algorithm := None,
            d_idk := ShutdownIdKeeper (d_idk d), d_store := st\<rparr>))"

text \<open>The periodic job: the store is collected, and then every agent's mailboxes.\<close>

definition gc_job :: "time \<Rightarrow> 'kv daemon \<Rightarrow> ((string \<times> nat list) list \<times> 'kv daemon) res" where
  "gc_job now d =
     andThen (GetStoreSingleton (d_store d)) (\<lambda>st.
     andThen (aa_GetManagerSingleton (d_agents d)) (\<lambda>m.
       Inr (aa_GC (node_agents :: ('kv, unix_agent + rest_agent) application_agent) m,
            d\<lparr>d_store := Some (GarbageCollect now st)\<rparr>)))"

text \<open>
  \<^verbatim>\<open>main\<close> up to the signal: \<open>None\<close> where the configuration is refused, else whether the daemon waits for a
  signal, and the daemon. One that had errors is stopped at once.
\<close>

definition dtnd_main ::
  "'kv store_env \<Rightarrow> float_ops \<Rightarrow> (string \<Rightarrow> u32 res) \<Rightarrow> 'kv startup \<Rightarrow> err option \<Rightarrow> tomlConfig res \<Rightarrow> 'kv daemon \<Rightarrow>
   (bool \<times> 'kv daemon) option res" where
  "dtnd_main E F ParseLevel W closed tomlFile d =
     (case parse_config F ParseLevel tomlFile of
        Inl e \<Rightarrow> Inr None
      | Inr conf \<Rightarrow>
          andThen (startDtnd E W conf d) (\<lambda>(errs, d).
            Inr (Some (if errs = [] then (True, d) else (False, snd (snd (stopDtnd closed d)))))))"

section \<open>What a configuration becomes\<close>

definition listener_of :: "endpoint_id \<Rightarrow> listenerTomlConfig \<Rightarrow> ListenerConfig \<Rightarrow> bool" where
  "listener_of nid t l \<longleftrightarrow> TypeFromString (lt_Type t) = Inr (lc_Type l) \<and> lc_Address l = lt_Address t \<and>
     lc_EndpointId l = nid \<and> lc_Peer l = lt_Peer t \<and> lc_PeerID l = lt_PeerID t"

definition announcement_of :: "endpoint_id \<Rightarrow> ListenerConfig \<Rightarrow> announcement \<Rightarrow> bool" where
  "announcement_of nid l a \<longleftrightarrow> an_Type a = lc_Type l \<and> an_Endpoint a = nid \<and>
     (\<exists>port. parseListenPort (lc_Address l) = Inr port \<and> an_Port a = word_of_int port)"

lemma TypeFromString_types:
  "TypeFromString s = Inr t \<Longrightarrow> t \<in> {TCPCLv4, MTCP, QUICL, Meshtastic_cla}"
  by (auto simp: TypeFromString_def Let_def split: if_splits)

lemma parse_listeners_ok:
  assumes "parse_listeners nid ts = Inr (ls, as)"
  shows "list_all2 (listener_of nid) ts ls"
    "list_all2 (announcement_of nid) (filter (\<lambda>l. lc_Type l \<noteq> Meshtastic_cla) ls) as"
  using assms
  by (induction ts arbitrary: ls as)
    (auto simp: andThen_eq_Inr listener_of_def announcement_of_def split: if_splits)

lemma parse_config_parts:
  assumes "parse_config F ParseLevel (Inr t) = Inr conf"
  shows "NewEndpointID (t_NodeID t) = Inr (c_NodeID conf)"
    "AlgorithmEnumFromString (t_Algorithm t) = Inr (c_Algorithm conf)"
    "parse_listeners (c_NodeID conf) (t_Listener t) = Inr (c_Listener conf, c_Discovery conf)"
    "ParseDuration F (t_Dispatch t) = Inr (c_Dispatch conf)" "ParseDuration F (t_GC t) = Inr (c_GC conf)"
  using assms by (auto simp: parse_config_def andThen_eq_Inr)

lemma list_all2_setD2: "list_all2 P xs ys \<Longrightarrow> y \<in> set ys \<Longrightarrow> \<exists>x \<in> set xs. P x y"
  by (metis in_set_conv_nth list_all2_conv_all_nth)

lemma config_types:
  assumes "parse_config F ParseLevel (Inr t) = Inr conf" and "l \<in> set (c_Listener conf)"
  shows "lc_Type l \<in> {TCPCLv4, MTCP, QUICL, Meshtastic_cla}"
  using list_all2_setD2[OF parse_listeners_ok(1)[OF parse_config_parts(3)[OF assms(1)]] assms(2)]
  by (auto simp: listener_of_def dest: TypeFromString_types)

lemma config_announcements:
  assumes "parse_config F ParseLevel (Inr t) = Inr conf" and "a \<in> set (c_Discovery conf)"
  shows "an_Endpoint a = c_NodeID conf" "CLAType_CheckValid (an_Type a) = None"
proof -
  obtain l where l: "l \<in> set (c_Listener conf)" "announcement_of (c_NodeID conf) l a"
    using list_all2_setD2[OF parse_listeners_ok(2)[OF parse_config_parts(3)[OF assms(1)]] assms(2)] by auto
  then show "an_Endpoint a = c_NodeID conf" by (simp add: announcement_of_def)
  have "an_Type a \<in> {TCPCLv4, MTCP, QUICL, Meshtastic_cla}"
    using config_types[OF assms(1) l(1)] l(2) by (simp add: announcement_of_def)
  then show "CLAType_CheckValid (an_Type a) = None"
    by (auto simp: CLAType_CheckValid_def CLAType_String_def)
qed

section \<open>Starting step by step\<close>

lemma andAlso_Inr [simp]: "andAlso (Inr (e, d)) k = andThen (k d) (\<lambda>(e', d). Inr (e @ e', d))"
  by (simp add: andAlso_def)

definition not_started :: "'kv daemon \<Rightarrow> bool" where
  "not_started d \<longleftrightarrow> d_store d = None \<and> d_idk d = None \<and> d_algorithm d = None \<and> d_clas d = None \<and> d_discovery d = None"

text \<open>The libraries report their errors and do not panic.\<close>

definition no_library_panic :: "'kv store_env \<Rightarrow> 'kv startup \<Rightarrow> bool" where
  "no_library_panic E W \<longleftrightarrow> (\<forall>p. su_dirs W \<noteq> Inl (Panic p) \<and> su_db W \<noteq> Inl (Panic p) \<and> su_multicast W \<noteq> Some (Panic p)) \<and>
     (\<forall>db p. kv_Find (env_db E) db \<noteq> Inl (Panic p))"

definition store_opens :: "'kv store_env \<Rightarrow> 'kv startup \<Rightarrow> bool" where
  "store_opens E W \<longleftrightarrow> (\<exists>db ms. su_dirs W = Inr () \<and> su_db W = Inr db \<and> kv_Find (env_db E) db = Inr ms)"

lemma cause_Nil [simp]: "cause msg outcome = [] \<longleftrightarrow> outcome = None" "aa_cause msg o' = [] \<longleftrightarrow> o' = None"
  by (simp_all add: cause_def aa_cause_def split: option.split)

lemma start_store_step:
  assumes "no_library_panic E W" and "d_store d = None"
  shows "\<exists>e st. start_store E W conf d = Inr (e, d\<lparr>d_store := st\<rparr>) \<and> (e = [] \<longleftrightarrow> store_opens E W) \<and>
    (e = [] \<longrightarrow> st \<noteq> None)"
proof (cases "InitialiseStore (env_db E) (c_NodeID conf) (su_dirs W) (su_db W) (su_files W) (d_store d)")
  case (Inr st)
  then have "store_opens E W"
    using assms(2) by (auto simp: InitialiseStore_def store_opens_def loadAll_def andThen_eq_Inr)
  then show ?thesis using Inr by (intro exI[of _ "[]"] exI[of _ "Some st"]) (simp add: start_store_def)
next
  case (Inl e)
  then have "\<not> store_opens E W" and np: "\<forall>p. e \<noteq> Panic p"
    using assms by (auto simp: InitialiseStore_def store_opens_def loadAll_def no_library_panic_def andThen_eq_Inl)
  moreover have "start_store E W conf d = Inr (cause ''Error initialising store'' (Some e), d\<lparr>d_store := None\<rparr>)"
    using Inl np assms(2) by (cases e) (simp_all add: start_store_def)
  ultimately show ?thesis by (metis cause_Nil(1) option.distinct(1))
qed

lemma start_idk_step: "d_idk d = None \<Longrightarrow> start_idk d = Inr ([], d\<lparr>d_idk := Some Map.empty\<rparr>)"
  by (simp add: start_idk_def InitializeIdKeeper_def)

lemma start_routing_step:
  assumes "AlgorithmEnumFromString s = Inr (c_Algorithm conf)" and "d_algorithm d = None"
  shows "\<exists>a. start_routing E conf d = Inr ([], d\<lparr>d_algorithm := Some a\<rparr>)"
  using assms
  by (auto simp: start_routing_def AlgorithmEnumFromString_def InitialiseAlgorithm_def Let_def split: if_splits)

definition node_agent_name :: "unix_agent + rest_agent \<Rightarrow> string" where
  "node_agent_name = case_sum (\<lambda>a. ''UNIXAgent('' @ listenAddress a @ '')'') (\<lambda>a. ''RestAgent('' @ ra_listenAddress a @ '')'')"

lemma node_agents_name [simp]: "ag_Name node_agents = node_agent_name"
  by (simp add: node_agents_def either_agent_def unix_interface_def rest_interface_def node_agent_name_def)

lemma register_agent_eq:
  assumes "d_agents d = Some m" and "map_of (agents m) (node_agent_name agent) = None"
  shows "register_agent msg agent started d = Inr (cause msg started, d\<lparr>d_agents := Some
    (if started = None then m\<lparr>agents := mapset (node_agent_name agent) agent (agents m)\<rparr> else m)\<rparr>)"
  using assms
  by (cases started) (simp_all add: register_agent_def aa_GetManagerSingleton_def RegisterAgent_def
      cause_def aa_cause_def)

definition agents_start :: "'kv startup \<Rightarrow> config \<Rightarrow> bool" where
  "agents_start W conf \<longleftrightarrow> (c_REST conf = [] \<or> su_rest W = None) \<and> (c_UNIX conf = [] \<or> su_unix W = None)"

lemma start_agents_step:
  assumes "d_agents d = Some InitialiseApplicationAgentManager" and "su_unix_address W = None"
  shows "\<exists>e m. andAlso (start_rest W conf d) (start_unix W conf) = Inr (e, d\<lparr>d_agents := Some m\<rparr>) \<and>
    (e = [] \<longleftrightarrow> agents_start W conf)"
proof -
  obtain e m where r: "start_rest W conf d = Inr (e, d\<lparr>d_agents := Some m\<rparr>)"
    "e = [] \<longleftrightarrow> c_REST conf = [] \<or> su_rest W = None"
    "\<forall>name \<in> fst ` set (agents m). hd name = CHR ''R''"
  proof (cases "c_REST conf = []")
    case True
    have "d\<lparr>d_agents := Some InitialiseApplicationAgentManager\<rparr> = d" using assms(1) by simp
    then show thesis
      using that[of "[]" InitialiseApplicationAgentManager] True
      by (simp add: start_rest_def InitialiseApplicationAgentManager_def)
  next
    case False
    have "start_rest W conf d = Inr (cause ''Error registering REST application agent'' (su_rest W),
        d\<lparr>d_agents := Some (if su_rest W = None then \<lparr>agents = [(node_agent_name (Inr (NewRestAgent (c_REST conf))),
          Inr (NewRestAgent (c_REST conf)))]\<rparr> else \<lparr>agents = []\<rparr>)\<rparr>)"
      using False by (simp add: start_rest_def register_agent_eq[OF assms(1)] mapset_def
          InitialiseApplicationAgentManager_def)
    then show thesis by (rule that) (use False in \<open>auto simp: node_agent_name_def\<close>)
  qed
  show ?thesis
  proof (cases "c_UNIX conf = []")
    case True
    then show ?thesis using r by (auto simp: start_unix_def agents_start_def)
  next
    case False
    have "node_agent_name (Inl (NewUNIXAgent (c_UNIX conf))) \<notin> fst ` set (agents m)"
      using r(3) by (force simp: node_agent_name_def)
    then have "map_of (agents m) (node_agent_name (Inl (NewUNIXAgent (c_UNIX conf)))) = None"
      by (simp add: map_of_eq_None_iff)
    then show ?thesis
      using r False assms(2) by (simp add: start_unix_def agents_start_def register_agent_eq) blast
  qed
qed


definition listener_starts :: "'kv startup \<Rightarrow> nat \<Rightarrow> ListenerConfig \<Rightarrow> bool" where
  "listener_starts W i l \<longleftrightarrow> lc_Type l \<in> {Dummy_cla, MTCP, QUICL, Meshtastic_cla} \<and>
     (lc_Type l = Meshtastic_cla \<longrightarrow> su_transport W i = None) \<and> su_listen W i = None"

lemma make_listener_ok:
  "(\<exists>x. make_listener W i l = Inr x) \<longleftrightarrow> lc_Type l \<in> {Dummy_cla, MTCP, QUICL, Meshtastic_cla} \<and>
     (lc_Type l = Meshtastic_cla \<longrightarrow> su_transport W i = None)"
  by (auto simp: make_listener_def Let_def split: option.split)

lemma start_listener_step:
  assumes "d_clas d = Some m"
  shows "\<exists>e m' r. start_listener W i l d = Inr (e, d\<lparr>d_clas := Some m', d_registering := r\<rparr>) \<and>
    (e = [] \<longleftrightarrow> listener_starts W i l)"
proof (cases "make_listener W i l")
  case (Inl e)
  have "d\<lparr>d_clas := Some m, d_registering := d_registering d\<rparr> = d" using assms by simp
  then have "start_listener W i l d = Inr ([e], d\<lparr>d_clas := Some m, d_registering := d_registering d\<rparr>)"
    using Inl by (simp add: start_listener_def)
  moreover have "\<not> listener_starts W i l"
    using make_listener_ok[of W i l] Inl by (auto simp: listener_starts_def)
  ultimately show ?thesis by blast
next
  case (Inr x)
  then have "listener_starts W i l \<longleftrightarrow> su_listen W i = None"
    using make_listener_ok[of W i l] by (auto simp: listener_starts_def)
  moreover obtain convs address where "x = (convs, address)" by fastforce
  then have "start_listener W i l d = Inr (cause ''Error starting convergence listener'' (su_listen W i),
      d\<lparr>d_clas := Some (snd (RegisterListener address (su_listen W i) m)), d_registering := d_registering d @ convs\<rparr>)"
    using Inr assms by (cases "su_listen W i")
      (simp_all add: start_listener_def cla_GetManagerSingleton_def RegisterListener_def)
  ultimately show ?thesis by (metis cause_Nil(1))
qed

lemma start_listeners_step:
  assumes "d_clas d = Some m"
  shows "\<exists>e m' r. start_listeners W i ls d = Inr (e, d\<lparr>d_clas := Some m', d_registering := r\<rparr>) \<and>
    (e = [] \<longleftrightarrow> (\<forall>j < length ls. listener_starts W (i + j) (ls ! j)))"
  using assms
proof (induction ls arbitrary: i d m)
  case Nil
  then have "d\<lparr>d_clas := Some m, d_registering := d_registering d\<rparr> = d" by simp
  then show ?case by (metis length_0_conv not_less_zero start_listeners.simps(1))
next
  case (Cons l ls)
  obtain e1 m1 r1 where 1: "start_listener W i l d = Inr (e1, d\<lparr>d_clas := Some m1, d_registering := r1\<rparr>)"
    "e1 = [] \<longleftrightarrow> listener_starts W i l"
    using start_listener_step[OF Cons.prems] by blast
  obtain e2 m2 r2 where 2: "start_listeners W (i + 1) ls (d\<lparr>d_clas := Some m1, d_registering := r1\<rparr>) =
      Inr (e2, d\<lparr>d_clas := Some m2, d_registering := r2\<rparr>)"
    "e2 = [] \<longleftrightarrow> (\<forall>j < length ls. listener_starts W (i + 1 + j) (ls ! j))"
    using Cons.IH[of "d\<lparr>d_clas := Some m1, d_registering := r1\<rparr>" m1 "i + 1"] by auto
  have "(\<forall>j < length (l # ls). listener_starts W (i + j) ((l # ls) ! j)) \<longleftrightarrow>
      listener_starts W i l \<and> (\<forall>j < length ls. listener_starts W (i + 1 + j) (ls ! j))"
    by (simp add: All_less_Suc2)
  then show ?case
    using 1 2 by (intro exI[of _ "e1 @ e2"] exI[of _ m2] exI[of _ r2]) simp
qed

lemma start_clas_step:
  assumes "d_algorithm d = Some a" and "d_clas d = None"
  shows "\<exists>e m r. start_clas W conf d = Inr (e, d\<lparr>d_clas := Some m, d_registering := r\<rparr>) \<and>
    (e = [] \<longleftrightarrow> (\<forall>i < length (c_Listener conf). listener_starts W i (c_Listener conf ! i)))"
proof -
  obtain m where m: "InitialiseCLAManager None = Inr m" by (simp add: InitialiseCLAManager_def)
  show ?thesis
    using start_listeners_step[of "d\<lparr>d_clas := Some m\<rparr>" m W 0 "c_Listener conf"]
    by (simp add: start_clas_def GetAlgorithmSingleton_def assms m)
qed

lemma map_res_total: "\<forall>x \<in> set xs. \<exists>y. f x = Inr y \<Longrightarrow> \<exists>ys. map_res f xs = Inr ys"
  by (induction xs) fastforce+

lemma config_marshals:
  assumes "cboring L" and "parse_config F ParseLevel (Inr t) = Inr conf" and "length (t_NodeID t) < 2 ^ 63"
  shows "\<exists>bs. MarshalAnnouncements L (c_Discovery conf) = Inr bs" "\<forall>a \<in> set (c_Discovery conf). wf_announcement a"
proof -
  have "wf_eid (c_NodeID conf)" using NewEndpointID_wf[OF parse_config_parts(1)[OF assms(2)] assms(3)] .
  then show wf: "\<forall>a \<in> set (c_Discovery conf). wf_announcement a"
    using config_announcements[OF assms(2)] by (auto simp: wf_announcement_def)
  then have "\<forall>a \<in> set (c_Discovery conf). \<exists>bs. an_MarshalCbor L a = Inr bs"
    using cboring.eid_marshals[OF assms(1)] by (fastforce simp: wf_announcement_def an_MarshalCbor_def)
  then have "\<exists>bss. map_res (\<lambda>a. wrapping ''marshalling Announcement failed'' (an_MarshalCbor L a)) (c_Discovery conf) =
      Inr bss"
    by (intro map_res_total) simp
  then show "\<exists>bs. MarshalAnnouncements L (c_Discovery conf) = Inr bs"
    by (auto simp: MarshalAnnouncements_def)
qed


lemma start_discovery_step:
  assumes "cboring (env_cbor E)" and "parse_config F ParseLevel (Inr t) = Inr conf" and "length (t_NodeID t) < 2 ^ 63"
    and "d_discovery d = None" and "no_library_panic E W"
  shows "\<exists>e m. start_discovery E W conf d = Inr (e, d\<lparr>d_discovery := m\<rparr>) \<and> (e = [] \<longleftrightarrow> su_multicast W = None) \<and>
    (e = [] \<longrightarrow> m \<noteq> None)"
proof (cases "su_multicast W")
  case None
  then show ?thesis
    using config_marshals(1)[OF assms(1-3)] assms(4)
    by (intro exI[of _ "[]"] exI[of _ "Some \<lparr>dm_NodeId = c_NodeID conf, dm_stop4 = True, dm_stop6 = False\<rparr>"])
      (auto simp: start_discovery_def disc_InitialiseManager_def)
next
  case (Some e)
  have "d\<lparr>d_discovery := None\<rparr> = d" using assms(4) by simp
  moreover have "\<forall>p. e \<noteq> Panic p" using assms(5) Some by (auto simp: no_library_panic_def)
  then have "start_discovery E W conf d = Inr (cause ''Error starting discovery manager'' (Some e), d)"
    using config_marshals(1)[OF assms(1-3)] assms(4) Some
    by (cases e) (auto simp: start_discovery_def disc_InitialiseManager_def)
  ultimately show ?thesis using Some by (metis cause_Nil(1) option.distinct(1))
qed

lemma start_cron_step:
  "\<exists>e j. start_cron W conf d = Inr (e, d\<lparr>d_jobs := j\<rparr>) \<and>
    (e = [] \<longleftrightarrow> su_scheduler W = None \<and> su_job W (c_Dispatch conf) = None \<and> su_job W (c_GC conf) = None) \<and>
    (e = [] \<longrightarrow> j = d_jobs d @ [(c_Dispatch conf, DispatchJob), (c_GC conf, GcJob)])"
proof -
  have same: "d\<lparr>d_jobs := d_jobs d\<rparr> = d" by simp
  show ?thesis
  proof (cases "su_scheduler W")
    case None
    define j where "j = d_jobs d @ (if su_job W (c_Dispatch conf) = None then [(c_Dispatch conf, DispatchJob)] else [])
      @ (if su_job W (c_GC conf) = None then [(c_GC conf, GcJob)] else [])"
    show ?thesis
    proof (intro exI conjI)
      show "start_cron W conf d = Inr (cause ''Error initializing dispatching cronjob'' (su_job W (c_Dispatch conf)) @
          cause ''Error initializing garbage collection cronjob'' (su_job W (c_GC conf)), d\<lparr>d_jobs := j\<rparr>)"
        by (simp add: start_cron_def None start_job_def j_def)
    qed (auto simp: None j_def)
  next
    case (Some e)
    then have "start_cron W conf d = Inr (cause ''Error initializing cron scheduler'' (Some e), d\<lparr>d_jobs := d_jobs d\<rparr>)"
      by (simp add: start_cron_def)
    then show ?thesis using Some by (metis cause_Nil(1) option.distinct(1))
  qed
qed

lemma andAlso_assoc: "andAlso (andAlso s k) l = andAlso s (\<lambda>d. andAlso (k d) l)"
  by (cases s) (auto simp: andAlso_def andThen_def split: sum.splits prod.splits)

lemma andAlso_first: "andAlso (Inr ([], d)) k = k d"
  by (cases "k d") auto

lemma startDtnd_eq:
  "startDtnd E W conf d = andAlso (start_store E W conf (d\<lparr>ownNodeID := c_NodeID conf\<rparr>)) (\<lambda>d.
     andAlso (start_idk d) (\<lambda>d. andAlso (start_routing E conf d) (\<lambda>d.
     andAlso (andAlso (start_rest W conf (d\<lparr>d_agents := Some InitialiseApplicationAgentManager\<rparr>)) (start_unix W conf)) (\<lambda>d.
     andAlso (start_clas W conf d) (\<lambda>d. andAlso (start_discovery E W conf d) (start_cron W conf))))))"
  unfolding startDtnd_def foldl.simps andAlso_assoc andAlso_first ..

definition starts_well :: "'kv store_env \<Rightarrow> 'kv startup \<Rightarrow> config \<Rightarrow> bool" where
  "starts_well E W conf \<longleftrightarrow> store_opens E W \<and> agents_start W conf \<and>
     (\<forall>i < length (c_Listener conf). listener_starts W i (c_Listener conf ! i)) \<and> su_multicast W = None \<and>
     su_scheduler W = None \<and> su_job W (c_Dispatch conf) = None \<and> su_job W (c_GC conf) = None"

definition running :: "'kv daemon \<Rightarrow> bool" where
  "running d \<longleftrightarrow> d_store d \<noteq> None \<and> d_idk d \<noteq> None \<and> d_algorithm d \<noteq> None \<and> d_agents d \<noteq> None \<and>
     d_clas d \<noteq> None \<and> d_discovery d \<noteq> None"

lemma startDtnd_run:
  assumes L: "cboring (env_cbor E)" and conf: "parse_config F ParseLevel (Inr t) = Inr conf"
    and len: "length (t_NodeID t) < 2 ^ 63" and fresh: "not_started d" and lib: "no_library_panic E W"
    and addr: "su_unix_address W = None"
  shows "\<exists>errs d'. startDtnd E W conf d = Inr (errs, d') \<and> (errs = [] \<longleftrightarrow> starts_well E W conf) \<and>
    ownNodeID d' = c_NodeID conf \<and>
    (errs = [] \<longrightarrow> running d' \<and> d_jobs d' = d_jobs d @ [(c_Dispatch conf, DispatchJob), (c_GC conf, GcJob)])"
proof -
  define d0 where "d0 = d\<lparr>ownNodeID := c_NodeID conf\<rparr>"
  have f: "d_store d0 = None" "d_idk d0 = None" "d_algorithm d0 = None" "d_clas d0 = None" "d_discovery d0 = None"
    using fresh by (simp_all add: d0_def not_started_def)
  obtain e1 st where 1: "start_store E W conf d0 = Inr (e1, d0\<lparr>d_store := st\<rparr>)" "e1 = [] \<longleftrightarrow> store_opens E W"
    "e1 = [] \<longrightarrow> st \<noteq> None"
    using start_store_step[OF lib f(1)] by blast
  define d1 where "d1 = d0\<lparr>d_store := st\<rparr>"
  define d2 where "d2 = d1\<lparr>d_idk := Some Map.empty\<rparr>"
  have 2: "start_idk d1 = Inr ([], d2)" unfolding d2_def by (rule start_idk_step) (simp add: d1_def f)
  obtain a where 3: "start_routing E conf d2 = Inr ([], d2\<lparr>d_algorithm := Some a\<rparr>)"
    using start_routing_step[OF parse_config_parts(2)[OF conf], of d2] f by (auto simp: d1_def d2_def)
  define d3 where "d3 = d2\<lparr>d_algorithm := Some a\<rparr>"
  obtain e4 m where 4: "andAlso (start_rest W conf (d3\<lparr>d_agents := Some InitialiseApplicationAgentManager\<rparr>))
      (start_unix W conf) = Inr (e4, d3\<lparr>d_agents := Some m\<rparr>)" "e4 = [] \<longleftrightarrow> agents_start W conf"
    using start_agents_step[where d = "d3\<lparr>d_agents := Some InitialiseApplicationAgentManager\<rparr>" and W = W and
        conf = conf, OF _ addr] by auto
  define d4 where "d4 = d3\<lparr>d_agents := Some m\<rparr>"
  obtain e5 cm r where 5: "start_clas W conf d4 = Inr (e5, d4\<lparr>d_clas := Some cm, d_registering := r\<rparr>)"
    "e5 = [] \<longleftrightarrow> (\<forall>i < length (c_Listener conf). listener_starts W i (c_Listener conf ! i))"
    using start_clas_step[of d4 a W conf] f by (auto simp: d1_def d2_def d3_def d4_def)
  define d5 where "d5 = d4\<lparr>d_clas := Some cm, d_registering := r\<rparr>"
  obtain e6 dm where 6: "start_discovery E W conf d5 = Inr (e6, d5\<lparr>d_discovery := dm\<rparr>)"
    "e6 = [] \<longleftrightarrow> su_multicast W = None" "e6 = [] \<longrightarrow> dm \<noteq> None"
    using start_discovery_step[OF L conf len _ lib, of d5] f by (auto simp: d1_def d2_def d3_def d4_def d5_def)
  define d6 where "d6 = d5\<lparr>d_discovery := dm\<rparr>"
  obtain e7 j where 7: "start_cron W conf d6 = Inr (e7, d6\<lparr>d_jobs := j\<rparr>)"
    "e7 = [] \<longleftrightarrow> su_scheduler W = None \<and> su_job W (c_Dispatch conf) = None \<and> su_job W (c_GC conf) = None"
    "e7 = [] \<longrightarrow> j = d_jobs d6 @ [(c_Dispatch conf, DispatchJob), (c_GC conf, GcJob)]"
    using start_cron_step[of W conf d6] by blast
  have "startDtnd E W conf d = Inr (e1 @ e4 @ e5 @ e6 @ e7, d6\<lparr>d_jobs := j\<rparr>)"
    by (simp add: startDtnd_eq d0_def[symmetric] 1(1) d1_def[symmetric] 2 3 d3_def[symmetric] 4(1) d4_def[symmetric]
        5(1) d5_def[symmetric] 6(1) d6_def[symmetric] 7(1))
  moreover have "e1 @ e4 @ e5 @ e6 @ e7 = [] \<longleftrightarrow> starts_well E W conf"
    using 1(2) 4(2) 5(2) 6(2) 7(2) by (simp add: starts_well_def)
  moreover have "ownNodeID (d6\<lparr>d_jobs := j\<rparr>) = c_NodeID conf"
    by (simp add: d6_def d5_def d4_def d3_def d2_def d1_def d0_def)
  moreover have "e1 @ e4 @ e5 @ e6 @ e7 = [] \<longrightarrow> running (d6\<lparr>d_jobs := j\<rparr>) \<and>
      d_jobs (d6\<lparr>d_jobs := j\<rparr>) = d_jobs d @ [(c_Dispatch conf, DispatchJob), (c_GC conf, GcJob)]"
    using 1(3) 6(3) 7(3) by (simp add: running_def d6_def d5_def d4_def d3_def d2_def d1_def d0_def)
  ultimately show ?thesis by blast
qed

lemma stop_clears: "not_started (snd (snd (stopDtnd closed d)))"
  by (simp add: stopDtnd_def not_started_def ShutdownDiscoveryManager_def ShutdownAAManager_def ShutdownIdKeeper_def
      ShutdownStore_def Let_def split: option.split prod.split)

section \<open>Properties\<close>

text \<open>
  Claim C27: what a parsed configuration starts from. The node ID and the routing algorithm are those named; each
  listener has its type, its address and the node's endpoint; exactly the listeners that are not Meshtastic are
  announced, in their order, with the port of their address; and another node reads from the announcement
  packet exactly these.
\<close>

theorem config_announced:
  assumes "cboring L" and "parse_config F ParseLevel (Inr t) = Inr conf" and "length (t_NodeID t) < 2 ^ 63"
    and "length (c_Discovery conf) < 2 ^ 43"
  shows "NewEndpointID (t_NodeID t) = Inr (c_NodeID conf) \<and> c_Algorithm conf \<in> {AlgorithmEpidemic, AlgorithmSprayAndWait} \<and>
    list_all2 (listener_of (c_NodeID conf)) (t_Listener t) (c_Listener conf) \<and>
    list_all2 (announcement_of (c_NodeID conf)) (filter (\<lambda>l. lc_Type l \<noteq> Meshtastic_cla) (c_Listener conf))
      (c_Discovery conf) \<and>
    (\<exists>bs. MarshalAnnouncements L (c_Discovery conf) = Inr bs \<and> UnmarshalAnnouncements L bs = Inr (c_Discovery conf))"
proof -
  note parts = parse_config_parts[OF assms(2)] and ls = parse_listeners_ok[OF parse_config_parts(3)[OF assms(2)]]
  have "c_Algorithm conf \<in> {AlgorithmEpidemic, AlgorithmSprayAndWait}"
    using parts(2) by (auto simp: AlgorithmEnumFromString_def Let_def split: if_splits)
  moreover obtain bs where bs: "MarshalAnnouncements L (c_Discovery conf) = Inr bs"
    using config_marshals(1)[OF assms(1-3)] by blast
  ultimately show ?thesis
    using parts(1) ls announcements_rw[OF assms(1) config_marshals(2)[OF assms(1-3)] assms(4) bs] by blast
qed

text \<open>
  Claim C26: the start of the daemon. With a parsed configuration, on a process where nothing runs, and as long as
  the libraries only report errors, \<^verbatim>\<open>startDtnd\<close> comes to its end, never through a panic. It has no
  errors exactly when everything it opens, binds or schedules works and no listener is of a type without an
  implementation; then every component is there and both jobs are scheduled. After a stop the process can start
  again.
\<close>

theorem daemon_starts:
  assumes "cboring (env_cbor E)" and "parse_config F ParseLevel (Inr t) = Inr conf"
    and "length (t_NodeID t) < 2 ^ 63" and "not_started d" and "no_library_panic E W" and "su_unix_address W = None"
  shows "\<exists>errs d'. startDtnd E W conf d = Inr (errs, d') \<and> (errs = [] \<longleftrightarrow> starts_well E W conf) \<and>
    ownNodeID d' = c_NodeID conf \<and>
    (errs = [] \<longrightarrow> running d' \<and> d_jobs d' = d_jobs d @ [(c_Dispatch conf, DispatchJob), (c_GC conf, GcJob)]) \<and>
    (\<exists>again. startDtnd E W conf (snd (snd (stopDtnd closed d'))) = Inr again)"
  using startDtnd_run[OF assms] startDtnd_run[OF assms(1-3) stop_clears assms(5,6)] by (metis (lifting))

definition sample_toml :: tomlConfig where
  "sample_toml =
     \<lparr>t_NodeID = ''dtn://a/'', t_LogLevel = ''info'', t_Store = ''/tmp/store'', t_Algorithm = ''epidemic'',
      t_Spray = \<lparr>Spray_Binary = False, Spray_Copies = 0\<rparr>,
      t_Listener = [\<lparr>lt_Type = ''mtcp'', lt_Address = ''[::]:4556'', lt_Peer = [], lt_PeerID = []\<rparr>,
        \<lparr>lt_Type = ''meshtastic'', lt_Address = ''/tmp/m'', lt_Peer = [], lt_PeerID = ''dtn://b/''\<rparr>],
      t_REST = [], t_UNIX = ''/tmp/s'', t_Dispatch = ''1s'', t_GC = ''1s''\<rparr>"

definition sample_config :: config where
  "sample_config =
     \<lparr>c_NodeID = sample_eid, c_LogLevel = 4, c_Store = ''/tmp/store'', c_Algorithm = AlgorithmEpidemic,
      c_Spray = \<lparr>Spray_Binary = False, Spray_Copies = 0\<rparr>,
      c_Listener = [\<lparr>lc_Type = MTCP, lc_Address = ''[::]:4556'', lc_EndpointId = sample_eid, lc_Peer = [], lc_PeerID = []\<rparr>,
        \<lparr>lc_Type = Meshtastic_cla, lc_Address = ''/tmp/m'', lc_EndpointId = sample_eid, lc_Peer = [], lc_PeerID = ''dtn://b/''\<rparr>],
      c_REST = [], c_UNIX = ''/tmp/s'', c_Discovery = [sample_announcement], c_Dispatch = 1000000000, c_GC = 1000000000\<rparr>"

lemma sample_port: "parseListenPort ''[::]:4556'' = Inr 4556"
  by (simp add: parseListenPort_def SplitHostPort_def LastIndexByte_def IndexByte_def upt_rec Atoi_def ParseUint_def
      is_digit_def digit_value_def)

lemma sample_parses: "parse_config sample_floats (\<lambda>_. Inr 4) (Inr sample_toml) = Inr sample_config"
  by (simp add: parse_config_def sample_toml_def sample_config_def sample_uri sample_second sample_port
      AlgorithmEnumFromString_def TypeFromString_def sample_announcement_def)

theorem config_announced_witness:
  "list_all2 (announcement_of sample_eid) [hd (c_Listener sample_config)] [sample_announcement] \<and>
   (\<exists>bs. MarshalAnnouncements rfc_lib [sample_announcement] = Inr bs \<and>
     UnmarshalAnnouncements rfc_lib bs = Inr [sample_announcement])"
  using config_announced[OF cboring_rfc sample_parses] by (simp add: sample_toml_def sample_config_def)

definition sample_daemon :: "kv_list daemon" where
  "sample_daemon = \<lparr>ownNodeID = None, d_store = None, d_idk = None, d_algorithm = None, d_agents = None, d_clas = None,
     d_discovery = None, d_registering = [], d_jobs = []\<rparr>"

definition sample_startup :: "kv_list startup" where
  "sample_startup = \<lparr>su_dirs = Inr (), su_db = Inr [], su_files = Map.empty, su_rest = None, su_unix_address = None,
     su_unix = None, su_transport = (\<lambda>_. None), su_listen = (\<lambda>_. None), su_multicast = None, su_scheduler = None,
     su_job = (\<lambda>_. None)\<rparr>"

lemma sample_startup_ok:
  "no_library_panic sample_env sample_startup" "starts_well sample_env sample_startup sample_config"
proof -
  have find: "\<exists>ms. kv_Find (env_db sample_env) db = Inr ms" for db by (simp add: sample_env_def map_db_def)
  then have "kv_Find (env_db sample_env) db \<noteq> Inl (Panic p)" for db p by (metis sum.distinct(1))
  then show "no_library_panic sample_env sample_startup"
    by (simp add: no_library_panic_def sample_startup_def)
  show "starts_well sample_env sample_startup sample_config"
    using find[of "[]"]
    by (auto simp: starts_well_def store_opens_def sample_startup_def agents_start_def listener_starts_def
        sample_config_def less_Suc_eq)
qed

theorem daemon_starts_witness:
  "\<exists>d. startDtnd sample_env sample_startup sample_config sample_daemon = Inr ([], d) \<and> running d \<and>
    (\<exists>again. startDtnd sample_env sample_startup sample_config (snd (snd (stopDtnd None d))) = Inr again)"
  using daemon_starts[OF _ sample_parses _ _ sample_startup_ok(1), of sample_daemon None] sample_startup_ok(2)
  by (auto simp: cboring_rfc sample_toml_def not_started_def sample_daemon_def sample_startup_def)

text \<open>
  Also shown: an MTCP server is a listener and a receiver of the manager at once. When the daemon stops, both lists
  are told to close, and the second call closes a closed channel: the program panics in its shutdown. The same
  holds for a Meshtastic server.
\<close>

lemma mtcp_closed_twice:
  assumes "mtcp_Start None srv = (None, srv1)" and "\<not> mtcp_closed srv" and "mtcp_server_Close srv1 = Some (Inr srv2)"
  shows "mtcp_server_Close srv2 = Some (Inl (Panic ''close of closed channel''))"
  using assms by (auto simp: mtcp_Start_def mtcp_server_Close_def split: if_splits)

theorem mtcp_shutdown_panics:
  assumes "lc_Type l = MTCP" and "d_clas d = Some m" and "su_listen W i = None"
    and "start_listener W i l d = Inr (errs, d')" and "d_clas d' = Some m1"
    and "\<not> checkPresent (mtcp_server_conv (NewMTCPServer (lc_Address l) (lc_EndpointId l))) m1"
  defines "srv \<equiv> NewMTCPServer (lc_Address l) (lc_EndpointId l)"
  shows "\<exists>m2 srv1 srv2. mtcp_server_conv srv \<in> set (d_registering d') \<and> cla_step\<^sup>*\<^sup>* m1 m2 \<and>
    mtcp_server_conv srv \<in> set (st_clas (fst (stopDtnd closed (d'\<lparr>d_clas := Some m2\<rparr>)))) \<and>
    mtcp_server_Address srv \<in> set (st_listeners (fst (stopDtnd closed (d'\<lparr>d_clas := Some m2\<rparr>)))) \<and>
    mtcp_Start None srv = (None, srv1) \<and> mtcp_server_Close srv1 = Some (Inr srv2) \<and>
    mtcp_server_Close srv2 = Some (Inl (Panic ''close of closed channel''))"
proof -
  let ?c = "mtcp_server_conv srv"
  have d': "d' = d\<lparr>d_clas := Some (m\<lparr>listeners := listeners m @ [mtcp_server_Address srv]\<rparr>),
      d_registering := d_registering d @ [?c]\<rparr>"
    using assms(1-4) by (auto simp: start_listener_def make_listener_def cla_GetManagerSingleton_def
        RegisterListener_def srv_def Let_def)
  define m2 where "m2 = activateCLA ?c None ((registerAsync ?c m1)\<lparr>activating := remove1 ?c (activating (registerAsync ?c m1))\<rparr>)"
  have "?c \<in> set (activating (registerAsync ?c m1))" using assms(6) by (simp add: registerAsync_def srv_def)
  then have "cla_step (registerAsync ?c m1) m2" unfolding m2_def by (rule cla_step.activate)
  with cla_step.register[of m1 ?c] have steps: "cla_step\<^sup>*\<^sup>* m1 m2" by simp
  have m2: "?c \<in> set (receivers m2)" "listeners m2 = listeners m1"
    by (simp_all add: m2_def activateCLA_def mtcp_server_conv_def registerAsync_def)
  have m1: "mtcp_server_Address srv \<in> set (listeners m1)" using assms(5) by (auto simp: d')
  obtain srv1 srv2 where s: "mtcp_Start None srv = (None, srv1)" "mtcp_server_Close srv1 = Some (Inr srv2)"
    by (simp add: mtcp_Start_def mtcp_server_Close_def srv_def NewMTCPServer_def)
  have "mtcp_server_Close srv2 = Some (Inl (Panic ''close of closed channel''))"
    by (rule mtcp_closed_twice[OF s(1) _ s(2)]) (simp add: srv_def NewMTCPServer_def)
  moreover have "st_clas (fst (stopDtnd closed (d'\<lparr>d_clas := Some m2\<rparr>))) = receivers m2 @ senders m2"
    "st_listeners (fst (stopDtnd closed (d'\<lparr>d_clas := Some m2\<rparr>))) = listeners m2"
    by (simp_all add: stopDtnd_def cla_shutdown_def Let_def split: prod.split)
  moreover have "?c \<in> set (d_registering d')" by (simp add: d')
  ultimately show ?thesis using steps m1 m2 s by auto
qed

theorem mesh_closed_twice:
  assumes "ms_Close (ms_Activate (ms_Start (NewMeshtasticServer eid))) = Inr s"
  shows "ms_Close s = Inl (Panic ''close of closed channel'')"
  using assms by (auto simp: ms_Close_def ms_Activate_def ms_Start_def NewMeshtasticServer_def)

text \<open>
  Also shown: stopping the daemon leaves the scheduler as it is: the collection, when its time comes, ends the
  program, as the store is gone.
\<close>

theorem collection_after_stop:
  "d_jobs (snd (snd (stopDtnd closed d))) = d_jobs d \<and> (\<exists>p. gc_job now (snd (snd (stopDtnd closed d))) = Inl (Panic p))"
proof -
  have "d_store (snd (snd (stopDtnd closed d))) = None" using stop_clears[of closed d] by (simp add: not_started_def)
  then show ?thesis
    by (simp add: gc_job_def GetStoreSingleton_def)
      (simp add: stopDtnd_def Let_def split: prod.split)
qed

text \<open>
  Also shown: a port below zero is no error of the configuration: it is announced as a number close to \<open>2 ^ 64\<close>.
\<close>

theorem negative_port_announced:
  assumes "parseListenPort (lt_Address t) = Inr (- 1)" and "TypeFromString (lt_Type t) = Inr MTCP"
  shows "\<exists>ls. parse_listeners nid [t] =
    Inr (ls, [\<lparr>an_Type = MTCP, an_Endpoint = nid, an_Port = 18446744073709551615\<rparr>])"
  using assms by simp

theorem negative_port_announced_witness:
  "\<exists>ls. parse_listeners sample_eid [\<lparr>lt_Type = ''mtcp'', lt_Address = ''h:-1'', lt_Peer = [], lt_PeerID = []\<rparr>] =
    Inr (ls, [\<lparr>an_Type = MTCP, an_Endpoint = sample_eid, an_Port = 18446744073709551615\<rparr>])"
  by (rule negative_port_announced)
    (simp_all add: parseListenPort_def SplitHostPort_def LastIndexByte_def upt_rec Atoi_def ParseUint_def
      is_digit_def digit_value_def TypeFromString_def)

end
