(* ===== verification/Dummy.thy ===== *)
theory Dummy
  imports Cla_Manager
begin

text \<open>
  \<^verbatim>\<open>pkg/cla/dummy_cla\<close>: the adapter for tests. Two adapters of a pair share one channel without a buffer;
  each that is activated has a handler that takes from it. A send waits for some handler: a step of
  \<open>dummy_step\<close> is a send together with the handler that takes the bytes, or one call of another method.
\<close>

section \<open>An adapter\<close>

text \<open>\<open>du_channel\<close>: whether there is a channel at all.\<close>

record dummy_cla =
  du_ownID :: endpoint_id
  du_peerID :: endpoint_id
  du_channel :: bool
  du_active :: bool

definition NewSuperDummyCLA :: "endpoint_id \<Rightarrow> dummy_cla" where
  "NewSuperDummyCLA peerID = \<lparr>du_ownID = None, du_peerID = peerID, du_channel = False, du_active = False\<rparr>"

definition NewDummyCLAPair :: "endpoint_id \<Rightarrow> endpoint_id \<Rightarrow> dummy_cla \<times> dummy_cla" where
  "NewDummyCLAPair peerAID peerBID =
     (\<lparr>du_ownID = peerAID, du_peerID = peerBID, du_channel = True, du_active = False\<rparr>,
      \<lparr>du_ownID = peerBID, du_peerID = peerAID, du_channel = True, du_active = False\<rparr>)"

definition dummy_Address :: "dummy_cla \<Rightarrow> string" where
  "dummy_Address c = ''dummycla://'' @ eid_String (du_ownID c) @ ''/''"

definition dummy_conv :: "dummy_cla \<Rightarrow> convergence" where
  "dummy_conv c = \<lparr>cla_Address = dummy_Address c, cla_receives = True, cla_sends = True, cla_peer = du_peerID c\<rparr>"

text \<open>The bytes that wait for a handler, or the error; a closed channel panics.\<close>

definition dummy_Send :: "lib \<Rightarrow> dtn_bundle \<Rightarrow> dummy_cla \<Rightarrow> bool \<Rightarrow> bytes res" where
  "dummy_Send L b c closed =
     andThen (b_MarshalCbor L b) (\<lambda>(bbytes, _).
       if \<not> du_active c then Inl (Errorf ''shut down'')
       else if closed then Inl (Panic ''send on closed channel'')
       else Inr bbytes)"

text \<open>What a handler gives to the callback of the bytes it took; \<open>Inl\<close> is only logged.\<close>

definition dummy_handleReceive :: "lib \<Rightarrow> ebm \<Rightarrow> time \<Rightarrow> bytes \<Rightarrow> dtn_bundle res option" where
  "dummy_handleReceive L M now bbytes =
     map_option (\<lambda>r. andThen r (\<lambda>(b, errs). if errs = [] then Inr b else Inl (MultiErr errs))) (ParseBundle L M now bbytes)"

section \<open>A pair\<close>

text \<open>
  \<open>dp_peers\<close> has the two adapters, \<open>dp_handlers\<close> the number of handlers each of them runs, and \<open>dp_received\<close> the
  bytes that each handed on, in order.
\<close>

record dummy_pair =
  dp_peers :: "bool \<Rightarrow> dummy_cla"
  dp_closed :: bool
  dp_handlers :: "bool \<Rightarrow> nat"
  dp_received :: "(bool \<times> bytes) list"

definition dummy_Activate :: "bool \<Rightarrow> dummy_pair \<Rightarrow> dummy_pair" where
  "dummy_Activate i p = p\<lparr>dp_peers := (dp_peers p)(i := (dp_peers p i)\<lparr>du_active := True\<rparr>),
     dp_handlers := (dp_handlers p)(i := if dp_closed p then dp_handlers p i else dp_handlers p i + 1)\<rparr>"

text \<open>Closing ends every handler of the channel; closing it again panics.\<close>

definition dummy_Close :: "bool \<Rightarrow> dummy_pair \<Rightarrow> dummy_pair res" where
  "dummy_Close i p =
     (let active = du_active (dp_peers p i);
          q = p\<lparr>dp_peers := (dp_peers p)(i := (dp_peers p i)\<lparr>du_active := False\<rparr>)\<rparr>
      in if \<not> active then Inr q
         else if dp_closed p then Inl (Panic ''close of closed channel'')
         else Inr (q\<lparr>dp_closed := True, dp_handlers := (\<lambda>_. 0)\<rparr>))"

inductive dummy_step :: "lib \<Rightarrow> dummy_pair \<Rightarrow> dummy_pair \<Rightarrow> bool" for L where
  activate: "dummy_step L p (dummy_Activate i p)"
| send: "\<lbrakk>dummy_Send L b (dp_peers p i) (dp_closed p) = Inr bs; 0 < dp_handlers p j\<rbrakk> \<Longrightarrow>
    dummy_step L p (p\<lparr>dp_received := dp_received p @ [(j, bs)]\<rparr>)"
| close: "dummy_Close i p = Inr q \<Longrightarrow> dummy_step L p q"

inductive_cases dummy_stepE: "dummy_step L p q"

definition new_pair :: "endpoint_id \<Rightarrow> endpoint_id \<Rightarrow> dummy_pair" where
  "new_pair a b = \<lparr>dp_peers = (\<lambda>i. (if i then snd else fst) (NewDummyCLAPair a b)), dp_closed = False,
     dp_handlers = (\<lambda>_. 0), dp_received = []\<rparr>"

section \<open>The listener\<close>

record dummy_listener =
  dl_address :: string
  dl_running :: bool

definition NewDummyListener :: "string \<Rightarrow> dummy_listener" where
  "NewDummyListener address = \<lparr>dl_address = address, dl_running = False\<rparr>"

definition dl_Start :: "dummy_listener \<Rightarrow> dummy_listener" where
  "dl_Start l = l\<lparr>dl_running := True\<rparr>"

section \<open>Properties\<close>

text \<open>
  Also shown: in every run of a pair, what a handler takes is a marshalled bundle, and it reads that bundle from it, as long as
  the bundle is legal.
\<close>

lemma dummy_received_sent:
  assumes "(dummy_step L)\<^sup>*\<^sup>* (new_pair a b) p" and "(j, bs) \<in> set (dp_received p)"
  shows "\<exists>bndl b'. b_MarshalCbor L bndl = Inr (bs, b')"
  using assms
proof (induction arbitrary: j bs rule: rtranclp_induct)
  case base
  then show ?case by (simp add: new_pair_def)
next
  case (step p q)
  show ?case
    by (rule dummy_stepE[OF step.hyps(2)])
      (use step.IH step.prems in \<open>auto simp: dummy_Activate_def dummy_Send_def dummy_Close_def andThen_eq_Inr Let_def
        split: if_splits\<close>)
qed

theorem dummy_transfers:
  assumes "cboring L" and "wf_bundle M bndl" and "b_MarshalCbor L bndl = Inr (bs, b')" and "length bs < 2 ^ 64"
    and "b_CheckValid now bndl = Inr []"
  shows "dummy_handleReceive L M now bs = Some (Inr b') \<and> erase b' = erase bndl"
  using cboring.bundle_rw[OF assms(1,2,3,4), of now] b_MarshalCbor_erase[OF assms(3)] assms(5)
  by (simp add: dummy_handleReceive_def)

text \<open>
  Also shown: the channel has no direction: what one adapter of a pair sends, its own handler may take. And when both adapters are
  active, closing both panics.
\<close>

theorem dummy_receives_own:
  assumes "b_MarshalCbor L bndl = Inr (bs, b')"
  shows "\<exists>p. (dummy_step L)\<^sup>*\<^sup>* (new_pair a b) p \<and> dp_received p = [(False, bs)] \<and>
    dummy_Send L bndl (dp_peers p False) False = Inr bs"
proof -
  define p where "p = dummy_Activate False (new_pair a b)"
  have s: "dummy_Send L bndl (dp_peers p False) (dp_closed p) = Inr bs" "0 < dp_handlers p False" "\<not> dp_closed p"
    using assms by (simp_all add: p_def dummy_Activate_def new_pair_def NewDummyCLAPair_def dummy_Send_def)
  have "dummy_step L (new_pair a b) p" unfolding p_def by (rule dummy_step.activate)
  moreover have "dummy_step L p (p\<lparr>dp_received := dp_received p @ [(False, bs)]\<rparr>)"
    by (rule dummy_step.send[OF s(1,2)])
  moreover have "dp_received p = []" by (simp add: p_def dummy_Activate_def new_pair_def)
  ultimately show ?thesis using s by (intro exI[of _ "p\<lparr>dp_received := [(False, bs)]\<rparr>"]) auto
qed

theorem dummy_closed_twice:
  "\<exists>q msg. dummy_Close False (dummy_Activate True (dummy_Activate False (new_pair a b))) = Inr q \<and>
    dummy_Close True q = Inl (Panic msg)"
  by (simp add: dummy_Close_def dummy_Activate_def new_pair_def Let_def)

end
