(* ===== verification/Spec2Isabelle.thy ===== *)
theory Spec2Isabelle
  imports Network Journey Unix_Listener Json Accepted Signature Client Daemon Dummy Discovery Quicl Mtcp Meshtastic Fragmentation Routing Id_Keeper Cla_Manager Processing Admin_Record Builder Mailbox Agent_Manager Agents Node
begin

text \<open>
  A verification library for dtn7-go, an implementation of the Bundle Protocol version 7 (RFC 9171): a
  daemon that keeps bundles in a store, forwards them to neighbouring nodes over convergence layers as
  a routing algorithm decides, and exchanges them with local applications through agents.

  The parts and how they interact.
  A bundle comes from a convergence layer or from an application agent. \<^verbatim>\<open>pkg/processing\<close> inserts it into the
  store (\<^verbatim>\<open>pkg/store\<close>), which answers with a descriptor, gives the descriptor to every agent
  (\<^verbatim>\<open>pkg/application_agent\<close>), tells the routing algorithm (\<^verbatim>\<open>pkg/routing\<close>) and starts a forwarding. The
  forwarding sets constraints on the descriptor, asks the algorithm for peers among the senders of the
  CLA manager (\<^verbatim>\<open>pkg/cla\<close>), sends, and records who has the bundle. The store deletes a bundle when it
  has expired and no constraint retains it. Agents keep mailboxes of bundle IDs, load bundles from the
  store, and build new ones, to which the ID keeper (\<^verbatim>\<open>pkg/id_keeper\<close>) gives unique sequence numbers. The
  format of everything is in \<^verbatim>\<open>pkg/bpv7\<close>. The adapters of the CLA manager speak MTCP, QUIC or Meshtastic
  (\<^verbatim>\<open>pkg/cla/mtcp\<close>, \<^verbatim>\<open>quicl\<close>, \<^verbatim>\<open>meshtastic\<close>), and \<^verbatim>\<open>pkg/discovery\<close> makes them from the announcements of the
  neighbours. The daemon (\<^verbatim>\<open>cmd/dtnd\<close>) starts all of this from its configuration; the command-line client
  (\<^verbatim>\<open>cmd/dtnclient\<close>) is the other end of the UNIX agent.

  Theories and the files they model.
  \<^item> \<open>Prelude\<close>: words, errors (\<open>err\<close>, with panics as values), the result type \<open>res\<close>, readers that return a value
    and the rest of the input, and the collections \<open>res_simps\<close> and \<open>codec\<close>.
  \<^item> \<open>Go_Std\<close>: what is used of Go's standard library (decimal numbers, \<^verbatim>\<open>strings.Split\<close>, big-endian
    integers, \<^verbatim>\<open>sort.Sort\<close>, CRC-32C, SHA-256, the bound of \<^verbatim>\<open>make\<close>).
  \<^item> \<open>Cbor_Lib\<close>: the third-party package cboring as the record \<open>lib\<close> of its functions, with the laws the
    code relies on as the locale \<open>cboring\<close>, interpreted by the encoding of RFC 8949; \<open>cboring_stream\<close> adds that a
    read does not depend on what follows what it takes.
  \<^item> \<open>Crc\<close>, \<open>Dtn_Time\<close>, \<open>Flags\<close>, \<open>Endpoint\<close>, \<open>Bundle_Id\<close>, \<open>Extension\<close>, \<open>Canonical\<close>, \<open>Primary\<close>, \<open>Bundle\<close>,
    \<open>Fragmentation\<close>: the files of \<^verbatim>\<open>pkg/bpv7\<close> with these names (\<^verbatim>\<open>time.go\<close>, the two files of flags, the three of
    endpoints, the \<^verbatim>\<open>extension_block*.go\<close> and \<^verbatim>\<open>payload_block.go\<close>).
  \<^item> \<open>Admin_Record\<close>: \<^verbatim>\<open>administrative_record*.go\<close>. \<open>Builder\<close>: \<^verbatim>\<open>bundle_builder.go\<close>.
  \<^item> \<open>Descriptor\<close>, \<open>Store\<close>: \<^verbatim>\<open>pkg/store\<close>. A descriptor is a record in a heap, as descriptors are pointers that
    outlive their entry in the store's map; the badgerhold database is a record of functions with the
    contract locales \<open>metadata_db\<close> and \<open>reliable_db\<close>; files are a map of names to bytes.
  \<^item> \<open>Id_Keeper\<close>: \<^verbatim>\<open>pkg/id_keeper\<close>. \<open>Cla_Manager\<close>: \<^verbatim>\<open>pkg/cla/cla_manager.go\<close>, \<^verbatim>\<open>cla_types.go\<close> and
    \<^verbatim>\<open>convergence_layer.go\<close>. \<open>Routing\<close>: \<^verbatim>\<open>pkg/routing\<close>, with the interface of algorithms as the locale
    \<open>routing_algorithm\<close>, interpreted for epidemic routing and both spray and wait variants.
  \<^item> \<open>Processing\<close>: \<^verbatim>\<open>pkg/processing\<close>. \<open>Mailbox\<close>, \<open>Agent_Manager\<close>: \<^verbatim>\<open>pkg/application_agent\<close>, with the interface of
    agents as the locale \<open>agent_interface\<close>. \<open>Agents\<close>: \<^verbatim>\<open>unix_agent\<close> and \<^verbatim>\<open>rest_agent\<close>, which interpret it.
    \<open>Unix_Listener\<close>: the socket of the UNIX agent from \<^verbatim>\<open>Start\<close> to \<^verbatim>\<open>Shutdown\<close>, as steps of two goroutines.
  \<^item> \<open>Node\<close>: the manager with both agents, and reception from the store to the mailbox.
  \<^item> \<open>Validity\<close>: what serialising and forwarding do to the checks of a bundle. \<open>Network\<close>: two nodes and the MTCP
    connection between them. \<open>Accepted\<close>: \<^verbatim>\<open>bundle_parse_fuzz.go\<close>, and what holds of every bundle the parser accepts.
    \<open>Journey\<close>: a bundle over any number of hops.
  \<^item> \<open>Json\<close>: the JSON forms of \<^verbatim>\<open>pkg/bpv7\<close> and the replies of \<^verbatim>\<open>rest_agent/messages.go\<close>, as the trees that
    \<^verbatim>\<open>encoding/json\<close> prints.
  \<^item> \<open>Signature\<close>: \<^verbatim>\<open>extension_block_signature.go\<close>. \<open>Mtcp\<close>, \<open>Quicl\<close>, \<open>Meshtastic\<close>, \<open>Dummy\<close>: the packages of
    \<^verbatim>\<open>pkg/cla\<close>. A connection is a list of bytes written and a list of events or bytes to be read; a stream
    of Go is a list whose end is an error.
  \<^item> \<open>Discovery\<close>: \<^verbatim>\<open>pkg/discovery\<close>. \<open>Client\<close>: \<^verbatim>\<open>cmd/dtnclient/main.go\<close>, over the handlers of \<open>Agents\<close>.
    \<open>Daemon\<close>: \<^verbatim>\<open>cmd/dtnd/config.go\<close> and \<^verbatim>\<open>main.go\<close>, over the initialisers of the components.

  What the lemmas show.
  \<^item> Codecs: reading back what was written, with the rest of the input, for every format, up to whole bundles;
    the parser returns on every input; CRCs are verified; what happens on malformed input. What the parser
    accepts is well formed and can be written again, up to two named exceptions. The JSON form tells the bundle.
  \<^item> Fragmentation partitions the payload, and reassembly in any order undoes it.
  \<^item> Store: the invariant of map, heap, database and files over all runs on a working disk, including stops and restarts; inserted
    bundles stay loadable; descriptors refine a machine over sets of constraints; what is garbage collected.
  \<^item> Managers: uniqueness of stamps (while no bundle is created for a time that was cleaned), addresses and agent names as invariants over all interleavings of their atomic
    steps. Routing: selections are sound, the copies of spray and wait are conserved.
  \<^item> Processing: a forwarding completes and releases its constraints, is a run of its steps, records every transmission under any
    interleaving, and does not send again while forwardings do not overlap.
  \<^item> Agents: the mailboxes refine a map of maps; a received bundle reaches the mailbox and the client; built
    bundles are well formed; a client of the REST agent cannot send in the name of another endpoint. Once
    stopped, the accept loop of the UNIX agent ends, unless the stop comes while a deadline is being set.
  \<^item> Transports: the bundles whose sending succeeded arrive in order over MTCP, also when the client is closed, by any interleaving of complete packets over
    Meshtastic, and one to a stream over QUIC after a handshake in which, wherever the stream breaks, a side that succeeds
    knows the ID of the other; an MTCP client reports its disconnection once and no close of it panics. Announcements are read back, and a neighbour that
    is announced again changes nothing. A signature block verifies for the bundle it was made for.
  \<^item> Across components: forwarding keeps a valid bundle valid, and a bundle that one node took in crosses an MTCP
    connection to the store and the mailboxes of the next. Over any number of hops it keeps its ID, its payload and
    all blocks but the previous node block: the hop count and the bundle age never grow.
  \<^item> Client and daemon: what the client registers, creates and saves is what the agent and the store hold; the
    daemon starts with every component of a sound configuration and announces the ports it listens at.
  \<^item> A number of theorems show where the code does not do what it means to do: panics on input from the
    network or a client, 64-bit overflow of lifetimes, textual IDs that clash, lost or repeated bundles.

  Bounds and loops.
  A slice has fewer than \<open>2 ^ 63\<close> elements and a message fewer than \<open>2 ^ 64\<close> bytes; theorems that count in
  64-bit words have this as a hypothesis. Loops over lists are structural recursions; the search for a free
  block number and the parser of durations have measures. The loops that read blocks until a break
  code are \<^verbatim>\<open>partial_function (option)\<close>, whose value \<open>None\<close> would be a loop that never ends, and are shown to
  return. No fuel is used.

  Concurrency.
  The critical sections of a mutex are atomic steps. What a goroutine does outside of them is split at the
  lock boundaries into the steps of a relation (\<open>store_step\<close>, \<open>fwd_step\<close>, the events of \<open>Cla_Manager\<close>), and
  runs interleave them in any order. Data races in the sense of Go's memory model are not modelled.

  Parameters.
  The functions of cboring and its CRC-16, of badgerhold and of msgpack, ed25519, what a TCP, UDP, serial
  or QUIC connection delivers, the decoding of TOML and the parsing of command-line flags, the outcome of
  sending to a peer, of starting an adapter, an agent or a server and of writing a file, random numbers,
  the readings of the clock, the levels of the logger, and two operations on floating-point numbers.

  Not modelled.
  The TLS and QUIC settings (\<^verbatim>\<open>quicl/internal/util.go\<close>) and the dial options
  of MTCP, which only fill in structures of libraries; log output and the \<^verbatim>\<open>String\<close> methods that only serve it; the accepting of
  connections but for the loop of the UNIX agent, and the HTTP routing; the goroutines that only wait for a stop signal.
\<close>

end
